(* ===== verification/Prelude.thy ===== *)
theory Prelude
  imports Main "HOL-Library.List_Lexorder" "HOL-Library.Char_ord" "HOL-Library.Word"
begin

text \<open>
  Shared ground of the development: what the program uses of Go's standard library
  (strings, slices, time, 64-bit integers), the result type of a fallible step, and the
  lemmas and simp collections the component theories build on.

  A Go string is its list of bytes (\<open>string\<close>, one \<open>char\<close> per byte), ordered bytewise as
  Go and SQLite's BINARY collation order it. A slice is a list; nil and the empty slice
  are the same list, since the program only tells them apart when it encodes JSON and
  normalises there.
\<close>

named_theorems run_simps \<open>one-step equations of the state-passing operations\<close>
named_theorems norm_simps \<open>what normalising a list of ids keeps\<close>

type_synonym id = int

section \<open>Results\<close>

text \<open>A fallible call returns \<open>Inl\<close> of an error or \<open>Inr\<close> of its value.\<close>

definition is_ok :: "'e + 'a \<Rightarrow> bool" where
  "is_ok r = (case r of Inl _ \<Rightarrow> False | Inr _ \<Rightarrow> True)"

lemma is_ok_simps [simp]: "is_ok (Inr x)" "\<not> is_ok (Inl e)"
  by (simp_all add: is_ok_def)

lemma is_okE: assumes "is_ok r" obtains x where "r = Inr x"
  using assms by (cases r) auto

lemma not_is_okE: assumes "\<not> is_ok r" obtains e where "r = Inl e"
  using assms by (cases r) auto

text \<open>Go's \<open>if err != nil { return err }\<close> between two fallible steps.\<close>

definition res_bind :: "'e + 'a \<Rightarrow> ('a \<Rightarrow> 'e + 'b) \<Rightarrow> 'e + 'b" where
  "res_bind r f = (case r of Inl e \<Rightarrow> Inl e | Inr x \<Rightarrow> f x)"

lemma res_bind_simps [simp]: "res_bind (Inr x) f = f x" "res_bind (Inl e) f = Inl e"
  by (simp_all add: res_bind_def)

lemma res_bind_Inr [simp]: "res_bind r f = Inr y \<longleftrightarrow> (\<exists>x. r = Inr x \<and> f x = Inr y)"
  by (cases r) simp_all

lemma res_bind_Inl [simp]:
  "res_bind r f = Inl e \<longleftrightarrow> r = Inl e \<or> (\<exists>x. r = Inr x \<and> f x = Inl e)"
  by (cases r) simp_all

text \<open>A loop whose body can fail: it stops at the first error.\<close>

fun res_fold :: "('a \<Rightarrow> 's \<Rightarrow> 'e + 's) \<Rightarrow> 'a list \<Rightarrow> 's \<Rightarrow> 'e + 's" where
  "res_fold f [] s = Inr s"
| "res_fold f (x # xs) s = res_bind (f x s) (res_fold f xs)"

lemma res_fold_invariant:
  assumes "res_fold f xs s = Inr s'" "P s"
    "\<And>x s s'. x \<in> set xs \<Longrightarrow> P s \<Longrightarrow> f x s = Inr s' \<Longrightarrow> P s'"
  shows "P s'"
  using assms by (induction xs arbitrary: s) auto

text \<open>
  A step over shared state: it returns an error or a value, and the state it leaves either
  way. \<open>act_bind\<close> is the same early return between two such steps.
\<close>

type_synonym ('e, 'a, 's) act = "'s \<Rightarrow> ('e + 'a) \<times> 's"

definition act_ret :: "'a \<Rightarrow> ('e, 'a, 's) act" where "act_ret x s = (Inr x, s)"
definition act_fail :: "'e \<Rightarrow> ('e, 'a, 's) act" where "act_fail e s = (Inl e, s)"
definition act_lift :: "'e + 'a \<Rightarrow> ('e, 'a, 's) act" where "act_lift r s = (r, s)"

definition act_bind :: "('e, 'a, 's) act \<Rightarrow> ('a \<Rightarrow> ('e, 'b, 's) act) \<Rightarrow> ('e, 'b, 's) act" where
  "act_bind m f s = (case m s of (Inl e, s1) \<Rightarrow> (Inl e, s1) | (Inr x, s1) \<Rightarrow> f x s1)"

lemma act_simps [simp, run_simps]:
  "act_ret x s = (Inr x, s)" "act_fail e s = (Inl e, s)" "act_lift r s = (r, s)"
  by (simp_all add: act_ret_def act_fail_def act_lift_def)

lemma act_bind_Inr [simp]:
  "act_bind m f s = (Inr y, s') \<longleftrightarrow> (\<exists>x s1. m s = (Inr x, s1) \<and> f x s1 = (Inr y, s'))"
  by (auto simp: act_bind_def split: prod.splits sum.splits)

lemma act_bind_Inl [simp]:
  "act_bind m f s = (Inl e, s') \<longleftrightarrow>
     m s = (Inl e, s') \<or> (\<exists>x s1. m s = (Inr x, s1) \<and> f x s1 = (Inl e, s'))"
  by (auto simp: act_bind_def split: prod.splits sum.splits)

lemma act_bind_run [run_simps]:
  "m s = (Inr x, s1) \<Longrightarrow> act_bind m f s = f x s1" "m s = (Inl e, s1) \<Longrightarrow> act_bind m f s = (Inl e, s1)"
  by (simp_all add: act_bind_def)

text \<open>Maps that agree on what they hold are equal.\<close>

lemma map_ext_Some: "(\<And>k v. f k = Some v \<longleftrightarrow> g k = Some v) \<Longrightarrow> f = g"
proof
  fix k assume "\<And>k v. f k = Some v \<longleftrightarrow> g k = Some v"
  then show "f k = g k" by (cases "f k"; cases "g k") force+
qed

section \<open>Sorting and deduplication (package slices)\<close>

text \<open>
  \<open>slices.Sort\<close> followed by \<open>slices.Compact\<close>: the program's normal form of a list of ids.
\<close>

definition sort_compact :: "string list \<Rightarrow> string list" where
  "sort_compact xs = remdups_adj (sort xs)"

lemma sort_compact_set [simp, norm_simps]: "set (sort_compact xs) = set xs"
  by (simp add: sort_compact_def)

lemma remdups_adj_sorted_distinct: "sorted xs \<Longrightarrow> distinct (remdups_adj xs)"
  by (induction xs rule: remdups_adj.induct) (auto simp: order_antisym)

lemma sort_compact_distinct [simp, norm_simps]: "distinct (sort_compact xs)"
  by (simp add: sort_compact_def remdups_adj_sorted_distinct)

lemma sort_compact_sorted [simp, norm_simps]: "sorted (sort_compact xs)"
  by (simp add: sort_compact_def)

text \<open>The normal form depends on the set of ids alone.\<close>

lemma sort_compact_eq_iff: "sort_compact xs = sort_compact ys \<longleftrightarrow> set xs = set ys"
proof
  assume "sort_compact xs = sort_compact ys"
  then show "set xs = set ys" by (metis sort_compact_set)
next
  assume "set xs = set ys"
  then show "sort_compact xs = sort_compact ys"
    by (intro sorted_distinct_set_unique) simp_all
qed

lemma sort_compact_id: "sorted xs \<Longrightarrow> distinct xs \<Longrightarrow> sort_compact xs = xs"
  by (intro sorted_distinct_set_unique) simp_all

lemma sort_compact_idem [simp]: "sort_compact (sort_compact xs) = sort_compact xs"
  by (simp add: sort_compact_eq_iff)

lemma sort_compact_Nil [simp]: "sort_compact [] = []"
  by (simp add: sort_compact_def)

lemma sort_compact_eq_Nil [simp]: "sort_compact xs = [] \<longleftrightarrow> xs = []"
  by (metis set_empty sort_compact_set)

lemma sort_distinct_sort_compact: "distinct xs \<Longrightarrow> sort xs = sort_compact xs"
  by (intro sorted_distinct_set_unique) simp_all

text \<open>
  \<open>slices.BinarySearch\<close>: the standard library's loop over the half-open range \<open>[i, j)\<close>,
  then the test of the position it stops at.
\<close>

function bsearch_pos :: "string list \<Rightarrow> string \<Rightarrow> nat \<Rightarrow> nat \<Rightarrow> nat" where
  "bsearch_pos xs x i j =
     (if i < j
      then let h = (i + j) div 2
           in if xs ! h < x then bsearch_pos xs x (Suc h) j else bsearch_pos xs x i h
      else i)"
  by pat_completeness auto
termination
  by (relation "measure (\<lambda>(xs, x, i, j). j - i)") (auto simp: Let_def)

declare bsearch_pos.simps [simp del]

definition binary_search :: "string list \<Rightarrow> string \<Rightarrow> bool" where
  "binary_search xs x =
     (let i = bsearch_pos xs x 0 (length xs) in i < length xs \<and> xs ! i = x)"

lemma bsearch_pos_bounds:
  assumes "sorted xs" "i \<le> j" "j \<le> length xs"
    "\<forall>k < i. xs ! k < x" "\<forall>k < length xs. j \<le> k \<longrightarrow> x \<le> xs ! k"
  shows "let p = bsearch_pos xs x i j
         in p \<le> length xs \<and> (\<forall>k < p. xs ! k < x) \<and> (\<forall>k < length xs. p \<le> k \<longrightarrow> x \<le> xs ! k)"
  using assms
proof (induction xs x i j rule: bsearch_pos.induct)
  case (1 xs x i j)
  show ?case
  proof (cases "i < j")
    case True
    define h where "h = (i + j) div 2"
    have h: "i \<le> h" "h < j" using True by (auto simp: h_def)
    show ?thesis
    proof (cases "xs ! h < x")
      case lt: True
      have "\<forall>k < Suc h. xs ! k < x"
      proof (intro allI impI)
        fix k assume "k < Suc h"
        then have "xs ! k \<le> xs ! h"
          using 1(3,5) h by (intro sorted_nth_mono) auto
        then show "xs ! k < x" using lt by (rule le_less_trans)
      qed
      with 1(1)[OF True h_def lt] 1(3,5-) h
      have "let p = bsearch_pos xs x (Suc h) j
         in p \<le> length xs \<and> (\<forall>k < p. xs ! k < x) \<and> (\<forall>k < length xs. p \<le> k \<longrightarrow> x \<le> xs ! k)"
        by simp
      then show ?thesis
        using True lt by (simp add: bsearch_pos.simps [of xs x i j] Let_def h_def)
    next
      case ge: False
      have "\<forall>k < length xs. h \<le> k \<longrightarrow> x \<le> xs ! k"
      proof (intro allI impI)
        fix k assume "k < length xs" "h \<le> k"
        then have "xs ! h \<le> xs ! k"
          using 1(3) by (intro sorted_nth_mono) auto
        with ge show "x \<le> xs ! k" by simp
      qed
      with 1(2)[OF True h_def ge] 1(3,5-) h
      have "let p = bsearch_pos xs x i h
         in p \<le> length xs \<and> (\<forall>k < p. xs ! k < x) \<and> (\<forall>k < length xs. p \<le> k \<longrightarrow> x \<le> xs ! k)"
        by simp
      then show ?thesis
        using True ge by (simp add: bsearch_pos.simps [of xs x i j] Let_def h_def)
    qed
  next
    case False
    then have "bsearch_pos xs x i j = i" by (simp add: bsearch_pos.simps)
    then show ?thesis using 1(3-) False by (simp add: Let_def)
  qed
qed

lemma binary_search_sorted [simp]: "sorted xs \<Longrightarrow> binary_search xs x \<longleftrightarrow> x \<in> set xs"
proof -
  assume s: "sorted xs"
  define p where "p = bsearch_pos xs x 0 (length xs)"
  from bsearch_pos_bounds [OF s, of 0 "length xs" x]
  have p: "\<forall>k < p. xs ! k < x" "\<forall>k < length xs. p \<le> k \<longrightarrow> x \<le> xs ! k"
    by (simp_all add: p_def Let_def)
  show ?thesis
  proof
    assume "binary_search xs x"
    then show "x \<in> set xs" using nth_mem by (fastforce simp: binary_search_def Let_def)
  next
    assume "x \<in> set xs"
    then obtain k where k: "k < length xs" "xs ! k = x" by (auto simp: in_set_conv_nth)
    with p(1) have "p \<le> k" by (metis less_irrefl not_le)
    with k p(2) s have "x \<le> xs ! p" "xs ! p \<le> x" "p < length xs"
      by (auto intro: sorted_nth_mono)
    then show "binary_search xs x" by (simp add: binary_search_def p_def Let_def)
  qed
qed

section \<open>Strings (package strings)\<close>

text \<open>
  \<open>white_len s\<close> is the number of bytes of the Unicode white space rune (\<open>unicode.IsSpace\<close>)
  that \<open>s\<close> starts with, 0 when there is none: the six ASCII ones, U+0085, U+00A0, U+1680,
  U+2000 to U+200A, U+2028, U+2029, U+202F, U+205F and U+3000, in UTF-8.
\<close>

definition byte :: "nat \<Rightarrow> char" where
  "byte n = char_of n"

definition ascii_space :: "char \<Rightarrow> bool" where
  "ascii_space c = (let n = of_char c :: nat in n \<in> {9, 10, 11, 12, 13, 32})"

definition white2 :: "char \<Rightarrow> char \<Rightarrow> bool" where
  "white2 a b = ((of_char a :: nat) = 194 \<and> (of_char b :: nat) \<in> {133, 160})"

definition white3 :: "char \<Rightarrow> char \<Rightarrow> char \<Rightarrow> bool" where
  "white3 a b c =
     (let x = of_char a :: nat; y = of_char b :: nat; z = of_char c :: nat
      in (x = 225 \<and> y = 154 \<and> z = 128)
       \<or> (x = 226 \<and> y = 128 \<and> (128 \<le> z \<and> z \<le> 138 \<or> z \<in> {168, 169, 175}))
       \<or> (x = 226 \<and> y = 129 \<and> z = 159)
       \<or> (x = 227 \<and> y = 128 \<and> z = 128))"

fun trim_left :: "string \<Rightarrow> string" where
  "trim_left (a # b # c # s) =
     (if ascii_space a then trim_left (b # c # s)
      else if white2 a b then trim_left (c # s)
      else if white3 a b c then trim_left s
      else a # b # c # s)"
| "trim_left [a, b] =
     (if ascii_space a then trim_left [b] else if white2 a b then [] else [a, b])"
| "trim_left [a] = (if ascii_space a then [] else [a])"
| "trim_left [] = []"

text \<open>The same from the right end, on the reversed bytes.\<close>

fun trim_right_rev :: "string \<Rightarrow> string" where
  "trim_right_rev (c # b # a # s) =
     (if ascii_space c then trim_right_rev (b # a # s)
      else if white2 b c then trim_right_rev (a # s)
      else if white3 a b c then trim_right_rev s
      else c # b # a # s)"
| "trim_right_rev [b, a] =
     (if ascii_space b then trim_right_rev [a] else if white2 a b then [] else [b, a])"
| "trim_right_rev [a] = (if ascii_space a then [] else [a])"
| "trim_right_rev [] = []"

definition trim_space :: "string \<Rightarrow> string" where
  "trim_space s = rev (trim_right_rev (rev (trim_left s)))"

text \<open>
  ASCII case folding: what SQLite's NOCASE collation compares by, and \<open>strings.ToLower\<close>
  on the ASCII letters (the rest of Unicode's case table is not modelled: other bytes are
  kept).
\<close>

definition ascii_lower :: "char \<Rightarrow> char" where
  "ascii_lower c =
     (let n = of_char c :: nat in if 65 \<le> n \<and> n \<le> 90 then char_of (n + 32) else c)"

definition to_lower :: "string \<Rightarrow> string" where
  "to_lower s = map ascii_lower s"

text \<open>
  The loop that several decoders and the store share: trim each entry, drop the empty
  ones and the ones already seen, keep the order of first occurrence.
\<close>

fun trim_dedup :: "string list \<Rightarrow> string list \<Rightarrow> string list" where
  "trim_dedup seen [] = []"
| "trim_dedup seen (x # xs) =
     (let y = trim_space x
      in if y = [] \<or> y \<in> set seen then trim_dedup seen xs
         else y # trim_dedup (y # seen) xs)"

lemma trim_dedup_set:
  "set (trim_dedup seen xs) = trim_space ` set xs - {[]} - set seen"
  by (induction seen xs rule: trim_dedup.induct) (auto simp: Let_def)

lemma trim_dedup_distinct: "distinct (trim_dedup seen xs)"
  by (induction seen xs rule: trim_dedup.induct) (auto simp: Let_def trim_dedup_set)

section \<open>Integers and time\<close>

text \<open>
  An \<open>int64\<close> result: the two's complement reading of the low 64 bits. \<open>time.Duration\<close> is an
  \<open>int64\<close> of nanoseconds.
\<close>

definition i64 :: "int \<Rightarrow> int" where
  "i64 x = sint (word_of_int x :: 64 word)"

definition min_int64 :: int where "min_int64 = - 9223372036854775808"
definition max_int64 :: int where "max_int64 = 9223372036854775807"

lemma i64_id: "min_int64 \<le> x \<Longrightarrow> x \<le> max_int64 \<Longrightarrow> i64 x = x"
  by (simp add: i64_def min_int64_def max_int64_def signed_take_bit_int_eq_self_iff
        signed_take_bit_int_eq_self sint_sbintrunc')

lemma i64_range: "min_int64 \<le> i64 x \<and> i64 x \<le> max_int64"
  using sint_range_size [of "word_of_int x :: 64 word"]
  by (simp add: i64_def min_int64_def max_int64_def word_size)

definition second :: int where "second = 1000000000"
definition minute :: int where "minute = 60 * second"
definition hour :: int where "hour = 60 * minute"

text \<open>
  A \<open>time.Time\<close> is its instant in nanoseconds since the Unix epoch; \<open>time.Time{}\<close> is the
  first instant of the year 1. \<open>Unix()\<close> is the second the instant falls in.
\<close>

type_synonym time = int
type_synonym duration = int

definition zero_time :: time where "zero_time = - 62135596800 * 1000000000"

definition unix :: "time \<Rightarrow> int" where "unix t = t div second"
definition of_unix :: "int \<Rightarrow> time" where "of_unix s = s * second"

text \<open>\<open>Time.Sub\<close> saturates at the ends of the \<open>int64\<close> range.\<close>

definition time_sub :: "time \<Rightarrow> time \<Rightarrow> duration" where
  "time_sub t u = max min_int64 (min max_int64 (t - u))"

lemma unix_of_unix [simp]: "unix (of_unix s) = s"
  by (simp add: unix_def of_unix_def second_def)

lemma of_unix_unix_le: "of_unix (unix t) \<le> t" "t < of_unix (unix t) + second"
  by (simp_all add: unix_def of_unix_def second_def)

lemma unix_less_iff: "unix t < e \<longleftrightarrow> t < of_unix e"
proof -
  have "unix t * 1000000000 \<le> t" "t < unix t * 1000000000 + 1000000000"
    using of_unix_unix_le [of t] by (simp_all add: of_unix_def second_def)
  then show ?thesis unfolding of_unix_def second_def by linarith
qed

end
