(* ===== verification/Netip.thy ===== *)
theory Netip
  imports Prelude
begin

text \<open>
  What internal/adguard/devices.go and internal/api/clientip.go use of net and net/netip:
  parsing and printing IP addresses, prefixes and hardware addresses, and the canonical
  forms client ids are compared by.
\<close>

section \<open>Addresses (net/netip)\<close>

text \<open>An IPv4 address is its 32-bit number; an IPv6 one its eight 16-bit groups and its zone.\<close>

datatype addr = V4 nat | V6 "nat list" string

definition digit_val :: "char \<Rightarrow> nat option" where
  "digit_val c = (let n = of_char c :: nat in if 48 \<le> n \<and> n \<le> 57 then Some (n - 48) else None)"

definition hex_val :: "char \<Rightarrow> nat option" where
  "hex_val c =
     (let n = of_char c :: nat
      in if 48 \<le> n \<and> n \<le> 57 then Some (n - 48)
         else if 97 \<le> n \<and> n \<le> 102 then Some (n - 87)
         else if 65 \<le> n \<and> n \<le> 70 then Some (n - 55) else None)"

fun split_on :: "char \<Rightarrow> string \<Rightarrow> string list" where
  "split_on d [] = [[]]"
| "split_on d (c # s) =
     (if c = d then [] # split_on d s
      else case split_on d s of [] \<Rightarrow> [[c]] | p # ps \<Rightarrow> (c # p) # ps)"

definition number :: "nat \<Rightarrow> nat list \<Rightarrow> nat" where
  "number base ds = foldl (\<lambda>n d. n * base + d) 0 ds"

text \<open>One dotted field: digits, no leading zero, at most 255.\<close>

definition octet :: "string \<Rightarrow> nat option" where
  "octet s =
     (case those (map digit_val s) of
        None \<Rightarrow> None
      | Some ds \<Rightarrow> if ds = [] \<or> (length ds > 1 \<and> hd ds = 0) \<or> number 10 ds > 255 then None
                   else Some (number 10 ds))"

definition parseIPv4Fields :: "string \<Rightarrow> nat list option" where
  "parseIPv4Fields s =
     (let fs = split_on (CHR ''.'') s in if length fs \<noteq> 4 then None else those (map octet fs))"

text \<open>
  The loop of \<open>parseIPv6\<close>: \<open>n\<close> groups may still come, \<open>gs\<close> are the ones read, \<open>ell\<close> the index of
  the ellipsis. It returns the groups, the ellipsis and what it left unread.
\<close>

fun v6_loop :: "nat \<Rightarrow> nat list \<Rightarrow> nat option \<Rightarrow> string \<Rightarrow> (nat list \<times> nat option \<times> string) option" where
  "v6_loop 0 gs ell s = Some (gs, ell, s)"
| "v6_loop (Suc n) gs ell s =
     (let hex = takeWhile (\<lambda>c. hex_val c \<noteq> None) s; rest = dropWhile (\<lambda>c. hex_val c \<noteq> None) s
      in if hex = [] \<or> length hex > 4 then None
         else case rest of
           [] \<Rightarrow> Some (gs @ [number 16 (map (the \<circ> hex_val) hex)], ell, [])
         | c # r \<Rightarrow>
             if c = CHR ''.'' then
               (if (ell = None \<and> length gs \<noteq> 6) \<or> length gs > 6 then None
                else case parseIPv4Fields s of
                       Some [a, b, x, y] \<Rightarrow> Some (gs @ [a * 256 + b, x * 256 + y], ell, [])
                     | _ \<Rightarrow> None)
             else if c \<noteq> CHR '':'' \<or> r = [] then None
             else let gs' = gs @ [number 16 (map (the \<circ> hex_val) hex)]
                  in if hd r = CHR '':'' then
                       (if ell \<noteq> None then None
                        else if tl r = [] then Some (gs', Some (length gs'), [])
                        else v6_loop n gs' (Some (length gs')) (tl r))
                     else v6_loop n gs' ell r)"

definition expand :: "nat list \<Rightarrow> nat option \<Rightarrow> nat list option" where
  "expand gs ell =
     (if length gs < 8
      then (case ell of None \<Rightarrow> None
            | Some k \<Rightarrow> Some (take k gs @ replicate (8 - length gs) 0 @ drop k gs))
      else if ell \<noteq> None then None else Some gs)"

definition parseIPv6 :: "string \<Rightarrow> addr option" where
  "parseIPv6 s0 =
     (let s = takeWhile (\<lambda>c. c \<noteq> CHR ''%'') s0; z = dropWhile (\<lambda>c. c \<noteq> CHR ''%'') s0; zone = tl z
      in if z \<noteq> [] \<and> zone = [] then None
         else let lead = take 2 s = ''::''; body = (if lead then drop 2 s else s)
              in if lead \<and> body = [] then Some (V6 (replicate 8 0) zone)
                 else case v6_loop 8 [] (if lead then Some 0 else None) body of
                        None \<Rightarrow> None
                      | Some (gs, ell, rest) \<Rightarrow>
                          if rest \<noteq> [] then None
                          else map_option (\<lambda>g. V6 g zone) (expand gs ell))"

definition ParseAddr :: "string \<Rightarrow> addr option" where
  "ParseAddr s =
     (case find (\<lambda>c. c \<in> set ''.:%'') s of
        None \<Rightarrow> None
      | Some c \<Rightarrow>
          if c = CHR ''.'' then map_option (\<lambda>fs. V4 (number 256 fs)) (parseIPv4Fields s)
          else if c = CHR '':'' then parseIPv6 s else None)"

text \<open>\<open>Unmap\<close>: an IPv4-mapped IPv6 address becomes the IPv4 one, its zone dropped.\<close>

fun Unmap :: "addr \<Rightarrow> addr" where
  "Unmap (V4 n) = V4 n"
| "Unmap (V6 gs z) =
     (if length gs = 8 \<and> take 6 gs = [0, 0, 0, 0, 0, 65535] then V4 (gs ! 6 * 65536 + gs ! 7)
      else V6 gs z)"

subsection \<open>Printing\<close>

definition hex_char :: "nat \<Rightarrow> char" where
  "hex_char d = (if d < 10 then byte (d + 48) else byte (d + 87))"

fun show_base :: "nat \<Rightarrow> nat \<Rightarrow> nat \<Rightarrow> string" where
  "show_base 0 base n = []"
| "show_base (Suc k) base n =
     (if n < base then [hex_char n] else show_base k base (n div base) @ [hex_char (n mod base)])"

definition dotted :: "nat \<Rightarrow> string" where
  "dotted n = show_base 3 10 (n div 16777216) @ ''.'' @ show_base 3 10 (n div 65536 mod 256) @ ''.'' @
     show_base 3 10 (n div 256 mod 256) @ ''.'' @ show_base 3 10 (n mod 256)"

text \<open>The longest run of two or more zero groups, the first of equals.\<close>

definition zero_run :: "nat list \<Rightarrow> nat \<Rightarrow> nat" where
  "zero_run gs i = length (takeWhile (\<lambda>g. g = 0) (drop i gs))"

definition longest_run :: "nat list \<Rightarrow> nat \<times> nat" where
  "longest_run gs =
     foldl (\<lambda>(s, l) i. if zero_run gs i \<ge> 2 \<and> zero_run gs i > l then (i, zero_run gs i) else (s, l))
       (255, 0) [0..<8]"

fun colons :: "nat list \<Rightarrow> string" where
  "colons [] = []"
| "colons [g] = show_base 4 16 g"
| "colons (g # gs) = show_base 4 16 g @ '':'' @ colons gs"

definition show_v6 :: "nat list \<Rightarrow> string" where
  "show_v6 gs =
     (let (s, l) = longest_run gs
      in if l = 0 then colons gs else colons (take s gs) @ ''::'' @ colons (drop (s + l) gs))"

fun addr_String :: "addr \<Rightarrow> string" where
  "addr_String (V4 n) = dotted n"
| "addr_String (V6 gs z) =
     (if length gs = 8 \<and> take 6 gs = [0, 0, 0, 0, 0, 65535]
      then ''::ffff:'' @ dotted (gs ! 6 * 65536 + gs ! 7) else show_v6 gs) @
     (if z = [] then [] else ''%'' @ z)"

section \<open>Prefixes\<close>

fun addr_num :: "addr \<Rightarrow> nat" where
  "addr_num (V4 n) = n"
| "addr_num (V6 gs z) = number 65536 gs"

fun bitlen :: "addr \<Rightarrow> nat" where "bitlen (V4 n) = 32" | "bitlen (V6 gs z) = 128"

fun zone_of :: "addr \<Rightarrow> string" where "zone_of (V4 n) = []" | "zone_of (V6 gs z) = z"

text \<open>A prefix is its address (any of its own) and its length in bits.\<close>

type_synonym prefix = "addr \<times> nat"

definition parse_bits :: "string \<Rightarrow> nat option" where
  "parse_bits s =
     (case those (map digit_val s) of
        None \<Rightarrow> None
      | Some ds \<Rightarrow> if ds = [] \<or> (length ds > 1 \<and> hd ds = 0) then None else Some (number 10 ds))"

definition ParsePrefix :: "string \<Rightarrow> prefix option" where
  "ParsePrefix s =
     (let r = rev s; bits = rev (takeWhile (\<lambda>c. c \<noteq> CHR ''/'') r);
          ip = rev (tl (dropWhile (\<lambda>c. c \<noteq> CHR ''/'') r))
      in if CHR ''/'' \<notin> set s then None
         else case ParseAddr ip of
                None \<Rightarrow> None
              | Some a \<Rightarrow>
                  if zone_of a \<noteq> [] then None
                  else case parse_bits bits of
                         None \<Rightarrow> None
                       | Some n \<Rightarrow> if n > bitlen a then None else Some (a, n))"

definition Contains :: "prefix \<Rightarrow> addr \<Rightarrow> bool" where
  "Contains p a =
     (case p of (b, n) \<Rightarrow>
        bitlen a = bitlen b \<and> zone_of a = [] \<and>
        addr_num a div 2 ^ (bitlen b - n) = addr_num b div 2 ^ (bitlen b - n))"

text \<open>\<open>Addr.Compare\<close>: length in bits, then the number, then the zone.\<close>

definition addr_less :: "addr \<Rightarrow> addr \<Rightarrow> bool" where
  "addr_less a b \<longleftrightarrow>
     bitlen a < bitlen b \<or> (bitlen a = bitlen b \<and>
       (addr_num a < addr_num b \<or> (addr_num a = addr_num b \<and> zone_of a < zone_of b)))"

section \<open>Hardware addresses (net.ParseMAC)\<close>

definition hex_pairs :: "string \<Rightarrow> nat list option" where
  "hex_pairs s = those (map hex_val s)"

text \<open>The groups of a hardware address: each has \<open>k\<close> hex digits.\<close>

definition mac_groups :: "char \<Rightarrow> nat \<Rightarrow> string \<Rightarrow> nat list list option" where
  "mac_groups sep k s =
     (let gs = split_on sep s
      in if \<forall>g \<in> set gs. length g = k then those (map hex_pairs gs) else None)"

definition ParseMAC :: "string \<Rightarrow> nat list option" where
  "ParseMAC s =
     (if length s < 14 then None
      else let (sep, k) = (if s ! 2 = CHR '':'' \<or> s ! 2 = CHR ''-'' then (s ! 2, 2)
                           else if s ! 4 = CHR ''.'' then (CHR ''.'', 4) else (CHR ''.'', 0))
           in case (if k = 0 then None else mac_groups sep k s) of
                None \<Rightarrow> None
              | Some gs \<Rightarrow>
                  let ds = concat gs
                  in if length ds div 2 \<in> {6, 8, 20} then Some ds else None)"

text \<open>\<open>HardwareAddr.String\<close>, from the digits in order: pairs joined by colons.\<close>

fun mac_String :: "nat list \<Rightarrow> string" where
  "mac_String (a # b # c # ds) = [hex_char a, hex_char b, CHR '':''] @ mac_String (c # ds)"
| "mac_String [a, b] = [hex_char a, hex_char b]"
| "mac_String _ = []"

section \<open>Canonical client ids (internal/adguard/devices.go)\<close>

definition canonicalIP :: "string \<Rightarrow> string" where
  "canonicalIP s =
     (case ParseAddr (trim_space s) of Some a \<Rightarrow> addr_String (Unmap a) | None \<Rightarrow> s)"

definition canonicalMAC :: "string \<Rightarrow> string" where
  "canonicalMAC s =
     (case ParseMAC (trim_space s) of Some ds \<Rightarrow> mac_String ds | None \<Rightarrow> to_lower (trim_space s))"

text \<open>\<open>sameID\<close>: how AdGuard matches two ids of a client.\<close>

definition sameID :: "string \<Rightarrow> string \<Rightarrow> bool" where
  "sameID a b \<longleftrightarrow> canonicalIP a = canonicalIP b \<or> canonicalMAC a = canonicalMAC b"

lemma sameID_refl [simp]: "sameID a a"
  by (simp add: sameID_def)

lemma sameID_sym: "sameID a b \<longleftrightarrow> sameID b a"
  by (auto simp: sameID_def)

end
