(* ===== verification/NetStd.thy ===== *)
theory NetStd
  imports Netip
begin

text \<open>
  What internal/config and internal/api use of net, strconv and strings on addresses and numbers:
  networks with their masks, \<open>ParseCIDR\<close>, \<open>ParseIP\<close>, \<open>SplitHostPort\<close> and \<open>ParseInt\<close>.
\<close>

unbundle bit_operations_syntax

section \<open>Bytes of addresses\<close>

type_synonym octets = "nat list"

definition octets4 :: "nat \<Rightarrow> octets" where
  "octets4 n = [n div 16777216 mod 256, n div 65536 mod 256, n div 256 mod 256, n mod 256]"

definition v4_in_v6 :: octets where "v4_in_v6 = replicate 10 0 @ [255, 255]"

fun As16 :: "addr \<Rightarrow> octets" where
  "As16 (V4 n) = v4_in_v6 @ octets4 n"
| "As16 (V6 gs z) = concat (map (\<lambda>g. [g div 256, g mod 256]) gs)"

fun pair_up :: "octets \<Rightarrow> nat list" where
  "pair_up (a # b # bs) = (a * 256 + b) # pair_up bs"
| "pair_up _ = []"

definition AddrFromSlice :: "octets \<Rightarrow> addr option" where
  "AddrFromSlice bs =
     (if length bs = 4 then Some (V4 (number 256 bs))
      else if length bs = 16 then Some (V6 (pair_up bs) []) else None)"

definition Is4In6 :: "addr \<Rightarrow> bool" where
  "Is4In6 a = (case a of V4 _ \<Rightarrow> False | V6 gs _ \<Rightarrow> length gs = 8 \<and> take 6 gs = [0, 0, 0, 0, 0, 65535])"

fun WithoutZone :: "addr \<Rightarrow> addr" where
  "WithoutZone (V4 n) = V4 n"
| "WithoutZone (V6 gs z) = V6 gs []"

section \<open>Networks (net.IPNet)\<close>

record ip_net =
  in_ip :: octets
  in_mask :: octets

definition CIDRMask :: "nat \<Rightarrow> nat \<Rightarrow> octets" where
  "CIDRMask ones bits =
     map (\<lambda>i. if ones \<ge> 8 * (i + 1) then 255 else if ones \<le> 8 * i then 0 else 256 - 2 ^ (8 - (ones - 8 * i)))
       [0..<bits div 8]"

text \<open>\<open>IPMask.Size\<close>: ones and bits, both 0 when the ones are not a prefix.\<close>

definition mask_bits :: "octets \<Rightarrow> bool list" where
  "mask_bits m = concat (map (\<lambda>b. map (\<lambda>k. b div 2 ^ k mod 2 = 1) [7, 6, 5, 4, 3, 2, 1, 0]) m)"

definition mask_Size :: "octets \<Rightarrow> nat \<times> nat" where
  "mask_Size m =
     (let bs = mask_bits m
      in if True \<in> set (dropWhile id bs) then (0, 0) else (length (takeWhile id bs), length bs))"

definition ip_Mask :: "octets \<Rightarrow> octets \<Rightarrow> octets" where
  "ip_Mask ip0 mask0 =
     (let mask = (if length mask0 = 16 \<and> length ip0 = 4 \<and> take 12 mask0 = replicate 12 255 then drop 12 mask0 else mask0);
          ip = (if length mask = 4 \<and> length ip0 = 16 \<and> take 12 ip0 = v4_in_v6 then drop 12 ip0 else ip0)
      in if length ip \<noteq> length mask then [] else map2 (\<lambda>a b. a AND b) ip mask)"

text \<open>\<open>dtoi\<close>: the decimal number of a non-empty string of digits below 16777215.\<close>

definition dtoi :: "string \<Rightarrow> nat option" where
  "dtoi s =
     (case those (map digit_val s) of
        None \<Rightarrow> None
      | Some ds \<Rightarrow> if ds = [] \<or> number 10 ds \<ge> 16777215 then None else Some (number 10 ds))"

definition ParseIP :: "string \<Rightarrow> octets option" where
  "ParseIP s = (case ParseAddr s of None \<Rightarrow> None | Some a \<Rightarrow> if zone_of a \<noteq> [] then None else Some (As16 a))"

definition To4 :: "octets \<Rightarrow> octets option" where
  "To4 ip =
     (if length ip = 4 then Some ip
      else if length ip = 16 \<and> take 12 ip = v4_in_v6 then Some (drop 12 ip) else None)"

definition ParseCIDR :: "string \<Rightarrow> ip_net option" where
  "ParseCIDR s =
     (let a = takeWhile (\<lambda>c. c \<noteq> CHR ''/'') s; rest = dropWhile (\<lambda>c. c \<noteq> CHR ''/'') s
      in if rest = [] then None
         else case (ParseAddr a, dtoi (tl rest)) of
                (Some ip, Some n) \<Rightarrow>
                  if zone_of ip \<noteq> [] \<or> n > bitlen ip then None
                  else let m = CIDRMask n (bitlen ip) in Some \<lparr>in_ip = ip_Mask (As16 ip) m, in_mask = m\<rparr>
              | _ \<Rightarrow> None)"

section \<open>Hosts, ports and numbers\<close>

text \<open>The host of \<open>net.SplitHostPort\<close>; None is its error.\<close>

definition last_colon :: "string \<Rightarrow> nat option" where
  "last_colon s =
     (let k = length (takeWhile (\<lambda>c. c \<noteq> CHR '':'') (rev s)) in if k = length s then None else Some (length s - 1 - k))"

definition index_byte :: "char \<Rightarrow> string \<Rightarrow> nat option" where
  "index_byte c s = (let k = length (takeWhile (\<lambda>x. x \<noteq> c) s) in if k = length s then None else Some k)"

definition SplitHost :: "string \<Rightarrow> string option" where
  "SplitHost s =
     (case last_colon s of
        None \<Rightarrow> None
      | Some i \<Rightarrow>
          if s ! 0 = CHR ''['' then
            (case index_byte (CHR '']'') s of
               None \<Rightarrow> None
             | Some e \<Rightarrow>
                 if e + 1 \<noteq> i then None
                 else if CHR ''['' \<in> set (drop 1 s) \<or> CHR '']'' \<in> set (drop (e + 1) s) then None
                 else Some (drop 1 (take e s)))
          else if CHR '':'' \<in> set (take i s) then None
          else if CHR ''['' \<in> set s \<or> CHR '']'' \<in> set s then None
          else Some (take i s))"

text \<open>\<open>strconv.ParseInt(s, 10, 64)\<close>.\<close>

definition ParseInt :: "string \<Rightarrow> int option" where
  "ParseInt s =
     (let neg = (s \<noteq> [] \<and> hd s = CHR ''-'');
          body = (if s \<noteq> [] \<and> (hd s = CHR ''-'' \<or> hd s = CHR ''+'') then tl s else s)
      in case those (map digit_val body) of
           None \<Rightarrow> None
         | Some ds \<Rightarrow>
             if ds = [] then None
             else let n = (if neg then - int (number 10 ds) else int (number 10 ds))
                  in if min_int64 \<le> n \<and> n \<le> max_int64 then Some n else None)"

text \<open>\<open>strings.Join\<close> with a separator.\<close>

fun join :: "string \<Rightarrow> string list \<Rightarrow> string" where
  "join sep [] = []"
| "join sep [s] = s"
| "join sep (s # t # ss) = s @ sep @ join sep (t # ss)"

lemmas parse_v4_simps = ParseAddr_def parseIPv4Fields_def octet_def digit_val_def number_def

lemma ParseInt_range: "ParseInt s = Some n \<Longrightarrow> min_int64 \<le> n \<and> n \<le> max_int64"
  by (auto simp: ParseInt_def Let_def split: option.splits if_splits)

lemma split_on_nonempty [simp]: "split_on d s \<noteq> []"
  by (induction s) (auto split: list.splits)

lemma split_on_append: "split_on d (s @ d # t) = split_on d s @ split_on d t"
  by (induction s) (auto split: list.splits)

lemma split_on_join: "ss \<noteq> [] \<Longrightarrow> split_on d (join [d] ss) = concat (map (split_on d) ss)"
  by (induction "[d]" ss rule: join.induct) (simp_all add: split_on_append)

end
