(* ===== verification/Paths.thy ===== *)
theory Paths
  imports NetStd
begin

text \<open>
  What the program uses of path, path/filepath and strings on paths and names.
\<close>

section \<open>Cleaning\<close>

fun clean_segs :: "bool \<Rightarrow> string list \<Rightarrow> string list \<Rightarrow> string list" where
  "clean_segs rooted out [] = out"
| "clean_segs rooted out (s # ss) =
     (if s = [] \<or> s = ''.'' then clean_segs rooted out ss
      else if s = ''..'' then
        (if out \<noteq> [] \<and> last out \<noteq> ''..'' then clean_segs rooted (butlast out) ss
         else if rooted then clean_segs rooted out ss
         else clean_segs rooted (out @ [s]) ss)
      else clean_segs rooted (out @ [s]) ss)"

definition IsAbs :: "string \<Rightarrow> bool" where "IsAbs p \<longleftrightarrow> p \<noteq> [] \<and> hd p = CHR ''/''"

definition path_Clean :: "string \<Rightarrow> string" where
  "path_Clean p =
     (let segs = clean_segs (IsAbs p) [] (split_on (CHR ''/'') p)
      in if IsAbs p then ''/'' @ join ''/'' segs else if segs = [] then ''.'' else join ''/'' segs)"

definition path_Dir :: "string \<Rightarrow> string" where
  "path_Dir p = path_Clean (rev (dropWhile (\<lambda>c. c \<noteq> CHR ''/'') (rev p)))"

definition path_Join :: "string \<Rightarrow> string \<Rightarrow> string" where
  "path_Join a b =
     (let parts = filter (\<lambda>s. s \<noteq> []) [a, b] in if parts = [] then [] else path_Clean (join ''/'' parts))"

text \<open>\<open>path.Base\<close> and \<open>path.Ext\<close>.\<close>

definition path_Base :: "string \<Rightarrow> string" where
  "path_Base p =
     (if p = [] then ''.''
      else let q = rev (dropWhile (\<lambda>c. c = CHR ''/'') (rev p))
           in if q = [] then ''/'' else rev (takeWhile (\<lambda>c. c \<noteq> CHR ''/'') (rev q)))"

definition path_Ext :: "string \<Rightarrow> string" where
  "path_Ext p =
     (let seg = takeWhile (\<lambda>c. c \<noteq> CHR ''/'') (rev p); ext = takeWhile (\<lambda>c. c \<noteq> CHR ''.'') seg
      in if ext = seg then [] else CHR ''.'' # rev ext)"

section \<open>Prefixes and suffixes (strings)\<close>

definition HasPrefix :: "string \<Rightarrow> string \<Rightarrow> bool" where "HasPrefix s p \<longleftrightarrow> take (length p) s = p"
definition HasSuffix :: "string \<Rightarrow> string \<Rightarrow> bool" where "HasSuffix s p \<longleftrightarrow> HasPrefix (rev s) (rev p)"
definition TrimPrefix :: "string \<Rightarrow> string \<Rightarrow> string" where
  "TrimPrefix s p = (if HasPrefix s p then drop (length p) s else s)"

fun Contains_str :: "string \<Rightarrow> string \<Rightarrow> bool" where
  "Contains_str [] p = (p = [])"
| "Contains_str (c # s) p = (HasPrefix (c # s) p \<or> Contains_str s p)"

section \<open>A cleaned path\<close>

text \<open>A segment of a cleaned rooted path.\<close>

definition plain_seg :: "string \<Rightarrow> bool" where
  "plain_seg s \<longleftrightarrow> s \<noteq> [] \<and> s \<noteq> ''.'' \<and> s \<noteq> ''..'' \<and> CHR ''/'' \<notin> set s"

lemma split_on_free: "p \<in> set (split_on d s) \<Longrightarrow> d \<notin> set p"
proof (induction s arbitrary: p)
  case (Cons c s)
  then show ?case by (cases "split_on d s") (auto split: if_splits)
qed simp

lemma clean_segs_plain:
  "\<forall>s \<in> set out. plain_seg s \<Longrightarrow> \<forall>s \<in> set ss. CHR ''/'' \<notin> set s \<Longrightarrow> \<forall>s \<in> set (clean_segs True out ss). plain_seg s"
proof (induction ss arbitrary: out)
  case (Cons s ss)
  have step: "\<forall>s \<in> set (clean_segs True out' ss). plain_seg s" if "\<forall>s \<in> set out'. plain_seg s" for out'
    using Cons.IH [OF that] Cons.prems(2) by simp
  have short: "\<forall>s \<in> set (butlast out). plain_seg s" using Cons.prems(1) by (auto dest: in_set_butlastD)
  have longer: "\<forall>x \<in> set (out @ [s]). plain_seg x" if "plain_seg s" using Cons.prems(1) that by simp
  consider "s = [] \<or> s = ''.''" | "s = ''..''" | "plain_seg s" using Cons.prems(2) by (auto simp: plain_seg_def)
  then show ?case
  proof cases
    case 1
    with step [OF Cons.prems(1)] show ?thesis by auto
  next
    case 2
    with step [OF Cons.prems(1)] step [OF short] show ?thesis by simp
  next
    case 3
    then have "clean_segs True out (s # ss) = clean_segs True (out @ [s]) ss" by (simp add: plain_seg_def)
    with step [OF longer [OF 3]] show ?thesis by (simp only:)
  qed
qed simp

lemma Clean_rooted:
  obtains segs where "path_Clean (CHR ''/'' # p) = CHR ''/'' # join ''/'' segs" "\<forall>s \<in> set segs. plain_seg s"
proof
  let ?segs = "clean_segs True [] (split_on (CHR ''/'') (CHR ''/'' # p))"
  show "path_Clean (CHR ''/'' # p) = CHR ''/'' # join ''/'' ?segs" by (simp add: path_Clean_def IsAbs_def)
  show "\<forall>s \<in> set ?segs. plain_seg s" by (rule clean_segs_plain) (auto dest: split_on_free)
qed

lemma join_split: "\<forall>s \<in> set segs. CHR ''/'' \<notin> set s \<Longrightarrow> segs \<noteq> [] \<Longrightarrow> split_on (CHR ''/'') (join ''/'' segs) = segs"
proof -
  assume a: "\<forall>s \<in> set segs. CHR ''/'' \<notin> set s" "segs \<noteq> []"
  have one: "d \<notin> set s \<Longrightarrow> split_on d s = [s]" for d :: char and s by (induction s) auto
  have "concat (map (split_on (CHR ''/'')) segs) = concat (map (\<lambda>s. [s]) segs)"
    using a(1) one by (intro arg_cong [where f = concat] map_cong) auto
  also have "\<dots> = segs" by (induction segs) simp_all
  finally show ?thesis using split_on_join [OF a(2)] by metis
qed

end
