(* ===== verification/StoreMigrate.thy ===== *)
theory StoreMigrate
  imports Paths
begin

text \<open>
  internal/store/migrate.go and store.go: opening the database under data_dir and bringing its
  schema up to date. SQLite itself is outside the repository: \<open>exec\<close> is what running one script does
  to the database (None when it fails), \<open>create\<close> which files opening it makes. Every call into the
  driver or the file system can fail: \<open>k_faults\<close> scripts it, one entry per call, and the calls after
  its end succeed. \<open>k_times\<close> are the readings of the clock.
\<close>

section \<open>Model\<close>

text \<open>The table \<open>schema_migrations\<close>, None before it is created, and all the rest.\<close>

record 'd database =
  d_log :: "(string \<times> int) list option"
  d_content :: 'd

text \<open>A directory of scripts: its entries with whether they are directories, and their contents.\<close>

record dir =
  dir_list :: "(string \<times> bool) list option"
  dir_file :: "string \<Rightarrow> string option"

record 'd conn =
  k_db :: "'d database"
  k_modes :: "string \<Rightarrow> nat option"
  k_faults :: "bool list"
  k_times :: "nat \<Rightarrow> int"

datatype migrate_error =
    CreateLog | ReadLog | ListNames | ReadScript string | BeginFailed string | BodyFailed string
  | RecordFailed string | CommitFailed string

datatype open_error = NoDataDir | NoOpen | NoPing | NoChmod string | MigrateFailed migrate_error

definition drive :: "'e \<Rightarrow> ('e, unit, 'd conn) act" where
  "drive e k =
     (case k_faults k of [] \<Rightarrow> (Inr (), k) | f # fs \<Rightarrow> (if f then Inl e else Inr (), k\<lparr>k_faults := fs\<rparr>))"

definition log_of :: "'d database \<Rightarrow> (string \<times> int) list" where
  "log_of d = (case d_log d of None \<Rightarrow> [] | Some l \<Rightarrow> l)"

definition create_log :: "(migrate_error, unit, 'd conn) act" where
  "create_log = act_bind (drive CreateLog)
     (\<lambda>_ k. (Inr (), k\<lparr>k_db := (k_db k)\<lparr>d_log := Some (log_of (k_db k))\<rparr>\<rparr>))"

definition appliedMigrations :: "(migrate_error, string list, 'd conn) act" where
  "appliedMigrations = act_bind (drive ReadLog) (\<lambda>_ k. (Inr (map fst (log_of (k_db k))), k))"

definition migrationNames :: "dir \<Rightarrow> string list option" where
  "migrationNames fsys =
     map_option (\<lambda>es. sort (map fst (filter (\<lambda>(name, is_dir). \<not> (is_dir \<or> \<not> HasSuffix name ''.sql'')) es))) (dir_list fsys)"

text \<open>\<open>applyOne\<close>: whatever fails, the deferred rollback leaves the database as it was.\<close>

definition record_run :: "string \<Rightarrow> 'd \<Rightarrow> 'd conn \<Rightarrow> 'd conn" where
  "record_run name content k =
     k\<lparr>k_db := \<lparr>d_log = Some (log_of (k_db k) @ [(name, k_times k 0)]), d_content = content\<rparr>,
       k_times := (\<lambda>i. k_times k (Suc i))\<rparr>"

definition applyOne :: "(string \<Rightarrow> 'd \<Rightarrow> 'd option) \<Rightarrow> string \<Rightarrow> string \<Rightarrow> (migrate_error, unit, 'd conn) act" where
  "applyOne exec name body =
     act_bind (drive (BeginFailed name)) (\<lambda>_.
     act_bind (drive (BodyFailed name)) (\<lambda>_ k.
       case exec body (d_content (k_db k)) of
         None \<Rightarrow> (Inl (BodyFailed name), k)
       | Some content \<Rightarrow>
           act_bind (drive (RecordFailed name)) (\<lambda>_ k.
             if name \<in> fst ` set (log_of (k_db k)) then (Inl (RecordFailed name), k)
             else act_bind (drive (CommitFailed name)) (\<lambda>_ k. (Inr (), record_run name content k)) k) k))"

fun apply_new ::
  "(string \<Rightarrow> 'd \<Rightarrow> 'd option) \<Rightarrow> dir \<Rightarrow> string list \<Rightarrow> string list \<Rightarrow> (migrate_error, unit, 'd conn) act" where
  "apply_new exec fsys applied [] = act_ret ()"
| "apply_new exec fsys applied (name # names) =
     (if name \<in> set applied then apply_new exec fsys applied names
      else case dir_file fsys name of
             None \<Rightarrow> act_fail (ReadScript name)
           | Some body \<Rightarrow> act_bind (applyOne exec name body) (\<lambda>_. apply_new exec fsys applied names))"

definition migrate :: "(string \<Rightarrow> 'd \<Rightarrow> 'd option) \<Rightarrow> dir \<Rightarrow> (migrate_error, unit, 'd conn) act" where
  "migrate exec fsys =
     act_bind create_log (\<lambda>_.
     act_bind appliedMigrations (\<lambda>applied.
       case migrationNames fsys of
         None \<Rightarrow> act_fail ListNames
       | Some names \<Rightarrow> apply_new exec fsys applied names))"

text \<open>The scripts of the binary; their texts are an argument.\<close>

definition embeddedMigrations :: "(string \<Rightarrow> string) \<Rightarrow> dir" where
  "embeddedMigrations body =
     (let names = [''0001_sessions.sql'', ''0002_children.sql'', ''0003_grants.sql'', ''0004_buttons.sql'',
                   ''0005_shared_clients.sql'', ''0006_button_icon.sql'']
      in \<lparr>dir_list = Some (map (\<lambda>n. (n, False)) names), dir_file = (\<lambda>n. if n \<in> set names then Some (body n) else None)\<rparr>)"

text \<open>\<open>Migrations\<close>; None is its panic.\<close>

definition Migrations :: "(string \<Rightarrow> string) \<Rightarrow> string list option" where
  "Migrations body = migrationNames (embeddedMigrations body)"

definition FileName :: string where "FileName = ''adguard-reward.db''"

text \<open>\<open>dsn\<close>, with \<open>url.Values.Encode\<close> for its one key; the path itself is not escaped.\<close>

definition QueryEscape :: "string \<Rightarrow> string" where
  "QueryEscape s = concat (map (\<lambda>c.
     let n = (of_char c :: nat)
     in if n \<in> {48..57} \<or> n \<in> {65..90} \<or> n \<in> {97..122} \<or> c \<in> set ''-_.~'' then [c]
        else if c = CHR '' '' then ''+''
        else [CHR ''%'', ''0123456789ABCDEF'' ! (n div 16), ''0123456789ABCDEF'' ! (n mod 16)]) s)"

definition dsn_pragmas :: "string list" where
  "dsn_pragmas = [''journal_mode(WAL)'', ''busy_timeout(5000)'', ''foreign_keys(ON)'', ''synchronous(NORMAL)'']"

definition dsn :: "string \<Rightarrow> string" where
  "dsn path = ''file:'' @ path @ ''?'' @ join ''&'' (map (\<lambda>v. QueryEscape ''_pragma'' @ ''='' @ QueryEscape v) dsn_pragmas)"

text \<open>\<open>restrictPerms\<close>: owner only, for each of the three files that exists.\<close>

definition owner_only :: nat where "owner_only = 6 * 64"

definition chmod :: "string \<Rightarrow> (open_error, unit, 'd conn) act" where
  "chmod p = act_bind (drive (NoChmod p)) (\<lambda>_ k.
     (Inr (), if k_modes k p = None then k else k\<lparr>k_modes := (k_modes k)(p \<mapsto> owner_only)\<rparr>))"

fun chmod_all :: "string list \<Rightarrow> (open_error, unit, 'd conn) act" where
  "chmod_all [] = act_ret ()"
| "chmod_all (p # ps) = act_bind (chmod p) (\<lambda>_. chmod_all ps)"

definition db_files :: "string \<Rightarrow> string list" where "db_files path = [path, path @ ''-wal'', path @ ''-shm'']"

definition restrictPerms :: "string \<Rightarrow> (open_error, unit, 'd conn) act" where
  "restrictPerms path = chmod_all (db_files path)"

definition lift_migrate :: "(migrate_error, 'a, 's) act \<Rightarrow> (open_error, 'a, 's) act" where
  "lift_migrate m s = (case m s of (Inl e, s1) \<Rightarrow> (Inl (MigrateFailed e), s1) | (Inr x, s1) \<Rightarrow> (Inr x, s1))"

type_synonym 'd sqlite = "(string \<Rightarrow> 'd \<Rightarrow> 'd option) \<times> ((string \<Rightarrow> nat option) \<Rightarrow> string \<Rightarrow> nat option)"

definition db_path :: "string \<Rightarrow> string" where "db_path dataDir = path_Join dataDir FileName"

definition openWith :: "'d sqlite \<Rightarrow> string \<Rightarrow> dir \<Rightarrow> (open_error, string, 'd conn) act" where
  "openWith sqlite dataDir fsys =
     (case sqlite of (exec, create) \<Rightarrow>
        act_bind (drive NoDataDir) (\<lambda>_.
        act_bind (drive NoOpen) (\<lambda>_.
        act_bind (drive NoPing) (\<lambda>_ k.
        act_bind (restrictPerms (db_path dataDir)) (\<lambda>_.
        act_bind (lift_migrate (migrate exec fsys)) (\<lambda>_. act_ret (db_path dataDir)))
          (k\<lparr>k_modes := create (k_modes k)\<rparr>)))))"

definition Open :: "'d sqlite \<Rightarrow> (string \<Rightarrow> string) \<Rightarrow> string \<Rightarrow> (open_error, string, 'd conn) act" where
  "Open sqlite body dataDir = openWith sqlite dataDir (embeddedMigrations body)"

section \<open>Which file the driver opens\<close>

text \<open>
  A URI names the file up to its query or fragment: the file that \<open>restrictPerms\<close> goes on to make
  private is the one SQLite opens only when data_dir holds neither of the two characters.
\<close>

definition uri_file :: "string \<Rightarrow> string" where
  "uri_file uri = takeWhile (\<lambda>c. c \<noteq> CHR ''?'' \<and> c \<noteq> CHR ''#'') (TrimPrefix uri ''file:'')"

lemma dsn_file: "uri_file (dsn path) = path \<longleftrightarrow> CHR ''?'' \<notin> set path \<and> CHR ''#'' \<notin> set path"
proof -
  have "takeWhile (\<lambda>c. c \<noteq> CHR ''?'' \<and> c \<noteq> CHR ''#'') (path @ CHR ''?'' # rest) =
      takeWhile (\<lambda>c. c \<noteq> CHR ''?'' \<and> c \<noteq> CHR ''#'') path" for rest
    by (induction path) simp_all
  moreover have "uri_file (dsn path) = takeWhile (\<lambda>c. c \<noteq> CHR ''?'' \<and> c \<noteq> CHR ''#'') (path @ CHR ''?'' #
      join ''&'' (map (\<lambda>v. QueryEscape ''_pragma'' @ ''='' @ QueryEscape v) dsn_pragmas))"
    by (simp add: uri_file_def dsn_def TrimPrefix_def HasPrefix_def)
  ultimately show ?thesis by (auto simp: takeWhile_eq_all_conv)
qed

lemma dsn_example: "dsn ''d/adguard-reward.db'' = ''file:d/adguard-reward.db?_pragma=journal_mode%28WAL%29&_pragma=busy_timeout%285000%29&'' @
    ''_pragma=foreign_keys%28ON%29&_pragma=synchronous%28NORMAL%29''"
  by code_simp

section \<open>What one call does\<close>

lemma drive_keeps:
  "drive e k = (r, k') \<Longrightarrow> k_db k' = k_db k \<and> k_modes k' = k_modes k \<and> (k_faults k = [] \<longrightarrow> r = Inr () \<and> k' = k)"
  by (auto simp: drive_def split: list.splits)

lemma drive_idle [simp]: "k_faults k = [] \<Longrightarrow> drive e k = (Inr (), k)"
  by (simp add: drive_def)

text \<open>The content after running files in order, and the database they leave.\<close>

fun replay :: "(string \<Rightarrow> 'd \<Rightarrow> 'd option) \<Rightarrow> dir \<Rightarrow> string list \<Rightarrow> 'd \<Rightarrow> 'd option" where
  "replay exec fsys [] c = Some c"
| "replay exec fsys (n # ns) c =
     Option.bind (dir_file fsys n) (\<lambda>body. Option.bind (exec body c) (replay exec fsys ns))"

definition after_files :: "(string \<Rightarrow> 'd \<Rightarrow> 'd option) \<Rightarrow> dir \<Rightarrow> 'd \<Rightarrow> string list \<Rightarrow> 'd conn \<Rightarrow> bool" where
  "after_files exec fsys c0 ns k \<longleftrightarrow>
     map fst (log_of (k_db k)) = ns \<and> replay exec fsys ns c0 = Some (d_content (k_db k))"

lemma replay_append: "replay exec fsys (ms @ ns) c = Option.bind (replay exec fsys ms c) (replay exec fsys ns)"
  by (induction ms arbitrary: c) (auto simp: bind_eq_None_conv split: bind_splits)

lemma after_files_db: "k_db k' = k_db k \<Longrightarrow> after_files exec fsys c0 ns k' = after_files exec fsys c0 ns k"
  by (simp add: after_files_def)

lemma record_run_simps [simp]:
  "map fst (log_of (k_db (record_run name c k))) = map fst (log_of (k_db k)) @ [name]"
  "d_content (k_db (record_run name c k)) = c" "k_modes (record_run name c k) = k_modes k"
  "k_faults (record_run name c k) = k_faults k"
  by (simp_all add: record_run_def log_of_def)

lemma bind_drive:
  assumes "act_bind (drive e) f k = (r, k')"
  obtains (failed) "\<not> is_ok r" "k_db k' = k_db k" "k_modes k' = k_modes k"
    | (went_on) k1 where "k_db k1 = k_db k" "k_modes k1 = k_modes k" "f () k1 = (r, k')"
  using assms by (cases "drive e k"; cases "fst (drive e k)") (auto simp: act_bind_def dest: drive_keeps)

lemma applyOne_out:
  assumes "applyOne exec name body k = (r, k')"
  obtains (failed) "\<not> is_ok r" "k_db k' = k_db k" "k_modes k' = k_modes k"
    | (applied) c k1 where "r = Inr ()" "exec body (d_content (k_db k)) = Some c" "k_db k1 = k_db k" "k_modes k1 = k_modes k"
        "k' = record_run name c k1"
  using assms unfolding applyOne_def
proof (rule bind_drive)
  fix k1 assume 1: "k_db k1 = k_db k" "k_modes k1 = k_modes k"
    "act_bind (drive (BodyFailed name)) (\<lambda>_ k.
       case exec body (d_content (k_db k)) of
         None \<Rightarrow> (Inl (BodyFailed name), k)
       | Some content \<Rightarrow>
           act_bind (drive (RecordFailed name)) (\<lambda>_ k.
             if name \<in> fst ` set (log_of (k_db k)) then (Inl (RecordFailed name), k)
             else act_bind (drive (CommitFailed name)) (\<lambda>_ k. (Inr (), record_run name content k)) k) k) k1 = (r, k')"
  from 1(3) show thesis
  proof (cases rule: bind_drive)
    case (went_on k2)
    show thesis
    proof (cases "exec body (d_content (k_db k2))")
      case None
      with went_on 1 failed show thesis by auto
    next
      case (Some c)
      with went_on(3) have "act_bind (drive (RecordFailed name)) (\<lambda>_ k.
             if name \<in> fst ` set (log_of (k_db k)) then (Inl (RecordFailed name), k)
             else act_bind (drive (CommitFailed name)) (\<lambda>_ k. (Inr (), record_run name c k)) k) k2 = (r, k')" by simp
      then show thesis
      proof (cases rule: bind_drive)
        case recorded: (went_on k3)
        show thesis
        proof (cases "name \<in> fst ` set (log_of (k_db k3))")
          case True
          with recorded went_on 1 failed show thesis by auto
        next
          case False
          with recorded(3) have "act_bind (drive (CommitFailed name)) (\<lambda>_ k. (Inr (), record_run name c k)) k3 = (r, k')"
            by simp
          then show thesis by (cases rule: bind_drive) (use recorded went_on 1 Some failed applied in auto)
        qed
      qed (use went_on 1 failed in auto)
    qed
  qed (use 1 failed in auto)
qed (use failed in auto)

lemma applyOne_runs:
  assumes "k_faults k = []" "exec body (d_content (k_db k)) = Some c" "name \<notin> fst ` set (log_of (k_db k))"
  shows "applyOne exec name body k = (Inr (), record_run name c k)"
  using assms by (simp add: applyOne_def act_bind_def)

section \<open>The loop\<close>

lemma apply_new_skip: "set ms \<subseteq> set applied \<Longrightarrow> apply_new exec fsys applied (ms @ ns) = apply_new exec fsys applied ns"
  by (induction ms) auto

lemma apply_new_out:
  assumes "apply_new exec fsys applied names k = (r, k')" "set names \<inter> set applied = {}" "after_files exec fsys c0 past k"
  shows "\<exists>pre post. names = pre @ post \<and> after_files exec fsys c0 (past @ pre) k' \<and> (is_ok r \<longrightarrow> post = []) \<and> k_modes k' = k_modes k"
  using assms
proof (induction names arbitrary: k past)
  case (Cons n ns)
  show ?case
  proof (cases "dir_file fsys n")
    case None
    with Cons.prems show ?thesis by (intro exI [of _ "[]"] exI [of _ "n # ns"]) auto
  next
    case (Some body)
    obtain r1 k1 where one: "applyOne exec n body k = (r1, k1)" by fastforce
    from one show ?thesis
    proof (cases rule: applyOne_out)
      case f: failed
      from f(1) obtain e where "r1 = Inl e" by (rule not_is_okE)
      with Cons.prems(1,2) Some one have "k' = k1" "\<not> is_ok r" by (auto simp: act_bind_def)
      with f Cons.prems(3) show ?thesis
        by (intro exI [of _ "[]"] exI [of _ "n # ns"]) (simp add: after_files_db [OF f(2)] f(3))
    next
      case g: (applied c k0)
      have "after_files exec fsys c0 (past @ [n]) k1"
        using Cons.prems(3) Some g by (simp add: after_files_def replay_append)
      moreover have "apply_new exec fsys applied ns k1 = (r, k')" using Cons.prems(1,2) Some one g(1) by (simp add: act_bind_def)
      ultimately obtain pre post where "ns = pre @ post" "after_files exec fsys c0 ((past @ [n]) @ pre) k'" "is_ok r \<longrightarrow> post = []"
        "k_modes k' = k_modes k1"
        using Cons.IH Cons.prems(2) by (metis disjoint_iff list.set_intros(2))
      with g(4,5) show ?thesis by (intro exI [of _ "n # pre"] exI [of _ post]) simp
    qed
  qed
qed (auto intro: exI [of _ "[]"])

lemma apply_new_runs:
  assumes "k_faults k = []" "replay exec fsys names (d_content (k_db k)) \<noteq> None" "set names \<inter> set applied = {}"
    "distinct (map fst (log_of (k_db k)) @ names)"
  shows "fst (apply_new exec fsys applied names k) = Inr ()"
  using assms
proof (induction names arbitrary: k)
  case (Cons n ns)
  from Cons.prems(2) obtain body c where b: "dir_file fsys n = Some body" "exec body (d_content (k_db k)) = Some c"
    "replay exec fsys ns c \<noteq> None" by (auto simp: bind_eq_Some_conv)
  have "n \<notin> fst ` set (log_of (k_db k))" using Cons.prems(4) by auto
  from applyOne_runs [of k exec body c n, OF Cons.prems(1) b(2) this] have
    "apply_new exec fsys applied (n # ns) k = apply_new exec fsys applied ns (record_run n c k)"
    using Cons.prems(3) b(1) by (simp add: act_bind_def)
  moreover have "fst (apply_new exec fsys applied ns (record_run n c k)) = Inr ()"
    using Cons.prems b(3) by (intro Cons.IH) auto
  ultimately show ?case by (simp only:)
qed simp

end
