(* ===== verification/StoreOpen.thy ===== *)
theory StoreOpen
  imports StoreMigrate
begin

text \<open>
  What opening the database promises: however often starting was cut short before, a start that
  succeeds has run every script exactly once, in order.
\<close>

section \<open>One start\<close>

lemma create_log_keeps [simp]:
  "after_files exec fsys c0 ns (k\<lparr>k_db := (k_db k)\<lparr>d_log := Some (log_of (k_db k))\<rparr>\<rparr>) = after_files exec fsys c0 ns k"
  by (simp add: after_files_def log_of_def)

lemma create_log_out:
  assumes "create_log k = (r, k')" "after_files exec fsys c0 ns k"
  shows "after_files exec fsys c0 ns k' \<and> k_modes k' = k_modes k"
  using assms unfolding create_log_def
  by (cases rule: bind_drive [OF assms(1) [unfolded create_log_def]])
    (use after_files_db [of k' k exec fsys c0 ns] in \<open>auto simp: after_files_def log_of_def\<close>)

lemma migrate_out:
  assumes "migrate exec fsys k = (r, k')" "migrationNames fsys = Some names" "distinct names"
    "after_files exec fsys c0 (take j names) k"
  shows "\<exists>j'. j \<le> j' \<and> after_files exec fsys c0 (take j' names) k' \<and> (is_ok r \<longrightarrow> take j' names = names) \<and> k_modes k' = k_modes k"
proof -
  obtain r1 k1 where c: "create_log k = (r1, k1)" by fastforce
  note af1 = create_log_out [OF c assms(4)]
  show ?thesis
  proof (cases r1)
    case (Inl e)
    with assms(1) c have "r = Inl e" "k' = k1" by (simp_all add: migrate_def act_bind_def)
    with af1 show ?thesis by (intro exI [of _ j]) simp
  next
    case (Inr u)
    obtain r2 k2 where ap: "appliedMigrations k1 = (r2, k2)" by fastforce
    have k2: "k_db k2 = k_db k1" "k_modes k2 = k_modes k1" "\<And>x. r2 = Inr x \<Longrightarrow> x = take j names"
      using ap af1 unfolding appliedMigrations_def
      by (cases rule: bind_drive [OF ap [unfolded appliedMigrations_def]]; auto simp: after_files_def)+
    have af2: "after_files exec fsys c0 (take j names) k2" using af1 after_files_db [OF k2(1)] by simp
    show ?thesis
    proof (cases r2)
      case (Inl e)
      with assms(1) c Inr ap have "r = Inl e" "k' = k2" by (simp_all add: migrate_def act_bind_def)
      with af2 af1 k2(2) show ?thesis by (intro exI [of _ j]) simp
    next
      case r2: (Inr applied)
      with k2(3) have applied: "applied = take j names" by simp
      have "apply_new exec fsys applied names k2 = (r, k')"
        using assms(1,2) c Inr ap r2 by (simp add: migrate_def act_bind_def)
      then have "apply_new exec fsys (take j names) (drop j names) k2 = (r, k')"
        using apply_new_skip [of "take j names" "take j names" exec fsys "drop j names"] applied by simp
      from apply_new_out [OF this _ af2] obtain pre post where
        pp: "drop j names = pre @ post" "after_files exec fsys c0 (take j names @ pre) k'" "is_ok r \<longrightarrow> post = []" "k_modes k' = k_modes k2"
        using assms(3) by (metis set_take_disj_set_drop_if_distinct inf_commute le_refl)
      have "take (j + length pre) names = take j names @ pre" using pp(1) by (simp add: take_add)
      with pp af1 k2(2) show ?thesis
        by (intro exI [of _ "j + length pre"]) (use append_take_drop_id [of j names] in auto)
    qed
  qed
qed

lemma migrate_runs:
  assumes "k_faults k = []" "migrationNames fsys = Some names" "distinct names" "replay exec fsys names c0 \<noteq> None"
    "after_files exec fsys c0 (take j names) k"
  shows "fst (migrate exec fsys k) = Inr ()"
proof -
  let ?k = "k\<lparr>k_db := (k_db k)\<lparr>d_log := Some (log_of (k_db k))\<rparr>\<rparr>"
  have log: "map fst (log_of (k_db ?k)) = take j names" using assms(5) by (simp add: after_files_def log_of_def)
  have "migrate exec fsys k = apply_new exec fsys (take j names) (take j names @ drop j names) ?k"
    using assms(1,2) log by (simp add: migrate_def create_log_def appliedMigrations_def act_bind_def)
  also have "\<dots> = apply_new exec fsys (take j names) (drop j names) ?k"
    by (simp only: apply_new_skip [OF subset_refl])
  finally have m: "migrate exec fsys k = apply_new exec fsys (take j names) (drop j names) ?k" .
  have "replay exec fsys (take j names @ drop j names) c0 \<noteq> None" using assms(4) by simp
  then have "replay exec fsys (drop j names) (d_content (k_db ?k)) \<noteq> None"
    using assms(5) unfolding replay_append by (simp add: after_files_def)
  moreover have "set (drop j names) \<inter> set (take j names) = {}"
    using assms(3) by (metis set_take_disj_set_drop_if_distinct inf_commute le_refl)
  ultimately show ?thesis unfolding m
    using assms(1,3) log by (intro apply_new_runs) simp_all
qed

text \<open>A file is absent, or its owner's alone.\<close>

definition private_file :: "'d conn \<Rightarrow> string \<Rightarrow> bool" where
  "private_file k p \<longleftrightarrow> k_modes k p = None \<or> k_modes k p = Some owner_only"

lemma chmod_out:
  assumes "chmod p k = (r, k')"
  shows "k_db k' = k_db k \<and> (k_faults k = [] \<longrightarrow> r = Inr () \<and> k_faults k' = []) \<and> (is_ok r \<longrightarrow> private_file k' p) \<and>
    (\<forall>q. private_file k q \<longrightarrow> private_file k' q)"
proof -
  obtain d k0 where d: "drive (NoChmod p) k = (d, k0)" by fastforce
  show ?thesis
  proof (cases d)
    case (Inl e)
    with assms d have "r = Inl e" "k' = k0" by (simp_all add: chmod_def act_bind_def)
    with drive_keeps [OF d] Inl show ?thesis by (simp add: private_file_def)
  next
    case (Inr u)
    with assms d have "r = Inr ()" "k' = (if k_modes k0 p = None then k0 else k0\<lparr>k_modes := (k_modes k0)(p \<mapsto> owner_only)\<rparr>)"
      by (simp_all add: chmod_def act_bind_def)
    with drive_keeps [OF d] show ?thesis by (cases "k_modes k0 p = None") (simp_all add: private_file_def)
  qed
qed

lemma chmod_all_out:
  assumes "chmod_all ps k = (r, k')"
  shows "k_db k' = k_db k \<and> (k_faults k = [] \<longrightarrow> r = Inr () \<and> k_faults k' = []) \<and>
    (is_ok r \<longrightarrow> (\<forall>p \<in> set ps. private_file k' p)) \<and> (\<forall>q. private_file k q \<longrightarrow> private_file k' q)"
  using assms
proof (induction ps arbitrary: k)
  case (Cons p ps)
  obtain r1 k1 where one: "chmod p k = (r1, k1)" by fastforce
  note k1 = chmod_out [OF one]
  show ?case
  proof (cases r1)
    case (Inl e)
    with Cons.prems one have "r = Inl e" "k' = k1" by (simp_all add: act_bind_def)
    with k1 Inl show ?thesis by simp
  next
    case (Inr u)
    with Cons.prems one have "chmod_all ps k1 = (r, k')" by (simp add: act_bind_def)
    note IH = Cons.IH [OF this]
    from k1 Inr have "private_file k1 p" by simp
    with IH have "private_file k' p" by blast
    with IH k1 Inr show ?thesis by simp
  qed
qed simp

text \<open>The steps of a start, before the migrations.\<close>

lemma openWith_out:
  assumes "openWith (exec, create) dataDir fsys k = (r, k')" "migrationNames fsys = Some names" "distinct names"
    "after_files exec fsys c0 (take j names) k"
  shows "\<exists>j'. j \<le> j' \<and> after_files exec fsys c0 (take j' names) k' \<and>
    (is_ok r \<longrightarrow> take j' names = names \<and> r = Inr (db_path dataDir) \<and> (\<forall>p \<in> set (db_files (db_path dataDir)). private_file k' p))"
    (is "\<exists>j'. ?out j' r k'")
proof -
  note start = assms(1) [unfolded openWith_def prod.case]
  have stay: "\<exists>j'. ?out j' r k'" if "\<not> is_ok r" "k_db k' = k_db k"
    using that assms(4) by (intro exI [of _ j]) (simp add: after_files_db [OF that(2)])
  from start show ?thesis
  proof (cases rule: bind_drive)
    case 1: (went_on k1)
    from 1(3) show ?thesis
    proof (cases rule: bind_drive)
      case 2: (went_on k2)
      from 2(3) show ?thesis
      proof (cases rule: bind_drive)
        case 3: (went_on k3)
        let ?k = "k3\<lparr>k_modes := create (k_modes k3)\<rparr>"
        have db: "k_db ?k = k_db k" using 1(1) 2(1) 3(1) by simp
        obtain r4 k4 where perms: "restrictPerms (db_path dataDir) ?k = (r4, k4)" by fastforce
        note p4 = chmod_all_out [OF perms [unfolded restrictPerms_def]]
        have db4: "k_db k4 = k_db k" using p4 db by simp
        show ?thesis
        proof (cases r4)
          case (Inl e)
          with 3(3) perms have "r = Inl e" "k' = k4" by (simp_all add: act_bind_def)
          with stay db4 show ?thesis by simp
        next
          case (Inr u)
          obtain r5 k5 where mig: "migrate exec fsys k4 = (r5, k5)" by fastforce
          have "after_files exec fsys c0 (take j names) k4" using assms(4) by (simp add: after_files_db [OF db4])
          from migrate_out [OF mig assms(2,3) this] obtain j' where
            j': "j \<le> j'" "after_files exec fsys c0 (take j' names) k5" "is_ok r5 \<longrightarrow> take j' names = names" "k_modes k5 = k_modes k4"
            by blast
          have "k' = k5" "is_ok r \<longleftrightarrow> is_ok r5" "is_ok r \<longrightarrow> r = Inr (db_path dataDir)"
            using 3(3) perms Inr mig by (cases r5; auto simp: act_bind_def lift_migrate_def)+
          moreover have "\<forall>p \<in> set (db_files (db_path dataDir)). private_file k5 p"
            using p4 Inr j'(4) by (simp add: private_file_def)
          ultimately show ?thesis using j' by blast
        qed
      qed (use stay 1 2 in simp)
    qed (use stay 1 in simp)
  qed (use stay in simp)
qed

lemma openWith_runs:
  assumes "k_faults k = []" "migrationNames fsys = Some names" "distinct names" "replay exec fsys names c0 \<noteq> None"
    "after_files exec fsys c0 (take j names) k"
  shows "fst (openWith (exec, create) dataDir fsys k) = Inr (db_path dataDir)"
proof -
  let ?k = "k\<lparr>k_modes := create (k_modes k)\<rparr>"
  obtain r4 k4 where perms: "restrictPerms (db_path dataDir) ?k = (r4, k4)" by fastforce
  from chmod_all_out [OF perms [unfolded restrictPerms_def]] assms(1) have 4: "r4 = Inr ()" "k_faults k4 = []" "k_db k4 = k_db k"
    by simp_all
  have "fst (migrate exec fsys k4) = Inr ()"
    using assms(5) by (intro migrate_runs [OF 4(2) assms(2-4)]) (simp add: after_files_db [OF 4(3)])
  then show ?thesis
    using assms(1) perms 4(1) by (cases "migrate exec fsys k4") (simp add: openWith_def act_bind_def lift_migrate_def)
qed

section \<open>Starting again and again\<close>

text \<open>Starts of the program, each cut short where its script says.\<close>

fun attempts :: "'d sqlite \<Rightarrow> string \<Rightarrow> dir \<Rightarrow> bool list list \<Rightarrow> 'd conn \<Rightarrow> 'd conn" where
  "attempts sqlite dataDir fsys [] k = k"
| "attempts sqlite dataDir fsys (fs # fss) k =
     attempts sqlite dataDir fsys fss (snd (openWith sqlite dataDir fsys (k\<lparr>k_faults := fs\<rparr>)))"

lemma set_faults [simp]: "after_files exec fsys c0 ns (k\<lparr>k_faults := fs\<rparr>) = after_files exec fsys c0 ns k"
  by (simp add: after_files_def)

lemma attempts_out:
  assumes "migrationNames fsys = Some names" "distinct names" "after_files exec fsys c0 (take j names) k"
  shows "\<exists>j'. j \<le> j' \<and> after_files exec fsys c0 (take j' names) (attempts (exec, create) dataDir fsys fss k)"
  using assms(3)
proof (induction fss arbitrary: k j)
  case (Cons fs fss)
  obtain r k1 where o: "openWith (exec, create) dataDir fsys (k\<lparr>k_faults := fs\<rparr>) = (r, k1)" by fastforce
  have "after_files exec fsys c0 (take j names) (k\<lparr>k_faults := fs\<rparr>)" using Cons.prems by simp
  from openWith_out [OF o assms(1,2) this] obtain j1 where j1: "j \<le> j1" "after_files exec fsys c0 (take j1 names) k1" by blast
  from Cons.IH [OF j1(2)] j1(1) o show ?case by (metis attempts.simps(2) le_trans snd_conv)
qed auto

text \<open>Property C34. The database survives being killed while it is upgraded: however many starts were cut short, and wherever
  a call of theirs failed, what is stored is the result of a first part of the scripts, each run once and in name
  order; the next start with nothing failing succeeds, and any start that succeeds leaves the result of all the scripts
  on the original content, every script recorded once, and no database file readable by others.\<close>

theorem Open_resumes:
  assumes "migrationNames fsys = Some names" "distinct names" "replay exec fsys names c0 = Some c"
    and "after_files exec fsys c0 (take j names) k" "attempts (exec, create) dataDir fsys fss k = k1"
  shows "(\<exists>j' \<ge> j. map fst (log_of (k_db k1)) = take j' names \<and> replay exec fsys (take j' names) c0 = Some (d_content (k_db k1))) \<and>
    (\<forall>fs r k2. openWith (exec, create) dataDir fsys (k1\<lparr>k_faults := fs\<rparr>) = (r, k2) \<longrightarrow>
       (fs = [] \<longrightarrow> is_ok r) \<and>
       (is_ok r \<longrightarrow> r = Inr (db_path dataDir) \<and> map fst (log_of (k_db k2)) = names \<and> d_content (k_db k2) = c \<and>
          (\<forall>p \<in> set (db_files (db_path dataDir)). k_modes k2 p = None \<or> k_modes k2 p = Some owner_only)))"
proof (intro conjI allI impI)
  from attempts_out [OF assms(1,2,4)] obtain j' where j': "j \<le> j'" "after_files exec fsys c0 (take j' names) k1"
    using assms(5) by blast
  then show "\<exists>j' \<ge> j. map fst (log_of (k_db k1)) = take j' names \<and> replay exec fsys (take j' names) c0 = Some (d_content (k_db k1))"
    by (auto simp: after_files_def)
  fix fs r k2 assume o: "openWith (exec, create) dataDir fsys (k1\<lparr>k_faults := fs\<rparr>) = (r, k2)"
  show "is_ok r" if "fs = []"
    using openWith_runs [of "k1\<lparr>k_faults := fs\<rparr>" fsys names exec c0 j' create dataDir] assms(1-3) j'(2) that o by simp
  assume ok: "is_ok r"
  have "after_files exec fsys c0 (take j' names) (k1\<lparr>k_faults := fs\<rparr>)" using j'(2) by simp
  from openWith_out [OF o assms(1,2) this] ok obtain j'' where "after_files exec fsys c0 (take j'' names) k2"
    "take j'' names = names" "r = Inr (db_path dataDir)" "\<forall>p \<in> set (db_files (db_path dataDir)). private_file k2 p"
    by blast
  then show "r = Inr (db_path dataDir)" "map fst (log_of (k_db k2)) = names" "d_content (k_db k2) = c"
    "\<forall>p \<in> set (db_files (db_path dataDir)). k_modes k2 p = None \<or> k_modes k2 p = Some owner_only"
    using assms(3) by (simp_all add: after_files_def private_file_def)
qed

text \<open>The scripts of the binary on a content that lists what was run; the first start dies in the second script.\<close>

definition toy_exec :: "string \<Rightarrow> string list \<Rightarrow> string list option" where "toy_exec body c = Some (c @ [body])"

definition fresh_conn :: "string list conn" where
  "fresh_conn = \<lparr>k_db = \<lparr>d_log = None, d_content = []\<rparr>, k_modes = Map.empty, k_faults = [], k_times = int\<rparr>"

definition first_start :: "bool list" where "first_start = replicate 13 False @ [True]"

lemma embedded_names:
  "migrationNames (embeddedMigrations id) =
     Some [''0001_sessions.sql'', ''0002_children.sql'', ''0003_grants.sql'', ''0004_buttons.sql'',
           ''0005_shared_clients.sql'', ''0006_button_icon.sql'']"
  by code_simp

lemma Open_resumes_witness:
  "let k1 = attempts (toy_exec, \<lambda>m. m(''data/adguard-reward.db'' \<mapsto> 420)) ''./data'' (embeddedMigrations id) [first_start] fresh_conn;
       (r, k2) = openWith (toy_exec, \<lambda>m. m(''data/adguard-reward.db'' \<mapsto> 420)) ''./data'' (embeddedMigrations id) (k1\<lparr>k_faults := []\<rparr>)
   in d_content (k_db k1) = [''0001_sessions.sql''] \<and>
      r = Inr (db_path ''./data'') \<and> d_content (k_db k2) =
        [''0001_sessions.sql'', ''0002_children.sql'', ''0003_grants.sql'', ''0004_buttons.sql'',
         ''0005_shared_clients.sql'', ''0006_button_icon.sql'']"
proof -
  let ?create = "\<lambda>m. m(''data/adguard-reward.db'' \<mapsto> (420 :: nat))"
  let ?names = "[''0001_sessions.sql'', ''0002_children.sql'', ''0003_grants.sql'', ''0004_buttons.sql'',
         ''0005_shared_clients.sql'', ''0006_button_icon.sql'']"
  let ?k1 = "attempts (toy_exec, ?create) ''./data'' (embeddedMigrations id) [first_start] fresh_conn"
  obtain r k2 where o: "openWith (toy_exec, ?create) ''./data'' (embeddedMigrations id) (?k1\<lparr>k_faults := []\<rparr>) = (r, k2)"
    by fastforce
  have "replay toy_exec (embeddedMigrations id) ?names [] = Some ?names" "distinct ?names" "d_content (k_db ?k1) = [''0001_sessions.sql'']"
    by code_simp+
  moreover have "after_files toy_exec (embeddedMigrations id) [] (take 0 ?names) fresh_conn"
    by (simp add: after_files_def fresh_conn_def log_of_def)
  ultimately show ?thesis
    using Open_resumes [OF embedded_names, of toy_exec "[]" ?names 0 fresh_conn ?create "''./data''" "[first_start]" ?k1] o
    by (simp add: Let_def)
qed

end
