(* ===== verification/AuthToken.thy ===== *)
theory AuthToken
  imports Prelude
begin

text \<open>
  internal/auth/token.go: the session token, 32 random bytes in unpadded base64url, and the
  decoding of a presented one. The standard library's encoder and strict decoder are written
  out on six-bit values; SHA-256 is a parameter of the model.
\<close>

type_synonym bytes = "8 word list"

definition tokenBytes :: nat where "tokenBytes = 32"

text \<open>The URL alphabet: \<open>A\<close>-\<open>Z\<close>, \<open>a\<close>-\<open>z\<close>, \<open>0\<close>-\<open>9\<close>, \<open>-\<close> and \<open>_\<close>.\<close>

definition b64_char :: "nat \<Rightarrow> char" where
  "b64_char v =
     (if v < 26 then byte (v + 65) else if v < 52 then byte (v + 71)
      else if v < 62 then byte (v - 4) else if v = 62 then byte 45 else byte 95)"

definition b64_value :: "char \<Rightarrow> nat option" where
  "b64_value c =
     (let n = of_char c :: nat
      in if 65 \<le> n \<and> n \<le> 90 then Some (n - 65)
         else if 97 \<le> n \<and> n \<le> 122 then Some (n - 71)
         else if 48 \<le> n \<and> n \<le> 57 then Some (n + 4)
         else if n = 45 then Some 62 else if n = 95 then Some 63 else None)"

fun b64_groups :: "bytes \<Rightarrow> nat list" where
  "b64_groups (a # b # c # r) =
     [unat a div 4, (unat a mod 4) * 16 + unat b div 16,
      (unat b mod 16) * 4 + unat c div 64, unat c mod 64] @ b64_groups r"
| "b64_groups [a, b] =
     [unat a div 4, (unat a mod 4) * 16 + unat b div 16, (unat b mod 16) * 4]"
| "b64_groups [a] = [unat a div 4, (unat a mod 4) * 16]"
| "b64_groups [] = []"

definition EncodeToString :: "bytes \<Rightarrow> string" where
  "EncodeToString b = map b64_char (b64_groups b)"

text \<open>Strict decoding: the unused low bits of the last character must be zero.\<close>

fun b64_ungroup :: "nat list \<Rightarrow> bytes option" where
  "b64_ungroup (w # x # y # z # r) =
     map_option (\<lambda>bs. of_nat (w * 4 + x div 16) # of_nat ((x mod 16) * 16 + y div 4) #
                      of_nat ((y mod 4) * 64 + z) # bs) (b64_ungroup r)"
| "b64_ungroup [w, x, y] =
     (if y mod 4 = 0 then Some [of_nat (w * 4 + x div 16), of_nat ((x mod 16) * 16 + y div 4)] else None)"
| "b64_ungroup [w, x] = (if x mod 16 = 0 then Some [of_nat (w * 4 + x div 16)] else None)"
| "b64_ungroup [w] = None"
| "b64_ungroup [] = Some []"

text \<open>The decoder skips carriage returns and newlines anywhere in its input.\<close>

definition is_newline :: "char \<Rightarrow> bool" where
  "is_newline c \<longleftrightarrow> c = byte 10 \<or> c = byte 13"

definition DecodeString :: "string \<Rightarrow> bytes option" where
  "DecodeString s =
     (case those (map b64_value (filter (\<lambda>c. \<not> is_newline c) s)) of
        None \<Rightarrow> None
      | Some vs \<Rightarrow> b64_ungroup vs)"

definition newToken :: "(bytes \<Rightarrow> bytes) \<Rightarrow> bytes option \<Rightarrow> (string \<times> bytes) option" where
  "newToken sha rnd =
     (case rnd of None \<Rightarrow> None | Some b \<Rightarrow> Some (EncodeToString b, sha b))"

definition hashToken :: "(bytes \<Rightarrow> bytes) \<Rightarrow> string \<Rightarrow> bytes option" where
  "hashToken sha raw =
     (if length raw \<noteq> (tokenBytes * 8 + 5) div 6 then None
      else case DecodeString raw of
             None \<Rightarrow> None
           | Some b \<Rightarrow> if length b \<noteq> tokenBytes then None else Some (sha b))"

section \<open>The encoding is canonical\<close>

lemma of_char_byte [simp]: "n < 256 \<Longrightarrow> (of_char (byte n) :: nat) = n"
  by (simp add: byte_def of_char_of)

lemma byte_of_char [simp]: "byte (of_char c) = c"
  by (simp add: byte_def)

lemma b64_value_char: "v < 64 \<Longrightarrow> b64_value (b64_char v) = Some v"
  by (auto simp: b64_value_def b64_char_def Let_def)

lemma b64_char_value: "b64_value c = Some v \<Longrightarrow> v < 64 \<and> b64_char v = c"
  by (auto simp: b64_value_def b64_char_def Let_def split: if_splits)
     (metis byte_of_char)+

lemma b64_char_not_newline: "v < 64 \<Longrightarrow> \<not> is_newline (b64_char v)"
proof
  assume v: "v < 64" and nl: "is_newline (b64_char v)"
  then have "b64_value (b64_char v) = None"
    unfolding is_newline_def by (elim disjE) (simp_all add: b64_value_def Let_def)
  with b64_value_char [OF v] show False by simp
qed

text \<open>The arithmetic of six-bit groups.\<close>

lemma byte_bound: "unat (a :: 8 word) < 256"
  using unsigned_less [of a] by simp

lemma unat_byte [simp]: "n < 256 \<Longrightarrow> unat (of_nat n :: 8 word) = n"
  by (simp add: unsigned_of_nat take_bit_nat_eq_self)

lemma group_bounds:
  "unat (a :: 8 word) div 4 < 64" "(unat a mod 4) * 16 + unat b div 16 < 64"
  "(unat b mod 16) * 4 + unat c div 64 < 64" "(unat a mod 4) * 16 < 64" "(unat b mod 16) * 4 < 64"
  for b c :: "8 word"
proof -
  have "unat a div 4 < 64" "unat b div 16 < 16" "unat c div 64 < 4"
    using byte_bound [of a] byte_bound [of b] byte_bound [of c] by linarith+
  moreover have "unat a mod 4 < 4" "unat b mod 16 < 16" by simp_all
  ultimately show "unat a div 4 < 64" "(unat a mod 4) * 16 + unat b div 16 < 64"
    "(unat b mod 16) * 4 + unat c div 64 < 64" "(unat a mod 4) * 16 < 64" "(unat b mod 16) * 4 < 64"
    by linarith+
qed

lemma b64_groups_bound: "v \<in> set (b64_groups b) \<Longrightarrow> v < 64"
  by (induction b rule: b64_groups.induct) (auto simp: group_bounds)

lemma group_inverse:
  "((unat a mod 4) * 16 + unat b div 16) div 16 = unat a mod 4"
  "((unat a mod 4) * 16 + unat b div 16) mod 16 = unat b div 16"
  "((unat b mod 16) * 4 + unat c div 64) div 4 = unat b mod 16"
  "((unat b mod 16) * 4 + unat c div 64) mod 4 = unat c div 64"
  "of_nat (unat a div 4 * 4 + unat a mod 4) = a"
  "of_nat (unat b div 16 * 16 + unat b mod 16) = b"
  "of_nat (unat c div 64 * 64 + unat c mod 64) = c"
  for a b c :: "8 word"
proof -
  have "unat b div 16 < 16" "unat c div 64 < 4"
    using byte_bound [of b] byte_bound [of c] by linarith+
  then show "((unat a mod 4) * 16 + unat b div 16) div 16 = unat a mod 4"
    "((unat a mod 4) * 16 + unat b div 16) mod 16 = unat b div 16"
    "((unat b mod 16) * 4 + unat c div 64) div 4 = unat b mod 16"
    "((unat b mod 16) * 4 + unat c div 64) mod 4 = unat c div 64" by simp_all
qed (simp_all del: of_nat_add of_nat_mult)

lemma b64_ungroup_groups: "b64_ungroup (b64_groups b) = Some b"
proof (induction b rule: b64_groups.induct)
  case (1 a b c r)
  then show ?case by (simp only: b64_groups.simps append.simps b64_ungroup.simps option.map group_inverse)
next
  case (2 a b)
  have "(unat b mod 16 * 4) div 4 = unat b mod 16" "unat b mod 16 * 4 mod 4 = 0" by simp_all
  then show ?case by (simp only: b64_groups.simps b64_ungroup.simps group_inverse if_True simp_thms)
next
  case (3 a)
  have "(unat a mod 4 * 16) div 16 = unat a mod 4" "unat a mod 4 * 16 mod 16 = 0" by simp_all
  then show ?case by (simp only: b64_groups.simps b64_ungroup.simps group_inverse if_True simp_thms)
qed simp

lemma ungroup_inverse:
  "(w * 4 + x div 16) div 4 = w" "((w * 4 + x div 16) mod 4) * 16 + ((x mod 16) * 16 + y div 4) div 16 = x"
  "(((x mod 16) * 16 + y div 4) mod 16) * 4 + ((y mod 4) * 64 + z) div 64 = y"
  "((y mod 4) * 64 + z) mod 64 = z"
  "w * 4 + x div 16 < 256" "(x mod 16) * 16 + y div 4 < 256" "(y mod 4) * 64 + z < 256"
  if "w < 64" "x < 64" "y < 64" "z < 64" for w x y z :: nat
proof -
  have "x div 16 < 4" "y div 4 < 16" "x mod 16 < 16" "y mod 4 < 4" using that by linarith+
  then show "(w * 4 + x div 16) div 4 = w"
    "((w * 4 + x div 16) mod 4) * 16 + ((x mod 16) * 16 + y div 4) div 16 = x"
    "(((x mod 16) * 16 + y div 4) mod 16) * 4 + ((y mod 4) * 64 + z) div 64 = y"
    "((y mod 4) * 64 + z) mod 64 = z"
    "w * 4 + x div 16 < 256" "(x mod 16) * 16 + y div 4 < 256" "(y mod 4) * 64 + z < 256"
    using that by simp_all
qed

lemma b64_groups_ungroup:
  "b64_ungroup vs = Some b \<Longrightarrow> \<forall>v \<in> set vs. v < 64 \<Longrightarrow> b64_groups b = vs"
proof (induction vs arbitrary: b rule: b64_ungroup.induct)
  case (1 w x y z r)
  then obtain bs where bs: "b64_ungroup r = Some bs" "b64_groups bs = r"
    "b = of_nat (w * 4 + x div 16) # of_nat ((x mod 16) * 16 + y div 4) # of_nat ((y mod 4) * 64 + z) # bs"
    by auto
  have v: "w < 64" "x < 64" "y < 64" "z < 64" using 1(3) by simp_all
  show ?case
    unfolding bs(3) b64_groups.simps unat_byte [OF ungroup_inverse(5) [OF v]]
      unat_byte [OF ungroup_inverse(6) [OF v]] unat_byte [OF ungroup_inverse(7) [OF v]]
      ungroup_inverse [OF v] bs(2)
    by simp
next
  case (2 w x y)
  have v: "w < 64" "x < 64" "y < 64" "(0::nat) < 64" using 2 by simp_all
  have y: "y mod 4 = 0" and b: "b = [of_nat (w * 4 + x div 16), of_nat ((x mod 16) * 16 + y div 4)]"
    using 2(1) by (simp_all split: if_splits del: of_nat_add of_nat_mult)
  have "(((x mod 16) * 16 + y div 4) mod 16) * 4 = y"
    using ungroup_inverse(3) [OF v] y by simp
  then show ?case
    unfolding b b64_groups.simps unat_byte [OF ungroup_inverse(5) [OF v]]
      unat_byte [OF ungroup_inverse(6) [OF v]] ungroup_inverse [OF v] by simp
next
  case (3 w x)
  have v: "w < 64" "x < 64" "(0::nat) < 64" "(0::nat) < 64" using 3 by simp_all
  have x: "x mod 16 = 0" and b: "b = [of_nat (w * 4 + x div 16)]"
    using 3(1) by (simp_all split: if_splits del: of_nat_add of_nat_mult)
  have "((w * 4 + x div 16) mod 4) * 16 = x"
    using ungroup_inverse(2) [OF v] x by simp
  then show ?case
    unfolding b b64_groups.simps unat_byte [OF ungroup_inverse(5) [OF v]] ungroup_inverse [OF v] by simp
qed simp_all

lemma b64_ungroup_length: "b64_ungroup vs = Some b \<Longrightarrow> length b = length vs * 6 div 8"
proof (induction vs arbitrary: b rule: b64_ungroup.induct)
  case (1 w x y z r)
  then obtain bs where "b64_ungroup r = Some bs" "length b = 3 + length bs" by auto
  moreover have "length bs = length r * 6 div 8" by (rule 1(1)) (use calculation in simp_all)
  moreover have "length (w # x # y # z # r) * 6 = 3 * 8 + length r * 6" by simp
  ultimately show ?case by simp
qed (auto split: if_splits)

lemma those_values:
  "those (map b64_value s) = Some vs \<longleftrightarrow> s = map b64_char vs \<and> (\<forall>v \<in> set vs. v < 64)"
proof
  assume "those (map b64_value s) = Some vs"
  then show "s = map b64_char vs \<and> (\<forall>v \<in> set vs. v < 64)"
  proof (induction s arbitrary: vs)
    case (Cons c s)
    then obtain v ws where "b64_value c = Some v" "those (map b64_value s) = Some ws" "vs = v # ws"
      by (auto split: option.splits)
    with Cons.IH [of ws] b64_char_value [of c v] show ?case by auto
  qed simp
next
  assume "s = map b64_char vs \<and> (\<forall>v \<in> set vs. v < 64)"
  then show "those (map b64_value s) = Some vs"
    by (induction vs arbitrary: s) (auto simp: b64_value_char)
qed

lemma DecodeString_Some:
  "DecodeString s = Some b \<longleftrightarrow> filter (\<lambda>c. \<not> is_newline c) s = EncodeToString b" (is "?L \<longleftrightarrow> ?R")
proof
  assume ?L
  then obtain vs where vs: "filter (\<lambda>c. \<not> is_newline c) s = map b64_char vs" "\<forall>v \<in> set vs. v < 64"
    "b64_ungroup vs = Some b"
    unfolding DecodeString_def by (auto simp: those_values split: option.splits)
  then show ?R using b64_groups_ungroup [of vs b] by (simp add: EncodeToString_def)
next
  assume r: ?R
  have "those (map b64_value (map b64_char (b64_groups b))) = Some (b64_groups b)"
    unfolding those_values using b64_groups_bound by blast
  with r show ?L
    unfolding DecodeString_def r by (simp add: EncodeToString_def b64_ungroup_groups)
qed

lemma EncodeToString_no_newline: "filter (\<lambda>c. \<not> is_newline c) (EncodeToString b) = EncodeToString b"
  by (auto simp: EncodeToString_def filter_id_conv b64_char_not_newline dest: b64_groups_bound)

lemma EncodeToString_inj: "EncodeToString a = EncodeToString b \<Longrightarrow> a = b"
  by (metis DecodeString_Some EncodeToString_no_newline option.inject)

lemma EncodeToString_length: "length b = length (EncodeToString b) * 6 div 8"
  using b64_ungroup_length [OF b64_ungroup_groups] by (simp add: EncodeToString_def)

text \<open>Which strings name a token: exactly the encodings of 32 bytes.\<close>

lemma hashToken_Some:
  "hashToken sha raw = Some h \<longleftrightarrow>
     (\<exists>b. length b = tokenBytes \<and> raw = EncodeToString b \<and> h = sha b)" (is "?L \<longleftrightarrow> ?R")
proof
  assume ?L
  then obtain b where b: "length raw = 43" "filter (\<lambda>c. \<not> is_newline c) raw = EncodeToString b"
    "length b = 32" "h = sha b"
    by (auto simp: hashToken_def tokenBytes_def DecodeString_Some split: if_splits option.splits)
  have "length (EncodeToString b) \<ge> 43" using EncodeToString_length [of b] b(3) by linarith
  then have "filter (\<lambda>c. \<not> is_newline c) raw = raw"
    using b(1,2) by (metis filter_id_conv length_filter_less not_le)
  with b show ?R by (auto simp: tokenBytes_def)
next
  assume ?R
  then obtain b where b: "length b = 32" "raw = EncodeToString b" "h = sha b"
    by (auto simp: tokenBytes_def)
  have "n = 43" if "32 = n * 6 div 8" for n :: nat using that by presburger
  then have "length raw = 43" using EncodeToString_length [of b] b(1,2) by metis
  moreover have "DecodeString raw = Some b"
    unfolding DecodeString_Some b(2) by (rule EncodeToString_no_newline)
  ultimately show ?L using b by (simp add: hashToken_def tokenBytes_def)
qed

end
