(* ===== verification/StoreDb.thy ===== *)
theory StoreDb
  imports Prelude
begin

text \<open>
  The SQLite database of internal/store: the tables the migrations create, what the SQL
  statements of the package read and write, and \<open>inTx\<close>. A table is the list of its rows in
  insertion order. The constraints of the schema (primary keys, UNIQUE, the partial unique
  index, foreign keys with their cascades) are checked by the insert and update helpers,
  which fail as the driver would. Statements can also fail for reasons outside the tables
  (I/O, a cancelled context, a failed commit): \<open>store\<close> carries a script of such failures,
  one entry per transaction or single statement, and every theorem holds for every script.
\<close>

section \<open>Errors\<close>

text \<open>
  The sentinels of the package and, for everything else, the driver's error wrapped with
  the operation's name.
\<close>

datatype store_error =
    ErrChildNotFound
  | ErrNameTaken
  | ErrClientTaken string id string
  | ErrGrantNotFound
  | ErrGrantOverlap id string
  | ErrUnknownChild id
  | ErrDriver string

text \<open>The driver's own error, before an operation wraps it.\<close>

abbreviation sql_error :: store_error where "sql_error \<equiv> ErrDriver []"

section \<open>Tables\<close>

datatype grant_status = StatusActive | StatusExpired | StatusEnded

record child_row =
  ch_id :: id
  ch_name :: string
  ch_created :: int

record child_client_row =
  cc_client :: string
  cc_child :: id

record grant_row =
  gr_id :: id
  gr_child :: id
  gr_status :: grant_status
  gr_started :: int
  gr_ends :: int
  gr_ended :: "int option"

record grant_service_row =
  gs_grant :: id
  gs_child :: id
  gs_service :: string
  gs_active :: bool

record grant_client_row =
  gc_grant :: id
  gc_client :: string

record button_row =
  bt_id :: id
  bt_position :: int
  bt_label :: string
  bt_child :: id
  bt_icon :: "string option"
  bt_duration :: int

record button_service_row =
  bs_button :: id
  bs_position :: int
  bs_service :: string

record session_row =
  se_id :: id
  se_username :: string
  se_hash :: "8 word list"
  se_created :: int
  se_last_seen :: int
  se_expires :: int

record tables =
  t_children :: "child_row list"
  t_child_clients :: "child_client_row list"
  t_grants :: "grant_row list"
  t_grant_services :: "grant_service_row list"
  t_grant_clients :: "grant_client_row list"
  t_buttons :: "button_row list"
  t_button_services :: "button_service_row list"
  t_button_seq :: id
  t_sessions :: "session_row list"

definition empty_tables :: tables where
  "empty_tables = \<lparr>t_children = [], t_child_clients = [], t_grants = [], t_grant_services = [],
     t_grant_clients = [], t_buttons = [], t_button_services = [], t_button_seq = 0,
     t_sessions = []\<rparr>"

text \<open>
  \<open>INTEGER PRIMARY KEY\<close> without AUTOINCREMENT: SQLite gives a new row the largest rowid of
  the table plus one, 1 in an empty table. (Its other rule, for a table that holds the
  largest 64-bit rowid, is not modelled.)
\<close>

definition next_rowid :: "id list \<Rightarrow> id" where
  "next_rowid ids = (if ids = [] then 1 else Max (set ids) + 1)"

lemma next_rowid_fresh: "next_rowid ids \<notin> set ids"
proof
  assume a: "next_rowid ids \<in> set ids"
  then have "ids \<noteq> []" by auto
  with a have "Max (set ids) + 1 \<le> Max (set ids)"
    by (intro Max_ge) (auto simp: next_rowid_def)
  then show False by simp
qed

lemma next_rowid_gt: "x \<in> set ids \<Longrightarrow> x < next_rowid ids"
proof -
  assume x: "x \<in> set ids"
  then have "x \<le> Max (set ids)" by simp
  with x show ?thesis by (auto simp: next_rowid_def)
qed

lemma next_rowid_pos: "\<forall>x \<in> set ids. 0 < x \<Longrightarrow> 0 < next_rowid ids"
proof (cases ids)
  case (Cons i js)
  assume "\<forall>x \<in> set ids. 0 < x"
  with Cons have "0 < i" "i \<in> set ids" by simp_all
  with next_rowid_gt [of i ids] show ?thesis by simp
qed (simp add: next_rowid_def)

text \<open>The clients and services stored for one grant, in row order.\<close>

definition grant_clients_of :: "tables \<Rightarrow> id \<Rightarrow> string list" where
  "grant_clients_of t g = map gc_client (filter (\<lambda>r. gc_grant r = g) (t_grant_clients t))"

definition grant_services_of :: "tables \<Rightarrow> id \<Rightarrow> string list" where
  "grant_services_of t g = map gs_service (filter (\<lambda>r. gs_grant r = g) (t_grant_services t))"

section \<open>Transactions\<close>

record store =
  db :: tables
  faults :: "bool list"

type_synonym 'a store_op = "store \<Rightarrow> (store_error + 'a) \<times> store"

text \<open>One entry of the failure script is used up by each transaction or statement.\<close>

definition next_fault :: "store \<Rightarrow> bool \<times> store" where
  "next_fault st = (case faults st of [] \<Rightarrow> (False, st) | f # fs \<Rightarrow> (f, st\<lparr>faults := fs\<rparr>))"

text \<open>
  \<open>inTx\<close>: run the body on the tables; any error, of the body or of the driver, rolls back.
\<close>

definition inTx :: "(tables \<Rightarrow> store_error + ('a \<times> tables)) \<Rightarrow> 'a store_op" where
  "inTx fn st =
     (let (fault, st') = next_fault st
      in if fault then (Inl sql_error, st')
         else case fn (db st') of
                Inl e \<Rightarrow> (Inl e, st')
              | Inr (x, t) \<Rightarrow> (Inr x, st'\<lparr>db := t\<rparr>))"

text \<open>A read outside a transaction: one statement, nothing written.\<close>

definition query :: "(tables \<Rightarrow> store_error + 'a) \<Rightarrow> 'a store_op" where
  "query fn st =
     (let (fault, st') = next_fault st
      in if fault then (Inl sql_error, st') else (fn (db st'), st'))"

definition map_err :: "(store_error \<Rightarrow> store_error) \<Rightarrow> (store_error + 'a) \<times> store \<Rightarrow> (store_error + 'a) \<times> store" where
  "map_err f r = (case r of (Inl e, st) \<Rightarrow> (Inl (f e), st) | (Inr x, st) \<Rightarrow> (Inr x, st))"

text \<open>\<open>wrapChildErr\<close> and \<open>wrapGrantErr\<close>: which sentinels an operation passes through.\<close>

fun wrapChildErr :: "string \<Rightarrow> store_error \<Rightarrow> store_error" where
  "wrapChildErr op ErrNameTaken = ErrNameTaken"
| "wrapChildErr op ErrChildNotFound = ErrChildNotFound"
| "wrapChildErr op (ErrClientTaken c i n) = ErrClientTaken c i n"
| "wrapChildErr op _ = ErrDriver op"

fun wrapGrantErr :: "string \<Rightarrow> store_error \<Rightarrow> store_error" where
  "wrapGrantErr op ErrGrantNotFound = ErrGrantNotFound"
| "wrapGrantErr op (ErrGrantOverlap i s) = ErrGrantOverlap i s"
| "wrapGrantErr op _ = ErrDriver op"

definition wrap_any :: "string \<Rightarrow> store_error \<Rightarrow> store_error" where
  "wrap_any op e = ErrDriver op"

lemma next_fault_db [simp]: "db (snd (next_fault st)) = db st"
  by (simp add: next_fault_def split: list.splits)

lemma next_faultD: "next_fault st = (f, st') \<Longrightarrow> db st' = db st"
  using next_fault_db [of st] by simp

text \<open>What a transaction does to the tables: it commits its body's result or nothing.\<close>

lemma inTx_ok:
  assumes "inTx fn st = (Inr x, st')"
  shows "fn (db st) = Inr (x, db st')"
  using assms
  by (auto simp: inTx_def Let_def split: prod.splits if_splits sum.splits dest!: next_faultD)

lemma inTx_err:
  assumes "inTx fn st = (Inl e, st')"
  shows "db st' = db st \<and> (e = sql_error \<or> fn (db st) = Inl e)"
  using assms
  by (auto simp: inTx_def Let_def split: prod.splits if_splits sum.splits dest!: next_faultD)

lemma inTx_no_fault:
  "faults st = [] \<Longrightarrow>
     inTx fn st = (case fn (db st) of Inl e \<Rightarrow> (Inl e, st) | Inr (x, t) \<Rightarrow> (Inr x, st\<lparr>db := t\<rparr>))"
  by (simp add: inTx_def next_fault_def)

lemma query_db: "query fn st = (r, st') \<Longrightarrow> db st' = db st \<and> (r = Inl sql_error \<or> r = fn (db st))"
  by (auto simp: query_def Let_def split: prod.splits if_splits dest!: next_faultD)

lemma map_err_Inr [simp]: "map_err f r = (Inr x, st) \<longleftrightarrow> r = (Inr x, st)"
  by (auto simp: map_err_def split: prod.splits sum.splits)

lemma map_err_Inl [simp]: "map_err f r = (Inl e, st) \<longleftrightarrow> (\<exists>e'. r = (Inl e', st) \<and> e = f e')"
  by (auto simp: map_err_def split: prod.splits sum.splits)

section \<open>Well-formed tables\<close>

text \<open>
  What the schema's constraints and the package's own discipline keep true, table by table.
  \<open>wf_grants\<close> holds the two facts no single constraint states: the \<open>active\<close> column mirrors the
  grant's status, and so at most one active grant covers a (child, service) pair.
\<close>

definition wf_children :: "tables \<Rightarrow> bool" where
  "wf_children t \<longleftrightarrow>
     distinct (map ch_id (t_children t)) \<and> (\<forall>r \<in> set (t_children t). 0 < ch_id r) \<and>
     distinct (map (\<lambda>r. to_lower (ch_name r)) (t_children t)) \<and>
     distinct (t_child_clients t) \<and>
     cc_child ` set (t_child_clients t) \<subseteq> ch_id ` set (t_children t)"

definition live_pairs :: "tables \<Rightarrow> (id \<times> string) list" where
  "live_pairs t = map (\<lambda>s. (gs_child s, gs_service s)) (filter gs_active (t_grant_services t))"

definition service_matches :: "grant_row \<Rightarrow> grant_service_row \<Rightarrow> bool" where
  "service_matches g s \<longleftrightarrow>
     gr_id g = gs_grant s \<and> gr_child g = gs_child s \<and> (gs_active s \<longleftrightarrow> gr_status g = StatusActive)"

definition wf_grants :: "tables \<Rightarrow> bool" where
  "wf_grants t \<longleftrightarrow>
     distinct (map gr_id (t_grants t)) \<and> (\<forall>g \<in> set (t_grants t). 0 < gr_id g) \<and>
     distinct (map (\<lambda>s. (gs_grant s, gs_service s)) (t_grant_services t)) \<and>
     (\<forall>s \<in> set (t_grant_services t). \<exists>g \<in> set (t_grants t). service_matches g s) \<and>
     distinct (live_pairs t) \<and>
     distinct (t_grant_clients t) \<and>
     gc_grant ` set (t_grant_clients t) \<subseteq> gr_id ` set (t_grants t)"

definition wf_buttons :: "tables \<Rightarrow> bool" where
  "wf_buttons t \<longleftrightarrow>
     distinct (map bt_id (t_buttons t)) \<and> distinct (map bt_position (t_buttons t)) \<and>
     (\<forall>b \<in> set (t_buttons t). 0 < bt_id b \<and> bt_id b \<le> t_button_seq t \<and> 0 < bt_duration b) \<and>
     bt_child ` set (t_buttons t) \<subseteq> ch_id ` set (t_children t) \<and>
     distinct (map (\<lambda>s. (bs_button s, bs_service s)) (t_button_services t)) \<and>
     bs_button ` set (t_button_services t) \<subseteq> bt_id ` set (t_buttons t) \<and> 0 \<le> t_button_seq t"

definition wf_sessions :: "tables \<Rightarrow> bool" where
  "wf_sessions t \<longleftrightarrow> distinct (map se_id (t_sessions t)) \<and> distinct (map se_hash (t_sessions t))"

definition wf_tables :: "tables \<Rightarrow> bool" where
  "wf_tables t \<longleftrightarrow> wf_children t \<and> wf_grants t \<and> wf_buttons t \<and> wf_sessions t"

lemmas wf_defs = wf_tables_def wf_children_def wf_grants_def wf_buttons_def wf_sessions_def

lemma wf_empty_tables: "wf_tables empty_tables"
  by (simp add: wf_defs empty_tables_def live_pairs_def)

text \<open>An operation that writes the tables of one component leaves the others well-formed.\<close>

lemma wf_children_frame [simp]:
  "wf_children (t\<lparr>t_grants := gs\<rparr>) = wf_children t"
  "wf_children (t\<lparr>t_grant_services := ss\<rparr>) = wf_children t"
  "wf_children (t\<lparr>t_grant_clients := cs\<rparr>) = wf_children t"
  "wf_children (t\<lparr>t_buttons := bs\<rparr>) = wf_children t"
  "wf_children (t\<lparr>t_button_services := us\<rparr>) = wf_children t"
  "wf_children (t\<lparr>t_button_seq := n\<rparr>) = wf_children t"
  "wf_children (t\<lparr>t_sessions := xs\<rparr>) = wf_children t"
  by (simp_all add: wf_children_def)

lemma wf_grants_frame [simp]:
  "wf_grants (t\<lparr>t_children := rs\<rparr>) = wf_grants t"
  "wf_grants (t\<lparr>t_child_clients := ccs\<rparr>) = wf_grants t"
  "wf_grants (t\<lparr>t_buttons := bs\<rparr>) = wf_grants t"
  "wf_grants (t\<lparr>t_button_services := us\<rparr>) = wf_grants t"
  "wf_grants (t\<lparr>t_button_seq := n\<rparr>) = wf_grants t"
  "wf_grants (t\<lparr>t_sessions := xs\<rparr>) = wf_grants t"
  by (simp_all add: wf_grants_def live_pairs_def)

lemma wf_buttons_frame [simp]:
  "wf_buttons (t\<lparr>t_child_clients := ccs\<rparr>) = wf_buttons t"
  "wf_buttons (t\<lparr>t_grants := gs\<rparr>) = wf_buttons t"
  "wf_buttons (t\<lparr>t_grant_services := ss\<rparr>) = wf_buttons t"
  "wf_buttons (t\<lparr>t_grant_clients := cs\<rparr>) = wf_buttons t"
  "wf_buttons (t\<lparr>t_sessions := xs\<rparr>) = wf_buttons t"
  by (simp_all add: wf_buttons_def)

lemma wf_sessions_frame [simp]:
  "wf_sessions (t\<lparr>t_children := rs\<rparr>) = wf_sessions t"
  "wf_sessions (t\<lparr>t_child_clients := ccs\<rparr>) = wf_sessions t"
  "wf_sessions (t\<lparr>t_grants := gs\<rparr>) = wf_sessions t"
  "wf_sessions (t\<lparr>t_grant_services := ss\<rparr>) = wf_sessions t"
  "wf_sessions (t\<lparr>t_grant_clients := cs\<rparr>) = wf_sessions t"
  "wf_sessions (t\<lparr>t_buttons := bs\<rparr>) = wf_sessions t"
  "wf_sessions (t\<lparr>t_button_services := us\<rparr>) = wf_sessions t"
  "wf_sessions (t\<lparr>t_button_seq := n\<rparr>) = wf_sessions t"
  by (simp_all add: wf_sessions_def)

lemma wf_buttons_more_children:
  "wf_buttons t \<Longrightarrow> ch_id ` set (t_children t) \<subseteq> ch_id ` set rs \<Longrightarrow>
     wf_buttons (t\<lparr>t_children := rs\<rparr>)"
  unfolding wf_buttons_def by (simp, meson subset_trans)

end
