(* ===== verification/StoreSessions.thy ===== *)
theory StoreSessions
  imports StoreDb AuthToken
begin

text \<open>
  internal/store/sessions.go: the auth.SessionStore over the sessions table. Every operation
  is one statement outside a transaction; times are stored as Unix seconds.
\<close>

section \<open>Model\<close>

record session =
  sess_id :: id
  sess_username :: string
  token_hash :: bytes
  created_at :: time
  last_seen_at :: time
  expires_at :: time

text \<open>The errors of auth.SessionStore and of the manager over it.\<close>

datatype auth_error = ErrNotFound | ErrNoSession | AuthDriver string

definition scanSession :: "session_row \<Rightarrow> session" where
  "scanSession r = \<lparr>sess_id = se_id r, sess_username = se_username r, token_hash = se_hash r,
     created_at = of_unix (se_created r), last_seen_at = of_unix (se_last_seen r),
     expires_at = of_unix (se_expires r)\<rparr>"

type_synonym 'a session_op = "store \<Rightarrow> (auth_error + 'a) \<times> store"

text \<open>One statement: the driver may fail it, otherwise it reads or rewrites the tables.\<close>

definition session_stmt :: "string \<Rightarrow> (tables \<Rightarrow> auth_error + ('a \<times> tables)) \<Rightarrow> 'a session_op" where
  "session_stmt op fn st =
     (let (fault, st') = next_fault st
      in if fault then (Inl (AuthDriver op), st')
         else case fn (db st') of
                Inl e \<Rightarrow> (Inl e, st')
              | Inr (x, t) \<Rightarrow> (Inr x, st'\<lparr>db := t\<rparr>))"

definition insert_session_stmt :: "session \<Rightarrow> tables \<Rightarrow> auth_error + (id \<times> tables)" where
  "insert_session_stmt s t =
     (if token_hash s \<in> se_hash ` set (t_sessions t) then Inl (AuthDriver ''insert session'')
      else let i = next_rowid (map se_id (t_sessions t))
           in Inr (i, t\<lparr>t_sessions := t_sessions t @
                [\<lparr>se_id = i, se_username = sess_username s, se_hash = token_hash s,
                  se_created = unix (created_at s), se_last_seen = unix (last_seen_at s),
                  se_expires = unix (expires_at s)\<rparr>]\<rparr>))"

definition Insert :: "session \<Rightarrow> id session_op" where
  "Insert s = session_stmt ''insert session'' (insert_session_stmt s)"

definition ByTokenHash :: "bytes \<Rightarrow> session session_op" where
  "ByTokenHash h = session_stmt ''session by hash''
     (\<lambda>t. case find (\<lambda>r. se_hash r = h) (t_sessions t) of
            None \<Rightarrow> Inl ErrNotFound
          | Some r \<Rightarrow> Inr (scanSession r, t))"

definition touch_row :: "id \<Rightarrow> int \<Rightarrow> int \<Rightarrow> session_row \<Rightarrow> session_row" where
  "touch_row i l e r = (if se_id r = i then r\<lparr>se_last_seen := l, se_expires := e\<rparr> else r)"

definition Touch :: "id \<Rightarrow> time \<Rightarrow> time \<Rightarrow> unit session_op" where
  "Touch i lastSeen expires = session_stmt ''touch session''
     (\<lambda>t. Inr ((), t\<lparr>t_sessions := map (touch_row i (unix lastSeen) (unix expires)) (t_sessions t)\<rparr>))"

text \<open>A DELETE with its WHERE clause, and the number of rows it removed.\<close>

definition delete_sessions :: "(session_row \<Rightarrow> bool) \<Rightarrow> tables \<Rightarrow> nat \<times> tables" where
  "delete_sessions p t =
     (length (filter p (t_sessions t)), t\<lparr>t_sessions := filter (\<lambda>r. \<not> p r) (t_sessions t)\<rparr>)"

definition Delete :: "id \<Rightarrow> unit session_op" where
  "Delete i = session_stmt ''delete session''
     (\<lambda>t. Inr ((), snd (delete_sessions (\<lambda>r. se_id r = i) t)))"

definition ListByUser :: "string \<Rightarrow> session list session_op" where
  "ListByUser u = session_stmt ''list sessions''
     (\<lambda>t. Inr (map scanSession (sort_key se_created (sort_key se_id
                  (filter (\<lambda>r. se_username r = u) (t_sessions t)))), t))"

definition DeleteByUser :: "string \<Rightarrow> id \<Rightarrow> bool session_op" where
  "DeleteByUser u i = session_stmt ''delete session''
     (\<lambda>t. let (n, t') = delete_sessions (\<lambda>r. se_id r = i \<and> se_username r = u) t
          in Inr (0 < n, t'))"

definition DeleteOthers :: "string \<Rightarrow> id \<Rightarrow> nat session_op" where
  "DeleteOthers u keep = session_stmt ''delete other sessions''
     (\<lambda>t. Inr (delete_sessions (\<lambda>r. se_username r = u \<and> se_id r \<noteq> keep) t))"

definition DeleteExpired :: "time \<Rightarrow> nat session_op" where
  "DeleteExpired now = session_stmt ''delete expired sessions''
     (\<lambda>t. Inr (delete_sessions (\<lambda>r. se_expires r \<le> unix now) t))"

section \<open>The sessions as an abstract map\<close>

definition abs_sessions :: "tables \<Rightarrow> id \<Rightarrow> session option" where
  "abs_sessions t i = map_option scanSession (find (\<lambda>r. se_id r = i) (t_sessions t))"

text \<open>What storing a session makes of it: its id assigned, its times cut to the second.\<close>

definition stored_session :: "id \<Rightarrow> session \<Rightarrow> session" where
  "stored_session i s = s\<lparr>sess_id := i, created_at := of_unix (unix (created_at s)),
     last_seen_at := of_unix (unix (last_seen_at s)), expires_at := of_unix (unix (expires_at s))\<rparr>"

lemma scanSession_simps [simp]:
  "sess_id (scanSession r) = se_id r" "sess_username (scanSession r) = se_username r"
  "token_hash (scanSession r) = se_hash r" "expires_at (scanSession r) = of_unix (se_expires r)"
  "created_at (scanSession r) = of_unix (se_created r)"
  "last_seen_at (scanSession r) = of_unix (se_last_seen r)"
  by (simp_all add: scanSession_def)

lemma session_stmt_Inr:
  "session_stmt op fn st = (Inr x, st') \<Longrightarrow> fn (db st) = Inr (x, db st')"
  by (auto simp: session_stmt_def Let_def split: prod.splits if_splits sum.splits dest!: next_faultD)

lemma session_stmt_total:
  assumes "session_stmt op (\<lambda>t. Inr (f t)) st = (Inr x, st')"
  shows "f (db st) = (x, db st')" "db st' = snd (f (db st))"
  using session_stmt_Inr [OF assms] by simp_all

lemma insert_session_stmt_Inr:
  "insert_session_stmt s t = Inr (i, t') \<longleftrightarrow>
     token_hash s \<notin> se_hash ` set (t_sessions t) \<and> i = next_rowid (map se_id (t_sessions t)) \<and>
     t' = t\<lparr>t_sessions := t_sessions t @
       [\<lparr>se_id = i, se_username = sess_username s, se_hash = token_hash s,
         se_created = unix (created_at s), se_last_seen = unix (last_seen_at s),
         se_expires = unix (expires_at s)\<rparr>]\<rparr>"
  by (auto simp: insert_session_stmt_def Let_def)

lemma session_stmt_Inl:
  "session_stmt op fn st = (Inl e, st') \<Longrightarrow> db st' = db st \<and> (e = AuthDriver op \<or> fn (db st) = Inl e)"
  by (auto simp: session_stmt_def Let_def split: prod.splits if_splits sum.splits dest!: next_faultD)

lemma session_stmt_no_fault:
  "faults st = [] \<Longrightarrow> session_stmt op fn st =
     (case fn (db st) of Inl e \<Rightarrow> (Inl e, st) | Inr (x, t) \<Rightarrow> (Inr x, st\<lparr>db := t\<rparr>))"
  by (simp add: session_stmt_def next_fault_def)

lemma find_session:
  "distinct (map se_id rs) \<Longrightarrow> find (\<lambda>r. se_id r = i) rs = Some r \<longleftrightarrow> r \<in> set rs \<and> se_id r = i"
  for rs :: "session_row list"
  by (induction rs) auto

lemma find_session_None: "find (\<lambda>r. se_id r = i) rs = None \<longleftrightarrow> i \<notin> se_id ` set rs"
  for rs :: "session_row list"
  by (induction rs) auto

lemma find_session_append:
  "find P (xs @ ys) = (case find P xs of None \<Rightarrow> find P ys | Some x \<Rightarrow> Some x)"
  for xs :: "session_row list"
  by (induction xs) auto

lemma abs_sessions_Some:
  assumes "wf_sessions t"
  shows "abs_sessions t i = Some s \<longleftrightarrow> (\<exists>r \<in> set (t_sessions t). se_id r = i \<and> s = scanSession r)"
  using assms find_session [of "t_sessions t" i] by (auto simp: abs_sessions_def wf_sessions_def)

lemma touch_row_simps [simp]:
  "se_id (touch_row i l e r) = se_id r" "se_hash (touch_row i l e r) = se_hash r"
  "se_id \<circ> touch_row i l e = se_id" "se_hash \<circ> touch_row i l e = se_hash"
  by (simp_all add: touch_row_def fun_eq_iff)

lemma session_row_unique:
  "wf_sessions t \<Longrightarrow> r \<in> set (t_sessions t) \<Longrightarrow> r' \<in> set (t_sessions t) \<Longrightarrow> se_id r = se_id r' \<Longrightarrow> r = r'"
  by (simp add: wf_sessions_def distinct_map inj_on_def)

text \<open>The statements on the abstract map. A failed statement changes nothing.\<close>

lemma Insert_Inr:
  assumes wf: "wf_sessions (db st)" and run: "Insert s st = (Inr i, st')"
  shows "wf_sessions (db st')" "abs_sessions (db st) i = None"
    "abs_sessions (db st') = (abs_sessions (db st))(i \<mapsto> stored_session i s)"
proof -
  let ?rs = "t_sessions (db st)"
  have eq: "i = next_rowid (map se_id ?rs)" "token_hash s \<notin> se_hash ` set ?rs"
    "t_sessions (db st') = ?rs @ [\<lparr>se_id = i, se_username = sess_username s, se_hash = token_hash s,
        se_created = unix (created_at s), se_last_seen = unix (last_seen_at s),
        se_expires = unix (expires_at s)\<rparr>]"
    using session_stmt_Inr [OF run [unfolded Insert_def]]
    unfolding insert_session_stmt_Inr by simp_all
  have fresh: "i \<notin> se_id ` set ?rs"
    using next_rowid_fresh [of "map se_id ?rs"] by (simp add: eq(1))
  then show "wf_sessions (db st')" using wf eq(2,3) by (simp add: wf_sessions_def)
  have none: "find (\<lambda>r. se_id r = i) ?rs = None" using fresh by (simp add: find_session_None)
  then show "abs_sessions (db st) i = None" by (simp add: abs_sessions_def)
  show "abs_sessions (db st') = (abs_sessions (db st))(i \<mapsto> stored_session i s)"
    using none by (auto simp: abs_sessions_def eq(3) find_session_append fun_eq_iff
        scanSession_def stored_session_def split: option.splits)
qed

lemma Insert_Inl: "Insert s st = (Inl e, st') \<Longrightarrow> db st' = db st \<and> e = AuthDriver ''insert session''"
  unfolding Insert_def
  by (drule session_stmt_Inl) (auto simp: insert_session_stmt_def Let_def split: if_splits)

lemma ByTokenHash_db: "ByTokenHash h st = (r, st') \<Longrightarrow> db st' = db st"
proof (cases r)
  case (Inr s)
  assume "ByTokenHash h st = (r, st')"
  with Inr show ?thesis
    unfolding ByTokenHash_def by (auto dest!: session_stmt_Inr split: option.splits)
qed (auto simp: ByTokenHash_def dest: session_stmt_Inl)

lemma ByTokenHash_Inr:
  assumes wf: "wf_sessions (db st)" and run: "ByTokenHash h st = (Inr s, st')"
  shows "abs_sessions (db st) (sess_id s) = Some s \<and> token_hash s = h"
proof -
  obtain r where "find (\<lambda>r. se_hash r = h) (t_sessions (db st)) = Some r" "s = scanSession r"
    using session_stmt_Inr [OF run [unfolded ByTokenHash_def]] by (auto split: option.splits)
  then show ?thesis by (auto simp: abs_sessions_Some [OF wf] find_Some_iff)
qed

lemma ByTokenHash_not_found:
  assumes wf: "wf_sessions (db st)" and run: "ByTokenHash h st = (Inl ErrNotFound, st')"
  shows "abs_sessions (db st) i = Some s \<Longrightarrow> token_hash s \<noteq> h"
  using session_stmt_Inl [OF run [unfolded ByTokenHash_def]]
  by (auto simp: abs_sessions_Some [OF wf] find_None_iff split: option.splits)

lemma Touch_Inr:
  assumes wf: "wf_sessions (db st)" and run: "Touch i l e st = (Inr u, st')"
  shows "wf_sessions (db st')"
    "abs_sessions (db st') j = (if j = i then map_option (\<lambda>s. s\<lparr>last_seen_at := of_unix (unix l),
        expires_at := of_unix (unix e)\<rparr>) (abs_sessions (db st) i) else abs_sessions (db st) j)"
proof -
  let ?f = "touch_row i (unix l) (unix e)"
  have eq: "t_sessions (db st') = map ?f (t_sessions (db st))"
    using session_stmt_total(2) [OF run [unfolded Touch_def]] by simp
  then show "wf_sessions (db st')" using wf by (simp add: wf_sessions_def)
  have same: "find (\<lambda>r. se_id r = j) (map ?f rs) = map_option ?f (find (\<lambda>r. se_id r = j) rs)"
    for rs :: "session_row list" by (induction rs) auto
  show "abs_sessions (db st') j = (if j = i then map_option (\<lambda>s. s\<lparr>last_seen_at := of_unix (unix l),
        expires_at := of_unix (unix e)\<rparr>) (abs_sessions (db st) i) else abs_sessions (db st) j)"
  proof (cases "find (\<lambda>r. se_id r = j) (t_sessions (db st))")
    case (Some r)
    then have "se_id r = j" by (auto simp: find_Some_iff)
    then have "scanSession (?f r) = (if j = i then (scanSession r)\<lparr>last_seen_at := of_unix (unix l),
        expires_at := of_unix (unix e)\<rparr> else scanSession r)"
      by (simp add: touch_row_def scanSession_def)
    with Some same show ?thesis by (cases "j = i") (simp_all add: abs_sessions_def eq)
  qed (auto simp: abs_sessions_def eq same)
qed

text \<open>Every DELETE keeps exactly the sessions its WHERE clause does not name.\<close>

lemma abs_delete_sessions:
  assumes wf: "wf_sessions t" and del: "delete_sessions p t = (n, t')"
  shows "wf_sessions t'"
    "abs_sessions t' i = Some s \<longleftrightarrow>
       (\<exists>r \<in> set (t_sessions t). \<not> p r \<and> se_id r = i \<and> s = scanSession r)"
    "n = card {r \<in> set (t_sessions t). p r}"
proof -
  have t': "t_sessions t' = filter (\<lambda>r. \<not> p r) (t_sessions t)" "n = length (filter p (t_sessions t))"
    using del by (auto simp: delete_sessions_def)
  show wf': "wf_sessions t'" using wf by (simp add: wf_sessions_def t' distinct_map_filter)
  show "abs_sessions t' i = Some s \<longleftrightarrow>
       (\<exists>r \<in> set (t_sessions t). \<not> p r \<and> se_id r = i \<and> s = scanSession r)"
    by (auto simp: abs_sessions_Some [OF wf'] t')
  have "distinct (filter p (t_sessions t))" using wf by (simp add: wf_sessions_def distinct_map)
  then show "n = card {r \<in> set (t_sessions t). p r}" using t'(2) distinct_card by fastforce
qed

lemma Delete_Inr:
  assumes wf: "wf_sessions (db st)" and run: "Delete i st = (Inr u, st')"
  shows "wf_sessions (db st')" "abs_sessions (db st') = (abs_sessions (db st))(i := None)"
proof -
  let ?p = "\<lambda>r. se_id r = i"
  have "db st' = snd (delete_sessions ?p (db st))"
    using session_stmt_total(2) [OF run [unfolded Delete_def]] by simp
  then have del: "delete_sessions ?p (db st) = (fst (delete_sessions ?p (db st)), db st')" by simp
  show "wf_sessions (db st')" by (rule abs_delete_sessions(1) [OF wf del])
  show "abs_sessions (db st') = (abs_sessions (db st))(i := None)"
    by (rule map_ext_Some) (auto simp: abs_delete_sessions(2) [OF wf del] abs_sessions_Some [OF wf])
qed

lemma Delete_db: "Delete i st = (Inl e, st') \<Longrightarrow> db st' = db st"
  "Touch i a b st = (Inl e, st') \<Longrightarrow> db st' = db st"
  by (auto simp: Delete_def Touch_def dest: session_stmt_Inl)

lemma Delete_not_found:
  "Delete i st \<noteq> (Inl ErrNotFound, st')" "Touch i a b st \<noteq> (Inl ErrNotFound, st')"
  "Insert s st \<noteq> (Inl ErrNotFound, st')"
  by (auto simp: Delete_def Touch_def dest!: session_stmt_Inl Insert_Inl)

lemma abs_session_id: "abs_sessions t i = Some s \<Longrightarrow> sess_id s = i"
  by (auto simp: abs_sessions_def find_Some_iff)

text \<open>Session hashes are unique in a well-formed table.\<close>

lemma abs_session_hash_unique:
  assumes "wf_sessions t" "abs_sessions t i = Some s" "abs_sessions t j = Some s'"
    "token_hash s = token_hash s'"
  shows "i = j"
proof -
  have "inj_on se_hash (set (t_sessions t))" using assms(1) by (simp add: wf_sessions_def distinct_map)
  moreover obtain r r' where r: "r \<in> set (t_sessions t)" "r' \<in> set (t_sessions t)"
    "se_id r = i" "se_id r' = j" "s = scanSession r" "s' = scanSession r'"
    using assms(2,3) unfolding abs_sessions_Some [OF assms(1)] by blast
  ultimately have "r = r'" using assms(4) by (simp add: inj_on_def)
  with r(3,4) show ?thesis by simp
qed

lemma DeleteExpired_Inr:
  assumes wf: "wf_sessions (db st)" and run: "DeleteExpired now st = (Inr n, st')"
  shows "wf_sessions (db st')"
    "abs_sessions (db st') i = Some s \<longleftrightarrow> abs_sessions (db st) i = Some s \<and> now < expires_at s"
proof -
  have del: "delete_sessions (\<lambda>r. se_expires r \<le> unix now) (db st) = (n, db st')"
    by (rule session_stmt_total(1) [OF run [unfolded DeleteExpired_def]])
  show "wf_sessions (db st')" by (rule abs_delete_sessions(1) [OF wf del])
  show "abs_sessions (db st') i = Some s \<longleftrightarrow> abs_sessions (db st) i = Some s \<and> now < expires_at s"
    unfolding abs_delete_sessions(2) [OF wf del]
    by (auto simp: abs_sessions_Some [OF wf] not_le unix_less_iff)
qed

lemma DeleteOthers_Inr:
  assumes wf: "wf_sessions (db st)" and run: "DeleteOthers u keep st = (Inr n, st')"
  shows "wf_sessions (db st')"
    "abs_sessions (db st') i = Some s \<longleftrightarrow>
       abs_sessions (db st) i = Some s \<and> (sess_username s = u \<longrightarrow> i = keep)"
proof -
  have del: "delete_sessions (\<lambda>r. se_username r = u \<and> se_id r \<noteq> keep) (db st) = (n, db st')"
    by (rule session_stmt_total(1) [OF run [unfolded DeleteOthers_def]])
  show "wf_sessions (db st')" by (rule abs_delete_sessions(1) [OF wf del])
  show "abs_sessions (db st') i = Some s \<longleftrightarrow>
       abs_sessions (db st) i = Some s \<and> (sess_username s = u \<longrightarrow> i = keep)"
    unfolding abs_delete_sessions(2) [OF wf del]
    by (auto simp: abs_sessions_Some [OF wf])
qed

lemma DeleteByUser_Inr:
  assumes wf: "wf_sessions (db st)" and run: "DeleteByUser u i st = (Inr b, st')"
  shows "wf_sessions (db st')"
    "b \<longleftrightarrow> (\<exists>s. abs_sessions (db st) i = Some s \<and> sess_username s = u)"
    "abs_sessions (db st') = (if b then (abs_sessions (db st))(i := None) else abs_sessions (db st))"
proof -
  let ?p = "\<lambda>r. se_id r = i \<and> se_username r = u"
  obtain n where del: "delete_sessions ?p (db st) = (n, db st')" and b: "b = (0 < n)"
    using session_stmt_Inr [OF run [unfolded DeleteByUser_def]] by (auto split: prod.splits)
  show "wf_sessions (db st')" by (rule abs_delete_sessions(1) [OF wf del])
  have "n = 0 \<longleftrightarrow> {r \<in> set (t_sessions (db st)). ?p r} = {}"
    unfolding abs_delete_sessions(3) [OF wf del] by (rule card_0_eq) simp
  then have b_iff: "b \<longleftrightarrow> (\<exists>r \<in> set (t_sessions (db st)). ?p r)" unfolding b by auto
  then show "b \<longleftrightarrow> (\<exists>s. abs_sessions (db st) i = Some s \<and> sess_username s = u)"
    unfolding abs_sessions_Some [OF wf] by auto
  show "abs_sessions (db st') = (if b then (abs_sessions (db st))(i := None) else abs_sessions (db st))"
    by (rule map_ext_Some)
       (auto simp: b_iff abs_delete_sessions(2) [OF wf del] abs_sessions_Some [OF wf]
          dest: session_row_unique [OF wf])
qed

end
