(* ===== verification/Auth.thy ===== *)
theory Auth
  imports AuthToken StoreSessions "HOL-Library.Signed_Division"
begin

text \<open>
  internal/auth: the session manager and the middleware over it. The manager uses its store
  through the interface auth.SessionStore, here the record \<open>session_store\<close>; the locale
  \<open>session_store_laws\<close> states what that interface promises, the manager is verified against
  it, and the interpretation at the end discharges it for the SQLite store.
\<close>

section \<open>Model\<close>

text \<open>auth.SessionStore, over a state \<open>'s\<close>.\<close>

record 's session_store =
  ss_Insert :: "session \<Rightarrow> 's \<Rightarrow> (auth_error + id) \<times> 's"
  ss_ByTokenHash :: "bytes \<Rightarrow> 's \<Rightarrow> (auth_error + session) \<times> 's"
  ss_Touch :: "id \<Rightarrow> time \<Rightarrow> time \<Rightarrow> 's \<Rightarrow> (auth_error + unit) \<times> 's"
  ss_Delete :: "id \<Rightarrow> 's \<Rightarrow> (auth_error + unit) \<times> 's"
  ss_ListByUser :: "string \<Rightarrow> 's \<Rightarrow> (auth_error + session list) \<times> 's"
  ss_DeleteByUser :: "string \<Rightarrow> id \<Rightarrow> 's \<Rightarrow> (auth_error + bool) \<times> 's"
  ss_DeleteOthers :: "string \<Rightarrow> id \<Rightarrow> 's \<Rightarrow> (auth_error + nat) \<times> 's"
  ss_DeleteExpired :: "time \<Rightarrow> 's \<Rightarrow> (auth_error + nat) \<times> 's"

definition DefaultLifetime :: duration where "DefaultLifetime = 30 * 24 * hour"

text \<open>The manager's fixed part. Its clock and random source are arguments of each call.\<close>

record 's manager =
  m_store :: "'s session_store"
  m_secure :: bool
  m_lifetime :: duration

definition New :: "'s session_store \<Rightarrow> bool \<Rightarrow> duration \<Rightarrow> 's manager" where
  "New S sec lifetime =
     \<lparr>m_store = S, m_secure = sec,
      m_lifetime = (if lifetime = 0 then DefaultLifetime else lifetime)\<rparr>"

definition Issue ::
  "(bytes \<Rightarrow> bytes) \<Rightarrow> 's manager \<Rightarrow> bytes option \<Rightarrow> time \<Rightarrow> string \<Rightarrow> 's \<Rightarrow>
     (auth_error + string \<times> session) \<times> 's" where
  "Issue sha m rnd now username st =
     (case newToken sha rnd of
        None \<Rightarrow> (Inl (AuthDriver ''rand''), st)
      | Some (raw, hash) \<Rightarrow>
          (let s = \<lparr>sess_id = 0, sess_username = username, token_hash = hash, created_at = now,
                    last_seen_at = now, expires_at = now + m_lifetime m\<rparr>
           in case ss_Insert (m_store m) s st of
                (Inl e, st') \<Rightarrow> (Inl e, st')
              | (Inr i, st') \<Rightarrow> (Inr (raw, s\<lparr>sess_id := i\<rparr>), st')))"

definition Authenticate ::
  "(bytes \<Rightarrow> bytes) \<Rightarrow> 's manager \<Rightarrow> time \<Rightarrow> string \<Rightarrow> 's \<Rightarrow> (auth_error + session) \<times> 's" where
  "Authenticate sha m now raw st =
     (case hashToken sha raw of
        None \<Rightarrow> (Inl ErrNoSession, st)
      | Some hash \<Rightarrow>
          (case ss_ByTokenHash (m_store m) hash st of
             (Inl e, st1) \<Rightarrow> (Inl (if e = ErrNotFound then ErrNoSession else e), st1)
           | (Inr s, st1) \<Rightarrow>
               if \<not> expires_at s > now
               then (case ss_Delete (m_store m) (sess_id s) st1 of
                       (Inl e, st2) \<Rightarrow> (Inl e, st2)
                     | (Inr _, st2) \<Rightarrow> (Inl ErrNoSession, st2))
               else (let s' = s\<lparr>last_seen_at := now, expires_at := now + m_lifetime m\<rparr>
                     in case ss_Touch (m_store m) (sess_id s') (last_seen_at s') (expires_at s') st1 of
                          (Inl e, st2) \<Rightarrow> (Inl e, st2)
                        | (Inr _, st2) \<Rightarrow> (Inr s', st2))))"

text \<open>\<open>RunSweeper\<close>: what the loop does at each tick of its timer.\<close>

fun sweep_ticks :: "'s manager \<Rightarrow> time list \<Rightarrow> 's \<Rightarrow> 's" where
  "sweep_ticks m [] st = st"
| "sweep_ticks m (now # ticks) st = sweep_ticks m ticks (snd (ss_DeleteExpired (m_store m) now st))"

subsection \<open>Cookies and the middleware\<close>

definition CookieName :: string where "CookieName = ''adguard_reward_session''"

datatype same_site = SameSiteStrictMode

record cookie =
  ck_name :: string
  ck_value :: string
  ck_path :: string
  ck_max_age :: int
  ck_http_only :: bool
  ck_secure :: bool
  ck_same_site :: same_site

definition Cookie :: "'s manager \<Rightarrow> string \<Rightarrow> cookie" where
  "Cookie m raw = \<lparr>ck_name = CookieName, ck_value = raw, ck_path = ''/'',
     ck_max_age = m_lifetime m sdiv second, ck_http_only = True, ck_secure = m_secure m,
     ck_same_site = SameSiteStrictMode\<rparr>"

definition ClearCookie :: "'s manager \<Rightarrow> cookie" where
  "ClearCookie m = (Cookie m [])\<lparr>ck_max_age := - 1\<rparr>"

text \<open>
  The Set-Cookie lines of the response. \<open>render\<close> is net/http's \<open>Cookie.String\<close>, of which only
  the leading \<open>name=\<close> matters here.
\<close>

definition is_session_line :: "string \<Rightarrow> bool" where
  "is_session_line v \<longleftrightarrow>
     length v > length CookieName \<and> take (length CookieName + 1) v = CookieName @ ''=''"

definition dropSessionCookie :: "string list \<Rightarrow> string list" where
  "dropSessionCookie lines = filter (\<lambda>v. \<not> is_session_line v) lines"

definition SetCookie :: "(cookie \<Rightarrow> string) \<Rightarrow> cookie \<Rightarrow> string list \<Rightarrow> string list" where
  "SetCookie render c lines = dropSessionCookie lines @ [render c]"

definition Clear :: "(cookie \<Rightarrow> string) \<Rightarrow> 's manager \<Rightarrow> string list \<Rightarrow> string list" where
  "Clear render m lines = SetCookie render (ClearCookie m) lines"

text \<open>What \<open>RequireSession\<close> does with a request: answer it, or pass it on with its session.\<close>

datatype gate_outcome = Refused nat string | Served session

definition RequireSession ::
  "(bytes \<Rightarrow> bytes) \<Rightarrow> (cookie \<Rightarrow> string) \<Rightarrow> 's manager \<Rightarrow> time \<Rightarrow> string option \<Rightarrow> string list \<Rightarrow> 's \<Rightarrow>
     gate_outcome \<times> string list \<times> 's" where
  "RequireSession sha render m now presented lines st =
     (case presented of
        None \<Rightarrow> (Refused 401 ''unauthorized'', lines, st)
      | Some raw \<Rightarrow>
          (case Authenticate sha m now raw st of
             (Inl e, st') \<Rightarrow>
               if e = ErrNoSession
               then (Refused 401 ''unauthorized'', Clear render m lines, st')
               else (Refused 500 ''internal'', lines, st')
           | (Inr s, st') \<Rightarrow> (Served s, SetCookie render (Cookie m raw) lines, st')))"

section \<open>The contract of the store\<close>

text \<open>
  \<open>view\<close> is the map of sessions a state holds. Every operation either fails, leaving the map
  alone, or does to it what its comment in auth.go says.
\<close>

locale session_store_laws =
  fixes S :: "'s session_store" and view :: "'s \<Rightarrow> id \<Rightarrow> session option" and ok :: "'s \<Rightarrow> bool"
  assumes insert_ok: "ok st \<Longrightarrow> ss_Insert S s st = (Inr i, st') \<Longrightarrow>
      ok st' \<and> view st i = None \<and> view st' = (view st)(i \<mapsto> stored_session i s)"
    and insert_err: "ok st \<Longrightarrow> ss_Insert S s st = (Inl x, st') \<Longrightarrow> ok st' \<and> view st' = view st \<and> x \<noteq> ErrNotFound \<and> x \<noteq> ErrNoSession"
    and by_hash_view: "ok st \<Longrightarrow> ss_ByTokenHash S h st = (r, st') \<Longrightarrow> ok st' \<and> view st' = view st \<and> r \<noteq> Inl ErrNoSession"
    and by_hash_found: "ok st \<Longrightarrow> ss_ByTokenHash S h st = (Inr s, st') \<Longrightarrow>
      view st (sess_id s) = Some s \<and> token_hash s = h"
    and by_hash_none: "ok st \<Longrightarrow> ss_ByTokenHash S h st = (Inl ErrNotFound, st') \<Longrightarrow>
      view st i = Some s \<Longrightarrow> token_hash s \<noteq> h"
    and touch_ok: "ok st \<Longrightarrow> ss_Touch S i l e st = (Inr u, st') \<Longrightarrow> view st i = Some s \<Longrightarrow>
      ok st' \<and> view st' = (view st)(i \<mapsto> s\<lparr>last_seen_at := of_unix (unix l), expires_at := of_unix (unix e)\<rparr>)"
    and touch_err: "ok st \<Longrightarrow> ss_Touch S i l e st = (Inl x, st') \<Longrightarrow> ok st' \<and> view st' = view st \<and> x \<noteq> ErrNotFound \<and> x \<noteq> ErrNoSession"
    and delete_ok: "ok st \<Longrightarrow> ss_Delete S i st = (Inr u, st') \<Longrightarrow> ok st' \<and> view st' = (view st)(i := None)"
    and delete_err: "ok st \<Longrightarrow> ss_Delete S i st = (Inl x, st') \<Longrightarrow> ok st' \<and> view st' = view st \<and> x \<noteq> ErrNotFound \<and> x \<noteq> ErrNoSession"
    and delete_expired: "ok st \<Longrightarrow> ss_DeleteExpired S now st = (n, st') \<Longrightarrow>
      ok st' \<and> (if is_ok n then view st' = (\<lambda>i. case view st i of None \<Rightarrow> None | Some s \<Rightarrow> if now < expires_at s then Some s else None)
                else view st' = view st)"
    and hash_unique: "ok st \<Longrightarrow> view st i = Some s \<Longrightarrow> view st j = Some s' \<Longrightarrow> token_hash s = token_hash s' \<Longrightarrow> i = j"
begin

text \<open>A token opens a session only while a session with its hash is stored and unexpired.\<close>

lemma authenticate_sound:
  assumes "ok st" "m_store m = S" "Authenticate sha m now raw st = (Inr s', st')"
  obtains b s where "length b = tokenBytes" "raw = EncodeToString b"
    "view st (sess_id s) = Some s" "token_hash s = sha b" "now < expires_at s"
    "s' = s\<lparr>last_seen_at := now, expires_at := now + m_lifetime m\<rparr>" "ok st'"
    "view st' = (view st)(sess_id s \<mapsto> s\<lparr>last_seen_at := of_unix (unix now),
        expires_at := of_unix (unix (now + m_lifetime m))\<rparr>)"
proof -
  obtain h s st1 u where h: "hashToken sha raw = Some h" "ss_ByTokenHash S h st = (Inr s, st1)"
    "now < expires_at s" "s' = s\<lparr>last_seen_at := now, expires_at := now + m_lifetime m\<rparr>"
    "ss_Touch S (sess_id s) now (now + m_lifetime m) st1 = (Inr u, st')"
    using assms(2,3)
    by (auto simp: Authenticate_def Let_def not_less split: option.splits prod.splits sum.splits if_splits)
  have 1: "ok st1" "view st1 = view st" using by_hash_view [OF assms(1) h(2)] by simp_all
  have 2: "view st (sess_id s) = Some s" "token_hash s = h" using by_hash_found [OF assms(1) h(2)] by simp_all
  have 3: "ok st'" "view st' = (view st)(sess_id s \<mapsto> s\<lparr>last_seen_at := of_unix (unix now),
        expires_at := of_unix (unix (now + m_lifetime m))\<rparr>)"
    using touch_ok [OF 1(1) h(5), of s] 1(2) 2(1) by simp_all
  obtain b where "length b = tokenBytes" "raw = EncodeToString b" "h = sha b"
    using h(1) by (auto simp: hashToken_Some)
  with 2 3 h(3,4) that show thesis by blast
qed

text \<open>
  A refusal is final: the token is malformed, its hash is not stored, or the session it names
  has expired; and no other session is touched.
\<close>

lemma authenticate_refused:
  assumes "ok st" "m_store m = S" "Authenticate sha m now raw st = (Inl ErrNoSession, st')"
  shows "ok st' \<and> (\<forall>i s. view st i = Some s \<longrightarrow>
    (if hashToken sha raw = Some (token_hash s) then expires_at s \<le> now \<and> view st' i = None
     else view st' i = Some s))"
proof (cases "hashToken sha raw")
  case None
  with assms show ?thesis by (simp add: Authenticate_def)
next
  case (Some h)
  obtain r st1 where look: "ss_ByTokenHash S h st = (r, st1)" by (cases "ss_ByTokenHash S h st")
  note st1 = by_hash_view [OF assms(1) look]
  show ?thesis
  proof (cases r)
    case (Inl e)
    with Some look assms(2,3) have "(if e = ErrNotFound then ErrNoSession else e) = ErrNoSession" "st' = st1"
      by (simp_all add: Authenticate_def)
    then have "e = ErrNotFound" using st1 Inl by (auto split: if_splits)
    with Some look Inl st1 \<open>st' = st1\<close> show ?thesis using by_hash_none [OF assms(1)] by auto
  next
    case (Inr s1)
    note found = by_hash_found [OF assms(1) look [unfolded Inr]]
    show ?thesis
    proof (cases "now < expires_at s1")
      case True
      obtain q st2 where touch: "ss_Touch S (sess_id s1) now (now + m_lifetime m) st1 = (q, st2)"
        by (cases "ss_Touch S (sess_id s1) now (now + m_lifetime m) st1")
      then have "q = Inl ErrNoSession"
        using True Some look Inr assms(2,3) by (cases q) (simp_all add: Authenticate_def Let_def)
      with touch touch_err st1 show ?thesis by metis
    next
      case False
      obtain q st2 where del: "ss_Delete S (sess_id s1) st1 = (q, st2)"
        by (cases "ss_Delete S (sess_id s1) st1")
      have q: "is_ok q" "st' = st2"
        using del delete_err [of st1] st1 False Some look Inr assms(2,3)
        by (cases q; auto simp: Authenticate_def Let_def)+
      then obtain u where "q = Inr u" by (auto elim: is_okE)
      with delete_ok [of st1] del st1 have "ok st2" "view st2 = (view st)(sess_id s1 := None)" by auto
      note st2 = this
      show ?thesis
      proof (intro conjI allI impI)
        show "ok st'" using st2 q(2) by simp
        fix i s assume i: "view st i = Some s"
        show "if hashToken sha raw = Some (token_hash s) then expires_at s \<le> now \<and> view st' i = None
          else view st' i = Some s"
        proof (cases "token_hash s = h")
          case True
          then have "i = sess_id s1" using hash_unique [OF assms(1) i, of "sess_id s1" s1] found by simp
          with i found have "s = s1" by simp
          with True \<open>i = sess_id s1\<close> Some False st2 q(2) show ?thesis by simp
        next
          case ne: False
          then have "i \<noteq> sess_id s1" using i found by auto
          with ne i Some st2 q(2) show ?thesis by auto
        qed
      qed
    qed
  qed
qed

text \<open>A token just issued opens its session until the expiry that was stored for it.\<close>

lemma issue_ok:
  assumes "ok st" "m_store m = S" "Issue sha m (Some b) now u st = (Inr (raw, s), st')"
  shows "ok st'" "raw = EncodeToString b" "view st (sess_id s) = None"
    "view st' = (view st)(sess_id s \<mapsto> stored_session (sess_id s) s)"
    "s = \<lparr>sess_id = sess_id s, sess_username = u, token_hash = sha b, created_at = now,
          last_seen_at = now, expires_at = now + m_lifetime m\<rparr>"
proof -
  define s0 where "s0 = \<lparr>sess_id = 0, sess_username = u, token_hash = sha b, created_at = now,
                    last_seen_at = now, expires_at = now + m_lifetime m\<rparr>"
  obtain i where i: "ss_Insert S s0 st = (Inr i, st')" "raw = EncodeToString b" "s = s0\<lparr>sess_id := i\<rparr>"
    using assms(2,3) by (auto simp: Issue_def newToken_def Let_def s0_def split: prod.splits sum.splits)
  have "stored_session i s0 = stored_session (sess_id s) s" "i = sess_id s"
    by (simp_all add: i(3) stored_session_def)
  with insert_ok [OF assms(1) i(1)] i(2)
  show "ok st'" "raw = EncodeToString b" "view st (sess_id s) = None"
    "view st' = (view st)(sess_id s \<mapsto> stored_session (sess_id s) s)" by simp_all
  show "s = \<lparr>sess_id = sess_id s, sess_username = u, token_hash = sha b, created_at = now,
          last_seen_at = now, expires_at = now + m_lifetime m\<rparr>" by (simp add: i(3) s0_def)
qed

lemma sweep_view:
  assumes "ok st" "m_store m = S"
  shows "ok (sweep_ticks m ticks st) \<and>
    (view (sweep_ticks m ticks st) i = None \<or> view (sweep_ticks m ticks st) i = view st i) \<and>
    (view st i = Some s \<longrightarrow> (\<forall>now \<in> set ticks. now < expires_at s) \<longrightarrow>
       view (sweep_ticks m ticks st) i = Some s)"
  using assms(1)
proof (induction ticks arbitrary: st)
  case Nil
  then show ?case by simp
next
  case (Cons now ticks)
  obtain r st1 where r: "ss_DeleteExpired S now st = (r, st1)" by (cases "ss_DeleteExpired S now st")
  note one = delete_expired [OF Cons.prems r]
  then have "ok st1" "view st1 i = None \<or> view st1 i = view st i"
    "view st i = Some s \<Longrightarrow> now < expires_at s \<Longrightarrow> view st1 i = Some s"
    by (auto split: if_splits option.splits)
  with Cons.IH [of st1] r assms(2) show ?case by auto
qed

end

section \<open>The SQLite store keeps the contract\<close>

definition sqlite_sessions :: "store session_store" where
  "sqlite_sessions = \<lparr>ss_Insert = Insert, ss_ByTokenHash = ByTokenHash, ss_Touch = Touch,
     ss_Delete = Delete, ss_ListByUser = ListByUser, ss_DeleteByUser = DeleteByUser,
     ss_DeleteOthers = DeleteOthers, ss_DeleteExpired = DeleteExpired\<rparr>"

lemma sqlite_delete_expired:
  assumes "wf_sessions (db st)" "DeleteExpired now st = (r, st')"
  shows "wf_sessions (db st') \<and> (if is_ok r
    then abs_sessions (db st') = (\<lambda>i. case abs_sessions (db st) i of None \<Rightarrow> None
           | Some s \<Rightarrow> if now < expires_at s then Some s else None)
    else abs_sessions (db st') = abs_sessions (db st))"
proof (cases r)
  case (Inl e)
  with assms show ?thesis
    by (auto simp: DeleteExpired_def dest: session_stmt_Inl)
next
  case (Inr n)
  note ok = DeleteExpired_Inr [OF assms(1) assms(2) [unfolded Inr]]
  have "abs_sessions (db st') = (\<lambda>i. case abs_sessions (db st) i of None \<Rightarrow> None
           | Some s \<Rightarrow> if now < expires_at s then Some s else None)"
    by (rule map_ext_Some) (auto simp: ok(2) split: option.splits)
  with ok(1) Inr show ?thesis by simp
qed

lemma sqlite_touch:
  assumes "wf_sessions (db st)" "Touch i l e st = (Inr u, st')" "abs_sessions (db st) i = Some s"
  shows "wf_sessions (db st') \<and> abs_sessions (db st') =
    (abs_sessions (db st))(i \<mapsto> s\<lparr>last_seen_at := of_unix (unix l), expires_at := of_unix (unix e)\<rparr>)"
  using Touch_Inr [OF assms(1,2)] assms(3) by (auto simp: fun_eq_iff)

lemma by_hash_no_session: "ByTokenHash h st \<noteq> (Inl ErrNoSession, st')"
  "Delete i st \<noteq> (Inl ErrNoSession, st')" "Touch i a b st \<noteq> (Inl ErrNoSession, st')"
  "Insert s st \<noteq> (Inl ErrNoSession, st')"
  by (auto simp: ByTokenHash_def Delete_def Touch_def dest!: session_stmt_Inl Insert_Inl split: option.splits)

interpretation sqlite: session_store_laws sqlite_sessions "\<lambda>st. abs_sessions (db st)" "\<lambda>st. wf_sessions (db st)"
proof unfold_locales
  fix st st' :: store and s s' i j h l e u x r n now
  assume wf: "wf_sessions (db st)"
  show "ss_Insert sqlite_sessions s st = (Inr i, st') \<Longrightarrow> wf_sessions (db st') \<and>
      abs_sessions (db st) i = None \<and> abs_sessions (db st') = (abs_sessions (db st))(i \<mapsto> stored_session i s)"
    using Insert_Inr [OF wf] by (simp add: sqlite_sessions_def)
  show "ss_Insert sqlite_sessions s st = (Inl x, st') \<Longrightarrow> wf_sessions (db st') \<and>
      abs_sessions (db st') = abs_sessions (db st) \<and> x \<noteq> ErrNotFound \<and> x \<noteq> ErrNoSession"
    using wf by (auto simp: sqlite_sessions_def dest: Insert_Inl)
  show "ss_ByTokenHash sqlite_sessions h st = (r, st') \<Longrightarrow> wf_sessions (db st') \<and>
      abs_sessions (db st') = abs_sessions (db st) \<and> r \<noteq> Inl ErrNoSession"
    using wf ByTokenHash_db [of h st r st'] by_hash_no_session(1) by (auto simp: sqlite_sessions_def)
  show "ss_ByTokenHash sqlite_sessions h st = (Inr s, st') \<Longrightarrow>
      abs_sessions (db st) (sess_id s) = Some s \<and> token_hash s = h"
    using ByTokenHash_Inr [OF wf] by (simp add: sqlite_sessions_def)
  show "ss_ByTokenHash sqlite_sessions h st = (Inl ErrNotFound, st') \<Longrightarrow>
      abs_sessions (db st) i = Some s \<Longrightarrow> token_hash s \<noteq> h"
    using ByTokenHash_not_found [OF wf] by (simp add: sqlite_sessions_def)
  show "ss_Touch sqlite_sessions i l e st = (Inr u, st') \<Longrightarrow> abs_sessions (db st) i = Some s \<Longrightarrow>
      wf_sessions (db st') \<and> abs_sessions (db st') = (abs_sessions (db st))(i \<mapsto>
        s\<lparr>last_seen_at := of_unix (unix l), expires_at := of_unix (unix e)\<rparr>)"
    using sqlite_touch [OF wf] by (simp add: sqlite_sessions_def)
  show "ss_Touch sqlite_sessions i l e st = (Inl x, st') \<Longrightarrow> wf_sessions (db st') \<and>
      abs_sessions (db st') = abs_sessions (db st) \<and> x \<noteq> ErrNotFound \<and> x \<noteq> ErrNoSession"
    using wf Delete_db(2) [of i l e st x st'] Delete_not_found(2) by_hash_no_session(3)
    by (auto simp: sqlite_sessions_def)
  show "ss_Delete sqlite_sessions i st = (Inr u, st') \<Longrightarrow> wf_sessions (db st') \<and>
      abs_sessions (db st') = (abs_sessions (db st))(i := None)"
    using Delete_Inr [OF wf] by (simp add: sqlite_sessions_def)
  show "ss_Delete sqlite_sessions i st = (Inl x, st') \<Longrightarrow> wf_sessions (db st') \<and>
      abs_sessions (db st') = abs_sessions (db st) \<and> x \<noteq> ErrNotFound \<and> x \<noteq> ErrNoSession"
    using wf Delete_db(1) [of i st x st'] Delete_not_found(1) by_hash_no_session(2)
    by (auto simp: sqlite_sessions_def)
  show "ss_DeleteExpired sqlite_sessions now st = (n, st') \<Longrightarrow> wf_sessions (db st') \<and>
      (if is_ok n then abs_sessions (db st') = (\<lambda>i. case abs_sessions (db st) i of None \<Rightarrow> None
           | Some s \<Rightarrow> if now < expires_at s then Some s else None)
       else abs_sessions (db st') = abs_sessions (db st))"
    using sqlite_delete_expired [OF wf] by (simp add: sqlite_sessions_def)
  show "abs_sessions (db st) i = Some s \<Longrightarrow> abs_sessions (db st) j = Some s' \<Longrightarrow>
      token_hash s = token_hash s' \<Longrightarrow> i = j"
    by (rule abs_session_hash_unique [OF wf])
qed

end
