(* ===== verification/AuthProps.thy ===== *)
theory AuthProps
  imports Auth
begin

text \<open>
  What the session manager promises over the SQLite store: the contract's lemmas at the
  interpretation \<open>sqlite\<close>, and what the middleware leaves of the response's cookies.
\<close>

section \<open>Runs without a driver failure\<close>

lemma session_stmt_faults: "faults st = [] \<Longrightarrow> session_stmt op fn st = (r, st') \<Longrightarrow> faults st' = []"
  by (auto simp: session_stmt_no_fault split: sum.splits prod.splits)

lemma ByTokenHash_no_fault:
  assumes "faults st = []" "ByTokenHash h st = (Inl e, st')"
  shows "e = ErrNotFound"
  using assms by (auto simp: ByTokenHash_def session_stmt_no_fault split: option.splits)

lemma write_no_fault:
  assumes "faults st = []"
  shows "Touch i l x st \<noteq> (Inl e, st')" "Delete i st \<noteq> (Inl e, st')"
  using assms by (simp_all add: Touch_def Delete_def session_stmt_no_fault)

lemma Authenticate_no_fault:
  assumes "faults st = []" "m_store m = sqlite_sessions" "Authenticate sha m now raw st = (Inl e, st')"
  shows "e = ErrNoSession"
proof (cases "hashToken sha raw")
  case None
  with assms(3) show ?thesis by (simp add: Authenticate_def)
next
  case (Some h)
  obtain r st1 where look: "ByTokenHash h st = (r, st1)" by (cases "ByTokenHash h st")
  then have f: "faults st1 = []" using session_stmt_faults [OF assms(1)] unfolding ByTokenHash_def by blast
  show ?thesis
  proof (cases r)
    case (Inl x)
    with Some look ByTokenHash_no_fault [OF assms(1), of h x st1] assms(2,3) show ?thesis
      by (simp add: Authenticate_def sqlite_sessions_def)
  next
    case (Inr s)
    with Some look assms(2,3) write_no_fault [OF f] show ?thesis
      by (auto simp: Authenticate_def sqlite_sessions_def Let_def split: if_splits prod.splits sum.splits)
  qed
qed

lemma issued_opens:
  assumes wf: "wf_sessions (db st)" and m: "m_store m = sqlite_sessions"
    and issue: "Issue sha m (Some b) now u st = (Inr (raw, s), st1)" and b: "length b = tokenBytes"
    and quiet: "faults st1 = []" and later: "now2 < of_unix (unix (now + m_lifetime m))"
  shows "\<exists>s2 st2. Authenticate sha m now2 raw st1 = (Inr s2, st2) \<and> sess_id s2 = sess_id s \<and>
    sess_username s2 = u \<and> expires_at s2 = now2 + m_lifetime m"
proof -
  note iss = sqlite.issue_ok [OF wf m issue]
  define s0 where "s0 = stored_session (sess_id s) s"
  have s0: "abs_sessions (db st1) (sess_id s) = Some s0" "token_hash s0 = sha b"
    "sess_id s0 = sess_id s" "sess_username s0 = u" "expires_at s0 = of_unix (unix (now + m_lifetime m))"
    using arg_cong [OF iss(5), of token_hash] arg_cong [OF iss(5), of sess_username]
      arg_cong [OF iss(5), of expires_at] by (simp_all add: iss(4) s0_def stored_session_def)
  have h: "hashToken sha raw = Some (sha b)" using b iss(2) by (auto simp: hashToken_Some)
  obtain r st2 where run: "Authenticate sha m now2 raw st1 = (r, st2)" by (cases "Authenticate sha m now2 raw st1")
  show ?thesis
  proof (cases r)
    case (Inl e)
    then have "r = Inl ErrNoSession" using Authenticate_no_fault [OF quiet m] run by simp
    with sqlite.authenticate_refused [OF iss(1) m, of sha now2 raw st2] run s0(1)
    have "if hashToken sha raw = Some (token_hash s0) then expires_at s0 \<le> now2 else True" by auto
    with h s0(2,5) later show ?thesis by simp
  next
    case (Inr s2)
    obtain b2 s1 where s1: "raw = EncodeToString b2" "abs_sessions (db st1) (sess_id s1) = Some s1"
      "token_hash s1 = sha b2" "s2 = s1\<lparr>last_seen_at := now2, expires_at := now2 + m_lifetime m\<rparr>"
      using sqlite.authenticate_sound [OF iss(1) m run [unfolded Inr]] by metis
    have "b2 = b" using s1(1) iss(2) EncodeToString_inj by metis
    then have "sess_id s1 = sess_id s"
      using abs_session_hash_unique [OF iss(1) s1(2) s0(1)] s1(3) s0(2) by simp
    with s1(2) s0(1) have "s1 = s0" by simp
    with run Inr s1(4) s0 show ?thesis by simp
  qed
qed

section \<open>Cookies\<close>

definition session_lines :: "string list \<Rightarrow> string list" where
  "session_lines lines = filter is_session_line lines"

lemma SetCookie_lines:
  assumes "is_session_line (render c)"
  shows "session_lines (SetCookie render c lines) = [render c]"
    "filter (\<lambda>v. \<not> is_session_line v) (SetCookie render c lines) = filter (\<lambda>v. \<not> is_session_line v) lines"
  using assms by (simp_all add: session_lines_def SetCookie_def dropSessionCookie_def)

lemma RequireSession_out:
  assumes "\<And>c. ck_name c = CookieName \<Longrightarrow> is_session_line (render c)"
    and "RequireSession sha render m now presented lines st = (out, lines', st')"
  shows "filter (\<lambda>v. \<not> is_session_line v) lines' = filter (\<lambda>v. \<not> is_session_line v) lines \<and>
    (case out of
       Served s \<Rightarrow> (\<exists>raw. presented = Some raw \<and> Authenticate sha m now raw st = (Inr s, st') \<and>
         session_lines lines' = [render (Cookie m raw)])
     | Refused code msg \<Rightarrow>
         (\<forall>raw. presented = Some raw \<longrightarrow>
           (if fst (Authenticate sha m now raw st) = Inl ErrNoSession
            then code = 401 \<and> session_lines lines' = [render (ClearCookie m)]
            else code = 500 \<and> lines' = lines)) \<and>
         (presented = None \<longrightarrow> code = 401 \<and> lines' = lines \<and> st' = st))"
proof (cases presented)
  case None
  with assms(2) show ?thesis by (auto simp: RequireSession_def)
next
  case (Some raw)
  have set: "session_lines (SetCookie render c lines) = [render c]"
    "filter (\<lambda>v. \<not> is_session_line v) (SetCookie render c lines) = filter (\<lambda>v. \<not> is_session_line v) lines"
    if "c = Cookie m raw \<or> c = ClearCookie m" for c
    using that SetCookie_lines [OF assms(1)] by (auto simp: Cookie_def ClearCookie_def)
  show ?thesis
    using Some assms(2) set(1) [of "Cookie m raw"] set(1) [of "ClearCookie m"] set(2) [of "Cookie m raw"] set(2) [of "ClearCookie m"]
    by (auto simp: RequireSession_def Clear_def split: prod.splits sum.splits if_splits)
qed

section \<open>Properties\<close>

text \<open>Property C27. A presented string is accepted as a token exactly when it is the base64url encoding
  of 32 bytes, and then it hashes to the hash of those bytes: no second spelling of a token exists,
  and every token that newToken hands out is accepted.\<close>

theorem hashToken_canonical:
  "(hashToken sha raw = Some h) =
     (\<exists>b. length b = tokenBytes \<and> newToken sha (Some b) = Some (raw, h))"
  by (auto simp: hashToken_Some newToken_def)

text \<open>Property C25. Authenticate over SQLite: success needs a token whose hash is stored with an expiry after
  now, returns that session slid forward and stores the slide; a refusal with ErrNoSession means no stored,
  unexpired session has the token's hash, deletes at most the expired one it names, and leaves every other
  session as it was.\<close>

theorem Authenticate_sqlite:
  assumes wf: "wf_sessions (db st)" and m: "m_store m = sqlite_sessions"
    and run: "Authenticate sha m now raw st = (r, st')"
  shows "(\<forall>s'. r = Inr s' \<longrightarrow> wf_sessions (db st') \<and> (\<exists>b s. length b = tokenBytes \<and> raw = EncodeToString b \<and>
      abs_sessions (db st) (sess_id s) = Some s \<and> token_hash s = sha b \<and> now < expires_at s \<and>
      s' = s\<lparr>last_seen_at := now, expires_at := now + m_lifetime m\<rparr> \<and>
      abs_sessions (db st') = (abs_sessions (db st))(sess_id s \<mapsto> s\<lparr>last_seen_at := of_unix (unix now),
        expires_at := of_unix (unix (now + m_lifetime m))\<rparr>))) \<and>
    (r = Inl ErrNoSession \<longrightarrow> wf_sessions (db st') \<and> (\<forall>i s. abs_sessions (db st) i = Some s \<longrightarrow>
      (if hashToken sha raw = Some (token_hash s) then expires_at s \<le> now \<and> abs_sessions (db st') i = None
       else abs_sessions (db st') i = Some s)))"
proof (intro conjI impI allI)
  fix s' assume r: "r = Inr s'"
  from sqlite.authenticate_sound [OF wf m run [unfolded r]]
  show "wf_sessions (db st')" by metis
  from sqlite.authenticate_sound [OF wf m run [unfolded r]]
  show "\<exists>b s. length b = tokenBytes \<and> raw = EncodeToString b \<and>
      abs_sessions (db st) (sess_id s) = Some s \<and> token_hash s = sha b \<and> now < expires_at s \<and>
      s' = s\<lparr>last_seen_at := now, expires_at := now + m_lifetime m\<rparr> \<and>
      abs_sessions (db st') = (abs_sessions (db st))(sess_id s \<mapsto> s\<lparr>last_seen_at := of_unix (unix now),
        expires_at := of_unix (unix (now + m_lifetime m))\<rparr>)" by metis
qed (use sqlite.authenticate_refused [OF wf m] run in auto)

text \<open>Property C26. A token just issued opens a session of the user it was issued for, at every instant before
  the expiry stored with it, as long as the database answers.\<close>

theorem issued_session_opens:
  assumes "wf_sessions (db st)" and "m_store m = sqlite_sessions"
    and "Issue sha m (Some b) now u st = (Inr (raw, s), st1)" and "length b = tokenBytes"
    and "faults st1 = []" and "now2 < of_unix (unix (now + m_lifetime m))"
  shows "\<exists>s2 st2. Authenticate sha m now2 raw st1 = (Inr s2, st2) \<and> sess_id s2 = sess_id s \<and>
    sess_username s2 = u \<and> expires_at s2 = now2 + m_lifetime m"
  using assms by (rule issued_opens)

text \<open>RequireSession passes a request on only with the session Authenticate returned for its
  cookie, and then the response carries exactly one session cookie, the presented token again; a refused
  cookie is cleared, a store failure keeps it and is a 500, and no other Set-Cookie line is lost.\<close>

theorem RequireSession_gate:
  assumes "\<And>c. ck_name c = CookieName \<Longrightarrow> is_session_line (render c)"
    and "RequireSession sha render m now presented lines st = (out, lines', st')"
  shows "filter (\<lambda>v. \<not> is_session_line v) lines' = filter (\<lambda>v. \<not> is_session_line v) lines \<and>
    (case out of
       Served s \<Rightarrow> (\<exists>raw. presented = Some raw \<and> Authenticate sha m now raw st = (Inr s, st') \<and>
         session_lines lines' = [render (Cookie m raw)])
     | Refused code msg \<Rightarrow>
         (\<forall>raw. presented = Some raw \<longrightarrow>
           (if fst (Authenticate sha m now raw st) = Inl ErrNoSession
            then code = 401 \<and> session_lines lines' = [render (ClearCookie m)]
            else code = 500 \<and> lines' = lines)) \<and>
         (presented = None \<longrightarrow> code = 401 \<and> lines' = lines \<and> st' = st))"
  using assms by (rule RequireSession_out)

text \<open>Property C37. However often the sweeper ticks and whatever fails, it never removes a session that was
  unexpired at every tick, and never changes one.\<close>

theorem sweeper_keeps_live:
  assumes "wf_sessions (db st)" "m_store m = sqlite_sessions"
  shows "(let st' = sweep_ticks m ticks st in
     wf_sessions (db st') \<and> (abs_sessions (db st') i = None \<or> abs_sessions (db st') i = abs_sessions (db st) i) \<and>
     (\<forall>s. abs_sessions (db st) i = Some s \<and> (\<forall>now \<in> set ticks. now < expires_at s) \<longrightarrow>
        abs_sessions (db st') i = Some s))"
  using sqlite.sweep_view [OF assms] by (simp add: Let_def)

section \<open>The properties at concrete inputs\<close>

text \<open>A store without sessions, a manager over it, and a stand-in for the hash.\<close>

definition demo_sessions :: store where
  "demo_sessions = \<lparr>db = empty_tables, faults = []\<rparr>"

definition demo_manager :: "store manager" where
  "demo_manager = New sqlite_sessions True 0"

definition demo_token :: bytes where "demo_token = replicate 32 7"

definition demo_render :: "cookie \<Rightarrow> string" where
  "demo_render c = ck_name c @ ''='' @ ck_value c"

definition demo_issued :: store where
  "demo_issued = snd (Issue rev demo_manager (Some demo_token) (5 * second) ''ann'' demo_sessions)"

lemma demo_sessions_wf: "wf_sessions (db demo_sessions)" "wf_sessions (db demo_issued)"
  by code_simp+

lemma demo_manager_store: "m_store demo_manager = sqlite_sessions"
  by (simp add: demo_manager_def New_def)

theorem Authenticate_sqlite_witness:
  "\<exists>s st'. Authenticate rev demo_manager (9 * second) (EncodeToString demo_token) demo_issued = (Inr s, st') \<and>
    wf_sessions (db st') \<and> sess_username s = ''ann''"
proof -
  obtain r st' where run: "Authenticate rev demo_manager (9 * second) (EncodeToString demo_token) demo_issued = (r, st')"
    by fastforce
  moreover have "case fst (Authenticate rev demo_manager (9 * second) (EncodeToString demo_token) demo_issued) of
      Inr s \<Rightarrow> sess_username s = ''ann'' | Inl e \<Rightarrow> False" by code_simp
  ultimately show ?thesis
    using Authenticate_sqlite [OF demo_sessions_wf(2) demo_manager_store run] by (auto split: sum.splits)
qed

theorem issued_session_opens_witness:
  "\<exists>s2 st2. Authenticate rev demo_manager (9 * second) (EncodeToString demo_token) demo_issued = (Inr s2, st2) \<and>
    sess_username s2 = ''ann''"
proof -
  have "case Issue rev demo_manager (Some demo_token) (5 * second) ''ann'' demo_sessions of
      (Inr (raw, s), st1) \<Rightarrow> raw = EncodeToString demo_token \<and> faults st1 = [] | _ \<Rightarrow> False" by code_simp
  then obtain s where run: "Issue rev demo_manager (Some demo_token) (5 * second) ''ann'' demo_sessions =
      (Inr (EncodeToString demo_token, s), demo_issued)" and q: "faults demo_issued = []"
    by (auto simp: demo_issued_def split: prod.splits sum.splits)
  have "9 * second < of_unix (unix (5 * second + m_lifetime demo_manager))" "length demo_token = tokenBytes"
    by code_simp+
  from issued_session_opens [OF demo_sessions_wf(1) demo_manager_store run this(2) q this(1)] show ?thesis by blast
qed

theorem RequireSession_gate_witness:
  "\<exists>lines st. RequireSession rev demo_render demo_manager 0 (Some ''x'') [''a=b''] demo_sessions =
      (Refused 401 ''unauthorized'', lines, st) \<and>
    filter (\<lambda>v. \<not> is_session_line v) lines = [''a=b''] \<and> session_lines lines = [demo_render (ClearCookie demo_manager)]"
proof -
  have r: "is_session_line (demo_render c)" if "ck_name c = CookieName" for c
    using that by (simp add: is_session_line_def demo_render_def)
  obtain out lines st where run: "RequireSession rev demo_render demo_manager 0 (Some ''x'') [''a=b''] demo_sessions =
      (out, lines, st)" by (metis prod_cases3)
  moreover have "fst (RequireSession rev demo_render demo_manager 0 (Some ''x'') [''a=b''] demo_sessions) =
      Refused 401 ''unauthorized''" "fst (Authenticate rev demo_manager 0 ''x'' demo_sessions) = Inl ErrNoSession"
    "filter (\<lambda>v. \<not> is_session_line v) [''a=b''] = [''a=b'']" by code_simp+
  ultimately show ?thesis using RequireSession_gate [OF r run] by auto
qed

theorem sweeper_keeps_live_witness:
  "abs_sessions (db (sweep_ticks demo_manager [9 * second] demo_issued)) 1 = abs_sessions (db demo_issued) 1 \<and>
    abs_sessions (db demo_issued) 1 \<noteq> None"
proof -
  have "case abs_sessions (db demo_issued) 1 of None \<Rightarrow> False | Some s \<Rightarrow> 9 * second < expires_at s" by code_simp
  then obtain s where s: "abs_sessions (db demo_issued) 1 = Some s" "9 * second < expires_at s"
    by (auto split: option.splits)
  with sweeper_keeps_live [OF demo_sessions_wf(2) demo_manager_store, of "[9 * second]" 1] show ?thesis
    by (simp add: Let_def)
qed

end
