(* ===== verification/AdguardHttp.thy ===== *)
theory AdguardHttp
  imports Prelude "HOL-Library.AList"
begin

text \<open>
  internal/adguard/client.go, errors.go and services.go: one authenticated JSON call to the
  AdGuard Home server, and the errors it comes back as. The server is a parameter: a function
  from its state and a request to its next state and a reply, or no reply at all. A JSON
  document is a tree; the pairs of an object are those of a document without duplicate keys,
  and a number is the text it was written as.
\<close>

section \<open>Documents, requests and replies\<close>

datatype json =
    JNull
  | JBool bool
  | JNum string
  | JStr string
  | JArr "json list"
  | JObj "(string \<times> json) list"

type_synonym obj = "(string \<times> json) list"

datatype http_method = GET | POST

record http_req =
  rq_method :: http_method
  rq_path :: string
  rq_body :: "json option"
  rq_auth :: "(string \<times> string) option"

text \<open>The status code, the text of the body, and the JSON value it starts with, if any.\<close>

datatype reply = NoReply | Reply nat string "json option"

type_synonym 'w server = "'w \<Rightarrow> http_req \<Rightarrow> 'w \<times> reply"

text \<open>How encoding/json fills a Go variable: null leaves the zero value.\<close>

fun as_str :: "json \<Rightarrow> string option" where
  "as_str JNull = Some []"
| "as_str (JStr s) = Some s"
| "as_str _ = None"

fun as_bool :: "json \<Rightarrow> bool option" where
  "as_bool JNull = Some False"
| "as_bool (JBool b) = Some b"
| "as_bool _ = None"

fun as_list :: "(json \<Rightarrow> 'a option) \<Rightarrow> json \<Rightarrow> 'a list option" where
  "as_list f JNull = Some []"
| "as_list f (JArr xs) = those (map f xs)"
| "as_list f _ = None"

fun as_obj :: "json \<Rightarrow> obj option" where
  "as_obj JNull = Some []"
| "as_obj (JObj o1) = Some o1"
| "as_obj _ = None"

definition field :: "(json \<Rightarrow> 'a option) \<Rightarrow> 'a \<Rightarrow> string \<Rightarrow> obj \<Rightarrow> 'a option" where
  "field f zero k o1 = (case map_of o1 k of None \<Rightarrow> Some zero | Some j \<Rightarrow> f j)"

definition jstrs :: "string list \<Rightarrow> json" where "jstrs xs = JArr (map JStr xs)"

lemma as_list_jstrs [simp]: "as_list as_str (jstrs xs) = Some xs"
proof -
  have "those (map (as_str \<circ> JStr) xs) = Some xs" by (induction xs) auto
  then show ?thesis by (simp add: jstrs_def)
qed

section \<open>Errors\<close>

record status_error =
  se_method :: http_method
  se_path :: string
  se_code :: nat
  se_snippet :: string

text \<open>
  The errors of the package: each constructor is a wrapping chain, with what \<open>errors.Is\<close> and
  \<open>errors.As\<close> find in it.
\<close>

datatype ag_error =
    ErrBadCredentials status_error
  | ErrRateLimited status_error
  | StatusError status_error
  | TransportError http_method string
  | DecodeError string
  | ErrClientNotFound string
  | ErrClientExists string
  | ErrIDTaken string string
  | InputRejected string string

definition snippetLimit :: nat where "snippetLimit = 1024"

definition statusError :: "http_method \<Rightarrow> string \<Rightarrow> nat \<Rightarrow> string \<Rightarrow> status_error" where
  "statusError m path code body =
     \<lparr>se_method = m, se_path = path, se_code = code, se_snippet = trim_space (take snippetLimit body)\<rparr>"

text \<open>\<open>classify\<close>: None for a 2xx status.\<close>

definition classify :: "http_method \<Rightarrow> string \<Rightarrow> nat \<Rightarrow> string \<Rightarrow> ag_error option" where
  "classify m path code body =
     (if 200 \<le> code \<and> code < 300 then None
      else if code = 401 \<or> code = 403 then Some (ErrBadCredentials (statusError m path code body))
      else if code = 429 then Some (ErrRateLimited (statusError m path code body))
      else Some (StatusError (statusError m path code body)))"

section \<open>Calls\<close>

record ag_client =
  ag_username :: string
  ag_password :: string

text \<open>\<open>New\<close>, on what net/url makes of the base URL: scheme, host and embedded credentials.\<close>

datatype url_error = BadURL | BadScheme string | MissingHost | EmbeddedCredentials

definition ag_New :: "(string \<times> string \<times> bool) option \<Rightarrow> string \<Rightarrow> string \<Rightarrow> url_error + ag_client" where
  "ag_New url user pass =
     (case url of
        None \<Rightarrow> Inl BadURL
      | Some (scheme, host, has_user) \<Rightarrow>
          if scheme \<noteq> ''http'' \<and> scheme \<noteq> ''https'' then Inl (BadScheme scheme)
          else if host = [] then Inl MissingHost
          else if has_user then Inl EmbeddedCredentials
          else Inr \<lparr>ag_username = user, ag_password = pass\<rparr>)"

definition send ::
  "'w server \<Rightarrow> ag_client \<Rightarrow> http_method \<Rightarrow> string \<Rightarrow> json option \<Rightarrow> bool \<Rightarrow>
     (ag_error, nat \<times> string \<times> json option, 'w) act" where
  "send srv c m path body auth w =
     (case srv w \<lparr>rq_method = m, rq_path = path, rq_body = body,
                   rq_auth = (if auth then Some (ag_username c, ag_password c) else None)\<rparr> of
        (w', NoReply) \<Rightarrow> (Inl (TransportError m path), w')
      | (w', Reply code text doc) \<Rightarrow> (Inr (code, text, doc), w'))"

text \<open>
  \<open>do\<close>: the reply's document goes through \<open>dec\<close>, the decoding into \<open>out\<close>; a call without
  \<open>out\<close> does not look at it.
\<close>

definition do_call ::
  "'w server \<Rightarrow> ag_client \<Rightarrow> http_method \<Rightarrow> string \<Rightarrow> json option \<Rightarrow> (json \<Rightarrow> 'a option) \<Rightarrow>
     (ag_error, 'a, 'w) act" where
  "do_call srv c m path body dec =
     act_bind (send srv c m path body True) (\<lambda>(code, text, doc).
       case classify m path code text of
         Some e \<Rightarrow> act_fail e
       | None \<Rightarrow> (case Option.bind doc dec of
                    None \<Rightarrow> act_fail (DecodeError path)
                  | Some x \<Rightarrow> act_ret x))"

definition do_nil ::
  "'w server \<Rightarrow> ag_client \<Rightarrow> http_method \<Rightarrow> string \<Rightarrow> json option \<Rightarrow> (ag_error, unit, 'w) act" where
  "do_nil srv c m path body =
     act_bind (send srv c m path body True) (\<lambda>(code, text, _).
       case classify m path code text of Some e \<Rightarrow> act_fail e | None \<Rightarrow> act_ret ())"

definition Login :: "'w server \<Rightarrow> ag_client \<Rightarrow> string \<Rightarrow> string \<Rightarrow> (ag_error, unit, 'w) act" where
  "Login srv c user pass =
     act_bind (send srv c POST ''/control/login''
                 (Some (JObj [(''name'', JStr user), (''password'', JStr pass)])) False)
       (\<lambda>(code, text, _).
          if code = 400 then act_fail (ErrBadCredentials (statusError POST ''/control/login'' code text))
          else case classify POST ''/control/login'' code text of
                 Some e \<Rightarrow> act_fail e
               | None \<Rightarrow> act_ret ())"

record status =
  st_version :: string
  st_running :: bool
  st_protection :: bool

definition decode_status :: "json \<Rightarrow> status option" where
  "decode_status j = Option.bind (as_obj j) (\<lambda>o1.
     Option.bind (field as_str [] ''version'' o1) (\<lambda>v.
     Option.bind (field as_bool False ''running'' o1) (\<lambda>r.
     Option.bind (field as_bool False ''protection_enabled'' o1) (\<lambda>p.
       Some \<lparr>st_version = v, st_running = r, st_protection = p\<rparr>))))"

definition Status :: "'w server \<Rightarrow> ag_client \<Rightarrow> (ag_error, status, 'w) act" where
  "Status srv c = do_call srv c GET ''/control/status'' None decode_status"

record service =
  sv_id :: string
  sv_name :: string
  sv_icon :: string

definition decode_service :: "json \<Rightarrow> service option" where
  "decode_service j = Option.bind (as_obj j) (\<lambda>o1.
     Option.bind (field as_str [] ''id'' o1) (\<lambda>i.
     Option.bind (field as_str [] ''name'' o1) (\<lambda>n.
     Option.bind (field as_str [] ''icon_svg'' o1) (\<lambda>v.
       Some \<lparr>sv_id = i, sv_name = n, sv_icon = v\<rparr>))))"

definition Services :: "'w server \<Rightarrow> ag_client \<Rightarrow> (ag_error, service list, 'w) act" where
  "Services srv c = do_call srv c GET ''/control/blocked_services/all'' None
     (\<lambda>j. Option.bind (as_obj j) (field (as_list decode_service) [] ''blocked_services''))"

section \<open>What a call returns\<close>

definition ok_code :: "nat \<Rightarrow> bool" where "ok_code code \<longleftrightarrow> 200 \<le> code \<and> code < 300"

lemma classify_None: "classify m path code body = None \<longleftrightarrow> ok_code code"
  by (simp add: classify_def ok_code_def)

text \<open>The request \<open>do\<close> sends; it is one request and carries the service credential.\<close>

definition call_req :: "ag_client \<Rightarrow> http_method \<Rightarrow> string \<Rightarrow> json option \<Rightarrow> http_req" where
  "call_req c m path body = \<lparr>rq_method = m, rq_path = path, rq_body = body,
     rq_auth = Some (ag_username c, ag_password c)\<rparr>"

text \<open>The two calls, as one request and a case analysis of its reply.\<close>

lemma do_call_run:
  "do_call srv c m path body dec w =
     (case srv w (call_req c m path body) of
        (w', NoReply) \<Rightarrow> (Inl (TransportError m path), w')
      | (w', Reply code text doc) \<Rightarrow>
          ((case classify m path code text of
              Some e \<Rightarrow> Inl e
            | None \<Rightarrow> (case Option.bind doc dec of None \<Rightarrow> Inl (DecodeError path) | Some x \<Rightarrow> Inr x)), w'))"
  by (simp add: do_call_def act_bind_def send_def call_req_def split: prod.splits reply.splits option.splits)

lemma do_nil_run:
  "do_nil srv c m path body w =
     (case srv w (call_req c m path body) of
        (w', NoReply) \<Rightarrow> (Inl (TransportError m path), w')
      | (w', Reply code text doc) \<Rightarrow>
          ((case classify m path code text of Some e \<Rightarrow> Inl e | None \<Rightarrow> Inr ()), w'))"
  by (simp add: do_nil_def act_bind_def send_def call_req_def split: prod.splits reply.splits option.splits)

lemma do_call_world:
  "do_call srv c m path body dec w = (r, w') \<Longrightarrow> \<exists>rep. srv w (call_req c m path body) = (w', rep)"
  by (auto simp: do_call_run split: prod.splits reply.splits)

lemma do_call_Inr:
  "do_call srv c m path body dec w = (Inr x, w') \<Longrightarrow>
     \<exists>code text j. srv w (call_req c m path body) = (w', Reply code text (Some j)) \<and>
        ok_code code \<and> dec j = Some x"
  by (auto simp: do_call_run bind_eq_Some_conv classify_None split: prod.splits reply.splits option.splits)

lemma do_nil_world:
  "do_nil srv c m path body w = (r, w') \<Longrightarrow> \<exists>rep. srv w (call_req c m path body) = (w', rep)"
  by (auto simp: do_nil_run split: prod.splits reply.splits)

lemma do_nil_Inr:
  "do_nil srv c m path body w = (Inr u, w') \<Longrightarrow>
     \<exists>code text doc. srv w (call_req c m path body) = (w', Reply code text doc) \<and> ok_code code"
  by (auto simp: do_nil_run classify_None split: prod.splits reply.splits option.splits)

end
