(* ===== verification/AdguardClients.thy ===== *)
theory AdguardClients
  imports AdguardHttp Netip
begin

text \<open>
  internal/adguard/clients.go, clients_write.go and the lease read of devices.go: reading the
  persistent clients, and the locked read-modify-write every writer shares. The mutex makes
  one operation of this process run to its end before the next starts; whatever else the
  server does between two calls is in its own state. Only the log lines are left out.
\<close>

section \<open>Model\<close>

record persistent_client =
  pc_name :: string
  pc_ids :: "string list"
  pc_blocked :: "string list"
  pc_global :: bool
  pc_raw :: obj

record auto_client =
  ac_ip :: string
  ac_hostname :: string
  ac_source :: string

record clients_result =
  cr_persistent :: "persistent_client list"
  cr_auto :: "auto_client list"
  cr_global :: "string list"

subsection \<open>Reading\<close>

text \<open>\<open>decodeField\<close>: a missing or null key leaves the zero value.\<close>

definition decodeField :: "(json \<Rightarrow> 'a option) \<Rightarrow> 'a \<Rightarrow> string \<Rightarrow> obj \<Rightarrow> ag_error + 'a" where
  "decodeField dec zero key raw =
     (case map_of raw key of
        None \<Rightarrow> Inr zero
      | Some v \<Rightarrow> if v = JNull then Inr zero
                  else case dec v of None \<Rightarrow> Inl (DecodeError key) | Some x \<Rightarrow> Inr x)"

definition decode_client :: "obj \<Rightarrow> ag_error + persistent_client" where
  "decode_client raw =
     res_bind (decodeField as_str [] ''name'' raw) (\<lambda>name.
     res_bind (decodeField (as_list as_str) [] ''ids'' raw) (\<lambda>ids.
     res_bind (decodeField (as_list as_str) [] ''blocked_services'' raw) (\<lambda>blocked.
     res_bind (decodeField as_bool False ''use_global_blocked_services'' raw) (\<lambda>global.
       Inr \<lparr>pc_name = name, pc_ids = ids, pc_blocked = blocked, pc_global = global, pc_raw = raw\<rparr>))))"

fun decodePersistent :: "obj list \<Rightarrow> ag_error + persistent_client list" where
  "decodePersistent [] = Inr []"
| "decodePersistent (raw # list) =
     res_bind (decode_client raw) (\<lambda>pc. res_bind (decodePersistent list) (\<lambda>out. Inr (pc # out)))"

definition decode_auto :: "json \<Rightarrow> auto_client option" where
  "decode_auto j = Option.bind (as_obj j) (\<lambda>o1.
     Option.bind (field as_str [] ''name'' o1) (\<lambda>n.
     Option.bind (field as_str [] ''ip'' o1) (\<lambda>i.
     Option.bind (field as_str [] ''source'' o1) (\<lambda>s.
       Some \<lparr>ac_ip = i, ac_hostname = n, ac_source = s\<rparr>))))"

definition decode_doc :: "json \<Rightarrow> (obj list \<times> auto_client list) option" where
  "decode_doc j = Option.bind (as_obj j) (\<lambda>o1.
     Option.bind (field (as_list as_obj) [] ''clients'' o1) (\<lambda>cs.
     Option.bind (field (as_list decode_auto) [] ''auto_clients'' o1) (\<lambda>auto. Some (cs, auto))))"

definition decode_ids :: "json \<Rightarrow> string list option" where
  "decode_ids j = Option.bind (as_obj j) (field (as_list as_str) [] ''ids'')"

definition readDoc ::
  "'w server \<Rightarrow> ag_client \<Rightarrow> (ag_error, persistent_client list \<times> auto_client list, 'w) act" where
  "readDoc srv c =
     act_bind (do_call srv c GET ''/control/clients'' None decode_doc) (\<lambda>(list, auto).
       act_bind (act_lift (decodePersistent list)) (\<lambda>persistent. act_ret (persistent, auto)))"

definition readClients :: "'w server \<Rightarrow> ag_client \<Rightarrow> (ag_error, persistent_client list, 'w) act" where
  "readClients srv c = act_bind (readDoc srv c) (\<lambda>(persistent, _). act_ret persistent)"

definition read_global :: "'w server \<Rightarrow> ag_client \<Rightarrow> (ag_error, string list, 'w) act" where
  "read_global srv c = do_call srv c GET ''/control/blocked_services/get'' None decode_ids"

definition Clients :: "'w server \<Rightarrow> ag_client \<Rightarrow> (ag_error, clients_result, 'w) act" where
  "Clients srv c =
     act_bind (readDoc srv c) (\<lambda>(persistent, auto).
     act_bind (read_global srv c) (\<lambda>ids.
       act_ret \<lparr>cr_persistent = persistent, cr_auto = auto, cr_global = ids\<rparr>))"

subsection \<open>The read-modify-write\<close>

abbreviation normaliseIDs :: "string list \<Rightarrow> string list" where "normaliseIDs \<equiv> sort_compact"

definition update_body :: "string \<Rightarrow> obj \<Rightarrow> json" where
  "update_body name data = JObj [(''name'', JStr name), (''data'', JObj data)]"

text \<open>
  \<open>updateClient\<close>. The edit returns the new object, or None for \<open>errSkipUpdate\<close>; it may call the
  server itself.
\<close>

definition updateClient ::
  "'w server \<Rightarrow> ag_client \<Rightarrow> string \<Rightarrow> (obj \<Rightarrow> (ag_error, obj option, 'w) act) \<Rightarrow> (ag_error, unit, 'w) act" where
  "updateClient srv c clientName mutate =
     act_bind (readClients srv c) (\<lambda>clients.
       case find (\<lambda>pc. pc_name pc = clientName) clients of
         None \<Rightarrow> act_fail (ErrClientNotFound clientName)
       | Some target \<Rightarrow>
           act_bind (mutate (pc_raw target)) (\<lambda>edit.
             case edit of
               None \<Rightarrow> act_ret ()
             | Some data \<Rightarrow>
                 do_nil srv c POST ''/control/clients/update'' (Some (update_body clientName data))))"

definition put_blocked :: "string list \<Rightarrow> obj \<Rightarrow> obj" where
  "put_blocked ids data = AList.update ''blocked_services'' (jstrs ids) data"

definition clear_global :: "obj \<Rightarrow> obj" where
  "clear_global data = AList.update ''use_global_blocked_services'' (JBool False) data"

definition SetBlockedServices ::
  "'w server \<Rightarrow> ag_client \<Rightarrow> string \<Rightarrow> string list \<Rightarrow> (ag_error, unit, 'w) act" where
  "SetBlockedServices srv c clientName ids =
     updateClient srv c clientName (\<lambda>data. act_ret (Some (put_blocked (normaliseIDs ids) data)))"

definition MigrateFromGlobal ::
  "'w server \<Rightarrow> ag_client \<Rightarrow> string \<Rightarrow> string list \<Rightarrow> (ag_error, unit, 'w) act" where
  "MigrateFromGlobal srv c clientName ids =
     updateClient srv c clientName
       (\<lambda>data. act_ret (Some (clear_global (put_blocked (normaliseIDs ids) data))))"

definition edit_data :: "(string list \<Rightarrow> string list) \<Rightarrow> obj \<Rightarrow> (ag_error, obj option, 'w) act" where
  "edit_data edit data =
     act_bind (act_lift (decodeField (as_list as_str) [] ''blocked_services'' data)) (\<lambda>cur.
       let current = normaliseIDs cur; next = normaliseIDs (edit current)
       in if current = next then act_ret None else act_ret (Some (put_blocked next data)))"

definition editBlockedServices ::
  "'w server \<Rightarrow> ag_client \<Rightarrow> string \<Rightarrow> (string list \<Rightarrow> string list) \<Rightarrow> (ag_error, unit, 'w) act" where
  "editBlockedServices srv c clientName edit = updateClient srv c clientName (edit_data edit)"

definition RemoveBlockedServices ::
  "'w server \<Rightarrow> ag_client \<Rightarrow> string \<Rightarrow> string list \<Rightarrow> (ag_error, unit, 'w) act" where
  "RemoveBlockedServices srv c clientName ids =
     editBlockedServices srv c clientName (filter (\<lambda>i. i \<notin> set ids))"

definition AddBlockedServices ::
  "'w server \<Rightarrow> ag_client \<Rightarrow> string \<Rightarrow> string list \<Rightarrow> (ag_error, unit, 'w) act" where
  "AddBlockedServices srv c clientName ids =
     editBlockedServices srv c clientName (\<lambda>current. current @ ids)"

definition adopt_data ::
  "'w server \<Rightarrow> ag_client \<Rightarrow> string list \<Rightarrow> obj \<Rightarrow> (ag_error, obj option, 'w) act" where
  "adopt_data srv c ids data =
     act_bind (act_lift (decodeField as_bool False ''use_global_blocked_services'' data)) (\<lambda>inherits.
     act_bind (if inherits then read_global srv c
               else act_lift (decodeField (as_list as_str) [] ''blocked_services'' data)) (\<lambda>cur.
       let current = normaliseIDs cur; next = normaliseIDs (current @ ids)
       in if \<not> inherits \<and> current = next then act_ret None
          else act_ret (Some (clear_global (put_blocked next data)))))"

definition AdoptBlockedServices ::
  "'w server \<Rightarrow> ag_client \<Rightarrow> string \<Rightarrow> string list \<Rightarrow> (ag_error, unit, 'w) act" where
  "AdoptBlockedServices srv c clientName ids = updateClient srv c clientName (adopt_data srv c ids)"

subsection \<open>Adding and renaming clients\<close>

record new_client =
  nc_name :: string
  nc_ids :: "string list"
  nc_blocked :: "string list option"

definition add_body :: "new_client \<Rightarrow> obj" where
  "add_body nc =
     [(''name'', JStr (nc_name nc)), (''ids'', jstrs (nc_ids nc)), (''use_global_settings'', JBool True),
      (''use_global_blocked_services'', JBool (nc_blocked nc = None)),
      (''blocked_services'', jstrs (case nc_blocked nc of None \<Rightarrow> [] | Some b \<Rightarrow> normaliseIDs b))]"

text \<open>\<open>rejected\<close>: a 400 anywhere in the chain is AdGuard refusing the input.\<close>

fun status_of :: "ag_error \<Rightarrow> status_error option" where
  "status_of (ErrBadCredentials se) = Some se"
| "status_of (ErrRateLimited se) = Some se"
| "status_of (StatusError se) = Some se"
| "status_of _ = None"

definition rejected :: "ag_error \<Rightarrow> ag_error" where
  "rejected e =
     (case status_of e of
        Some se \<Rightarrow> if se_code se = 400 then InputRejected (se_path se) (se_snippet se) else e
      | None \<Rightarrow> e)"

definition act_map_err :: "('e \<Rightarrow> 'f) \<Rightarrow> ('e, 'a, 's) act \<Rightarrow> ('f, 'a, 's) act" where
  "act_map_err f m s = (case m s of (Inl e, s') \<Rightarrow> (Inl (f e), s') | (Inr x, s') \<Rightarrow> (Inr x, s'))"

text \<open>The checks of \<open>AddClient\<close>, client by client: the name, then the ids it holds.\<close>

definition id_clash :: "string list \<Rightarrow> string list \<Rightarrow> string option" where
  "id_clash held ids =
     (case concat (map (\<lambda>h. filter (sameID h) ids) held) of [] \<Rightarrow> None | i # _ \<Rightarrow> Some i)"

fun add_check :: "new_client \<Rightarrow> persistent_client list \<Rightarrow> ag_error option" where
  "add_check nc [] = None"
| "add_check nc (pc # pcs) =
     (if pc_name pc = nc_name nc then Some (ErrClientExists (nc_name nc))
      else case id_clash (pc_ids pc) (nc_ids nc) of
             Some i \<Rightarrow> Some (ErrIDTaken i (pc_name pc))
           | None \<Rightarrow> add_check nc pcs)"

definition AddClient :: "'w server \<Rightarrow> ag_client \<Rightarrow> new_client \<Rightarrow> (ag_error, unit, 'w) act" where
  "AddClient srv c nc =
     act_bind (readClients srv c) (\<lambda>clients.
       case add_check nc clients of
         Some e \<Rightarrow> act_fail e
       | None \<Rightarrow> act_map_err rejected
           (do_nil srv c POST ''/control/clients/add'' (Some (JObj (add_body nc)))))"

text \<open>
  The loop of \<open>RenameClient\<close> over the clients read: the new name taken stops it, the last
  client with the old name is the target.
\<close>

fun rename_scan :: "string \<Rightarrow> string \<Rightarrow> persistent_client option \<Rightarrow> persistent_client list \<Rightarrow> ag_error + persistent_client" where
  "rename_scan old new target [] =
     (case target of None \<Rightarrow> Inl (ErrClientNotFound old) | Some pc \<Rightarrow> Inr pc)"
| "rename_scan old new target (pc # pcs) =
     (if pc_name pc = new then Inl (ErrClientExists new)
      else rename_scan old new (if pc_name pc = old then Some pc else target) pcs)"

definition RenameClient :: "'w server \<Rightarrow> ag_client \<Rightarrow> string \<Rightarrow> string \<Rightarrow> (ag_error, unit, 'w) act" where
  "RenameClient srv c oldName newName =
     (if oldName = newName then act_ret ()
      else act_bind (readClients srv c) (\<lambda>clients.
        case rename_scan oldName newName None clients of
          Inl e \<Rightarrow> act_fail e
        | Inr target \<Rightarrow> act_map_err rejected
            (do_nil srv c POST ''/control/clients/update''
               (Some (update_body oldName (AList.update ''name'' (JStr newName) (pc_raw target)))))))"

subsection \<open>Leases (devices.go)\<close>

record lease =
  ls_mac :: string
  ls_ip :: string
  ls_hostname :: string

definition decode_lease :: "json \<Rightarrow> lease option" where
  "decode_lease j = Option.bind (as_obj j) (\<lambda>o1.
     Option.bind (field as_str [] ''mac'' o1) (\<lambda>m.
     Option.bind (field as_str [] ''ip'' o1) (\<lambda>i.
     Option.bind (field as_str [] ''hostname'' o1) (\<lambda>h.
       Some \<lparr>ls_mac = m, ls_ip = i, ls_hostname = h\<rparr>))))"

definition Leases :: "'w server \<Rightarrow> ag_client \<Rightarrow> (ag_error, lease list, 'w) act" where
  "Leases srv c = do_call srv c GET ''/control/dhcp/status'' None
     (\<lambda>j. Option.bind (as_obj j) (\<lambda>o1.
        Option.bind (field (as_list decode_lease) [] ''leases'' o1) (\<lambda>dyn.
        Option.bind (field (as_list decode_lease) [] ''static_leases'' o1) (\<lambda>stat. Some (dyn @ stat)))))"

section \<open>Client objects\<close>

text \<open>The fields of a client object as the package reads them.\<close>

definition obj_name :: "obj \<Rightarrow> string" where
  "obj_name o1 = (case decodeField as_str [] ''name'' o1 of Inr s \<Rightarrow> s | Inl _ \<Rightarrow> [])"

definition obj_ids :: "obj \<Rightarrow> string list" where
  "obj_ids o1 = (case decodeField (as_list as_str) [] ''ids'' o1 of Inr xs \<Rightarrow> xs | Inl _ \<Rightarrow> [])"

definition obj_blocked :: "obj \<Rightarrow> string list" where
  "obj_blocked o1 =
     (case decodeField (as_list as_str) [] ''blocked_services'' o1 of Inr xs \<Rightarrow> xs | Inl _ \<Rightarrow> [])"

definition obj_inherits :: "obj \<Rightarrow> bool" where
  "obj_inherits o1 =
     (case decodeField as_bool False ''use_global_blocked_services'' o1 of Inr b \<Rightarrow> b | Inl _ \<Rightarrow> False)"

lemma decode_client_Inr:
  "decode_client raw = Inr pc \<Longrightarrow> pc_raw pc = raw \<and> pc_name pc = obj_name raw \<and> pc_ids pc = obj_ids raw \<and>
     pc_blocked pc = obj_blocked raw \<and> pc_global pc = obj_inherits raw"
  by (auto simp: decode_client_def obj_name_def obj_ids_def obj_blocked_def obj_inherits_def)

lemma decodePersistent_Inr:
  "decodePersistent list = Inr pcs \<Longrightarrow>
     map pc_raw pcs = list \<and> (\<forall>pc \<in> set pcs. decode_client (pc_raw pc) = Inr pc)"
proof (induction list arbitrary: pcs)
  case (Cons raw list)
  then obtain pc out where "decode_client raw = Inr pc" "decodePersistent list = Inr out" "pcs = pc # out"
    by auto
  with Cons.IH [of out] decode_client_Inr [of raw pc] show ?case by auto
qed simp

lemma decodePersistent_client:
  assumes "decodePersistent list = Inr pcs" "pc \<in> set pcs"
  shows "pc_name pc = obj_name (pc_raw pc)" "pc_ids pc = obj_ids (pc_raw pc)"
    "pc_blocked pc = obj_blocked (pc_raw pc)" "pc_global pc = obj_inherits (pc_raw pc)" "pc_raw pc \<in> set list"
proof -
  have "decode_client (pc_raw pc) = Inr pc" "map pc_raw pcs = list"
    using decodePersistent_Inr [OF assms(1)] assms(2) by auto
  with assms(2) decode_client_Inr [of "pc_raw pc" pc]
  show "pc_name pc = obj_name (pc_raw pc)" "pc_ids pc = obj_ids (pc_raw pc)"
    "pc_blocked pc = obj_blocked (pc_raw pc)" "pc_global pc = obj_inherits (pc_raw pc)" "pc_raw pc \<in> set list"
    by auto
qed

lemma decodeField_update:
  "decodeField dec z k (AList.update k' v o1) =
     (if k = k' then (if v = JNull then Inr z else case dec v of None \<Rightarrow> Inl (DecodeError k) | Some x \<Rightarrow> Inr x)
      else decodeField dec z k o1)"
  by (simp add: decodeField_def update_conv')

text \<open>Which fields an edit of an object touches.\<close>

lemma put_blocked_fields [simp]:
  "obj_name (put_blocked ids o1) = obj_name o1" "obj_ids (put_blocked ids o1) = obj_ids o1"
  "obj_blocked (put_blocked ids o1) = ids" "obj_inherits (put_blocked ids o1) = obj_inherits o1"
  by (simp_all add: put_blocked_def obj_name_def obj_ids_def obj_blocked_def obj_inherits_def
      decodeField_update) (simp add: jstrs_def)

lemma clear_global_fields [simp]:
  "obj_name (clear_global o1) = obj_name o1" "obj_ids (clear_global o1) = obj_ids o1"
  "obj_blocked (clear_global o1) = obj_blocked o1" "obj_inherits (clear_global o1) = False"
  by (simp_all add: clear_global_def obj_name_def obj_ids_def obj_blocked_def obj_inherits_def
      decodeField_update)

lemma set_name_fields [simp]:
  "obj_name (AList.update ''name'' (JStr n) o1) = n"
  "obj_ids (AList.update ''name'' (JStr n) o1) = obj_ids o1"
  "obj_blocked (AList.update ''name'' (JStr n) o1) = obj_blocked o1"
  "obj_inherits (AList.update ''name'' (JStr n) o1) = obj_inherits o1"
  by (simp_all add: obj_name_def obj_ids_def obj_blocked_def obj_inherits_def decodeField_update)

lemma add_body_fields [simp]:
  "obj_name (add_body nc) = nc_name nc" "obj_ids (add_body nc) = nc_ids nc"
  "obj_inherits (add_body nc) \<longleftrightarrow> nc_blocked nc = None"
  "obj_blocked (add_body nc) = (case nc_blocked nc of None \<Rightarrow> [] | Some b \<Rightarrow> normaliseIDs b)"
  by (simp_all add: add_body_def obj_name_def obj_ids_def obj_blocked_def obj_inherits_def
      decodeField_def) (simp_all add: jstrs_def)

text \<open>Every other key of the object is left exactly as read.\<close>

lemma put_blocked_verbatim:
  "k \<noteq> ''blocked_services'' \<Longrightarrow> map_of (put_blocked ids o1) k = map_of o1 k"
  by (simp add: put_blocked_def update_conv')

lemma clear_global_verbatim:
  "k \<noteq> ''use_global_blocked_services'' \<Longrightarrow> map_of (clear_global o1) k = map_of o1 k"
  by (simp add: clear_global_def update_conv')

end
