(* ===== verification/AdguardContract.thy ===== *)
theory AdguardContract
  imports AdguardClients
begin

text \<open>
  What the package relies on from AdGuard Home, as the locale \<open>ag_server\<close>, and what every
  operation of the client then does to the server's clients, proved once against it.
  \<open>cls\<close> is the list of client objects the server holds, \<open>glob\<close> its global blocked-services list.
  The contract promises nothing about failure: a write that fails may or may not have been
  applied.
\<close>

definition replace_client :: "string \<Rightarrow> obj \<Rightarrow> obj list \<Rightarrow> obj list" where
  "replace_client n d os = map (\<lambda>o1. if obj_name o1 = n then d else o1) os"

definition client_of :: "obj list \<Rightarrow> string \<Rightarrow> obj option" where
  "client_of os n = find (\<lambda>o1. obj_name o1 = n) os"

definition has_name :: "obj \<Rightarrow> string \<Rightarrow> bool" where
  "has_name o1 n \<longleftrightarrow> map_of o1 ''name'' = Some (JStr n)"

lemma has_name_obj_name: "has_name o1 n \<Longrightarrow> obj_name o1 = n"
  by (simp add: has_name_def obj_name_def decodeField_def)

lemma client_of_Some:
  "distinct (map obj_name os) \<Longrightarrow> client_of os n = Some o1 \<longleftrightarrow> o1 \<in> set os \<and> obj_name o1 = n"
  unfolding client_of_def by (induction os) auto

lemma client_of_None: "client_of os n = None \<longleftrightarrow> n \<notin> obj_name ` set os"
  unfolding client_of_def by (induction os) auto

lemma client_of_name: "client_of os n = Some o1 \<Longrightarrow> obj_name o1 = n \<and> o1 \<in> set os"
  unfolding client_of_def by (auto simp: find_Some_iff)

lemma client_of_replace:
  "distinct (map obj_name os) \<Longrightarrow> client_of os n = Some o1 \<Longrightarrow>
   obj_name d = n \<or> obj_name d \<notin> obj_name ` set os \<Longrightarrow>
     client_of (replace_client n d os) = (client_of os)(n := None, obj_name d \<mapsto> d)"
proof (induction os arbitrary: o1)
  case Nil
  then show ?case by (simp add: client_of_def)
next
  case (Cons a os)
  show ?case
  proof (cases "obj_name a = n")
    case True
    with Cons.prems(1) have rest: "replace_client n d os = os" "client_of os n = None"
      by (auto simp: replace_client_def client_of_None image_iff intro!: map_idI)
    with True Cons.prems(3) show ?thesis
      by (auto simp: replace_client_def client_of_def fun_eq_iff)
  next
    case False
    with Cons.prems(1,2) have "client_of os n = Some o1" by (simp add: client_of_def)
    with Cons False show ?thesis
      by (auto simp: replace_client_def client_of_def fun_eq_iff)
  qed
qed

lemma client_of_append:
  "obj_name d \<notin> obj_name ` set os \<Longrightarrow> client_of (os @ [d]) = (client_of os)(obj_name d \<mapsto> d)"
  unfolding client_of_def by (induction os) (auto simp: fun_eq_iff)

lemma put_blocked_has_name [simp]: "has_name (put_blocked ids o1) n = has_name o1 n"
  by (simp add: has_name_def put_blocked_verbatim)

lemma clear_global_has_name [simp]: "has_name (clear_global o1) n = has_name o1 n"
  by (simp add: has_name_def clear_global_verbatim)

lemma add_body_has_name [simp]: "has_name (add_body nc) (nc_name nc)"
  by (simp add: has_name_def add_body_def)

section \<open>The contract\<close>

locale ag_server =
  fixes srv :: "'w server" and c :: ag_client and good :: "'w \<Rightarrow> bool"
    and cls :: "'w \<Rightarrow> obj list" and glob :: "'w \<Rightarrow> string list"
  assumes named: "good w \<Longrightarrow> o1 \<in> set (cls w) \<Longrightarrow> has_name o1 (obj_name o1)"
    and names: "good w \<Longrightarrow> distinct (map obj_name (cls w))"
    and quiet: "good w \<Longrightarrow> rq_method rq = GET \<Longrightarrow> srv w rq = (w', rep) \<Longrightarrow>
      good w' \<and> cls w' = cls w \<and> glob w' = glob w"
    and login: "good w \<Longrightarrow> rq_path rq = ''/control/login'' \<Longrightarrow> srv w rq = (w', rep) \<Longrightarrow>
      good w' \<and> cls w' = cls w \<and> glob w' = glob w"
    and get_clients: "good w \<Longrightarrow>
      srv w (call_req c GET ''/control/clients'' None) = (w', Reply code text (Some j)) \<Longrightarrow>
      ok_code code \<Longrightarrow> decode_doc j = Some (os, auto) \<Longrightarrow> os = cls w"
    and get_global: "good w \<Longrightarrow>
      srv w (call_req c GET ''/control/blocked_services/get'' None) = (w', Reply code text (Some j)) \<Longrightarrow>
      ok_code code \<Longrightarrow> decode_ids j = Some ids \<Longrightarrow> set ids = set (glob w)"
    and update: "good w \<Longrightarrow> has_name d m \<Longrightarrow>
      srv w (call_req c POST ''/control/clients/update'' (Some (update_body n d))) = (w', rep) \<Longrightarrow>
      good w' \<and> glob w' = glob w \<and> (cls w' = cls w \<or>
        n \<in> obj_name ` set (cls w) \<and> (m = n \<or> m \<notin> obj_name ` set (cls w)) \<and>
        cls w' = replace_client n d (cls w))"
    and update_ok: "good w \<Longrightarrow> has_name d m \<Longrightarrow>
      srv w (call_req c POST ''/control/clients/update'' (Some (update_body n d))) = (w', Reply code text doc) \<Longrightarrow>
      ok_code code \<Longrightarrow> n \<in> obj_name ` set (cls w) \<and> (m = n \<or> m \<notin> obj_name ` set (cls w)) \<and>
        cls w' = replace_client n d (cls w)"
    and add: "good w \<Longrightarrow> has_name d m \<Longrightarrow>
      srv w (call_req c POST ''/control/clients/add'' (Some (JObj d))) = (w', rep) \<Longrightarrow>
      good w' \<and> glob w' = glob w \<and>
        (cls w' = cls w \<or> m \<notin> obj_name ` set (cls w) \<and> cls w' = cls w @ [d])"
    and add_ok: "good w \<Longrightarrow> has_name d m \<Longrightarrow>
      srv w (call_req c POST ''/control/clients/add'' (Some (JObj d))) = (w', Reply code text doc) \<Longrightarrow>
      ok_code code \<Longrightarrow> m \<notin> obj_name ` set (cls w) \<and> cls w' = cls w @ [d]"
begin

text \<open>A read changes nothing the contract speaks of.\<close>

definition same_view :: "'w \<Rightarrow> 'w \<Rightarrow> bool" where
  "same_view w w' \<longleftrightarrow> good w' \<and> cls w' = cls w \<and> glob w' = glob w"

lemma do_call_GET: "same_view w w'" if w: "good w" and run: "do_call srv c GET path None dec w = (r, w')"
proof -
  obtain rep where "srv w (call_req c GET path None) = (w', rep)"
    using do_call_world [OF run] by blast
  with quiet [OF w, of "call_req c GET path None"] show ?thesis by (simp add: same_view_def call_req_def)
qed

lemma readDoc_view:
  assumes "good w" "readDoc srv c w = (r, w')"
  shows "same_view w w'"
  using assms do_call_GET [OF assms(1), of "''/control/clients''" decode_doc]
  by (cases r) (auto simp: readDoc_def)

lemma readClients_view: "good w \<Longrightarrow> readClients srv c w = (r, w') \<Longrightarrow> same_view w w'"
  by (cases r) (auto simp: readClients_def dest: readDoc_view)

lemma readDoc_Inr:
  assumes "good w" "readDoc srv c w = (Inr (pcs, auto), w')"
  shows "decodePersistent (cls w) = Inr pcs"
proof -
  obtain list w1 where "do_call srv c GET ''/control/clients'' None decode_doc w = (Inr (list, auto), w1)"
    "decodePersistent list = Inr pcs"
    using assms(2) by (auto simp: readDoc_def)
  moreover from this(1) have "list = cls w"
    using get_clients [OF assms(1)] by (auto dest!: do_call_Inr)
  ultimately show ?thesis by simp
qed

lemma readClients_Inr:
  assumes "good w" "readClients srv c w = (Inr pcs, w')"
  shows "decodePersistent (cls w) = Inr pcs"
  using assms by (auto simp: readClients_def dest: readDoc_Inr)

lemma read_global_view: "good w \<Longrightarrow> read_global srv c w = (r, w') \<Longrightarrow> same_view w w'"
  unfolding read_global_def by (rule do_call_GET)

lemma read_global_Inr: "good w \<Longrightarrow> read_global srv c w = (Inr ids, w') \<Longrightarrow> set ids = set (glob w)"
  using get_global by (auto simp: read_global_def dest!: do_call_Inr)

text \<open>The client the read-modify-write finds is the one the server holds.\<close>

lemma found_client:
  assumes "good w" "decodePersistent (cls w) = Inr pcs" "find (\<lambda>pc. pc_name pc = n) pcs = Some pc"
  shows "client_of (cls w) n = Some (pc_raw pc)" "has_name (pc_raw pc) n" "decode_client (pc_raw pc) = Inr pc"
proof -
  have pc: "pc \<in> set pcs" "pc_name pc = n" using assms(3) by (auto simp: find_Some_iff)
  note d = decodePersistent_client [OF assms(2) pc(1)]
  have "obj_name (pc_raw pc) = n" "pc_raw pc \<in> set (cls w)" using d(1,5) pc(2) by auto
  then show "client_of (cls w) n = Some (pc_raw pc)" "has_name (pc_raw pc) n"
    using names [OF assms(1)] named [OF assms(1)] by (auto simp: client_of_Some)
  show "decode_client (pc_raw pc) = Inr pc" using decodePersistent_Inr [OF assms(2)] pc(1) by auto
qed

lemma not_found_client:
  assumes "decodePersistent (cls w) = Inr pcs" "find (\<lambda>pc. pc_name pc = n) pcs = None"
  shows "client_of (cls w) n = None"
proof -
  have "map pc_raw pcs = cls w" using decodePersistent_Inr [OF assms(1)] by simp
  then have "o1 \<in> set (cls w) \<Longrightarrow> \<exists>pc \<in> set pcs. pc_raw pc = o1" for o1 by (metis imageE list.set_map)
  with decodePersistent_client(1) [OF assms(1)] assms(2) show ?thesis
    by (fastforce simp: client_of_None find_None_iff)
qed

text \<open>What one write of a client's object can do.\<close>

definition wrote :: "string \<Rightarrow> obj \<Rightarrow> 'w \<Rightarrow> 'w \<Rightarrow> bool" where
  "wrote n d w w' \<longleftrightarrow> good w' \<and> glob w' = glob w \<and> client_of (cls w') = (client_of (cls w))(n := None, obj_name d \<mapsto> d)"

lemma post_update:
  assumes "good w" "client_of (cls w) n = Some o1" "has_name d m"
    "do_nil srv c POST ''/control/clients/update'' (Some (update_body n d)) w = (r, w')"
  shows "same_view w w' \<and> \<not> is_ok r \<or> wrote n d w w' \<and> (m = n \<or> client_of (cls w) m = None)"
proof -
  obtain rep where rep: "srv w (call_req c POST ''/control/clients/update'' (Some (update_body n d))) = (w', rep)"
    using do_nil_world [OF assms(4)] by blast
  have m: "obj_name d = m" using assms(3) by (rule has_name_obj_name)
  note u = update [OF assms(1,3) rep]
  have w: "wrote n d w w' \<and> (m = n \<or> client_of (cls w) m = None)"
    if "cls w' = replace_client n d (cls w)" "m = n \<or> m \<notin> obj_name ` set (cls w)"
    using that u client_of_replace [OF names [OF assms(1)] assms(2), of d] m
    by (simp add: wrote_def client_of_None)
  show ?thesis
  proof (cases r)
    case (Inl e)
    with u w show ?thesis by (auto simp: same_view_def)
  next
    case (Inr x)
    then obtain code bd doc where "srv w (call_req c POST ''/control/clients/update'' (Some (update_body n d))) =
        (w', Reply code bd doc)" "ok_code code"
      using do_nil_Inr assms(4) by metis
    then have "cls w' = replace_client n d (cls w)" "m = n \<or> m \<notin> obj_name ` set (cls w)"
      using update_ok [OF assms(1,3)] by simp_all
    then have "wrote n d w w' \<and> (m = n \<or> client_of (cls w) m = None)" by (rule w)
    then show ?thesis by simp
  qed
qed

lemma updateClient_outcome:
  assumes "good w" "updateClient srv c n mutate w = (r, w')"
    and quiet_mutate: "\<And>o1 w1 e w2. good w1 \<Longrightarrow> mutate o1 w1 = (e, w2) \<Longrightarrow> same_view w1 w2"
    and keeps_name: "\<And>o1 w1 d w2. mutate o1 w1 = (Inr (Some d), w2) \<Longrightarrow> has_name o1 n \<Longrightarrow> has_name d n"
  shows "(same_view w w' \<and> (is_ok r \<longrightarrow> (\<exists>o1 w1 w2. client_of (cls w) n = Some o1 \<and> same_view w w1 \<and>
             mutate o1 w1 = (Inr None, w2)))) \<or>
         (\<exists>o1 w1 d w2. client_of (cls w) n = Some o1 \<and> same_view w w1 \<and>
             mutate o1 w1 = (Inr (Some d), w2) \<and> wrote n d w w')"
proof -
  obtain rc w1 where rc: "readClients srv c w = (rc, w1)" by (cases "readClients srv c w")
  have v1: "same_view w w1" using readClients_view [OF assms(1) rc] .
  show ?thesis
  proof (cases rc)
    case (Inl e)
    with rc assms(2) v1 show ?thesis by (auto simp: updateClient_def act_bind_def)
  next
    case (Inr pcs)
    note dec = readClients_Inr [OF assms(1) rc [unfolded Inr]]
    show ?thesis
    proof (cases "find (\<lambda>pc. pc_name pc = n) pcs")
      case None
      with rc Inr assms(2) v1 show ?thesis by (auto simp: updateClient_def act_bind_def)
    next
      case (Some pc)
      note found = found_client [OF assms(1) dec Some]
      obtain e w2 where mut: "mutate (pc_raw pc) w1 = (e, w2)" by (cases "mutate (pc_raw pc) w1")
      have "good w1" using v1 by (simp add: same_view_def)
      then have v2: "same_view w1 w2" using mut by (rule quiet_mutate)
      then have v: "same_view w w2" using v1 by (simp add: same_view_def)
      show ?thesis
      proof (cases e)
        case (Inl x)
        with rc \<open>rc = Inr pcs\<close> Some mut assms(2) v show ?thesis
          by (auto simp: updateClient_def act_bind_def)
      next
        case (Inr edit)
        show ?thesis
        proof (cases edit)
          case None
          with rc \<open>rc = Inr pcs\<close> Some mut Inr assms(2) v v1 found(1) show ?thesis
            by (auto simp: updateClient_def act_bind_def)
        next
          case (Some d)
          have "has_name d n" using keeps_name mut Inr Some found(2) by blast
          moreover have "do_nil srv c POST ''/control/clients/update'' (Some (update_body n d)) w2 = (r, w')"
            using assms(2) rc \<open>rc = Inr pcs\<close> \<open>find _ pcs = Some pc\<close> mut Inr Some
            by (simp add: updateClient_def act_bind_def)
          moreover have "good w2" "client_of (cls w2) n = Some (pc_raw pc)"
            using v found(1) by (simp_all add: same_view_def)
          ultimately have "same_view w2 w' \<and> \<not> is_ok r \<or> wrote n d w2 w'"
            using post_update by blast
          then have "same_view w w' \<and> \<not> is_ok r \<or> wrote n d w w'"
            using v by (auto simp: same_view_def wrote_def)
          then show ?thesis using found(1) v1 mut Inr Some by blast
        qed
      qed
    qed
  qed
qed

end

section \<open>What each operation does to the server's clients\<close>

text \<open>Only the client \<open>n\<close> may have changed, and then as \<open>R\<close> says.\<close>

definition only_client :: "string \<Rightarrow> (obj \<Rightarrow> obj \<Rightarrow> bool) \<Rightarrow> obj list \<Rightarrow> obj list \<Rightarrow> bool" where
  "only_client n R os os' \<longleftrightarrow>
     (\<forall>m. m \<noteq> n \<longrightarrow> client_of os' m = client_of os m) \<and>
     (client_of os' n = client_of os n \<or>
      (\<exists>o1 o2. client_of os n = Some o1 \<and> client_of os' n = Some o2 \<and> R o1 o2))"

lemma only_client_mono:
  "only_client n R os os' \<Longrightarrow> (\<And>o1 o2. R o1 o2 \<Longrightarrow> R' o1 o2) \<Longrightarrow> only_client n R' os os'"
  unfolding only_client_def by blast

text \<open>The object left has exactly these blocked services, and every other key as before.\<close>

definition blocks_now :: "string set \<Rightarrow> obj \<Rightarrow> obj \<Rightarrow> bool" where
  "blocks_now B o1 o2 \<longleftrightarrow> set (obj_blocked o2) = B \<and>
     (\<forall>k. k \<noteq> ''blocked_services'' \<longrightarrow> map_of o2 k = map_of o1 k)"

definition owns_now :: "string set \<Rightarrow> obj \<Rightarrow> obj \<Rightarrow> bool" where
  "owns_now B o1 o2 \<longleftrightarrow> set (obj_blocked o2) = B \<and> \<not> obj_inherits o2 \<and>
     (\<forall>k. k \<noteq> ''blocked_services'' \<longrightarrow> k \<noteq> ''use_global_blocked_services'' \<longrightarrow> map_of o2 k = map_of o1 k)"

text \<open>What a client blocks effectively: its own list, or the global one when it inherits.\<close>

definition effective :: "string list \<Rightarrow> obj \<Rightarrow> string set" where
  "effective gl o1 = (if obj_inherits o1 then set gl else set (obj_blocked o1))"

lemma blocks_now_put: "blocks_now (set ids) o1 (put_blocked ids o1)"
  by (simp add: blocks_now_def put_blocked_verbatim)

lemma owns_now_put: "owns_now (set ids) o1 (clear_global (put_blocked ids o1))"
  by (simp add: owns_now_def put_blocked_verbatim clear_global_verbatim)

lemma edit_data_Some:
  "edit_data f o1 w = (Inr (Some d), w') \<Longrightarrow> w' = w \<and> d = put_blocked (normaliseIDs (f (normaliseIDs (obj_blocked o1)))) o1"
  by (auto simp: edit_data_def obj_blocked_def Let_def split: if_splits)

lemma edit_data_None:
  "edit_data f o1 w = (Inr None, w') \<Longrightarrow> w' = w \<and> set (f (normaliseIDs (obj_blocked o1))) = set (obj_blocked o1)"
  by (auto simp: edit_data_def obj_blocked_def Let_def sort_compact_eq_iff split: if_splits)

lemma edit_data_state: "edit_data f o1 w = (r, w') \<Longrightarrow> w' = w"
  by (cases r) (auto simp: edit_data_def Let_def split: if_splits)

context ag_server
begin

lemma wrote_client:
  "wrote n d w w' \<Longrightarrow> obj_name d = n \<Longrightarrow>
     good w' \<and> glob w' = glob w \<and> client_of (cls w') = (client_of (cls w))(n \<mapsto> d)"
  by (simp add: wrote_def)

lemma same_view_refl: "good w \<Longrightarrow> same_view w w"
  by (simp add: same_view_def)

lemma same_view_only: "same_view w w' \<Longrightarrow> only_client n R (cls w) (cls w')"
  by (simp add: same_view_def only_client_def)

lemma edit_outcome:
  assumes "good w" "editBlockedServices srv c n f w = (r, w')"
  defines "B \<equiv> \<lambda>o1. set (f (normaliseIDs (obj_blocked o1)))"
  shows "good w'" "glob w' = glob w"
    "only_client n (\<lambda>o1 o2. blocks_now (B o1) o1 o2) (cls w) (cls w')"
    "is_ok r \<Longrightarrow> \<exists>o1 o2. client_of (cls w) n = Some o1 \<and> client_of (cls w') n = Some o2 \<and> blocks_now (B o1) o1 o2"
proof -
  have out: "(same_view w w' \<and> (is_ok r \<longrightarrow> (\<exists>o1 w1 w2. client_of (cls w) n = Some o1 \<and> same_view w w1 \<and>
             edit_data f o1 w1 = (Inr None, w2)))) \<or>
         (\<exists>o1 w1 d w2. client_of (cls w) n = Some o1 \<and> same_view w w1 \<and>
             edit_data f o1 w1 = (Inr (Some d), w2) \<and> wrote n d w w')"
    using assms(1,2) unfolding editBlockedServices_def
    by (rule updateClient_outcome) (auto dest: edit_data_state edit_data_Some intro: same_view_refl)
  show "good w'" "glob w' = glob w"
    using out by (auto simp: same_view_def wrote_def)
  have put: "only_client n (\<lambda>o1 o2. blocks_now (B o1) o1 o2) (cls w) (cls w') \<and>
      (\<exists>o2. client_of (cls w') n = Some o2 \<and> blocks_now (B o1) o1 o2)"
    if "client_of (cls w) n = Some o1" "edit_data f o1 w1 = (Inr (Some d), w2)" "wrote n d w w'" for o1 w1 d w2
  proof -
    have d: "d = put_blocked (normaliseIDs (f (normaliseIDs (obj_blocked o1)))) o1"
      using edit_data_Some [OF that(2)] by simp
    then have "obj_name d = n" using client_of_name [OF that(1)] by simp
    with wrote_client [OF that(3)] have "client_of (cls w') = (client_of (cls w))(n \<mapsto> d)" by simp
    moreover have "blocks_now (B o1) o1 d"
      using blocks_now_put [of "normaliseIDs (f (normaliseIDs (obj_blocked o1)))" o1] by (simp add: d B_def)
    ultimately show ?thesis using that(1) by (simp add: only_client_def)
  qed
  show "only_client n (\<lambda>o1 o2. blocks_now (B o1) o1 o2) (cls w) (cls w')"
    using out by (elim disjE exE conjE) (erule same_view_only, drule (2) put, erule conjunct1)
  show "\<exists>o1 o2. client_of (cls w) n = Some o1 \<and> client_of (cls w') n = Some o2 \<and> blocks_now (B o1) o1 o2"
    if "is_ok r"
    using out that
  proof (elim disjE conjE exE impE)
    fix o1 w1 w2
    assume "same_view w w'" "client_of (cls w) n = Some o1" "edit_data f o1 w1 = (Inr None, w2)"
    then show ?thesis using edit_data_None [of f o1 w1 w2]
      by (auto simp: same_view_def B_def blocks_now_def)
  next
    fix o1 w1 d w2
    assume a: "client_of (cls w) n = Some o1" and b: "edit_data f o1 w1 = (Inr (Some d), w2)" "wrote n d w w'"
    from put [OF a b] a show ?thesis by blast
  qed
qed

lemma remove_outcome:
  assumes "good w" "RemoveBlockedServices srv c n ids w = (r, w')"
  shows "good w'" "glob w' = glob w"
    "only_client n (\<lambda>o1 o2. blocks_now (set (obj_blocked o1) - set ids) o1 o2) (cls w) (cls w')"
    "is_ok r \<Longrightarrow> \<exists>o1 o2. client_of (cls w) n = Some o1 \<and> client_of (cls w') n = Some o2 \<and>
       blocks_now (set (obj_blocked o1) - set ids) o1 o2"
proof -
  have eq: "set (filter (\<lambda>i. i \<notin> set ids) (normaliseIDs xs)) = set xs - set ids" for xs by auto
  note out = edit_outcome [OF assms(1) assms(2) [unfolded RemoveBlockedServices_def], unfolded eq]
  show "good w'" "glob w' = glob w"
    "only_client n (\<lambda>o1 o2. blocks_now (set (obj_blocked o1) - set ids) o1 o2) (cls w) (cls w')"
    "is_ok r \<Longrightarrow> \<exists>o1 o2. client_of (cls w) n = Some o1 \<and> client_of (cls w') n = Some o2 \<and>
       blocks_now (set (obj_blocked o1) - set ids) o1 o2"
    by (fact out)+
qed

lemma add_outcome:
  assumes "good w" "AddBlockedServices srv c n ids w = (r, w')"
  shows "good w'" "glob w' = glob w"
    "only_client n (\<lambda>o1 o2. blocks_now (set (obj_blocked o1) \<union> set ids) o1 o2) (cls w) (cls w')"
    "is_ok r \<Longrightarrow> \<exists>o1 o2. client_of (cls w) n = Some o1 \<and> client_of (cls w') n = Some o2 \<and>
       blocks_now (set (obj_blocked o1) \<union> set ids) o1 o2"
proof -
  have eq: "set (normaliseIDs xs @ ids) = set xs \<union> set ids" for xs by auto
  note out = edit_outcome [OF assms(1) assms(2) [unfolded AddBlockedServices_def], unfolded eq]
  show "good w'" "glob w' = glob w"
    "only_client n (\<lambda>o1 o2. blocks_now (set (obj_blocked o1) \<union> set ids) o1 o2) (cls w) (cls w')"
    "is_ok r \<Longrightarrow> \<exists>o1 o2. client_of (cls w) n = Some o1 \<and> client_of (cls w') n = Some o2 \<and>
       blocks_now (set (obj_blocked o1) \<union> set ids) o1 o2"
    by (fact out)+
qed

lemma set_outcome:
  assumes "good w" "SetBlockedServices srv c n ids w = (r, w')"
  shows "good w'" "glob w' = glob w"
    "only_client n (\<lambda>o1 o2. blocks_now (set ids) o1 o2) (cls w) (cls w')"
    "is_ok r \<Longrightarrow> \<exists>o1 o2. client_of (cls w) n = Some o1 \<and> client_of (cls w') n = Some o2 \<and> blocks_now (set ids) o1 o2"
proof -
  have out: "(same_view w w' \<and> \<not> is_ok r) \<or>
         (\<exists>o1. client_of (cls w) n = Some o1 \<and> wrote n (put_blocked (normaliseIDs ids) o1) w w')"
    using updateClient_outcome [OF assms(1) assms(2) [unfolded SetBlockedServices_def]]
    by (auto intro: same_view_refl)
  have put: "client_of (cls w') = (client_of (cls w))(n \<mapsto> put_blocked (normaliseIDs ids) o1)"
    if "client_of (cls w) n = Some o1" "wrote n (put_blocked (normaliseIDs ids) o1) w w'" for o1
    using wrote_client [OF that(2)] client_of_name [OF that(1)] by simp
  show "good w'" "glob w' = glob w"
    using out by (auto simp: same_view_def wrote_def)
  have now: "blocks_now (set ids) o1 (put_blocked (normaliseIDs ids) o1)" for o1
    using blocks_now_put [of "normaliseIDs ids" o1] by simp
  show "only_client n (\<lambda>o1 o2. blocks_now (set ids) o1 o2) (cls w) (cls w')"
    using out put now by (auto simp: same_view_def only_client_def)
  show "is_ok r \<Longrightarrow> \<exists>o1 o2. client_of (cls w) n = Some o1 \<and> client_of (cls w') n = Some o2 \<and> blocks_now (set ids) o1 o2"
    using out put now by fastforce
qed

lemma migrate_outcome:
  assumes "good w" "MigrateFromGlobal srv c n ids w = (r, w')"
  shows "good w'" "glob w' = glob w"
    "only_client n (\<lambda>o1 o2. owns_now (set ids) o1 o2) (cls w) (cls w')"
    "is_ok r \<Longrightarrow> \<exists>o1 o2. client_of (cls w) n = Some o1 \<and> client_of (cls w') n = Some o2 \<and> owns_now (set ids) o1 o2"
proof -
  let ?put = "\<lambda>o1. clear_global (put_blocked (normaliseIDs ids) o1)"
  have out: "(same_view w w' \<and> \<not> is_ok r) \<or>
         (\<exists>o1. client_of (cls w) n = Some o1 \<and> wrote n (?put o1) w w')"
    using updateClient_outcome [OF assms(1) assms(2) [unfolded MigrateFromGlobal_def]]
    by (auto intro: same_view_refl)
  have put: "client_of (cls w') = (client_of (cls w))(n \<mapsto> ?put o1)"
    if "client_of (cls w) n = Some o1" "wrote n (?put o1) w w'" for o1
    using wrote_client [OF that(2)] client_of_name [OF that(1)] by simp
  show "good w'" "glob w' = glob w"
    using out by (auto simp: same_view_def wrote_def)
  have now: "owns_now (set ids) o1 (?put o1)" for o1
    using owns_now_put [of "normaliseIDs ids" o1] by simp
  show "only_client n (\<lambda>o1 o2. owns_now (set ids) o1 o2) (cls w) (cls w')"
    using out put now by (auto simp: same_view_def only_client_def)
  show "is_ok r \<Longrightarrow> \<exists>o1 o2. client_of (cls w) n = Some o1 \<and> client_of (cls w') n = Some o2 \<and> owns_now (set ids) o1 o2"
    using out put now by fastforce
qed

lemma adopt_data_state: "good w \<Longrightarrow> adopt_data srv c ids o1 w = (r, w') \<Longrightarrow> same_view w w'"
  by (cases r) (auto simp: adopt_data_def Let_def split: if_splits
      intro: same_view_refl dest: read_global_view)

lemma adopt_data_Some:
  assumes "good w" "adopt_data srv c ids o1 w = (Inr (Some d), w')"
  shows "\<exists>xs. d = clear_global (put_blocked xs o1) \<and> set xs = effective (glob w) o1 \<union> set ids"
proof -
  obtain inh cur where inh: "decodeField as_bool False ''use_global_blocked_services'' o1 = Inr inh"
    and cur: "(if inh then read_global srv c
               else act_lift (decodeField (as_list as_str) [] ''blocked_services'' o1)) w = (Inr cur, w')"
    and d: "d = clear_global (put_blocked (normaliseIDs (normaliseIDs cur @ ids)) o1)"
  proof -
    obtain inh w0 cur w1 where 0: "act_lift (decodeField as_bool False ''use_global_blocked_services'' o1) w = (Inr inh, w0)"
      and 1: "(if inh then read_global srv c
        else act_lift (decodeField (as_list as_str) [] ''blocked_services'' o1)) w0 = (Inr cur, w1)"
      and 2: "(let current = normaliseIDs cur; next = normaliseIDs (current @ ids)
       in if \<not> inh \<and> current = next then act_ret None
          else act_ret (Some (clear_global (put_blocked next o1)))) w1 = (Inr (Some d) :: ag_error + obj option, w')"
      using assms(2) unfolding adopt_data_def act_bind_Inr by blast
    have "d = clear_global (put_blocked (normaliseIDs (normaliseIDs cur @ ids)) o1)" "w' = w1"
      using 2 by (simp_all add: Let_def split: if_split_asm)
    with 0 1 show thesis using that by simp
  qed
  have "set cur = effective (glob w) o1"
    using inh cur read_global_Inr [OF assms(1), of cur w']
    by (cases inh) (simp_all add: effective_def obj_inherits_def obj_blocked_def)
  with d show ?thesis by (intro exI [of _ "normaliseIDs (normaliseIDs cur @ ids)"]) simp
qed

lemma adopt_data_None:
  "adopt_data srv c ids o1 w = (Inr None, w') \<Longrightarrow> \<not> obj_inherits o1 \<and> set ids \<subseteq> set (obj_blocked o1)"
  by (auto simp: adopt_data_def obj_blocked_def obj_inherits_def Let_def sort_compact_eq_iff split: if_splits)

text \<open>Adopting keeps everything the client blocks, gives it its own list, and adds \<open>ids\<close>.\<close>

lemma adopt_outcome:
  assumes "good w" "AdoptBlockedServices srv c n ids w = (r, w')"
  shows "good w'" "glob w' = glob w"
    "only_client n (\<lambda>o1 o2. owns_now (effective (glob w) o1 \<union> set ids) o1 o2) (cls w) (cls w')"
    "is_ok r \<Longrightarrow> \<exists>o1 o2. client_of (cls w) n = Some o1 \<and> client_of (cls w') n = Some o2 \<and>
       owns_now (effective (glob w) o1 \<union> set ids) o1 o2"
proof -
  have out: "(same_view w w' \<and> (is_ok r \<longrightarrow> (\<exists>o1 w1 w2. client_of (cls w) n = Some o1 \<and> same_view w w1 \<and>
             adopt_data srv c ids o1 w1 = (Inr None, w2)))) \<or>
         (\<exists>o1 w1 d w2. client_of (cls w) n = Some o1 \<and> same_view w w1 \<and>
             adopt_data srv c ids o1 w1 = (Inr (Some d), w2) \<and> wrote n d w w')"
  proof (rule updateClient_outcome [OF assms(1) assms(2) [unfolded AdoptBlockedServices_def]])
    fix o1 w1 d w2
    assume "adopt_data srv c ids o1 w1 = (Inr (Some d), w2)" "has_name o1 n"
    then show "has_name d n" by (auto simp: adopt_data_def Let_def split: if_splits)
  qed (rule adopt_data_state)
  show "good w'" "glob w' = glob w"
    using out by (auto simp: same_view_def wrote_def)
  have put: "only_client n (\<lambda>o1 o2. owns_now (effective (glob w) o1 \<union> set ids) o1 o2) (cls w) (cls w') \<and>
      (\<exists>o2. client_of (cls w') n = Some o2 \<and> owns_now (effective (glob w) o1 \<union> set ids) o1 o2)"
    if o1: "client_of (cls w) n = Some o1" and v: "same_view w w1"
      and run: "adopt_data srv c ids o1 w1 = (Inr (Some d), w2)" and wr: "wrote n d w w'" for o1 w1 d w2
  proof -
    have "good w1" "effective (glob w1) o1 = effective (glob w) o1"
      using v by (simp_all add: same_view_def effective_def)
    then obtain xs where d: "d = clear_global (put_blocked xs o1)" "set xs = effective (glob w) o1 \<union> set ids"
      using adopt_data_Some [of w1 ids o1 d w2] run by auto
    then have "obj_name d = n" using client_of_name [OF o1] by simp
    with wrote_client [OF wr] have "client_of (cls w') = (client_of (cls w))(n \<mapsto> d)" by simp
    moreover have "owns_now (effective (glob w) o1 \<union> set ids) o1 d"
      using owns_now_put [of xs o1] d by simp
    ultimately show ?thesis using o1 by (simp add: only_client_def)
  qed
  show "only_client n (\<lambda>o1 o2. owns_now (effective (glob w) o1 \<union> set ids) o1 o2) (cls w) (cls w')"
    using out by (elim disjE exE conjE) (erule same_view_only, drule (3) put, erule conjunct1)
  show "\<exists>o1 o2. client_of (cls w) n = Some o1 \<and> client_of (cls w') n = Some o2 \<and>
       owns_now (effective (glob w) o1 \<union> set ids) o1 o2" if "is_ok r"
    using out that
  proof (elim disjE conjE exE impE)
    fix o1 w1 w2
    assume "same_view w w'" "client_of (cls w) n = Some o1" "adopt_data srv c ids o1 w1 = (Inr None, w2)"
    then show ?thesis using adopt_data_None [of ids o1 w1 w2]
      by (auto simp: same_view_def owns_now_def effective_def)
  next
    fix o1 w1 d w2
    assume a: "client_of (cls w) n = Some o1" "same_view w w1"
      "adopt_data srv c ids o1 w1 = (Inr (Some d), w2)" "wrote n d w w'"
    from put [OF a] a(1) show ?thesis by blast
  qed
qed

text \<open>A rename moves the object to its new name; nothing else changes.\<close>

lemma rename_scan_Inr:
  "rename_scan old new tg pcs = Inr pc \<Longrightarrow> old \<noteq> new \<Longrightarrow>
     (\<forall>p \<in> set pcs. pc_name p \<noteq> new) \<and> (pc \<in> set pcs \<and> pc_name pc = old \<or> tg = Some pc)"
  by (induction old new tg pcs rule: rename_scan.induct) (auto split: if_splits option.splits)

lemma act_map_err_Inr: "act_map_err f m w = (Inr x, w') \<longleftrightarrow> m w = (Inr x, w')"
  by (auto simp: act_map_err_def split: prod.splits sum.splits)

lemma act_map_err_state: "act_map_err f m w = (r, w') \<Longrightarrow> \<exists>r0. m w = (r0, w') \<and> is_ok r0 = is_ok r"
  by (auto simp: act_map_err_def split: prod.splits sum.splits)

lemma rename_outcome:
  assumes "good w" "RenameClient srv c old new w = (r, w')" "old \<noteq> new"
  shows "good w'" "glob w' = glob w"
    "client_of (cls w') = client_of (cls w) \<and> \<not> is_ok r \<or>
     (\<exists>o1. client_of (cls w) old = Some o1 \<and> client_of (cls w) new = None \<and>
        client_of (cls w') = (client_of (cls w))(old := None, new \<mapsto> AList.update ''name'' (JStr new) o1))"
proof -
  let ?up = "\<lambda>o1. AList.update ''name'' (JStr new) o1"
  have goal: "(same_view w w' \<and> \<not> is_ok r) \<or> (\<exists>o1. client_of (cls w) old = Some o1 \<and>
      client_of (cls w) new = None \<and> wrote old (?up o1) w w')"
  proof -
    obtain rc w1 where rc: "readClients srv c w = (rc, w1)" by (cases "readClients srv c w")
    have v1: "same_view w w1" using readClients_view [OF assms(1) rc] .
    show ?thesis
    proof (cases rc)
      case (Inl e)
      with rc assms(2,3) v1 show ?thesis by (auto simp: RenameClient_def act_bind_def)
    next
      case (Inr pcs)
      note dec = readClients_Inr [OF assms(1) rc [unfolded Inr]]
      show ?thesis
      proof (cases "rename_scan old new None pcs")
        case (Inl e)
        with rc Inr assms(2,3) v1 show ?thesis by (auto simp: RenameClient_def act_bind_def)
      next
        case (Inr pc)
        have pc: "pc \<in> set pcs" "pc_name pc = old" "\<forall>p \<in> set pcs. pc_name p \<noteq> new"
          using rename_scan_Inr [OF Inr assms(3)] by auto
        note d = decodePersistent_client [OF dec pc(1)]
        have old: "client_of (cls w) old = Some (pc_raw pc)"
          using d(1,5) pc(2) names [OF assms(1)] by (simp add: client_of_Some)
        have v: "good w1" "client_of (cls w1) old = Some (pc_raw pc)" "has_name (?up (pc_raw pc)) new"
          using v1 old by (simp_all add: same_view_def has_name_def update_conv')
        have "find (\<lambda>p. pc_name p = new) pcs = None" using pc(3) by (simp add: find_None_iff)
        then have new: "client_of (cls w) new = None" by (rule not_found_client [OF dec])
        have "act_map_err rejected (do_nil srv c POST ''/control/clients/update''
            (Some (update_body old (?up (pc_raw pc))))) w1 = (r, w')"
          using assms(2,3) rc \<open>rc = Inr pcs\<close> Inr by (simp add: RenameClient_def act_bind_def)
        from act_map_err_state [OF this]
        obtain r0 where "do_nil srv c POST ''/control/clients/update''
            (Some (update_body old (?up (pc_raw pc)))) w1 = (r0, w')" "is_ok r0 = is_ok r" by blast
        with post_update [OF v, of r0 w'] have "same_view w1 w' \<and> \<not> is_ok r \<or> wrote old (?up (pc_raw pc)) w1 w'"
          by auto
        then show ?thesis using old new v1 by (auto simp: same_view_def wrote_def)
      qed
    qed
  qed
  then show "good w'" "glob w' = glob w" by (auto simp: same_view_def wrote_def)
  show "client_of (cls w') = client_of (cls w) \<and> \<not> is_ok r \<or>
     (\<exists>o1. client_of (cls w) old = Some o1 \<and> client_of (cls w) new = None \<and>
        client_of (cls w') = (client_of (cls w))(old := None, new \<mapsto> ?up o1))"
    using goal by (auto simp: same_view_def wrote_def)
qed

end

end
