(* ===== verification/AdguardFixtures.thy ===== *)
theory AdguardFixtures
  imports AdguardHttp
begin

text \<open>
  internal/adguard/adguardtest/testdata: the documents the fake AdGuard Home serves, as trees.
  A client object is named by itself so that proofs can speak of it.
\<close>

definition fixture_kid_phone :: obj where
  "fixture_kid_phone =
     [(''name'', JStr ''Kid phone''), (''ids'', jstrs [''aa:bb:cc:dd:ee:01'', ''192.168.1.50'']),
      (''use_global_settings'', JBool True), (''filtering_enabled'', JBool False),
      (''parental_enabled'', JBool False), (''safebrowsing_enabled'', JBool False),
      (''safe_search'', JObj [(''enabled'', JBool True), (''bing'', JBool True), (''duckduckgo'', JBool True),
             (''ecosia'', JBool True), (''google'', JBool True), (''pixabay'', JBool True),
             (''yandex'', JBool True), (''youtube'', JBool True)]),
      (''use_global_blocked_services'', JBool False),
      (''blocked_services_schedule'', JObj [(''time_zone'', JStr ''Local'')]),
      (''blocked_services'', jstrs [''youtube'', ''tiktok'']), (''upstreams'', jstrs []),
      (''upstreams_cache_size'', JNull), (''upstreams_cache_enabled'', JBool False),
      (''tags'', jstrs [''device_phone'', ''user_child'']), (''ignore_querylog'', JBool False),
      (''ignore_statistics'', JBool False), (''future_field'', JNum ''42'')]"

definition fixture_kid_tablet :: obj where
  "fixture_kid_tablet =
     [(''name'', JStr ''Kid tablet''), (''ids'', jstrs [''aa:bb:cc:dd:ee:02'']),
      (''use_global_settings'', JBool True), (''filtering_enabled'', JBool False),
      (''parental_enabled'', JBool False), (''safebrowsing_enabled'', JBool False),
      (''safe_search'', JObj [(''enabled'', JBool False), (''bing'', JBool False), (''duckduckgo'', JBool False),
             (''ecosia'', JBool False), (''google'', JBool False), (''pixabay'', JBool False),
             (''yandex'', JBool False), (''youtube'', JBool False)]),
      (''use_global_blocked_services'', JBool True),
      (''blocked_services_schedule'', JObj [(''time_zone'', JStr ''Local'')]),
      (''blocked_services'', jstrs []), (''upstreams'', jstrs []),
      (''upstreams_cache_size'', JNum ''0''), (''upstreams_cache_enabled'', JBool False),
      (''tags'', jstrs [''device_tablet'']), (''ignore_querylog'', JBool False),
      (''ignore_statistics'', JBool False)]"

definition fixture_old_laptop :: obj where
  "fixture_old_laptop =
     [(''name'', JStr ''Old laptop''), (''ids'', jstrs [''192.168.1.77'']),
      (''use_global_settings'', JBool True), (''filtering_enabled'', JBool False),
      (''parental_enabled'', JBool False), (''safebrowsing_enabled'', JBool False),
      (''safe_search'', JObj [(''enabled'', JBool False), (''bing'', JBool False), (''duckduckgo'', JBool False),
             (''ecosia'', JBool False), (''google'', JBool False), (''pixabay'', JBool False),
             (''yandex'', JBool False), (''youtube'', JBool False)]),
      (''use_global_blocked_services'', JBool False),
      (''blocked_services_schedule'', JObj [(''time_zone'', JStr ''Local'')]),
      (''blocked_services'', JNull), (''upstreams'', jstrs []), (''upstreams_cache_size'', JNum ''0''),
      (''upstreams_cache_enabled'', JBool False), (''tags'', jstrs []),
      (''ignore_querylog'', JBool False), (''ignore_statistics'', JBool False)]"

definition clients_json :: obj where
  "clients_json =
     (''clients'', JArr (map JObj [fixture_kid_phone, fixture_kid_tablet, fixture_old_laptop])) #
     [(''auto_clients'', JArr [JObj [(''name'', JStr ''printer''), (''ip'', JStr ''192.168.1.9''),
                   (''source'', JStr ''ARP''), (''whois_info'', JObj [])],
             JObj [(''name'', JStr ''kid-phone''), (''ip'', JStr ''192.168.1.50''),
                   (''source'', JStr ''DHCP''), (''whois_info'', JObj [])],
             JObj [(''name'', JStr ''kid-tablet''), (''ip'', JStr ''192.168.1.51''),
                   (''source'', JStr ''DHCP''), (''whois_info'', JObj [])],
             JObj [(''name'', JStr ''Zed-TV''), (''ip'', JStr ''192.168.1.30''),
                   (''source'', JStr ''rDNS''), (''whois_info'', JObj [])],
             JObj [(''name'', JStr ''alpha''), (''ip'', JStr ''192.168.1.20''),
                   (''source'', JStr ''DHCP''), (''whois_info'', JObj [])],
             JObj [(''name'', JStr []), (''ip'', JStr ''192.168.1.40''), (''source'', JStr ''WHOIS''),
                   (''whois_info'', JObj [(''country'', JStr ''GB'')])]]),
      (''supported_tags'', jstrs [''device_phone'', ''device_tablet'', ''device_pc'', ''user_child'', ''user_admin''])]"

definition status_json :: obj where
  "status_json =
     [(''dns_addresses'', jstrs [''127.0.0.1'', ''192.168.1.2'']), (''dns_port'', JNum ''53''),
      (''http_port'', JNum ''80''), (''protection_enabled'', JBool True),
      (''protection_disabled_duration'', JNum ''0''), (''dhcp_available'', JBool False),
      (''running'', JBool True), (''version'', JStr ''v0.107.52''), (''language'', JStr ''en''),
      (''start_time'', JNum ''1758300000000'')]"

definition blocked_services_get_json :: obj where
  "blocked_services_get_json =
     [(''schedule'', JObj [(''time_zone'', JStr ''Local'')]), (''ids'', jstrs [''tiktok'', ''roblox''])]"

definition blocked_services_all_json :: obj where
  "blocked_services_all_json =
     [(''blocked_services'', JArr [JObj [(''icon_svg'', JStr ''PHN2Zy8+''), (''id'', JStr ''youtube''),
                   (''name'', JStr ''YouTube''),
                   (''rules'', jstrs [''||youtube.com^'', ''||googlevideo.com^'']),
                   (''group_id'', JStr ''video'')],
             JObj [(''icon_svg'', JStr ''PHN2Zy8+''), (''id'', JStr ''tiktok''),
                   (''name'', JStr ''TikTok''),
                   (''rules'', jstrs [''||tiktok.com^'', ''||tiktokcdn.com^'']),
                   (''group_id'', JStr ''social'')],
             JObj [(''icon_svg'', JStr ''PHN2Zy8+''), (''id'', JStr ''roblox''),
                   (''name'', JStr ''Roblox''),
                   (''rules'', jstrs [''||roblox.com^'', ''||rbxcdn.com^'']),
                   (''group_id'', JStr ''games'')]]),
      (''groups'', JArr [JObj [(''id'', JStr ''video''), (''name'', JStr ''Video'')],
             JObj [(''id'', JStr ''social''), (''name'', JStr ''Social'')],
             JObj [(''id'', JStr ''games''), (''name'', JStr ''Games'')]])]"

definition dhcp_status_json :: obj where
  "dhcp_status_json =
     [(''enabled'', JBool True), (''interface_name'', JStr ''eth0''),
      (''v4'', JObj [(''gateway_ip'', JStr ''192.168.1.1''), (''subnet_mask'', JStr ''255.255.255.0''),
             (''range_start'', JStr ''192.168.1.100''), (''range_end'', JStr ''192.168.1.200''),
             (''lease_duration'', JNum ''86400'')]),
      (''v6'', JObj [(''range_start'', JStr []), (''lease_duration'', JNum ''86400'')]),
      (''leases'', JArr [JObj [(''mac'', JStr ''aa:bb:cc:dd:ee:09''), (''ip'', JStr ''192.168.1.9''),
                   (''hostname'', JStr ''printer''), (''expires'', JStr ''2026-11-02T00:00:00Z'')],
             JObj [(''mac'', JStr ''aa:bb:cc:dd:ee:02''), (''ip'', JStr ''192.168.1.51''),
                   (''hostname'', JStr ''kid-tablet''), (''expires'', JStr ''2026-11-02T00:00:00Z'')]]),
      (''static_leases'', JArr [JObj [(''mac'', JStr ''aa:bb:cc:dd:ee:20''), (''ip'', JStr ''192.168.1.20''),
                   (''hostname'', JStr ''alpha'')]])]"

end
