(* ===== verification/AdguardFake.thy ===== *)
theory AdguardFake
  imports AdguardContract AdguardFixtures
begin

text \<open>
  internal/adguard/adguardtest/server.go: the in-process AdGuard Home the repository tests its
  client against. It is the one AdGuard whose source is at hand, so it is where the contract
  \<open>ag_server\<close> is discharged. A request runs to its end before the next one starts; the text of
  a JSON reply is left empty, since the client reads text only of a reply that is not 2xx, and
  so is the decoder's own message in a 400.
\<close>

section \<open>State\<close>

record request =
  rec_method :: http_method
  rec_path :: string
  rec_has_auth :: bool
  rec_body :: "json option"

text \<open>A forced reply: its code, its body, and the JSON value the body starts with, if any.\<close>

record forced =
  fc_code :: nat
  fc_body :: string
  fc_doc :: "json option"

record fake =
  fk_user :: string
  fk_pass :: string
  fk_auth_ok :: bool
  fk_forced :: "string \<Rightarrow> forced option"
  fk_hang :: "string \<Rightarrow> duration"
  fk_update_fault :: "string \<Rightarrow> nat option"
  fk_clients_doc :: obj
  fk_clients :: "obj list"
  fk_dirty :: bool
  fk_dhcp_doc :: obj
  fk_dhcp_dirty :: bool
  fk_requests :: "request list"
  fk_last_update :: "json option"
  fk_added :: "json list"
  fk_in_flight :: int
  fk_max_in_flight :: int

text \<open>\<open>New\<close> with \<open>loadClients\<close>.\<close>

definition fixture_clients :: "obj list" where
  "fixture_clients = [fixture_kid_phone, fixture_kid_tablet, fixture_old_laptop]"

definition fake_New :: "string \<Rightarrow> string \<Rightarrow> fake" where
  "fake_New user pass =
     \<lparr>fk_user = user, fk_pass = pass, fk_auth_ok = True, fk_forced = (\<lambda>_. None), fk_hang = (\<lambda>_. 0),
      fk_update_fault = (\<lambda>_. None), fk_clients_doc = clients_json, fk_clients = fixture_clients,
      fk_dirty = False, fk_dhcp_doc = dhcp_status_json, fk_dhcp_dirty = False, fk_requests = [],
      fk_last_update = None, fk_added = [], fk_in_flight = 0, fk_max_in_flight = 0\<rparr>"

subsection \<open>Controls of a test\<close>

definition SetResponse :: "string \<Rightarrow> nat \<Rightarrow> (string \<times> json option) option \<Rightarrow> fake \<Rightarrow> fake" where
  "SetResponse path code body s =
     (case body of
        None \<Rightarrow> s\<lparr>fk_forced := (fk_forced s)(path := None)\<rparr>
      | Some (text0, doc) \<Rightarrow>
          s\<lparr>fk_forced := (fk_forced s)(path \<mapsto> \<lparr>fc_code = code, fc_body = text0, fc_doc = doc\<rparr>)\<rparr>)"

definition Itoa :: "nat \<Rightarrow> string" where "Itoa n = show_base 20 10 n"

definition SetStatus :: "string \<Rightarrow> nat \<Rightarrow> fake \<Rightarrow> fake" where
  "SetStatus path code s = SetResponse path code (Some (''forced status '' @ Itoa code, None)) s"

definition Hang :: "string \<Rightarrow> duration \<Rightarrow> fake \<Rightarrow> fake" where
  "Hang path d s = s\<lparr>fk_hang := (fk_hang s)(path := d)\<rparr>"

definition SetUpdateStatus :: "string \<Rightarrow> nat \<Rightarrow> fake \<Rightarrow> fake" where
  "SetUpdateStatus name code s =
     s\<lparr>fk_update_fault := (fk_update_fault s)(name := (if code = 0 then None else Some code))\<rparr>"

definition SetAuth :: "bool \<Rightarrow> fake \<Rightarrow> fake" where "SetAuth b s = s\<lparr>fk_auth_ok := b\<rparr>"

text \<open>A raw field decoded with its error ignored: None where Unmarshal fails, a missing key included.\<close>

definition raw_str :: "string \<Rightarrow> obj \<Rightarrow> string option" where
  "raw_str key o1 = Option.bind (map_of o1 key) as_str"

text \<open>The ids of a client, decoded with the error ignored: an element that is not a string is blank.\<close>

definition raw_ids :: "obj \<Rightarrow> string list" where
  "raw_ids o1 =
     (case map_of o1 ''ids'' of
        Some (JArr xs) \<Rightarrow> map (\<lambda>x. case as_str x of Some s \<Rightarrow> s | None \<Rightarrow> []) xs
      | _ \<Rightarrow> [])"

fun indexOf :: "string \<Rightarrow> obj list \<Rightarrow> nat option" where
  "indexOf name [] = None"
| "indexOf name (c # cs) =
     (if raw_str ''name'' c = Some name then Some 0 else map_option Suc (indexOf name cs))"

text \<open>\<open>MutateClient\<close> and \<open>RemoveClient\<close> panic on an unknown name: None.\<close>

definition MutateClient :: "string \<Rightarrow> (obj \<Rightarrow> obj) \<Rightarrow> fake \<Rightarrow> fake option" where
  "MutateClient name fn s =
     (case indexOf name (fk_clients s) of
        None \<Rightarrow> None
      | Some i \<Rightarrow> Some (s\<lparr>fk_clients := (fk_clients s)[i := fn (fk_clients s ! i)], fk_dirty := True\<rparr>))"

definition RemoveClient :: "string \<Rightarrow> fake \<Rightarrow> fake option" where
  "RemoveClient name s =
     (case indexOf name (fk_clients s) of
        None \<Rightarrow> None
      | Some i \<Rightarrow> Some (s\<lparr>fk_clients := take i (fk_clients s) @ drop (i + 1) (fk_clients s), fk_dirty := True\<rparr>))"

text \<open>The outer option is the panic on a list that does not decode, the inner one \<open>ok\<close>.\<close>

definition BlockedServices :: "string \<Rightarrow> fake \<Rightarrow> string list option option" where
  "BlockedServices name s =
     (case indexOf name (fk_clients s) of
        None \<Rightarrow> Some None
      | Some i \<Rightarrow> map_option Some (field (as_list as_str) [] ''blocked_services'' (fk_clients s ! i)))"

definition wire_auto :: "auto_client \<Rightarrow> json" where
  "wire_auto a = JObj [(''name'', JStr (ac_hostname a)), (''ip'', JStr (ac_ip a)),
     (''source'', JStr (ac_source a)), (''whois_info'', JObj [])]"

definition SetAutoClients :: "auto_client list \<Rightarrow> fake \<Rightarrow> fake" where
  "SetAutoClients list s =
     s\<lparr>fk_clients_doc := AList.update ''auto_clients'' (JArr (map wire_auto list)) (fk_clients_doc s),
       fk_dirty := True\<rparr>"

definition wire_lease :: "lease \<Rightarrow> obj" where
  "wire_lease l = [(''mac'', JStr (ls_mac l)), (''ip'', JStr (ls_ip l)), (''hostname'', JStr (ls_hostname l))]"

definition SetLeases :: "lease list \<Rightarrow> lease list \<Rightarrow> fake \<Rightarrow> fake" where
  "SetLeases dyn stat s =
     s\<lparr>fk_dhcp_doc := AList.update ''static_leases'' (JArr (map (\<lambda>l. JObj (wire_lease l)) stat))
         (AList.update ''leases''
            (JArr (map (\<lambda>l. JObj (wire_lease l @ [(''expires'', JStr ''2026-11-02T00:00:00Z'')])) dyn))
            (fk_dhcp_doc s)),
       fk_dhcp_dirty := True\<rparr>"

definition CountRequests :: "http_method \<Rightarrow> string \<Rightarrow> fake \<Rightarrow> nat" where
  "CountRequests m path s =
     length (filter (\<lambda>r. rec_method r = m \<and> rec_path r = path) (fk_requests s))"

section \<open>Serving\<close>

text \<open>\<open>%q\<close>, with the escapes of the quote and the backslash; other bytes are kept.\<close>

definition go_quote :: "string \<Rightarrow> string" where
  "go_quote s =
     ''\"'' @ concat (map (\<lambda>c. if c = CHR 0x22 \<or> c = CHR 0x5C then [CHR 0x5C, c] else [c]) s) @ ''\"''"

definition http_Error :: "string \<Rightarrow> nat \<Rightarrow> reply" where
  "http_Error msg code = Reply code (msg @ [byte 10]) None"

definition writeJSON :: "obj \<Rightarrow> reply" where "writeJSON o1 = Reply 200 [] (Some (JObj o1))"

definition handleLogin :: "http_method \<Rightarrow> json option \<Rightarrow> fake \<Rightarrow> reply" where
  "handleLogin m body s =
     (if m \<noteq> POST then http_Error ''method not allowed'' 405
      else case Option.bind body (\<lambda>j. Option.bind (as_obj j) (\<lambda>o1.
             Option.bind (field as_str [] ''name'' o1) (\<lambda>n.
             Option.bind (field as_str [] ''password'' o1) (\<lambda>p. Some (n, p))))) of
             None \<Rightarrow> http_Error ''invalid login request'' 400
           | Some (n, p) \<Rightarrow>
               if n \<noteq> fk_user s \<or> p \<noteq> fk_pass s then http_Error ''invalid username or password'' 403
               else Reply 200 [] None)"

text \<open>The strict decoding of an update: no key beside these two.\<close>

definition update_input :: "json option \<Rightarrow> (string \<times> json option) option" where
  "update_input body =
     Option.bind body (\<lambda>j. Option.bind (as_obj j) (\<lambda>o1.
       if fst ` set o1 \<subseteq> {''name'', ''data''}
       then Option.bind (field as_str [] ''name'' o1) (\<lambda>n. Some (n, map_of o1 ''data''))
       else None))"

definition as_map :: "json option \<Rightarrow> obj option" where
  "as_map j = (case j of Some (JObj d) \<Rightarrow> Some d | _ \<Rightarrow> None)"

definition handleUpdate :: "json option \<Rightarrow> fake \<Rightarrow> fake \<times> reply" where
  "handleUpdate body s =
     (case update_input body of
        None \<Rightarrow> (s, http_Error ''invalid client update: '' 400)
      | Some (name, raw) \<Rightarrow>
          (case as_map raw of
             None \<Rightarrow> (s, http_Error ''invalid client data'' 400)
           | Some data \<Rightarrow>
               (case fk_update_fault s name of
                  Some code \<Rightarrow> (s, http_Error (''forced status '' @ Itoa code @ '' for '' @ name) code)
                | None \<Rightarrow>
                    (case indexOf name (fk_clients s) of
                       None \<Rightarrow> (s, http_Error (''client not found: '' @ name) 400)
                     | Some i \<Rightarrow>
                         if (case raw_str ''name'' data of
                               Some newName \<Rightarrow> newName \<noteq> name \<and> indexOf newName (fk_clients s) \<noteq> None
                             | None \<Rightarrow> False)
                         then (s, http_Error (''another client uses the same name '' @
                                 go_quote (the (raw_str ''name'' data))) 400)
                         else (s\<lparr>fk_clients := (fk_clients s)[i := data], fk_dirty := True,
                                 fk_last_update := body\<rparr>, Reply 200 [] None)))))"

text \<open>The first id of the new client another one holds, with its owner (\<open>strings.EqualFold\<close>).\<close>

fun held_id :: "string list \<Rightarrow> obj list \<Rightarrow> (string \<times> string) option" where
  "held_id ids [] = None"
| "held_id ids (c # cs) =
     (case concat (map (\<lambda>h. filter (\<lambda>i. to_lower h = to_lower i) ids) (raw_ids c)) of
        i # _ \<Rightarrow> Some (case raw_str ''name'' c of Some n \<Rightarrow> n | None \<Rightarrow> [], i)
      | [] \<Rightarrow> held_id ids cs)"

definition handleAdd :: "json option \<Rightarrow> fake \<Rightarrow> fake \<times> reply" where
  "handleAdd body s =
     (case as_map body of
        None \<Rightarrow> (s, http_Error ''invalid client: bad json'' 400)
      | Some data \<Rightarrow>
          (let name = (case raw_str ''name'' data of Some n \<Rightarrow> n | None \<Rightarrow> []);
               ids = raw_ids data
           in if name = [] then (s, http_Error ''invalid client: empty name'' 400)
              else if ids = [] then (s, http_Error ''invalid client: no ids'' 400)
              else if indexOf name (fk_clients s) \<noteq> None
              then (s, http_Error (''another client uses the same name '' @ go_quote name) 400)
              else case held_id ids (fk_clients s) of
                     Some (owner, i) \<Rightarrow> (s, http_Error (''another client '' @ go_quote owner @
                       '' uses the same id '' @ go_quote i) 400)
                   | None \<Rightarrow> (s\<lparr>fk_clients := fk_clients s @ [data], fk_dirty := True,
                              fk_added := fk_added s @ [JObj data]\<rparr>, Reply 200 [] None)))"

definition dhcpJSON :: "fake \<Rightarrow> obj" where
  "dhcpJSON s = (if fk_dhcp_dirty s then fk_dhcp_doc s else dhcp_status_json)"

definition clientsJSON :: "fake \<Rightarrow> obj" where
  "clientsJSON s =
     (if fk_dirty s then AList.update ''clients'' (JArr (map JObj (fk_clients s))) (fk_clients_doc s)
      else clients_json)"

text \<open>The routes, for a request that passed the credential check.\<close>

definition route :: "http_req \<Rightarrow> fake \<Rightarrow> fake \<times> reply" where
  "route rq s =
     (case rq_method rq of
        GET \<Rightarrow>
          (s, if rq_path rq = ''/control/status'' then writeJSON status_json
              else if rq_path rq = ''/control/clients'' then writeJSON (clientsJSON s)
              else if rq_path rq = ''/control/blocked_services/get'' then writeJSON blocked_services_get_json
              else if rq_path rq = ''/control/blocked_services/all'' then writeJSON blocked_services_all_json
              else if rq_path rq = ''/control/dhcp/status'' then writeJSON (dhcpJSON s)
              else Reply 404 (''404 page not found'' @ [byte 10]) (Some (JNum ''404'')))
      | POST \<Rightarrow>
          if rq_path rq = ''/control/clients/update'' then handleUpdate (rq_body rq) s
          else if rq_path rq = ''/control/clients/add'' then handleAdd (rq_body rq) s
          else (s, Reply 404 (''404 page not found'' @ [byte 10]) (Some (JNum ''404''))))"

text \<open>The bookkeeping of a request on arrival: recorded, and counted in flight until it leaves.\<close>

definition rmw_path :: "string \<Rightarrow> bool" where
  "rmw_path p \<longleftrightarrow> p = ''/control/clients'' \<or> p = ''/control/clients/update'' \<or> p = ''/control/clients/add''"

definition arrive :: "http_req \<Rightarrow> fake \<Rightarrow> fake" where
  "arrive rq s =
     (let s1 = s\<lparr>fk_requests := fk_requests s @
                  [\<lparr>rec_method = rq_method rq, rec_path = rq_path rq, rec_has_auth = (rq_auth rq \<noteq> None),
                    rec_body = rq_body rq\<rparr>]\<rparr>
      in if rmw_path (rq_path rq)
         then s1\<lparr>fk_in_flight := fk_in_flight s1 + 1,
                 fk_max_in_flight := max (fk_max_in_flight s1) (fk_in_flight s1 + 1)\<rparr>
         else s1)"

definition depart :: "http_req \<Rightarrow> fake \<Rightarrow> fake" where
  "depart rq s = (if rmw_path (rq_path rq) then s\<lparr>fk_in_flight := fk_in_flight s - 1\<rparr> else s)"

text \<open>
  \<open>serve\<close>. \<open>patience\<close> is how long the caller waits for a reply: a delay that outlasts it ends with
  the request's context, and the handler returns without replying.
\<close>

definition answer :: "duration \<Rightarrow> http_req \<Rightarrow> fake \<Rightarrow> fake \<times> reply" where
  "answer patience rq s =
     (if 0 < fk_hang s (rq_path rq) \<and> patience \<le> fk_hang s (rq_path rq) then (s, NoReply)
      else case fk_forced s (rq_path rq) of
             Some f \<Rightarrow> (s, Reply (fc_code f) (fc_body f) (fc_doc f))
           | None \<Rightarrow>
               if rq_path rq = ''/control/login'' then (s, handleLogin (rq_method rq) (rq_body rq) s)
               else if rq_auth rq = None \<or> \<not> fk_auth_ok s \<or> rq_auth rq \<noteq> Some (fk_user s, fk_pass s)
               then (s, http_Error ''Unauthorized'' 401)
               else route rq s)"

definition serve :: "duration \<Rightarrow> fake server" where
  "serve patience s rq = (case answer patience rq (arrive rq s) of (s', rep) \<Rightarrow> (depart rq s', rep))"

end
