(* ===== verification/AdguardView.thy ===== *)
theory AdguardView
  imports AdguardContract
begin

text \<open>
  The server's clients as the engine thinks of them: for each name whether the client inherits
  the global list, and the set of services on its own list. Every operation of the package is
  an edit of that map, and what it returns tells which. \<open>ag_server_up\<close> adds to the contract
  what a server does that answers.
\<close>

type_synonym lists = "string \<Rightarrow> (bool \<times> string set) option"

definition obj_lists :: "obj \<Rightarrow> bool \<times> string set" where
  "obj_lists o1 = (obj_inherits o1, set (obj_blocked o1))"

definition ag_view :: "obj list \<Rightarrow> lists" where
  "ag_view os n = map_option obj_lists (client_of os n)"

text \<open>The entry of one client edited by \<open>f\<close>, and only that.\<close>

definition edited :: "string \<Rightarrow> (bool \<times> string set \<Rightarrow> bool \<times> string set) \<Rightarrow> lists \<Rightarrow> lists \<Rightarrow> bool" where
  "edited n f v v' \<longleftrightarrow> v' = v(n := map_option f (v n))"

lemma blocks_now_lists: "blocks_now B o1 o2 \<Longrightarrow> obj_lists o2 = (obj_inherits o1, B)"
  by (simp add: blocks_now_def obj_lists_def obj_inherits_def decodeField_def)

lemma owns_now_lists: "owns_now B o1 o2 \<Longrightarrow> obj_lists o2 = (False, B)"
  by (simp add: owns_now_def obj_lists_def)

lemma only_client_view:
  assumes "only_client n R os os'" "\<And>o1 o2. R o1 o2 \<Longrightarrow> obj_lists o2 = f (obj_lists o1)"
  shows "ag_view os' = ag_view os \<or> edited n f (ag_view os) (ag_view os')"
proof -
  have other: "ag_view os' m = ag_view os m" if "m \<noteq> n" for m
    using assms(1) that by (simp add: only_client_def ag_view_def)
  have "ag_view os' n = ag_view os n \<or> ag_view os' n = map_option f (ag_view os n)"
    using assms(1) assms(2) [of "the (client_of os n)" "the (client_of os' n)"]
    by (auto simp: only_client_def ag_view_def)
  then show ?thesis
  proof
    assume "ag_view os' n = ag_view os n"
    with other have "ag_view os' m = ag_view os m" for m by (cases "m = n") simp_all
    then have "ag_view os' = ag_view os" by (rule ext)
    then show ?thesis ..
  next
    assume "ag_view os' n = map_option f (ag_view os n)"
    with other show ?thesis by (auto simp: edited_def)
  qed
qed

lemma only_client_view_ok:
  assumes "only_client n R os os'" "\<And>o1 o2. R o1 o2 \<Longrightarrow> obj_lists o2 = f (obj_lists o1)"
    "\<exists>o1 o2. client_of os n = Some o1 \<and> client_of os' n = Some o2 \<and> R o1 o2"
  shows "ag_view os n \<noteq> None \<and> edited n f (ag_view os) (ag_view os')"
proof -
  have "ag_view os' m = ag_view os m" if "m \<noteq> n" for m
    using assms(1) that by (simp add: only_client_def ag_view_def)
  with assms(2,3) show ?thesis by (auto simp: edited_def ag_view_def fun_eq_iff)
qed

section \<open>Errors of one call\<close>

text \<open>The errors a single call can end in; the others are the package's own refusals.\<close>

fun call_error :: "ag_error \<Rightarrow> bool" where
  "call_error (ErrBadCredentials _) = True"
| "call_error (ErrRateLimited _) = True"
| "call_error (StatusError _) = True"
| "call_error (TransportError _ _) = True"
| "call_error (DecodeError _) = True"
| "call_error _ = False"

lemma classify_call_error: "classify m path code body = Some e \<Longrightarrow> call_error e"
  by (auto simp: classify_def split: if_splits)

lemma do_call_error: "do_call srv c m path body dec w = (Inl e, w') \<Longrightarrow> call_error e"
  by (auto simp: do_call_run classify_call_error split: prod.splits reply.splits option.splits)

lemma do_nil_error: "do_nil srv c m path body w = (Inl e, w') \<Longrightarrow> call_error e"
  by (auto simp: do_nil_run classify_call_error split: prod.splits reply.splits option.splits)

lemma decodeField_error: "decodeField dec z k o1 = Inl e \<Longrightarrow> call_error e"
  by (auto simp: decodeField_def split: option.splits if_splits)

lemma decodePersistent_error: "decodePersistent os = Inl e \<Longrightarrow> call_error e"
  by (induction os) (auto simp: decode_client_def dest: decodeField_error)

lemma readClients_error: "readClients srv c w = (Inl e, w') \<Longrightarrow> call_error e"
  by (auto simp: readClients_def readDoc_def dest: do_call_error decodePersistent_error)

lemma edit_data_error: "edit_data f o1 w = (Inl e, w') \<Longrightarrow> call_error e"
  by (auto simp: edit_data_def Let_def dest: decodeField_error split: if_splits)

lemma adopt_data_error: "adopt_data srv c ids o1 w = (Inl e, w') \<Longrightarrow> call_error e"
  by (auto simp: adopt_data_def Let_def read_global_def dest: decodeField_error do_call_error split: if_splits)

lemma updateClient_not_found:
  assumes "updateClient srv c n mutate w = (Inl e, w')" "\<not> call_error e"
    and "\<And>o1 w1 e w2. mutate o1 w1 = (Inl e, w2) \<Longrightarrow> call_error e"
  shows "e = ErrClientNotFound n \<and> (\<exists>pcs. readClients srv c w = (Inr pcs, w') \<and>
    find (\<lambda>pc. pc_name pc = n) pcs = None)"
proof -
  obtain rc w1 where rc: "readClients srv c w = (rc, w1)" by (cases "readClients srv c w")
  show ?thesis
  proof (cases rc)
    case (Inl x)
    with rc assms(1,2) readClients_error [of srv c w x w1] show ?thesis
      by (auto simp: updateClient_def act_bind_def)
  next
    case (Inr pcs)
    show ?thesis
    proof (cases "find (\<lambda>pc. pc_name pc = n) pcs")
      case None
      with rc Inr assms(1) show ?thesis by (auto simp: updateClient_def act_bind_def)
    next
      case (Some pc)
      obtain r2 w2 where mut: "mutate (pc_raw pc) w1 = (r2, w2)" by (cases "mutate (pc_raw pc) w1")
      show ?thesis
      proof (cases r2)
        case (Inl x)
        with mut assms(3) rc Inr Some assms(1,2) show ?thesis
          by (auto simp: updateClient_def act_bind_def)
      next
        case (Inr d)
        with mut rc \<open>rc = Inr pcs\<close> Some assms(1,2) show ?thesis
          by (auto simp: updateClient_def act_bind_def dest: do_nil_error split: option.splits)
      qed
    qed
  qed
qed

section \<open>The operations as edits of the lists\<close>

context ag_server
begin

definition view :: "'w \<Rightarrow> lists" where "view w = ag_view (cls w)"

lemma view_same: "same_view w w' \<Longrightarrow> good w' \<and> view w' = view w \<and> glob w' = glob w"
  by (simp add: same_view_def view_def)

lemma view_not_found:
  assumes "good w" "updateClient srv c n mutate w = (Inl e, w')" "\<not> call_error e"
    and "\<And>o1 w1 e w2. mutate o1 w1 = (Inl e, w2) \<Longrightarrow> call_error e"
  shows "view w n = None \<and> same_view w w'"
proof -
  obtain pcs where pcs: "readClients srv c w = (Inr pcs, w')" "find (\<lambda>pc. pc_name pc = n) pcs = None"
    using updateClient_not_found [OF assms(2,3)] assms(4) by blast
  have "client_of (cls w) n = None" using not_found_client [OF readClients_Inr [OF assms(1) pcs(1)] pcs(2)] .
  with readClients_view [OF assms(1) pcs(1)] show ?thesis by (simp add: view_def ag_view_def)
qed

lemma remove_view:
  assumes "good w" "RemoveBlockedServices srv c n ids w = (r, w')"
  shows "good w'" "glob w' = glob w"
    "view w' = view w \<or> edited n (apsnd (\<lambda>b. b - set ids)) (view w) (view w')"
    "is_ok r \<Longrightarrow> view w n \<noteq> None \<and> edited n (apsnd (\<lambda>b. b - set ids)) (view w) (view w')"
proof -
  note out = remove_outcome [OF assms]
  have f: "obj_lists o2 = apsnd (\<lambda>b. b - set ids) (obj_lists o1)"
    if "blocks_now (set (obj_blocked o1) - set ids) o1 o2" for o1 o2
    using blocks_now_lists [OF that] by (simp add: obj_lists_def)
  show "good w'" "glob w' = glob w" by (fact out(1,2))+
  show "view w' = view w \<or> edited n (apsnd (\<lambda>b. b - set ids)) (view w) (view w')"
    unfolding view_def by (rule only_client_view [OF out(3)]) (rule f)
  show "view w n \<noteq> None \<and> edited n (apsnd (\<lambda>b. b - set ids)) (view w) (view w')" if "is_ok r"
    unfolding view_def by (rule only_client_view_ok [OF out(3) _ out(4) [OF that]]) (rule f)
qed

lemma add_view:
  assumes "good w" "AddBlockedServices srv c n ids w = (r, w')"
  shows "good w'" "glob w' = glob w"
    "view w' = view w \<or> edited n (apsnd (\<lambda>b. b \<union> set ids)) (view w) (view w')"
    "is_ok r \<Longrightarrow> view w n \<noteq> None \<and> edited n (apsnd (\<lambda>b. b \<union> set ids)) (view w) (view w')"
    "r = Inl (ErrClientNotFound x) \<Longrightarrow> view w n = None \<and> view w' = view w"
proof -
  note out = add_outcome [OF assms]
  have f: "obj_lists o2 = apsnd (\<lambda>b. b \<union> set ids) (obj_lists o1)"
    if "blocks_now (set (obj_blocked o1) \<union> set ids) o1 o2" for o1 o2
    using blocks_now_lists [OF that] by (simp add: obj_lists_def)
  show "good w'" "glob w' = glob w" by (fact out(1,2))+
  show "view w' = view w \<or> edited n (apsnd (\<lambda>b. b \<union> set ids)) (view w) (view w')"
    unfolding view_def by (rule only_client_view [OF out(3)]) (rule f)
  show "view w n \<noteq> None \<and> edited n (apsnd (\<lambda>b. b \<union> set ids)) (view w) (view w')" if "is_ok r"
    unfolding view_def by (rule only_client_view_ok [OF out(3) _ out(4) [OF that]]) (rule f)
  show "view w n = None \<and> view w' = view w" if r: "r = Inl (ErrClientNotFound x)"
  proof -
    have run: "updateClient srv c n (edit_data (\<lambda>current. current @ ids)) w = (Inl (ErrClientNotFound x), w')"
      using assms(2) r by (simp add: AddBlockedServices_def editBlockedServices_def)
    have "view w n = None \<and> same_view w w'"
      by (rule view_not_found [OF assms(1) run]) (simp, rule edit_data_error)
    then show ?thesis by (auto dest: view_same)
  qed
qed

lemma adopt_view:
  assumes "good w" "AdoptBlockedServices srv c n ids w = (r, w')"
  defines "f \<equiv> \<lambda>(i, b). (False, (if i then set (glob w) else b) \<union> set ids)"
  shows "good w'" "glob w' = glob w" "view w' = view w \<or> edited n f (view w) (view w')"
    "is_ok r \<Longrightarrow> view w n \<noteq> None \<and> edited n f (view w) (view w')"
    "r = Inl (ErrClientNotFound x) \<Longrightarrow> view w n = None \<and> view w' = view w"
proof -
  note out = adopt_outcome [OF assms(1,2)]
  have f: "obj_lists o2 = f (obj_lists o1)" if "owns_now (effective (glob w) o1 \<union> set ids) o1 o2" for o1 o2
    using owns_now_lists [OF that] by (simp add: obj_lists_def effective_def f_def)
  show "good w'" "glob w' = glob w" by (fact out(1,2))+
  show "view w' = view w \<or> edited n f (view w) (view w')"
    unfolding view_def by (rule only_client_view [OF out(3)]) (rule f)
  show "view w n \<noteq> None \<and> edited n f (view w) (view w')" if "is_ok r"
    unfolding view_def by (rule only_client_view_ok [OF out(3) _ out(4) [OF that]]) (rule f)
  show "view w n = None \<and> view w' = view w" if r: "r = Inl (ErrClientNotFound x)"
  proof -
    have run: "updateClient srv c n (adopt_data srv c ids) w = (Inl (ErrClientNotFound x), w')"
      using assms(2) r by (simp add: AdoptBlockedServices_def)
    have "view w n = None \<and> same_view w w'"
      by (rule view_not_found [OF assms(1) run]) (simp, rule adopt_data_error)
    then show ?thesis by (auto dest: view_same)
  qed
qed

lemma migrate_view:
  assumes "good w" "MigrateFromGlobal srv c n ids w = (r, w')"
  shows "good w'" "glob w' = glob w" "view w' = view w \<or> edited n (\<lambda>_. (False, set ids)) (view w) (view w')"
    "is_ok r \<Longrightarrow> view w n \<noteq> None \<and> edited n (\<lambda>_. (False, set ids)) (view w) (view w')"
proof -
  note out = migrate_outcome [OF assms]
  show "good w'" "glob w' = glob w" by (fact out(1,2))+
  show "view w' = view w \<or> edited n (\<lambda>_. (False, set ids)) (view w) (view w')"
    unfolding view_def by (rule only_client_view [OF out(3)]) (rule owns_now_lists)
  show "view w n \<noteq> None \<and> edited n (\<lambda>_. (False, set ids)) (view w) (view w')" if "is_ok r"
    unfolding view_def by (rule only_client_view_ok [OF out(3) _ out(4) [OF that]]) (rule owns_now_lists)
qed

lemma set_view:
  assumes "good w" "SetBlockedServices srv c n ids w = (r, w')"
  shows "good w'" "glob w' = glob w" "view w' = view w \<or> edited n (apsnd (\<lambda>_. set ids)) (view w) (view w')"
    "is_ok r \<Longrightarrow> view w n \<noteq> None \<and> edited n (apsnd (\<lambda>_. set ids)) (view w) (view w')"
proof -
  note out = set_outcome [OF assms]
  have f: "obj_lists o2 = apsnd (\<lambda>_. set ids) (obj_lists o1)" if "blocks_now (set ids) o1 o2" for o1 o2
    using blocks_now_lists [OF that] by (simp add: obj_lists_def)
  show "good w'" "glob w' = glob w" by (fact out(1,2))+
  show "view w' = view w \<or> edited n (apsnd (\<lambda>_. set ids)) (view w) (view w')"
    unfolding view_def by (rule only_client_view [OF out(3)]) (rule f)
  show "view w n \<noteq> None \<and> edited n (apsnd (\<lambda>_. set ids)) (view w) (view w')" if "is_ok r"
    unfolding view_def by (rule only_client_view_ok [OF out(3) _ out(4) [OF that]]) (rule f)
qed

lemma rename_view:
  assumes "good w" "RenameClient srv c old new w = (r, w')" "old \<noteq> new"
  shows "good w'" "glob w' = glob w"
    "view w' = view w \<and> \<not> is_ok r \<or>
     (\<exists>x. view w old = Some x \<and> view w new = None \<and> view w' = (view w)(old := None, new \<mapsto> x))"
proof -
  note out = rename_outcome [OF assms]
  show "good w'" "glob w' = glob w" by (fact out(1,2))+
  show "view w' = view w \<and> \<not> is_ok r \<or>
     (\<exists>x. view w old = Some x \<and> view w new = None \<and> view w' = (view w)(old := None, new \<mapsto> x))"
    using out(3)
  proof (elim disjE exE conjE)
    fix o1
    assume o1: "client_of (cls w) old = Some o1" "client_of (cls w) new = None"
      "client_of (cls w') = (client_of (cls w))(old := None, new \<mapsto> AList.update ''name'' (JStr new) o1)"
    have "obj_lists (AList.update ''name'' (JStr new) o1) = obj_lists o1" by (simp add: obj_lists_def)
    with o1 have "view w old = Some (obj_lists o1)" "view w new = None"
      "view w' = (view w)(old := None, new \<mapsto> obj_lists o1)"
      by (auto simp: view_def ag_view_def fun_eq_iff)
    then show ?thesis by blast
  qed (simp add: view_def ag_view_def fun_eq_iff)
qed

text \<open>Adding a client: only a new name, with the ids and lists asked for.\<close>

lemma add_check_None:
  "add_check nc pcs = None \<Longrightarrow> \<forall>pc \<in> set pcs. pc_name pc \<noteq> nc_name nc"
  by (induction nc pcs rule: add_check.induct) (auto split: if_splits option.splits)

lemma add_client_view:
  assumes "good w" "AddClient srv c nc w = (r, w')"
  shows "good w'" "glob w' = glob w"
    "view w' = view w \<and> \<not> is_ok r \<or> view w (nc_name nc) = None \<and>
      view w' = (view w)(nc_name nc \<mapsto> (nc_blocked nc = None, case nc_blocked nc of None \<Rightarrow> {} | Some b \<Rightarrow> set b))"
proof -
  let ?b = "case nc_blocked nc of None \<Rightarrow> {} | Some b \<Rightarrow> set b"
  have "same_view w w' \<and> \<not> is_ok r \<or> good w' \<and> glob w' = glob w \<and>
      view w (nc_name nc) = None \<and> view w' = (view w)(nc_name nc \<mapsto> (nc_blocked nc = None, ?b))"
  proof -
    obtain rc w1 where rc: "readClients srv c w = (rc, w1)" by (cases "readClients srv c w")
    have v1: "same_view w w1" using readClients_view [OF assms(1) rc] .
    show ?thesis
    proof (cases rc)
      case (Inl e)
      with rc assms(2) v1 show ?thesis by (auto simp: AddClient_def act_bind_def)
    next
      case (Inr pcs)
      show ?thesis
      proof (cases "add_check nc pcs")
        case (Some e)
        with rc Inr assms(2) v1 show ?thesis by (auto simp: AddClient_def act_bind_def)
      next
        case None
        have g1: "good w1" using v1 by (simp add: same_view_def)
        have "act_map_err rejected (do_nil srv c POST ''/control/clients/add'' (Some (JObj (add_body nc)))) w1 = (r, w')"
          using assms(2) rc Inr None by (simp add: AddClient_def act_bind_def)
        from act_map_err_state [OF this]
        obtain r0 where r0: "do_nil srv c POST ''/control/clients/add'' (Some (JObj (add_body nc))) w1 = (r0, w')"
          "is_ok r0 = is_ok r" by blast
        obtain rep where rep: "srv w1 (call_req c POST ''/control/clients/add'' (Some (JObj (add_body nc)))) = (w', rep)"
          using do_nil_world [OF r0(1)] by blast
        note a = add [OF g1 add_body_has_name rep]
        have lists: "obj_lists (add_body nc) = (nc_blocked nc = None, ?b)"
          by (auto simp: obj_lists_def split: option.splits)
        have added: "view w (nc_name nc) = None \<and> view w' = (view w)(nc_name nc \<mapsto> (nc_blocked nc = None, ?b))"
          if fresh: "nc_name nc \<notin> obj_name ` set (cls w1)" and st: "cls w' = cls w1 @ [add_body nc]"
        proof -
          have "client_of (cls w1 @ [add_body nc]) = (client_of (cls w1))(nc_name nc \<mapsto> add_body nc)"
            using client_of_append [of "add_body nc" "cls w1"] fresh by simp
          moreover have "client_of (cls w1) (nc_name nc) = None" using fresh by (simp add: client_of_None)
          moreover have "cls w1 = cls w" using v1 by (simp add: same_view_def)
          ultimately show ?thesis using st lists by (auto simp: view_def ag_view_def fun_eq_iff)
        qed
        show ?thesis
        proof (cases r0)
          case (Inl e)
          with r0(2) a added v1 show ?thesis by (auto simp: same_view_def)
        next
          case (Inr u)
          then obtain code bd doc where "srv w1 (call_req c POST ''/control/clients/add'' (Some (JObj (add_body nc)))) =
              (w', Reply code bd doc)" "ok_code code" using do_nil_Inr r0(1) by metis
          from added [OF add_ok [OF g1 add_body_has_name this, THEN conjunct1] add_ok [OF g1 add_body_has_name this, THEN conjunct2]]
            a v1 show ?thesis by (auto simp: same_view_def)
        qed
      qed
    qed
  qed
  then show "good w'" "glob w' = glob w"
    "view w' = view w \<and> \<not> is_ok r \<or> view w (nc_name nc) = None \<and>
      view w' = (view w)(nc_name nc \<mapsto> (nc_blocked nc = None, ?b))"
    by (auto dest: view_same)
qed

text \<open>Reading the clients: the entries found by name are those of the map.\<close>

definition lists_of :: "persistent_client \<Rightarrow> bool \<times> string set" where
  "lists_of pc = (pc_global pc, set (pc_blocked pc))"

lemma clients_view:
  assumes "good w" "Clients srv c w = (r, w')"
  shows "good w'" "view w' = view w" "glob w' = glob w"
    "r = Inr res \<Longrightarrow> distinct (map pc_name (cr_persistent res)) \<and> set (cr_global res) = set (glob w) \<and>
       (\<forall>n. view w n = map_option lists_of (map_of (map (\<lambda>pc. (pc_name pc, pc)) (cr_persistent res)) n))"
proof -
  obtain rd w1 where rd: "readDoc srv c w = (rd, w1)" by (cases "readDoc srv c w")
  have v1: "same_view w w1" using readDoc_view [OF assms(1) rd] .
  then have g1: "good w1" by (simp add: same_view_def)
  have v: "same_view w w'"
  proof (cases rd)
    case (Inl e)
    with rd assms(2) v1 show ?thesis by (auto simp: Clients_def act_bind_def)
  next
    case (Inr p)
    obtain rg w2 where rg: "read_global srv c w1 = (rg, w2)" by (cases "read_global srv c w1")
    have "w' = w2" using rd Inr rg assms(2) by (cases p; cases rg) (auto simp: Clients_def act_bind_def)
    with read_global_view [OF g1 rg] v1 show ?thesis by (simp add: same_view_def)
  qed
  then show "good w'" "view w' = view w" "glob w' = glob w" by (auto dest: view_same)
  assume r: "r = Inr res"
  obtain pcs auto ids where *: "rd = Inr (pcs, auto)" "read_global srv c w1 = (Inr ids, w')"
    "res = \<lparr>cr_persistent = pcs, cr_auto = auto, cr_global = ids\<rparr>"
    using assms(2) rd r by (auto simp: Clients_def)
  have dec: "decodePersistent (cls w) = Inr pcs"
    using readDoc_Inr [OF assms(1), of pcs auto w1] rd *(1) by simp
  have raw: "map pc_raw pcs = cls w" using decodePersistent_Inr [OF dec] by simp
  have pc: "pc \<in> set pcs \<Longrightarrow> pc_name pc = obj_name (pc_raw pc) \<and> lists_of pc = obj_lists (pc_raw pc)" for pc
    using decodePersistent_client [OF dec] by (simp add: lists_of_def obj_lists_def)
  have "map pc_name pcs = map obj_name (cls w)" using pc by (simp add: raw [symmetric])
  then have d: "distinct (map pc_name pcs)" using names [OF assms(1)] by simp
  have "map_option lists_of (map_of (map (\<lambda>pc. (pc_name pc, pc)) pcs) n) =
      map_option obj_lists (find (\<lambda>o1. obj_name o1 = n) (map pc_raw pcs))" for n
    using pc by (induction pcs) auto
  then have "view w n = map_option lists_of (map_of (map (\<lambda>pc. (pc_name pc, pc)) pcs) n)" for n
    by (simp add: view_def ag_view_def client_of_def raw)
  moreover have "set ids = set (glob w)"
    using read_global_Inr [OF g1 *(2)] v1 by (simp add: same_view_def)
  ultimately show "distinct (map pc_name (cr_persistent res)) \<and> set (cr_global res) = set (glob w) \<and>
       (\<forall>n. view w n = map_option lists_of (map_of (map (\<lambda>pc. (pc_name pc, pc)) (cr_persistent res)) n))"
    using d *(3) by simp
qed

end

section \<open>A server that answers\<close>

locale ag_server_up = ag_server srv c good cls glob
  for srv :: "'w server" and c :: ag_client and good :: "'w \<Rightarrow> bool" and cls :: "'w \<Rightarrow> obj list"
    and glob :: "'w \<Rightarrow> string list" +
  fixes up :: "'w \<Rightarrow> bool"
  assumes up_good: "up w \<Longrightarrow> good w"
    and up_decode: "up w \<Longrightarrow> is_ok (decodePersistent (cls w))"
    and up_clients: "up w \<Longrightarrow> \<exists>w' code tx j auto.
      srv w (call_req c GET ''/control/clients'' None) = (w', Reply code tx (Some j)) \<and> ok_code code \<and>
      decode_doc j = Some (cls w, auto) \<and> up w'"
    and up_global: "up w \<Longrightarrow> \<exists>w' code tx j ids.
      srv w (call_req c GET ''/control/blocked_services/get'' None) = (w', Reply code tx (Some j)) \<and>
      ok_code code \<and> decode_ids j = Some ids \<and> up w'"
    and up_update: "up w \<Longrightarrow> has_name d m \<Longrightarrow> is_ok (decode_client d) \<Longrightarrow> n \<in> obj_name ` set (cls w) \<Longrightarrow>
      m = n \<or> m \<notin> obj_name ` set (cls w) \<Longrightarrow> \<exists>w' code tx doc.
      srv w (call_req c POST ''/control/clients/update'' (Some (update_body n d))) = (w', Reply code tx doc) \<and>
      ok_code code \<and> up w'"
begin

lemma readDoc_up: "up w \<Longrightarrow> \<exists>pcs auto w'. readDoc srv c w = (Inr (pcs, auto), w') \<and> up w' \<and> cls w' = cls w \<and>
    decodePersistent (cls w) = Inr pcs"
proof -
  assume w: "up w"
  obtain w' code tx j auto where rep: "srv w (call_req c GET ''/control/clients'' None) = (w', Reply code tx (Some j))"
    "ok_code code" "decode_doc j = Some (cls w, auto)" "up w'" using up_clients [OF w] by blast
  obtain pcs where pcs: "decodePersistent (cls w) = Inr pcs" using up_decode [OF w] by (rule is_okE)
  have "do_call srv c GET ''/control/clients'' None decode_doc w = (Inr (cls w, auto), w')"
    using rep by (simp add: do_call_run classify_None [THEN iffD2])
  with pcs have "readDoc srv c w = (Inr (pcs, auto), w')" by (simp add: readDoc_def)
  moreover have "cls w' = cls w" using quiet [OF up_good [OF w] _ rep(1)] by (simp add: call_req_def)
  ultimately show ?thesis using pcs rep(4) by blast
qed

lemma clients_up: "up w \<Longrightarrow> \<exists>res w'. Clients srv c w = (Inr res, w') \<and> up w'"
proof -
  assume w: "up w"
  obtain pcs auto w1 where 1: "readDoc srv c w = (Inr (pcs, auto), w1)" "up w1" using readDoc_up [OF w] by blast
  obtain w' code tx j ids where rep: "srv w1 (call_req c GET ''/control/blocked_services/get'' None) = (w', Reply code tx (Some j))"
    "ok_code code" "decode_ids j = Some ids" "up w'" using up_global [OF 1(2)] by blast
  have "read_global srv c w1 = (Inr ids, w')"
    using rep by (simp add: read_global_def do_call_run classify_None [THEN iffD2])
  with 1 rep(4) show ?thesis by (simp add: Clients_def)
qed

lemma decode_put_blocked: "decode_client o1 = Inr pc \<Longrightarrow> is_ok (decode_client (put_blocked ids o1))"
  by (auto simp: decode_client_def put_blocked_def decodeField_update jstrs_def
      simp flip: jstrs_def)

lemma edit_up:
  assumes w: "up w" and run: "editBlockedServices srv c n f w = (r, w')"
  shows "up w' \<and> (if view w n = None then r = Inl (ErrClientNotFound n) else is_ok r)"
proof -
  obtain pcs auto w1 where 1: "readDoc srv c w = (Inr (pcs, auto), w1)" "up w1" "cls w1 = cls w"
    "decodePersistent (cls w) = Inr pcs" using readDoc_up [OF w] by blast
  have rc: "readClients srv c w = (Inr pcs, w1)" using 1(1) by (simp add: readClients_def)
  show ?thesis
  proof (cases "find (\<lambda>pc. pc_name pc = n) pcs")
    case None
    with run rc 1 not_found_client [OF 1(4) None] show ?thesis
      by (auto simp: editBlockedServices_def updateClient_def act_bind_def view_def ag_view_def)
  next
    case (Some pc)
    note found = found_client [OF up_good [OF w] 1(4) Some]
    have v: "view w n \<noteq> None" using found(1) by (simp add: view_def ag_view_def)
    have dec: "decodeField (as_list as_str) [] ''blocked_services'' (pc_raw pc) = Inr (pc_blocked pc)"
      using found(3) decode_client_Inr [OF found(3)] by (auto simp: decode_client_def obj_blocked_def)
    define nx where "nx = normaliseIDs (f (normaliseIDs (pc_blocked pc)))"
    define d where "d = (if normaliseIDs (pc_blocked pc) = nx then None else Some (put_blocked nx (pc_raw pc)))"
    have d: "edit_data f (pc_raw pc) w1 = (Inr d, w1)"
      using dec by (simp add: edit_data_def act_bind_def Let_def d_def nx_def)
    show ?thesis
    proof (cases d)
      case None
      with run rc Some d 1(2) v show ?thesis
        by (auto simp: editBlockedServices_def updateClient_def act_bind_def)
    next
      case (Some x)
      then have x: "x = put_blocked nx (pc_raw pc)" by (simp add: d_def split: if_splits)
      have "has_name x n" "is_ok (decode_client x)" "n \<in> obj_name ` set (cls w1)"
        using found decode_put_blocked [OF found(3)] client_of_name [OF found(1)] 1(3) by (auto simp: x)
      then obtain w2 code tx doc where "srv w1 (call_req c POST ''/control/clients/update'' (Some (update_body n x))) =
          (w2, Reply code tx doc)" "ok_code code" "up w2" using up_update [OF 1(2)] by blast
      then have "do_nil srv c POST ''/control/clients/update'' (Some (update_body n x)) w1 = (Inr (), w2)"
        by (simp add: do_nil_run classify_None [THEN iffD2])
      with run rc \<open>find _ pcs = Some pc\<close> d Some v \<open>up w2\<close> show ?thesis
        by (auto simp: editBlockedServices_def updateClient_def act_bind_def)
    qed
  qed
qed

end

end
