(* ===== verification/AdguardFakeContract.thy ===== *)
theory AdguardFakeContract
  imports AdguardFake AdguardView
begin

text \<open>
  The fake AdGuard Home keeps the contract \<open>ag_server\<close>, in every state it can reach from \<open>New\<close>
  by requests and by the controls that do not rewrite its clients behind the contract's back.
\<close>

section \<open>Requests and the stored clients\<close>

definition contract_path :: "string \<Rightarrow> bool" where
  "contract_path p \<longleftrightarrow> p \<in> {''/control/clients'', ''/control/blocked_services/get'',
     ''/control/clients/update'', ''/control/clients/add''}"

definition fake_good :: "fake \<Rightarrow> bool" where
  "fake_good s \<longleftrightarrow>
     (\<forall>o1 \<in> set (fk_clients s). has_name o1 (obj_name o1)) \<and> distinct (map obj_name (fk_clients s)) \<and>
     (\<forall>p f. contract_path p \<and> fk_forced s p = Some f \<longrightarrow> \<not> ok_code (fc_code f)) \<and>
     (\<forall>n code. fk_update_fault s n = Some code \<longrightarrow> \<not> ok_code code) \<and>
     (\<not> fk_dirty s \<longrightarrow> fk_clients s = fixture_clients)"

definition fake_glob :: "fake \<Rightarrow> string list" where "fake_glob s = [''tiktok'', ''roblox'']"

lemma arrive_simps [simp]:
  "fk_clients (arrive rq s) = fk_clients s" "fk_forced (arrive rq s) = fk_forced s"
  "fk_update_fault (arrive rq s) = fk_update_fault s" "fk_dirty (arrive rq s) = fk_dirty s"
  "fk_user (arrive rq s) = fk_user s" "fk_pass (arrive rq s) = fk_pass s" "fk_auth_ok (arrive rq s) = fk_auth_ok s"
  "fk_clients_doc (arrive rq s) = fk_clients_doc s" "fk_hang (arrive rq s) = fk_hang s"
  "clientsJSON (arrive rq s) = clientsJSON s"
  by (simp_all add: arrive_def Let_def clientsJSON_def)

lemma depart_simps [simp]:
  "fk_clients (depart rq s) = fk_clients s" "fk_forced (depart rq s) = fk_forced s"
  "fk_update_fault (depart rq s) = fk_update_fault s" "fk_dirty (depart rq s) = fk_dirty s"
  "fake_good (depart rq s) = fake_good s"
  by (simp_all add: depart_def fake_good_def)

lemma arrive_good [simp]: "fake_good (arrive rq s) = fake_good s"
  by (simp add: fake_good_def)

lemma raw_str_has_name: "raw_str ''name'' o1 = Some n \<longleftrightarrow> n = [] \<and> map_of o1 ''name'' = Some JNull \<or> has_name o1 n"
  by (cases "map_of o1 ''name''") (auto simp: raw_str_def has_name_def elim!: as_str.elims)

lemma has_name_raw_str: "has_name o1 n \<Longrightarrow> raw_str ''name'' o1 = Some n"
  by (simp add: raw_str_has_name)

lemma has_name_unique: "has_name o1 n \<Longrightarrow> has_name o1 m \<Longrightarrow> n = m"
  by (simp add: has_name_def)

lemma indexOf_None:
  "\<forall>o1 \<in> set os. has_name o1 (obj_name o1) \<Longrightarrow> indexOf n os = None \<longleftrightarrow> n \<notin> obj_name ` set os"
  by (induction os) (auto simp: has_name_raw_str)

lemma indexOf_update:
  "\<forall>o1 \<in> set os. has_name o1 (obj_name o1) \<Longrightarrow> distinct (map obj_name os) \<Longrightarrow> indexOf n os = Some i \<Longrightarrow>
     os[i := d] = replace_client n d os \<and> n \<in> obj_name ` set os"
proof (induction os arbitrary: i)
  case (Cons a os)
  have a: "raw_str ''name'' a = Some (obj_name a)" using Cons.prems(1) by (simp add: has_name_raw_str)
  show ?case
  proof (cases "obj_name a = n")
    case True
    with a Cons.prems(3) have "i = 0" by simp
    moreover from True Cons.prems(2) have "replace_client n d os = os"
      by (auto simp: replace_client_def image_iff intro!: map_idI)
    ultimately show ?thesis using True by (simp add: replace_client_def)
  next
    case False
    with a Cons.prems(3) obtain k where "indexOf n os = Some k" "i = Suc k" by auto
    with Cons False show ?thesis by (simp add: replace_client_def)
  qed
qed simp

lemma replace_client_names:
  assumes "distinct (map obj_name os)" "obj_name d = n \<or> obj_name d \<notin> obj_name ` set os"
  shows "distinct (map obj_name (replace_client n d os))"
    "obj_name ` set (replace_client n d os) \<subseteq> insert (obj_name d) (obj_name ` set os)"
proof -
  let ?f = "\<lambda>x. if x = n then obj_name d else x"
  have eq: "map obj_name (replace_client n d os) = map ?f (map obj_name os)"
    by (simp add: replace_client_def)
  have "inj_on ?f (set (map obj_name os))"
  proof (rule inj_onI)
    fix x y
    assume "x \<in> set (map obj_name os)" "y \<in> set (map obj_name os)" "?f x = ?f y"
    with assms(2) show "x = y" by (auto split: if_splits simp del: image_iff)
  qed
  then show "distinct (map obj_name (replace_client n d os))"
    unfolding eq using assms(1) distinct_map by blast
  have "set (map obj_name (replace_client n d os)) \<subseteq> insert (obj_name d) (obj_name ` set os)"
    unfolding eq by auto
  then show "obj_name ` set (replace_client n d os) \<subseteq> insert (obj_name d) (obj_name ` set os)" by simp
qed

lemma route_GET: "rq_method rq = GET \<Longrightarrow> fst (route rq s) = s"
  by (simp add: route_def)

lemma serve_cases:
  assumes "serve patience s rq = (s', rep)"
  shows "s' = depart rq (arrive rq s) \<and> rep = NoReply \<or>
    (\<exists>f. fk_forced s (rq_path rq) = Some f \<and> s' = depart rq (arrive rq s) \<and> rep = Reply (fc_code f) (fc_body f) (fc_doc f)) \<or>
    rq_path rq = ''/control/login'' \<and> s' = depart rq (arrive rq s) \<or>
    (s' = depart rq (arrive rq s) \<and> rep = http_Error ''Unauthorized'' 401) \<or>
    (\<exists>s1. route rq (arrive rq s) = (s1, rep) \<and> s' = depart rq s1 \<and> rq_path rq \<noteq> ''/control/login'' \<and>
      fk_auth_ok s \<and> rq_auth rq = Some (fk_user s, fk_pass s))"
  using assms by (auto simp: serve_def answer_def split: prod.splits if_splits option.splits)

lemma http_Error_not_ok [simp]: "http_Error msg code = Reply c t d \<longleftrightarrow> c = code \<and> t = msg @ [byte 10] \<and> d = None"
  by (auto simp: http_Error_def)

text \<open>What a stored update or addition keeps of the good states.\<close>

lemma good_replace:
  assumes "fake_good s" "has_name d m" "m = n \<or> m \<notin> obj_name ` set (fk_clients s)"
  shows "fake_good (s\<lparr>fk_clients := replace_client n d (fk_clients s), fk_dirty := True, fk_last_update := b\<rparr>)"
proof -
  have d: "obj_name d = m" using assms(2) by (rule has_name_obj_name)
  with assms have "distinct (map obj_name (replace_client n d (fk_clients s)))"
    by (intro replace_client_names) (auto simp: fake_good_def)
  with assms d show ?thesis by (auto simp: fake_good_def replace_client_def)
qed

lemma good_append:
  assumes "fake_good s" "has_name d m" "m \<notin> obj_name ` set (fk_clients s)"
  shows "fake_good (s\<lparr>fk_clients := fk_clients s @ [d], fk_dirty := True, fk_added := b\<rparr>)"
  using assms has_name_obj_name [OF assms(2)] by (auto simp: fake_good_def)

definition refused :: "reply \<Rightarrow> bool" where
  "refused rep = (case rep of NoReply \<Rightarrow> True | Reply code _ _ \<Rightarrow> \<not> ok_code code)"

lemma refused_http_Error [simp]: "refused (http_Error msg code) \<longleftrightarrow> \<not> ok_code code"
  by (simp add: refused_def http_Error_def)

lemma refused_Reply [simp]: "refused (Reply code tx doc) \<longleftrightarrow> \<not> ok_code code"
  by (simp add: refused_def)

lemma not_ok_codes [simp]: "\<not> ok_code 400" "\<not> ok_code 401" "\<not> ok_code 403" "\<not> ok_code 404"
  by (simp_all add: ok_code_def)

lemma handleUpdate_out:
  assumes "fake_good s" "has_name d m" "handleUpdate (Some (update_body n d)) s = (s', rep)"
  shows "s' = s \<and> refused rep \<or>
    n \<in> obj_name ` set (fk_clients s) \<and> (m = n \<or> m \<notin> obj_name ` set (fk_clients s)) \<and>
    s' = s\<lparr>fk_clients := replace_client n d (fk_clients s), fk_dirty := True,
           fk_last_update := Some (update_body n d)\<rparr>"
proof -
  have input: "update_input (Some (update_body n d)) = Some (n, Some (JObj d))"
    by (simp add: update_input_def update_body_def field_def)
  have names: "\<forall>o1 \<in> set (fk_clients s). has_name o1 (obj_name o1)" "distinct (map obj_name (fk_clients s))"
    using assms(1) by (simp_all add: fake_good_def)
  have fault: "fk_update_fault s n = Some code \<Longrightarrow> \<not> ok_code code" for code
    using assms(1) by (simp add: fake_good_def)
  show ?thesis
    using assms(3) fault indexOf_None [OF names(1), of m] indexOf_update [OF names, of n]
    by (auto simp: handleUpdate_def input as_map_def has_name_raw_str [OF assms(2)]
        split: option.splits if_splits)
qed

lemma handleAdd_out:
  assumes "fake_good s" "has_name d m" "handleAdd (Some (JObj d)) s = (s', rep)"
  shows "s' = s \<and> refused rep \<or>
    m \<notin> obj_name ` set (fk_clients s) \<and>
    s' = s\<lparr>fk_clients := fk_clients s @ [d], fk_dirty := True, fk_added := fk_added s @ [JObj d]\<rparr>"
proof -
  have names: "\<forall>o1 \<in> set (fk_clients s). has_name o1 (obj_name o1)"
    using assms(1) by (simp add: fake_good_def)
  note raw = has_name_raw_str [OF assms(2)]
  show ?thesis
  proof (cases "m = [] \<or> raw_ids d = [] \<or> indexOf m (fk_clients s) \<noteq> None")
    case True
    then have "s' = s \<and> refused rep"
      using assms(3) by (simp add: handleAdd_def as_map_def raw Let_def split: if_split_asm) auto
    then show ?thesis by blast
  next
    case False
    then have ix: "indexOf m (fk_clients s) = None" "m \<notin> obj_name ` set (fk_clients s)"
      using indexOf_None [OF names, of m] by simp_all
    show ?thesis
    proof (cases "held_id (raw_ids d) (fk_clients s)")
      case None
      with False ix assms(3) show ?thesis by (simp add: handleAdd_def as_map_def raw)
    next
      case (Some p)
      with False ix assms(3) have "s' = s \<and> refused rep"
        by (cases p) (auto simp: handleAdd_def as_map_def raw)
      then show ?thesis by blast
    qed
  qed
qed

text \<open>The documents served.\<close>

lemma those_as_obj: "those (map (as_obj \<circ> JObj) os) = Some os"
  by (induction os) auto

lemma decode_clients_doc:
  assumes "map_of doc ''clients'' = Some (JArr (map JObj os))" "decode_doc (JObj doc) = Some (os', auto)"
  shows "os' = os"
  using assms by (auto simp: decode_doc_def field_def those_as_obj bind_eq_Some_conv)

lemma clientsJSON_clients:
  assumes "fake_good s"
  shows "map_of (clientsJSON s) ''clients'' = Some (JArr (map JObj (fk_clients s)))"
  using assms by (simp add: clientsJSON_def update_conv' clients_json_def fake_good_def fixture_clients_def)

lemma global_ids: "decode_ids (JObj blocked_services_get_json) = Some [''tiktok'', ''roblox'']"
  by (simp add: decode_ids_def blocked_services_get_json_def field_def del: as_list.simps)

section \<open>The contract\<close>

lemma fake_quiet:
  assumes "fake_good s" "rq_method rq = GET \<or> rq_path rq = ''/control/login''" "serve patience s rq = (s', rep)"
  shows "fake_good s' \<and> fk_clients s' = fk_clients s"
  using serve_cases [OF assms(3)] assms(1,2) route_GET [of rq "arrive rq s"] by auto

lemma fake_served:
  assumes "fake_good s" "serve patience s (call_req c m p body) = (s', Reply code tx doc)" "contract_path p" "ok_code code"
  shows "\<exists>s1. route (call_req c m p body) (arrive (call_req c m p body) s) = (s1, Reply code tx doc) \<and>
    s' = depart (call_req c m p body) s1"
proof -
  have p: "p \<noteq> ''/control/login''" using assms(3) by (auto simp: contract_path_def)
  have f: "fk_forced s p = Some f \<Longrightarrow> fc_code f \<noteq> code" for f
    using assms(1,3,4) by (auto simp: fake_good_def)
  have "code \<noteq> 401" using assms(4) by (simp add: ok_code_def)
  with serve_cases [OF assms(2)] p f show ?thesis
    by (auto simp: call_req_def http_Error_def)
qed

lemma fake_post:
  assumes "fake_good s" "serve patience s (call_req c m p body) = (s', rep)" "p \<noteq> ''/control/login''"
  shows "s' = depart (call_req c m p body) (arrive (call_req c m p body) s) \<or>
    (\<exists>s1. route (call_req c m p body) (arrive (call_req c m p body) s) = (s1, rep) \<and>
      s' = depart (call_req c m p body) s1)"
  using serve_cases [OF assms(2)] assms(3) by (auto simp: call_req_def)

lemma route_update: "route (call_req c POST ''/control/clients/update'' b) s = handleUpdate b s"
  by (simp add: route_def call_req_def)

lemma route_add: "route (call_req c POST ''/control/clients/add'' b) s = handleAdd b s"
  by (simp add: route_def call_req_def)

lemma path_update: "''/control/clients/update'' \<noteq> ''/control/login''"
  and path_add: "''/control/clients/add'' \<noteq> ''/control/login''"
  by simp_all

lemma fake_update:
  assumes "fake_good w" "has_name d m"
    "serve patience w (call_req c POST ''/control/clients/update'' (Some (update_body n d))) = (w', rep)"
  shows "fake_good w' \<and> fk_clients w' = fk_clients w \<or>
    fake_good w' \<and> n \<in> obj_name ` set (fk_clients w) \<and> (m = n \<or> m \<notin> obj_name ` set (fk_clients w)) \<and>
      fk_clients w' = replace_client n d (fk_clients w)"
  using fake_post [OF assms(1,3) path_update]
proof (elim disjE exE conjE)
  let ?rq = "call_req c POST ''/control/clients/update'' (Some (update_body n d))"
  fix s1
  assume s1: "route ?rq (arrive ?rq w) = (s1, rep)" "w' = depart ?rq s1"
  have g: "fake_good (arrive ?rq w)" using assms(1) by simp
  from handleUpdate_out [OF g assms(2) s1(1) [unfolded route_update]] show ?thesis
  proof (rule disjE; elim conjE)
    assume "s1 = arrive ?rq w"
    with s1(2) assms(1) show ?thesis by simp
  next
    assume s1': "s1 = arrive ?rq w\<lparr>fk_clients := replace_client n d (fk_clients (arrive ?rq w)), fk_dirty := True,
           fk_last_update := Some (update_body n d)\<rparr>"
      and n: "n \<in> obj_name ` set (fk_clients (arrive ?rq w))"
      and m: "m = n \<or> m \<notin> obj_name ` set (fk_clients (arrive ?rq w))"
    from good_replace [OF g assms(2) m] have "fake_good s1" by (simp only: s1')
    with s1' s1(2) n m show ?thesis by simp
  qed
qed (use assms(1) in simp_all)

lemma fake_add:
  assumes "fake_good w" "has_name d m"
    "serve patience w (call_req c POST ''/control/clients/add'' (Some (JObj d))) = (w', rep)"
  shows "fake_good w' \<and> fk_clients w' = fk_clients w \<or>
    fake_good w' \<and> m \<notin> obj_name ` set (fk_clients w) \<and> fk_clients w' = fk_clients w @ [d]"
  using fake_post [OF assms(1,3) path_add]
proof (elim disjE exE conjE)
  let ?rq = "call_req c POST ''/control/clients/add'' (Some (JObj d))"
  fix s1
  assume s1: "route ?rq (arrive ?rq w) = (s1, rep)" "w' = depart ?rq s1"
  have g: "fake_good (arrive ?rq w)" using assms(1) by simp
  from handleAdd_out [OF g assms(2) s1(1) [unfolded route_add]] show ?thesis
  proof (rule disjE; elim conjE)
    assume "s1 = arrive ?rq w"
    with s1(2) assms(1) show ?thesis by simp
  next
    assume s1': "s1 = arrive ?rq w\<lparr>fk_clients := fk_clients (arrive ?rq w) @ [d], fk_dirty := True,
           fk_added := fk_added (arrive ?rq w) @ [JObj d]\<rparr>"
      and m: "m \<notin> obj_name ` set (fk_clients (arrive ?rq w))"
    from good_append [OF g assms(2) m] have "fake_good s1" by (simp only: s1')
    with s1' s1(2) m show ?thesis by simp
  qed
qed (use assms(1) in simp_all)

text \<open>An accepted write was stored.\<close>

lemma fake_update_ok:
  assumes "fake_good w" "has_name d m" "ok_code code"
    "serve patience w (call_req c POST ''/control/clients/update'' (Some (update_body n d))) = (w', Reply code tx doc)"
  shows "n \<in> obj_name ` set (fk_clients w) \<and> (m = n \<or> m \<notin> obj_name ` set (fk_clients w)) \<and>
      fk_clients w' = replace_client n d (fk_clients w)"
proof -
  let ?rq = "call_req c POST ''/control/clients/update'' (Some (update_body n d))"
  obtain s1 where s1: "route ?rq (arrive ?rq w) = (s1, Reply code tx doc)" "w' = depart ?rq s1"
    using fake_served [OF assms(1,4) _ assms(3)] by (auto simp: contract_path_def)
  have g: "fake_good (arrive ?rq w)" using assms(1) by simp
  from handleUpdate_out [OF g assms(2) s1(1) [unfolded route_update]] assms(3) s1(2) show ?thesis by auto
qed

lemma fake_add_ok:
  assumes "fake_good w" "has_name d m" "ok_code code"
    "serve patience w (call_req c POST ''/control/clients/add'' (Some (JObj d))) = (w', Reply code tx doc)"
  shows "m \<notin> obj_name ` set (fk_clients w) \<and> fk_clients w' = fk_clients w @ [d]"
proof -
  let ?rq = "call_req c POST ''/control/clients/add'' (Some (JObj d))"
  obtain s1 where s1: "route ?rq (arrive ?rq w) = (s1, Reply code tx doc)" "w' = depart ?rq s1"
    using fake_served [OF assms(1,4) _ assms(3)] by (auto simp: contract_path_def)
  have g: "fake_good (arrive ?rq w)" using assms(1) by simp
  from handleAdd_out [OF g assms(2) s1(1) [unfolded route_add]] assms(3) s1(2) show ?thesis by auto
qed

interpretation fake: ag_server "serve patience" c fake_good fk_clients fake_glob
  for patience c
proof unfold_locales
  fix w w' :: fake and rq rep o1 code tx j os auto ids d m n doc
  assume g: "fake_good w"
  show "o1 \<in> set (fk_clients w) \<Longrightarrow> has_name o1 (obj_name o1)" using g by (simp add: fake_good_def)
  show "distinct (map obj_name (fk_clients w))" using g by (simp add: fake_good_def)
  show "rq_method rq = GET \<Longrightarrow> serve patience w rq = (w', rep) \<Longrightarrow>
      fake_good w' \<and> fk_clients w' = fk_clients w \<and> fake_glob w' = fake_glob w"
    using fake_quiet [OF g, of rq patience w' rep] by (simp add: fake_glob_def)
  show "rq_path rq = ''/control/login'' \<Longrightarrow> serve patience w rq = (w', rep) \<Longrightarrow>
      fake_good w' \<and> fk_clients w' = fk_clients w \<and> fake_glob w' = fake_glob w"
    using fake_quiet [OF g, of rq patience w' rep] by (simp add: fake_glob_def)
  show "serve patience w (call_req c GET ''/control/clients'' None) = (w', Reply code tx (Some j)) \<Longrightarrow>
      ok_code code \<Longrightarrow> decode_doc j = Some (os, auto) \<Longrightarrow> os = fk_clients w"
    using fake_served [OF g, of patience c GET "''/control/clients''" None w' code tx "Some j"]
      decode_clients_doc [OF clientsJSON_clients [OF g], of os auto]
    by (auto simp: contract_path_def route_def call_req_def writeJSON_def)
  show "serve patience w (call_req c GET ''/control/blocked_services/get'' None) = (w', Reply code tx (Some j)) \<Longrightarrow>
      ok_code code \<Longrightarrow> decode_ids j = Some ids \<Longrightarrow> set ids = set (fake_glob w)"
    using fake_served [OF g, of patience c GET "''/control/blocked_services/get''" None w' code tx "Some j"]
      global_ids by (auto simp: contract_path_def route_def call_req_def writeJSON_def fake_glob_def)
  assume d: "has_name d m"
  show "serve patience w (call_req c POST ''/control/clients/update'' (Some (update_body n d))) = (w', rep) \<Longrightarrow>
      fake_good w' \<and> fake_glob w' = fake_glob w \<and> (fk_clients w' = fk_clients w \<or>
        n \<in> obj_name ` set (fk_clients w) \<and> (m = n \<or> m \<notin> obj_name ` set (fk_clients w)) \<and>
        fk_clients w' = replace_client n d (fk_clients w))"
    using fake_update [OF g d, of patience c n w' rep] by (auto simp: fake_glob_def)
  show "serve patience w (call_req c POST ''/control/clients/add'' (Some (JObj d))) = (w', rep) \<Longrightarrow>
      fake_good w' \<and> fake_glob w' = fake_glob w \<and>
        (fk_clients w' = fk_clients w \<or> m \<notin> obj_name ` set (fk_clients w) \<and> fk_clients w' = fk_clients w @ [d])"
    using fake_add [OF g d, of patience c w' rep] by (auto simp: fake_glob_def)
  assume ok: "ok_code code"
  show "serve patience w (call_req c POST ''/control/clients/update'' (Some (update_body n d))) = (w', Reply code tx doc) \<Longrightarrow>
      n \<in> obj_name ` set (fk_clients w) \<and> (m = n \<or> m \<notin> obj_name ` set (fk_clients w)) \<and>
        fk_clients w' = replace_client n d (fk_clients w)"
    by (rule fake_update_ok [OF g d ok])
  show "serve patience w (call_req c POST ''/control/clients/add'' (Some (JObj d))) = (w', Reply code tx doc) \<Longrightarrow>
      m \<notin> obj_name ` set (fk_clients w) \<and> fk_clients w' = fk_clients w @ [d]"
    by (rule fake_add_ok [OF g d ok])
qed

lemma fake_New_good: "fake_good (fake_New user pass)"
proof -
  have "has_name fixture_kid_phone ''Kid phone''" "has_name fixture_kid_tablet ''Kid tablet''"
    "has_name fixture_old_laptop ''Old laptop''"
    by (simp_all add: has_name_def fixture_kid_phone_def fixture_kid_tablet_def fixture_old_laptop_def)
  then show ?thesis
    by (simp add: fake_good_def fake_New_def fixture_clients_def has_name_obj_name)
qed

section \<open>When the fake answers\<close>

definition auto_ok :: "obj \<Rightarrow> bool" where
  "auto_ok doc \<longleftrightarrow> field (as_list decode_auto) [] ''auto_clients'' doc \<noteq> None"

definition fake_up :: "ag_client \<Rightarrow> fake \<Rightarrow> bool" where
  "fake_up c s \<longleftrightarrow>
     fake_good s \<and> fk_auth_ok s \<and> ag_username c = fk_user s \<and> ag_password c = fk_pass s \<and>
     (\<forall>p. contract_path p \<longrightarrow> fk_forced s p = None \<and> fk_hang s p = 0) \<and>
     (\<forall>n. fk_update_fault s n = None) \<and> is_ok (decodePersistent (fk_clients s)) \<and> auto_ok (fk_clients_doc s)"

lemma arrive_up: "fake_up c (arrive rq s) = fake_up c s"
  by (simp add: fake_up_def)

lemma depart_up: "fake_up c (depart rq s) = fake_up c s"
  by (simp add: fake_up_def) (simp add: depart_def)

lemma serve_up:
  assumes "fake_up c s" "contract_path p"
  shows "serve patience s (call_req c m p body) =
    (let (s1, rep) = route (call_req c m p body) (arrive (call_req c m p body) s)
     in (depart (call_req c m p body) s1, rep))"
proof -
  have "p \<noteq> ''/control/login''" using assms(2) by (auto simp: contract_path_def)
  with assms show ?thesis
    by (simp add: serve_def answer_def fake_up_def Let_def call_req_def)
qed

lemma clients_json_auto: "auto_ok clients_json"
  by code_simp

lemma clients_doc_decodes:
  assumes "fake_up c s"
  shows "\<exists>auto. decode_doc (JObj (clientsJSON s)) = Some (fk_clients s, auto)"
proof -
  have "auto_ok (clientsJSON s)"
    using assms clients_json_auto by (simp add: clientsJSON_def fake_up_def auto_ok_def field_def update_conv')
  moreover have "map_of (clientsJSON s) ''clients'' = Some (JArr (map JObj (fk_clients s)))"
    using clientsJSON_clients assms by (simp add: fake_up_def)
  ultimately show ?thesis
    by (auto simp: decode_doc_def auto_ok_def field_def those_as_obj simp del: as_list.simps
        simp add: as_list.simps(2))
qed

lemma decode_replaced:
  assumes "is_ok (decodePersistent os)" "is_ok (decode_client d)"
  shows "is_ok (decodePersistent (replace_client n d os))"
  using assms(1)
proof (induction os)
  case (Cons a os)
  from Cons.prems obtain pcs where "decodePersistent (a # os) = Inr pcs" by (rule is_okE)
  then obtain pc pcs' where a: "decode_client a = Inr pc" "decodePersistent os = Inr pcs'" by auto
  with Cons.IH obtain pcs2 where "decodePersistent (replace_client n d os) = Inr pcs2" by (auto elim: is_okE)
  moreover obtain pd where "decode_client d = Inr pd" using assms(2) by (rule is_okE)
  ultimately show ?case using a(1) by (simp add: replace_client_def)
qed (simp add: replace_client_def)

lemma fake_update_up:
  assumes up: "fake_up c w" and d: "has_name d m" "is_ok (decode_client d)" and n: "n \<in> obj_name ` set (fk_clients w)"
    and m: "m = n \<or> m \<notin> obj_name ` set (fk_clients w)"
  shows "\<exists>w' code tx doc. serve patience w (call_req c POST ''/control/clients/update'' (Some (update_body n d))) =
    (w', Reply code tx doc) \<and> ok_code code \<and> fake_up c w'"
proof -
  let ?rq = "call_req c POST ''/control/clients/update'' (Some (update_body n d))"
  define w1 where "w1 = arrive ?rq w"
  have g: "fake_good w" "fake_good w1" using up by (simp_all add: fake_up_def w1_def)
  have names: "\<forall>o1 \<in> set (fk_clients w). has_name o1 (obj_name o1)" "distinct (map obj_name (fk_clients w))"
    using g(1) by (simp_all add: fake_good_def)
  obtain i where i: "indexOf n (fk_clients w) = Some i"
    using n indexOf_None [OF names(1), of n] by auto
  have fresh: "m \<noteq> n \<Longrightarrow> indexOf m (fk_clients w) = None" using m indexOf_None [OF names(1), of m] by auto
  have input: "update_input (Some (update_body n d)) = Some (n, Some (JObj d))"
    by (simp add: update_input_def update_body_def field_def)
  define w2 where "w2 = w1\<lparr>fk_clients := replace_client n d (fk_clients w), fk_dirty := True,
      fk_last_update := Some (update_body n d)\<rparr>"
  have fault: "fk_update_fault w1 n = None" using up by (simp add: fake_up_def w1_def)
  have w1: "fk_clients w1 = fk_clients w" by (simp add: w1_def)
  have "m = n \<or> indexOf m (fk_clients w1) = None" using fresh w1 by (cases "m = n") auto
  then have "handleUpdate (Some (update_body n d)) w1 = (w2, Reply 200 [] None)"
    using i fault indexOf_update [OF names i, of d]
    by (auto simp: handleUpdate_def input as_map_def has_name_raw_str [OF d(1)] w2_def w1)
  then have run: "serve patience w ?rq = (depart ?rq w2, Reply 200 [] None)"
    using serve_up [OF up, of "''/control/clients/update''" patience POST "Some (update_body n d)"]
    by (simp add: contract_path_def route_update w1_def)
  have "fake_good w2" using good_replace [OF g(2) d(1), of n] m by (simp add: w2_def w1_def)
  then have "fake_up c w2"
    using up decode_replaced [OF _ d(2), of "fk_clients w" n] by (simp add: fake_up_def w2_def w1_def)
  with run show ?thesis by (auto simp: depart_up ok_code_def)
qed

interpretation fake_up: ag_server_up "serve patience" c fake_good fk_clients fake_glob "fake_up c"
  for patience c
proof unfold_locales
  fix w :: fake and d m n
  assume up: "fake_up c w"
  show "fake_good w" "is_ok (decodePersistent (fk_clients w))" using up by (simp_all add: fake_up_def)
  obtain auto where doc: "decode_doc (JObj (clientsJSON w)) = Some (fk_clients w, auto)"
    using clients_doc_decodes [OF up] by blast
  have get: "serve patience w (call_req c GET p None) =
      (depart (call_req c GET p None) (arrive (call_req c GET p None) w), snd (route (call_req c GET p None) (arrive (call_req c GET p None) w)))"
    if p: "contract_path p" for p
  proof -
    obtain rep where "route (call_req c GET p None) (arrive (call_req c GET p None) w) =
        (arrive (call_req c GET p None) w, rep)"
      using route_GET [of "call_req c GET p None" "arrive (call_req c GET p None) w"]
      by (cases "route (call_req c GET p None) (arrive (call_req c GET p None) w)") (simp add: call_req_def)
    then show ?thesis using serve_up [OF up p, of patience GET None] by simp
  qed
  show "\<exists>w' code tx j auto. serve patience w (call_req c GET ''/control/clients'' None) = (w', Reply code tx (Some j)) \<and>
      ok_code code \<and> decode_doc j = Some (fk_clients w, auto) \<and> fake_up c w'"
    using get [of "''/control/clients''"] doc up
    by (auto simp: contract_path_def depart_up arrive_up route_def call_req_def writeJSON_def ok_code_def)
  show "\<exists>w' code tx j ids. serve patience w (call_req c GET ''/control/blocked_services/get'' None) =
      (w', Reply code tx (Some j)) \<and> ok_code code \<and> decode_ids j = Some ids \<and> fake_up c w'"
    using get [of "''/control/blocked_services/get''"] global_ids up
    by (auto simp: contract_path_def depart_up arrive_up route_def call_req_def writeJSON_def ok_code_def)
  show "has_name d m \<Longrightarrow> is_ok (decode_client d) \<Longrightarrow> n \<in> obj_name ` set (fk_clients w) \<Longrightarrow>
      m = n \<or> m \<notin> obj_name ` set (fk_clients w) \<Longrightarrow> \<exists>w' code tx doc.
      serve patience w (call_req c POST ''/control/clients/update'' (Some (update_body n d))) = (w', Reply code tx doc) \<and>
      ok_code code \<and> fake_up c w'"
    by (rule fake_update_up [OF up])
qed

lemma fake_New_up: "ag_username c = user \<Longrightarrow> ag_password c = pass \<Longrightarrow> fake_up c (fake_New user pass)"
proof -
  have "is_ok (decodePersistent fixture_clients)" by code_simp
  moreover assume "ag_username c = user" "ag_password c = pass"
  ultimately show ?thesis
    using fake_New_good clients_json_auto by (simp add: fake_up_def fake_New_def)
qed

end
