(* ===== verification/Trim.thy ===== *)
theory Trim
  imports Prelude
begin

text \<open>
  \<open>strings.TrimSpace\<close> (Prelude): it never lengthens, and trimming twice is trimming once.
\<close>

lemma trim_left_length: "length (trim_left s) \<le> length s"
  by (induction s rule: trim_left.induct) auto

lemma trim_right_length: "length (trim_right_rev s) \<le> length s"
  by (induction s rule: trim_right_rev.induct) auto

lemma trim_space_length: "length (trim_space s) \<le> length s"
  using trim_right_length [of "rev (trim_left s)"] trim_left_length [of s] by (simp add: trim_space_def)

lemma trim_left_idem: "trim_left (trim_left s) = trim_left s"
  by (induction s rule: trim_left.induct) auto

lemma trim_right_idem: "trim_right_rev (trim_right_rev s) = trim_right_rev s"
  by (induction s rule: trim_right_rev.induct) auto

text \<open>A string ends in \<open>t\<close>.\<close>

lemma trim_right_suffix: "\<exists>p. s = p @ trim_right_rev s"
proof (induction s rule: trim_right_rev.induct)
  case (1 c b a s)
  consider "ascii_space c" | "\<not> ascii_space c" "white2 b c" | "\<not> ascii_space c" "\<not> white2 b c" "white3 a b c"
    | "\<not> ascii_space c" "\<not> white2 b c" "\<not> white3 a b c" by blast
  then show ?case
  proof cases
    case 1
    then obtain p where "b # a # s = p @ trim_right_rev (b # a # s)" using "1.IH"(1) by blast
    then have "c # b # a # s = (c # p) @ trim_right_rev (c # b # a # s)" using 1 by (simp only: trim_right_rev.simps if_True append_Cons)
    then show ?thesis by blast
  next
    case 2
    then obtain p where "a # s = p @ trim_right_rev (a # s)" using "1.IH"(2) by blast
    then have "c # b # a # s = (c # b # p) @ trim_right_rev (c # b # a # s)"
      using 2 by (simp only: trim_right_rev.simps if_True if_False append_Cons)
    then show ?thesis by blast
  next
    case 3
    then obtain p where "s = p @ trim_right_rev s" using "1.IH"(3) by blast
    then have "c # b # a # s = (c # b # a # p) @ trim_right_rev (c # b # a # s)"
      using 3 by (simp only: trim_right_rev.simps if_True if_False append_Cons)
    then show ?thesis by blast
  next
    case 4
    then show ?thesis by (intro exI [of _ "[]"]) simp
  qed
next
  case (2 b a)
  show ?case by (cases "ascii_space b"; cases "ascii_space a"; cases "white2 a b") auto
next
  case (3 a)
  show ?case by (cases "ascii_space a") auto
qed simp

lemma trim_left_shrinks:
  "ascii_space a \<Longrightarrow> length (trim_left (a # s)) \<le> length s"
  "white2 a b \<Longrightarrow> length (trim_left (a # b # s)) \<le> Suc (length s)"
  "white3 a b c \<Longrightarrow> length (trim_left (a # b # c # s)) \<le> Suc (Suc (length s))"
proof -
  show one: "ascii_space a \<Longrightarrow> length (trim_left (a # s)) \<le> length s" for a s
    using trim_left_length [of s] by (cases s; cases "tl s") auto
  show two: "white2 a b \<Longrightarrow> length (trim_left (a # b # s)) \<le> Suc (length s)" for a b s
  proof (cases "ascii_space a")
    case True
    then show ?thesis using one [of a "b # s"] by simp
  next
    case False
    then show "white2 a b \<Longrightarrow> ?thesis" using trim_left_length [of s] by (cases s) (auto intro: le_SucI)
  qed
  show "white3 a b c \<Longrightarrow> length (trim_left (a # b # c # s)) \<le> Suc (Suc (length s))"
    using one [of a "b # c # s"] two [of a b "c # s"] trim_left_length [of s]
    by (cases "ascii_space a"; cases "white2 a b") (simp_all add: trim_left.simps(1) [of a b c s])
qed

lemma trim_left_fixed:
  "trim_left (a # s) = a # s \<Longrightarrow> \<not> ascii_space a"
  "trim_left (a # b # s) = a # b # s \<Longrightarrow> \<not> white2 a b"
  "trim_left (a # b # c # s) = a # b # c # s \<Longrightarrow> \<not> white3 a b c"
  using trim_left_shrinks by (metis length_Cons not_less_eq_eq order_refl)+

lemma trim_left_take:
  assumes "trim_left t = t"
  shows "trim_left (take n t) = take n t"
proof (cases "take n t" rule: trim_left.cases)
  case (1 a b c s)
  then obtain s' where "t = a # b # c # s'" by (metis append_Cons append_take_drop_id)
  with assms have t: "trim_left (a # b # c # s') = a # b # c # s'" by simp
  show ?thesis unfolding 1 using trim_left_fixed(1) [OF t] trim_left_fixed(2) [OF t] trim_left_fixed(3) [OF t] by simp
next
  case (2 a b)
  then obtain s' where "t = a # b # s'" by (metis append_Cons append_Nil append_take_drop_id)
  with assms have t: "trim_left (a # b # s') = a # b # s'" by simp
  show ?thesis unfolding 2 using trim_left_fixed(1) [OF t] trim_left_fixed(2) [OF t] by simp
next
  case (3 a)
  then obtain s' where "t = a # s'" by (metis append_Cons append_Nil append_take_drop_id)
  with assms have t: "trim_left (a # s') = a # s'" by simp
  show ?thesis unfolding 3 using trim_left_fixed(1) [OF t] by simp
qed auto

lemma trim_space_idem: "trim_space (trim_space s) = trim_space s"
proof -
  let ?t = "trim_left s"
  obtain p where "rev ?t = p @ trim_right_rev (rev ?t)" using trim_right_suffix by blast
  then have "?t = trim_space s @ rev p" unfolding trim_space_def by (metis rev_append rev_rev_ident)
  then have "trim_space s = take (length (trim_space s)) ?t" by (metis append_eq_conv_conj)
  then have "trim_left (trim_space s) = trim_space s"
    using trim_left_take [OF trim_left_idem] by metis
  then show ?thesis by (simp add: trim_space_def trim_right_idem)
qed

text \<open>What the two trimming loops leave is trimmed.\<close>

lemma trim_dedup_trimmed: "x \<in> set (trim_dedup [] xs) \<Longrightarrow> trim_space x = x \<and> x \<noteq> []"
  using trim_space_idem by (auto simp: trim_dedup_set)

lemma trimmed_image: "(\<And>x. x \<in> set xs \<Longrightarrow> trim_space x = x \<and> x \<noteq> []) \<Longrightarrow> trim_space ` set xs - {[]} = set xs"
  by force

end
