(* ===== verification/AdguardProps.thy ===== *)
theory AdguardProps
  imports AdguardFakeContract Trim
begin

text \<open>
  What the AdGuard client promises, over any server that keeps the contract \<open>ag_server\<close>; each
  property is then applied to the fake of internal/adguard/adguardtest.
\<close>

section \<open>Properties\<close>

text \<open>Property C38. RemoveBlockedServices takes exactly the given ids off the named client's own list and
  AddBlockedServices makes it the union with them. Every other client and every other key of the object stay
  as they were, even when the write's reply is lost; success means the client exists and its list is exactly
  that; and adding reports a missing client only when there is none.\<close>

theorem BlockedServices_edits:
  assumes "ag_server srv c good cls glob" "good w"
  shows "(case RemoveBlockedServices srv c n ids w of (r, w') \<Rightarrow> good w' \<and> glob w' = glob w \<and>
      only_client n (\<lambda>o1 o2. blocks_now (set (obj_blocked o1) - set ids) o1 o2) (cls w) (cls w') \<and>
      (is_ok r \<longrightarrow> (\<exists>o1 o2. client_of (cls w) n = Some o1 \<and> client_of (cls w') n = Some o2 \<and>
         blocks_now (set (obj_blocked o1) - set ids) o1 o2))) \<and>
    (case AddBlockedServices srv c n ids w of (r, w') \<Rightarrow> good w' \<and> glob w' = glob w \<and>
      only_client n (\<lambda>o1 o2. blocks_now (set (obj_blocked o1) \<union> set ids) o1 o2) (cls w) (cls w') \<and>
      (is_ok r \<longrightarrow> (\<exists>o1 o2. client_of (cls w) n = Some o1 \<and> client_of (cls w') n = Some o2 \<and>
         blocks_now (set (obj_blocked o1) \<union> set ids) o1 o2)) \<and>
      (\<forall>x. r = Inl (ErrClientNotFound x) \<longrightarrow> ag_view (cls w) n = None \<and> ag_view (cls w') = ag_view (cls w)))"
  using ag_server.remove_outcome [OF assms, of n ids] ag_server.add_outcome [OF assms, of n ids]
    ag_server.add_view(5) [OF assms, of n ids]
  unfolding ag_server.view_def [OF assms(1)] by (intro conjI; split prod.split; intro allI impI conjI) blast+

text \<open>AdoptBlockedServices gives the client a list of its own holding everything it blocked
  effectively before, the global list included when it inherited it, plus the given ids; nothing it blocked
  is dropped and no other key changes.\<close>

theorem AdoptBlockedServices_edits:
  assumes "ag_server srv c good cls glob" "good w" "AdoptBlockedServices srv c n ids w = (r, w')"
  shows "good w' \<and> glob w' = glob w \<and>
    only_client n (\<lambda>o1 o2. owns_now (effective (glob w) o1 \<union> set ids) o1 o2) (cls w) (cls w') \<and>
    (is_ok r \<longrightarrow> (\<exists>o1 o2. client_of (cls w) n = Some o1 \<and> client_of (cls w') n = Some o2 \<and>
       owns_now (effective (glob w) o1 \<union> set ids) o1 o2))"
  using ag_server.adopt_outcome [OF assms] by blast

text \<open>Property C39. RenameClient moves the client's object, with only its name changed, to a name no client has,
  or changes no client and returns an error; a reply that is lost leaves one of the two.\<close>

theorem RenameClient_moves:
  assumes "ag_server srv c good cls glob" "good w" "RenameClient srv c old new w = (r, w')" "old \<noteq> new"
  shows "good w' \<and> glob w' = glob w \<and>
    (client_of (cls w') = client_of (cls w) \<and> \<not> is_ok r \<or>
     (\<exists>o1. client_of (cls w) old = Some o1 \<and> client_of (cls w) new = None \<and>
        client_of (cls w') = (client_of (cls w))(old := None, new \<mapsto> AList.update ''name'' (JStr new) o1)))"
  using ag_server.rename_outcome [OF assms] by blast

text \<open>AddClient adds one client under a new name, with its own list exactly when one was given, or
  changes no client and returns an error.\<close>

theorem AddClient_adds:
  assumes "ag_server srv c good cls glob" "good w" "AddClient srv c nc w = (r, w')"
  shows "good w' \<and> glob w' = glob w \<and>
    (ag_view (cls w') = ag_view (cls w) \<and> \<not> is_ok r \<or> ag_view (cls w) (nc_name nc) = None \<and>
     ag_view (cls w') = (ag_view (cls w))(nc_name nc \<mapsto>
       (nc_blocked nc = None, case nc_blocked nc of None \<Rightarrow> {} | Some b \<Rightarrow> set b)))"
  using ag_server.add_client_view [OF assms] unfolding ag_server.view_def [OF assms(1)] by blast

section \<open>The properties at concrete inputs\<close>

definition demo_client :: ag_client where
  "demo_client = \<lparr>ag_username = ''svc'', ag_password = ''pw''\<rparr>"

definition demo_fake :: fake where "demo_fake = fake_New ''svc'' ''pw''"

abbreviation demo_srv :: "fake server" where "demo_srv \<equiv> serve (10 * second)"

lemma demo_good: "fake_good demo_fake"
  by (simp add: demo_fake_def fake_New_good)

definition demo_lists :: "fake \<Rightarrow> string \<Rightarrow> (bool \<times> string list) option" where
  "demo_lists s n = map_option (\<lambda>o1. (obj_inherits o1, obj_blocked o1)) (client_of (fk_clients s) n)"

theorem BlockedServices_edits_witness:
  "(\<exists>w'. RemoveBlockedServices demo_srv demo_client ''Kid phone'' [''tiktok''] demo_fake = (Inr (), w') \<and>
      demo_lists w' ''Kid phone'' = Some (False, [''youtube'']) \<and>
      client_of (fk_clients w') ''Kid tablet'' = client_of (fk_clients demo_fake) ''Kid tablet'') \<and>
   (\<exists>w'. AddBlockedServices demo_srv demo_client ''nobody'' [''tiktok''] demo_fake =
      (Inl (ErrClientNotFound ''nobody''), w') \<and> ag_view (fk_clients w') = ag_view (fk_clients demo_fake))"
proof (intro conjI)
  have "fst (RemoveBlockedServices demo_srv demo_client ''Kid phone'' [''tiktok''] demo_fake) = Inr ()"
    "demo_lists (snd (RemoveBlockedServices demo_srv demo_client ''Kid phone'' [''tiktok''] demo_fake)) ''Kid phone'' =
       Some (False, [''youtube''])" by code_simp+
  moreover obtain r w' where run: "RemoveBlockedServices demo_srv demo_client ''Kid phone'' [''tiktok''] demo_fake = (r, w')"
    by fastforce
  ultimately show "\<exists>w'. RemoveBlockedServices demo_srv demo_client ''Kid phone'' [''tiktok''] demo_fake = (Inr (), w') \<and>
      demo_lists w' ''Kid phone'' = Some (False, [''youtube'']) \<and>
      client_of (fk_clients w') ''Kid tablet'' = client_of (fk_clients demo_fake) ''Kid tablet''"
    using BlockedServices_edits [where n = "''Kid phone''" and ids = "[''tiktok'']", OF fake.ag_server_axioms [of "10 * second" demo_client] demo_good, THEN conjunct1, unfolded run prod.case]
    by (simp add: only_client_def)
  have "fst (AddBlockedServices demo_srv demo_client ''nobody'' [''tiktok''] demo_fake) = Inl (ErrClientNotFound ''nobody'')"
    by code_simp
  moreover obtain r w' where run: "AddBlockedServices demo_srv demo_client ''nobody'' [''tiktok''] demo_fake = (r, w')"
    by fastforce
  ultimately show "\<exists>w'. AddBlockedServices demo_srv demo_client ''nobody'' [''tiktok''] demo_fake =
      (Inl (ErrClientNotFound ''nobody''), w') \<and> ag_view (fk_clients w') = ag_view (fk_clients demo_fake)"
    using BlockedServices_edits [where n = "''nobody''" and ids = "[''tiktok'']", OF fake.ag_server_axioms [of "10 * second" demo_client] demo_good, THEN conjunct2, unfolded run prod.case] by simp
qed

theorem AdoptBlockedServices_edits_witness:
  "\<exists>w'. AdoptBlockedServices demo_srv demo_client ''Kid tablet'' [''youtube''] demo_fake = (Inr (), w') \<and>
    demo_lists w' ''Kid tablet'' = Some (False, [''roblox'', ''tiktok'', ''youtube'']) \<and> fake_good w'"
proof -
  have "fst (AdoptBlockedServices demo_srv demo_client ''Kid tablet'' [''youtube''] demo_fake) = Inr ()"
    "demo_lists (snd (AdoptBlockedServices demo_srv demo_client ''Kid tablet'' [''youtube''] demo_fake)) ''Kid tablet'' =
       Some (False, [''roblox'', ''tiktok'', ''youtube''])" by code_simp+
  moreover obtain r w' where run: "AdoptBlockedServices demo_srv demo_client ''Kid tablet'' [''youtube''] demo_fake = (r, w')"
    by fastforce
  ultimately show ?thesis
    using AdoptBlockedServices_edits [OF fake.ag_server_axioms demo_good run] by simp
qed

theorem RenameClient_moves_witness:
  "\<exists>w'. RenameClient demo_srv demo_client ''Kid phone'' ''Old laptop'' demo_fake =
      (Inl (ErrClientExists ''Old laptop''), w') \<and> client_of (fk_clients w') = client_of (fk_clients demo_fake)"
proof -
  have "fst (RenameClient demo_srv demo_client ''Kid phone'' ''Old laptop'' demo_fake) = Inl (ErrClientExists ''Old laptop'')"
    "client_of (fk_clients demo_fake) ''Old laptop'' \<noteq> None" by code_simp+
  moreover obtain r w' where run: "RenameClient demo_srv demo_client ''Kid phone'' ''Old laptop'' demo_fake = (r, w')"
    by fastforce
  ultimately show ?thesis
    using RenameClient_moves [OF fake.ag_server_axioms demo_good run] by auto
qed

theorem AddClient_adds_witness:
  "\<exists>w'. AddClient demo_srv demo_client \<lparr>nc_name = ''Kid phone'', nc_ids = [''10.0.0.9''], nc_blocked = Some [''steam'']\<rparr>
      demo_fake = (Inl (ErrClientExists ''Kid phone''), w') \<and> ag_view (fk_clients w') = ag_view (fk_clients demo_fake)"
proof -
  let ?nc = "\<lparr>nc_name = ''Kid phone'', nc_ids = [''10.0.0.9''], nc_blocked = Some [''steam'']\<rparr>"
  have "fst (AddClient demo_srv demo_client ?nc demo_fake) = Inl (ErrClientExists ''Kid phone'')"
    "ag_view (fk_clients demo_fake) ''Kid phone'' \<noteq> None" by code_simp+
  moreover obtain r w' where run: "AddClient demo_srv demo_client ?nc demo_fake = (r, w')" by fastforce
  ultimately show ?thesis
    using AddClient_adds [OF fake.ag_server_axioms demo_good run] by auto
qed

end
