(* ===== verification/StoreChildren.thy ===== *)
theory StoreChildren
  imports StoreDb
begin

text \<open>
  internal/store/children.go and clients.go: children, the clients mapped to them, and the
  rename of a client across the mapping and the active grants. Every operation is the body
  of its transaction (\<open>\<dots>_tx\<close>) under \<open>inTx\<close>, with the wrapping of its errors.
\<close>

section \<open>Model\<close>

record child =
  child_id :: id
  child_name :: string
  child_clients :: "string list"

definition normaliseClients :: "string list \<Rightarrow> string list" where
  "normaliseClients xs = sort (trim_dedup [] xs)"

subsection \<open>Reading\<close>

text \<open>
  \<open>listQuery\<close> with its ORDER BY: the children (those of the WHERE clause) by id, each joined
  to its client names in order, or to NULL when it has none.
\<close>

definition clients_of :: "tables \<Rightarrow> id \<Rightarrow> string list" where
  "clients_of t i = map cc_client (filter (\<lambda>r. cc_child r = i) (t_child_clients t))"

definition child_rows :: "tables \<Rightarrow> child_row \<Rightarrow> (id \<times> string \<times> string option) list" where
  "child_rows t c =
     (case sort (clients_of t (ch_id c)) of
        [] \<Rightarrow> [(ch_id c, ch_name c, None)]
      | cs \<Rightarrow> map (\<lambda>x. (ch_id c, ch_name c, Some x)) cs)"

definition listQuery :: "(child_row \<Rightarrow> bool) \<Rightarrow> tables \<Rightarrow> (id \<times> string \<times> string option) list" where
  "listQuery p t = concat (map (child_rows t) (sort_key ch_id (filter p (t_children t))))"

text \<open>\<open>scanChildren\<close>: the loop that folds the joined rows; \<open>out\<close> is the slice built so far.\<close>

fun scanChildren :: "child list \<Rightarrow> (id \<times> string \<times> string option) list \<Rightarrow> child list" where
  "scanChildren out [] = out"
| "scanChildren out ((i, n, c) # rows) =
     (let out1 = (if out = [] \<or> child_id (last out) \<noteq> i
                  then out @ [\<lparr>child_id = i, child_name = n, child_clients = []\<rparr>] else out);
          out2 = (case c of
                    None \<Rightarrow> out1
                  | Some x \<Rightarrow> butlast out1 @
                      [last out1 \<lparr>child_clients := child_clients (last out1) @ [x]\<rparr>])
      in scanChildren out2 rows)"

definition ListChildren :: "child list store_op" where
  "ListChildren st =
     map_err (wrap_any ''list children'')
       (query (\<lambda>t. Inr (scanChildren [] (listQuery (\<lambda>_. True) t))) st)"

definition getChild :: "id \<Rightarrow> tables \<Rightarrow> store_error + child" where
  "getChild i t =
     (case scanChildren [] (listQuery (\<lambda>r. ch_id r = i) t) of
        [] \<Rightarrow> Inl ErrChildNotFound
      | c # _ \<Rightarrow> Inr c)"

fun wrap_get_child :: "store_error \<Rightarrow> store_error" where
  "wrap_get_child ErrChildNotFound = ErrChildNotFound"
| "wrap_get_child e = ErrDriver ''get child''"

definition GetChild :: "id \<Rightarrow> child store_op" where
  "GetChild i st = map_err wrap_get_child (query (getChild i) st)"

subsection \<open>Writing\<close>

text \<open>
  \<open>checkConflicts\<close>: the name column compares case-insensitively (COLLATE NOCASE); the row of
  \<open>selfID\<close> is left out.
\<close>

definition checkConflicts :: "id \<Rightarrow> string \<Rightarrow> tables \<Rightarrow> store_error + unit" where
  "checkConflicts self name t =
     (if \<exists>r \<in> set (t_children t). to_lower (ch_name r) = to_lower name \<and> ch_id r \<noteq> self
      then Inl ErrNameTaken else Inr ())"

text \<open>INSERT INTO children: the UNIQUE constraint on the name, then the new rowid.\<close>

definition insert_child :: "string \<Rightarrow> int \<Rightarrow> tables \<Rightarrow> store_error + (id \<times> tables)" where
  "insert_child name now t =
     (if \<exists>r \<in> set (t_children t). to_lower (ch_name r) = to_lower name then Inl sql_error
      else let i = next_rowid (map ch_id (t_children t))
           in Inr (i, t\<lparr>t_children := t_children t @
                          [\<lparr>ch_id = i, ch_name = name, ch_created = now\<rparr>]\<rparr>))"

text \<open>INSERT INTO child_clients: the primary key and the foreign key.\<close>

definition insert_child_client :: "id \<Rightarrow> string \<Rightarrow> tables \<Rightarrow> store_error + tables" where
  "insert_child_client i c t =
     (let r = \<lparr>cc_client = c, cc_child = i\<rparr>
      in if r \<in> set (t_child_clients t) \<or> i \<notin> ch_id ` set (t_children t) then Inl sql_error
         else Inr (t\<lparr>t_child_clients := t_child_clients t @ [r]\<rparr>))"

definition insertClients :: "id \<Rightarrow> string list \<Rightarrow> tables \<Rightarrow> store_error + tables" where
  "insertClients i cs t = res_fold (insert_child_client i) cs t"

definition create_child_tx ::
  "time \<Rightarrow> string \<Rightarrow> string list \<Rightarrow> tables \<Rightarrow> store_error + (child \<times> tables)" where
  "create_child_tx now name clients t =
     res_bind (checkConflicts 0 name t) (\<lambda>_.
     res_bind (insert_child name (unix now) t) (\<lambda>(i, t1).
     res_bind (insertClients i clients t1) (\<lambda>t2.
     res_bind (getChild i t2) (\<lambda>c. Inr (c, t2)))))"

definition CreateChild :: "time \<Rightarrow> string \<Rightarrow> string list \<Rightarrow> child store_op" where
  "CreateChild now name clients st =
     map_err (wrapChildErr ''create child'')
       (inTx (create_child_tx now name (normaliseClients clients)) st)"

text \<open>UPDATE children SET name: the UNIQUE constraint against every other row.\<close>

definition set_name :: "id \<Rightarrow> string \<Rightarrow> child_row \<Rightarrow> child_row" where
  "set_name i name r = (if ch_id r = i then r\<lparr>ch_name := name\<rparr> else r)"

definition update_child_name :: "id \<Rightarrow> string \<Rightarrow> tables \<Rightarrow> store_error + tables" where
  "update_child_name i name t =
     (if \<exists>r \<in> set (t_children t). to_lower (ch_name r) = to_lower name \<and> ch_id r \<noteq> i
      then Inl sql_error
      else Inr (t\<lparr>t_children := map (set_name i name) (t_children t)\<rparr>))"

definition delete_child_clients :: "id \<Rightarrow> tables \<Rightarrow> tables" where
  "delete_child_clients i t =
     t\<lparr>t_child_clients := filter (\<lambda>r. cc_child r \<noteq> i) (t_child_clients t)\<rparr>"

definition update_child_tx ::
  "id \<Rightarrow> string \<Rightarrow> string list \<Rightarrow> tables \<Rightarrow> store_error + (child \<times> tables)" where
  "update_child_tx i name clients t =
     res_bind (getChild i t) (\<lambda>_.
     res_bind (checkConflicts i name t) (\<lambda>_.
     res_bind (update_child_name i name t) (\<lambda>t1.
     res_bind (insertClients i clients (delete_child_clients i t1)) (\<lambda>t2.
     res_bind (getChild i t2) (\<lambda>c. Inr (c, t2))))))"

definition UpdateChild :: "id \<Rightarrow> string \<Rightarrow> string list \<Rightarrow> child store_op" where
  "UpdateChild i name clients st =
     map_err (wrapChildErr ''update child'')
       (inTx (update_child_tx i name (normaliseClients clients)) st)"

text \<open>
  DELETE FROM children, with the cascades of the schema: the child's client rows, its
  buttons and their services. Grants have no foreign key to children.
\<close>

definition delete_child_tx :: "id \<Rightarrow> tables \<Rightarrow> store_error + (bool \<times> tables)" where
  "delete_child_tx i t =
     (let gone = map bt_id (filter (\<lambda>b. bt_child b = i) (t_buttons t))
      in Inr (\<exists>r \<in> set (t_children t). ch_id r = i,
              t\<lparr>t_children := filter (\<lambda>r. ch_id r \<noteq> i) (t_children t),
                t_child_clients := filter (\<lambda>r. cc_child r \<noteq> i) (t_child_clients t),
                t_buttons := filter (\<lambda>b. bt_child b \<noteq> i) (t_buttons t),
                t_button_services := filter (\<lambda>s. bs_button s \<notin> set gone) (t_button_services t)\<rparr>))"

definition DeleteChild :: "id \<Rightarrow> bool store_op" where
  "DeleteChild i st = map_err (wrap_any ''delete child'') (inTx (delete_child_tx i) st)"

subsection \<open>Clients across children and grants (clients.go)\<close>

text \<open>\<open>clientOwners\<close>: every child that maps \<open>name\<close>, by id.\<close>

definition clientOwners :: "string \<Rightarrow> tables \<Rightarrow> (id \<times> string) list" where
  "clientOwners name t =
     concat (map (\<lambda>c. map (\<lambda>_. (ch_id c, ch_name c))
                        (filter (\<lambda>r. cc_client r = name \<and> cc_child r = ch_id c) (t_child_clients t)))
              (sort_key ch_id (t_children t)))"

definition holds :: "(id \<times> string) list \<Rightarrow> id \<Rightarrow> bool" where
  "holds owners i \<longleftrightarrow> i \<in> set (map fst owners)"

definition firstOutsider :: "(id \<times> string) list \<Rightarrow> (id \<times> string) list \<Rightarrow> (id \<times> string) option" where
  "firstOutsider owners among = find (\<lambda>o1. \<not> holds among (fst o1)) owners"

text \<open>One turn of the loop over the old name's owners: move the row, or drop it.\<close>

definition move_child_client :: "string \<Rightarrow> string \<Rightarrow> (id \<times> string) list \<Rightarrow> id \<times> string \<Rightarrow> tables \<Rightarrow> store_error + tables" where
  "move_child_client old new newOwners ow t =
     (let rows = t_child_clients t; mine = (\<lambda>r. cc_child r = fst ow \<and> cc_client r = old)
      in if holds newOwners (fst ow)
         then Inr (t\<lparr>t_child_clients := filter (\<lambda>r. \<not> mine r) rows\<rparr>)
         else if \<lparr>cc_client = new, cc_child = fst ow\<rparr> \<in> set rows \<and> (\<exists>r \<in> set rows. mine r)
         then Inl sql_error
         else Inr (t\<lparr>t_child_clients := map (\<lambda>r. if mine r then r\<lparr>cc_client := new\<rparr> else r) rows\<rparr>))"

definition active_grant_ids :: "tables \<Rightarrow> id list" where
  "active_grant_ids t = map gr_id (filter (\<lambda>g. gr_status g = StatusActive) (t_grants t))"

definition drop_grant_client_dups :: "string \<Rightarrow> string \<Rightarrow> tables \<Rightarrow> tables" where
  "drop_grant_client_dups old new t =
     t\<lparr>t_grant_clients :=
        filter (\<lambda>r. \<not> (gc_client r = old \<and> gc_grant r \<in> set (active_grant_ids t) \<and>
                        gc_grant r \<in> gc_grant ` {r' \<in> set (t_grant_clients t). gc_client r' = new}))
          (t_grant_clients t)\<rparr>"

definition move_grant_clients :: "string \<Rightarrow> string \<Rightarrow> tables \<Rightarrow> store_error + tables" where
  "move_grant_clients old new t =
     (let rows = map (\<lambda>r. if gc_client r = old \<and> gc_grant r \<in> set (active_grant_ids t)
                          then r\<lparr>gc_client := new\<rparr> else r) (t_grant_clients t)
      in if distinct rows then Inr (t\<lparr>t_grant_clients := rows\<rparr>) else Inl sql_error)"

definition rename_client_tx :: "string \<Rightarrow> string \<Rightarrow> tables \<Rightarrow> store_error + (unit \<times> tables)" where
  "rename_client_tx old new t =
     (let oldOwners = clientOwners old t; newOwners = clientOwners new t
      in case firstOutsider newOwners oldOwners of
           Some (i, n) \<Rightarrow> Inl (ErrClientTaken new i n)
         | None \<Rightarrow>
             res_bind (res_fold (move_child_client old new newOwners) oldOwners t) (\<lambda>t1.
             res_bind (move_grant_clients old new (drop_grant_client_dups old new t1)) (\<lambda>t2.
             Inr ((), t2))))"

definition store_RenameClient :: "string \<Rightarrow> string \<Rightarrow> unit store_op" where
  "store_RenameClient old new st =
     (if old = new then (Inr (), st)
      else map_err (wrapChildErr ''rename client'') (inTx (rename_client_tx old new) st))"

definition add_child_client_tx :: "id \<Rightarrow> string \<Rightarrow> tables \<Rightarrow> store_error + (unit \<times> tables)" where
  "add_child_client_tx i name t =
     res_bind (getChild i t) (\<lambda>_.
       let owners = clientOwners name t
       in if holds owners i then Inr ((), t)
          else case owners of
                 (j, n) # _ \<Rightarrow> Inl (ErrClientTaken name j n)
               | [] \<Rightarrow> res_bind (insertClients i [name] t) (\<lambda>t1. Inr ((), t1)))"

definition AddChildClient :: "id \<Rightarrow> string \<Rightarrow> unit store_op" where
  "AddChildClient i name st =
     (let name = trim_space name
      in if name = [] then (Inl (ErrDriver ''add child client: empty client name''), st)
         else map_err (wrapChildErr ''add child client'') (inTx (add_child_client_tx i name) st))"

section \<open>What reading returns\<close>

definition view_child :: "tables \<Rightarrow> child_row \<Rightarrow> child" where
  "view_child t r = \<lparr>child_id = ch_id r, child_name = ch_name r,
                     child_clients = sort (clients_of t (ch_id r))\<rparr>"

lemma scan_same_child:
  "child_id v = i \<Longrightarrow>
     scanChildren (out @ [v]) (map (\<lambda>x. (i, n, Some x)) xs @ rows) =
     scanChildren (out @ [v\<lparr>child_clients := child_clients v @ xs\<rparr>]) rows"
  by (induction xs arbitrary: v) (simp_all add: Let_def)

lemma scan_child_rows:
  assumes "out = [] \<or> child_id (last out) \<noteq> ch_id r"
  shows "scanChildren out (child_rows t r @ rows) = scanChildren (out @ [view_child t r]) rows"
proof (cases "sort (clients_of t (ch_id r))")
  case Nil
  with assms show ?thesis by (simp add: child_rows_def view_child_def Let_def)
next
  case (Cons x xs)
  with assms show ?thesis
    by (simp add: child_rows_def view_child_def Let_def
        scan_same_child [of "\<lparr>child_id = ch_id r, child_name = ch_name r, child_clients = [x]\<rparr>"])
qed

lemma scan_concat_rows:
  "distinct (map ch_id rs) \<Longrightarrow> out = [] \<or> child_id (last out) \<notin> ch_id ` set rs \<Longrightarrow>
     scanChildren out (concat (map (child_rows t) rs)) = out @ map (view_child t) rs"
proof (induction rs arbitrary: out)
  case Nil
  then show ?case by simp
next
  case (Cons r rs)
  then have "scanChildren out (child_rows t r @ concat (map (child_rows t) rs)) =
      scanChildren (out @ [view_child t r]) (concat (map (child_rows t) rs))"
    by (intro scan_child_rows) auto
  also have "\<dots> = (out @ [view_child t r]) @ map (view_child t) rs"
    using Cons.prems by (intro Cons.IH) (auto simp: view_child_def)
  finally show ?case by simp
qed

lemma scan_listQuery:
  assumes "distinct (map ch_id (t_children t))"
  shows "scanChildren [] (listQuery p t) =
    map (view_child t) (sort_key ch_id (filter p (t_children t)))"
proof -
  have "distinct (map ch_id (sort_key ch_id (filter p (t_children t))))"
    using assms by (simp add: distinct_map inj_on_def)
  then show ?thesis by (simp add: listQuery_def scan_concat_rows)
qed

lemma filter_unique_key:
  "distinct (map f xs) \<Longrightarrow> x \<in> set xs \<Longrightarrow> filter (\<lambda>y. f y = f x) xs = [x]"
  by (induction xs) (auto simp: filter_empty_conv image_iff)

lemma getChild_Inr:
  assumes "distinct (map ch_id (t_children t))"
  shows "getChild i t = Inr c \<longleftrightarrow>
    (\<exists>r \<in> set (t_children t). ch_id r = i \<and> c = view_child t r)"
proof (cases "\<exists>r \<in> set (t_children t). ch_id r = i")
  case True
  then obtain r where r: "r \<in> set (t_children t)" "i = ch_id r" by auto
  with assms have "filter (\<lambda>y. ch_id y = i) (t_children t) = [r]"
    by (simp add: filter_unique_key)
  then have "getChild i t = Inr (view_child t r)"
    using assms by (simp add: getChild_def scan_listQuery)
  moreover have "\<And>r'. r' \<in> set (t_children t) \<Longrightarrow> ch_id r' = i \<Longrightarrow> r' = r"
    using assms r by (simp add: distinct_map inj_on_def)
  ultimately show ?thesis using r by (metis sum.inject(2))
next
  case False
  then have "filter (\<lambda>y. ch_id y = i) (t_children t) = []" by (simp add: filter_empty_conv)
  then have "getChild i t = Inl ErrChildNotFound"
    using assms by (simp add: getChild_def scan_listQuery)
  then show ?thesis using False by auto
qed

lemma getChild_Inl:
  assumes "distinct (map ch_id (t_children t))"
  shows "getChild i t = Inl e \<longleftrightarrow> e = ErrChildNotFound \<and> i \<notin> ch_id ` set (t_children t)"
proof (cases "getChild i t")
  case (Inl e')
  then have "e' = ErrChildNotFound"
    by (simp add: getChild_def split: list.splits)
  with Inl assms getChild_Inr [OF assms, of i] show ?thesis by auto
next
  case (Inr c)
  with getChild_Inr [OF assms, of i c] show ?thesis by auto
qed

section \<open>What writing does to the tables\<close>

lemma normaliseClients_facts [simp, norm_simps]:
  "distinct (normaliseClients xs)" "sorted (normaliseClients xs)"
  "set (normaliseClients xs) = trim_space ` set xs - {[]}"
  by (simp_all add: normaliseClients_def trim_dedup_distinct trim_dedup_set)

lemma sort_normaliseClients [simp]: "sort (normaliseClients xs) = normaliseClients xs"
  by (simp add: sorted_sort_id)

lemma clients_of_simps [simp]:
  "clients_of (t\<lparr>t_children := rs\<rparr>) i = clients_of t i"
  "clients_of (t\<lparr>t_child_clients := ccs\<rparr>) i = map cc_client (filter (\<lambda>r. cc_child r = i) ccs)"
  by (simp_all add: clients_of_def)

lemma insertClients_eq:
  "i \<in> ch_id ` set (t_children t) \<Longrightarrow> distinct cs \<Longrightarrow>
   \<forall>c \<in> set cs. \<lparr>cc_client = c, cc_child = i\<rparr> \<notin> set (t_child_clients t) \<Longrightarrow>
     insertClients i cs t =
       Inr (t\<lparr>t_child_clients := t_child_clients t @ map (\<lambda>c. \<lparr>cc_client = c, cc_child = i\<rparr>) cs\<rparr>)"
  unfolding insertClients_def
proof (induction cs arbitrary: t)
  case Nil
  then show ?case by simp
next
  case (Cons a cs)
  define t1 where "t1 = t\<lparr>t_child_clients := t_child_clients t @ [\<lparr>cc_client = a, cc_child = i\<rparr>]\<rparr>"
  have "insert_child_client i a t = Inr t1"
    using Cons.prems by (simp add: insert_child_client_def t1_def)
  moreover have "res_fold (insert_child_client i) cs t1 = Inr (t1\<lparr>t_child_clients :=
      t_child_clients t1 @ map (\<lambda>c. \<lparr>cc_client = c, cc_child = i\<rparr>) cs\<rparr>)"
    using Cons.prems by (intro Cons.IH) (auto simp: t1_def)
  ultimately show ?case by (simp add: t1_def)
qed

lemma map_filter_all:
  "\<forall>x \<in> set xs. \<not> P x \<Longrightarrow> filter P xs = []"
  by (simp add: filter_empty_conv)

lemma clients_of_new_rows:
  "\<forall>r \<in> set (t_child_clients t). cc_child r \<noteq> i \<Longrightarrow>
     clients_of (t\<lparr>t_child_clients := t_child_clients t @ map (\<lambda>c. \<lparr>cc_client = c, cc_child = i\<rparr>) cs\<rparr>) i = cs"
  by (simp add: map_filter_all filter_map comp_def)

definition name_taken :: "id \<Rightarrow> string \<Rightarrow> tables \<Rightarrow> bool" where
  "name_taken self name t \<longleftrightarrow>
     (\<exists>r \<in> set (t_children t). to_lower (ch_name r) = to_lower name \<and> ch_id r \<noteq> self)"

definition new_child_id :: "tables \<Rightarrow> id" where
  "new_child_id t = next_rowid (map ch_id (t_children t))"

definition after_create :: "int \<Rightarrow> string \<Rightarrow> string list \<Rightarrow> tables \<Rightarrow> tables" where
  "after_create now name cs t =
     t\<lparr>t_children := t_children t @ [\<lparr>ch_id = new_child_id t, ch_name = name, ch_created = now\<rparr>],
       t_child_clients := t_child_clients t @
         map (\<lambda>c. \<lparr>cc_client = c, cc_child = new_child_id t\<rparr>) cs\<rparr>"

lemma new_child_id_fresh: "new_child_id t \<notin> ch_id ` set (t_children t)"
  using next_rowid_fresh [of "map ch_id (t_children t)"] by (simp add: new_child_id_def)

lemma new_child_id_pos: "wf_children t \<Longrightarrow> 0 < new_child_id t"
  unfolding new_child_id_def by (rule next_rowid_pos) (simp add: wf_children_def)

lemma wf_after_create:
  assumes "wf_children t" "\<not> name_taken 0 name t" "distinct cs"
  shows "wf_children (after_create now name cs t)"
proof -
  have fresh: "new_child_id t \<notin> ch_id ` set (t_children t)" by (rule new_child_id_fresh)
  then have rows: "\<lparr>cc_client = c, cc_child = new_child_id t\<rparr> \<notin> set (t_child_clients t)" for c
    using assms(1) unfolding wf_children_def by force
  moreover have "to_lower name \<notin> (\<lambda>r. to_lower (ch_name r)) ` set (t_children t)"
    using assms(1,2) unfolding wf_children_def name_taken_def by force
  moreover have "inj (\<lambda>c. \<lparr>cc_client = c, cc_child = new_child_id t\<rparr>)"
    by (simp add: inj_on_def)
  ultimately show ?thesis
    using assms fresh new_child_id_pos [OF assms(1)]
    by (auto simp: wf_children_def after_create_def distinct_map inj_on_def)
qed

lemma create_child_tx_eq:
  assumes "wf_children t" "distinct cs"
  shows "create_child_tx now name cs t =
    (if name_taken 0 name t then Inl ErrNameTaken
     else Inr (\<lparr>child_id = new_child_id t, child_name = name, child_clients = sort cs\<rparr>,
               after_create (unix now) name cs t))"
proof (cases "name_taken 0 name t")
  case True
  then show ?thesis
    by (simp add: create_child_tx_def checkConflicts_def name_taken_def)
next
  case False
  define i where "i = new_child_id t"
  define t1 where "t1 = t\<lparr>t_children := t_children t @
      [\<lparr>ch_id = i, ch_name = name, ch_created = unix now\<rparr>]\<rparr>"
  have free: "\<not> (\<exists>r \<in> set (t_children t). to_lower (ch_name r) = to_lower name)"
    using assms(1) False by (auto simp: name_taken_def wf_children_def)
  have no_rows: "\<forall>r \<in> set (t_child_clients t). cc_child r \<noteq> i"
    using new_child_id_fresh [of t] assms(1) unfolding wf_children_def i_def by force
  have ins: "insertClients i cs t1 = Inr (after_create (unix now) name cs t)"
    using assms(2) no_rows
    by (subst insertClients_eq) (auto simp: t1_def after_create_def i_def)
  have get: "getChild i (after_create (unix now) name cs t) =
      Inr \<lparr>child_id = i, child_name = name, child_clients = sort cs\<rparr>"
    using wf_after_create [OF assms(1) False assms(2), of "unix now"] no_rows
    by (subst getChild_Inr)
       (auto simp: wf_children_def after_create_def view_child_def i_def map_filter_all
          filter_map comp_def)
  from free False ins get show ?thesis
    by (simp add: create_child_tx_def checkConflicts_def insert_child_def Let_def
        name_taken_def t1_def i_def new_child_id_def)
qed

definition after_update :: "id \<Rightarrow> string \<Rightarrow> string list \<Rightarrow> tables \<Rightarrow> tables" where
  "after_update i name cs t =
     t\<lparr>t_children := map (set_name i name) (t_children t),
       t_child_clients := filter (\<lambda>r. cc_child r \<noteq> i) (t_child_clients t) @
         map (\<lambda>c. \<lparr>cc_client = c, cc_child = i\<rparr>) cs\<rparr>"

lemma ch_id_set_name [simp]: "ch_id (set_name i name r) = ch_id r"
  by (simp add: set_name_def)

lemma ch_name_set_name [simp]:
  "ch_name (set_name i name r) = (if ch_id r = i then name else ch_name r)"
  by (simp add: set_name_def)

lemma ch_id_set_name_comp [simp]: "ch_id \<circ> set_name i name = ch_id"
  by (simp add: comp_def)

lemma wf_after_update:
  assumes "wf_children t" "\<not> name_taken i name t" "i \<in> ch_id ` set (t_children t)" "distinct cs"
  shows "wf_children (after_update i name cs t)"
proof -
  let ?rs = "t_children t" and ?up = "set_name i name"
  have ids: "inj_on ch_id (set ?rs)" "distinct ?rs"
    and names: "inj_on (\<lambda>r. to_lower (ch_name r)) (set ?rs)"
    using assms(1) by (simp_all add: wf_children_def distinct_map)
  have "inj_on (\<lambda>r. to_lower (ch_name (?up r))) (set ?rs)"
  proof (rule inj_onI)
    fix a b assume ab: "a \<in> set ?rs" "b \<in> set ?rs"
      "to_lower (ch_name (?up a)) = to_lower (ch_name (?up b))"
    then show "a = b"
      using assms(2) ids(1) names unfolding name_taken_def inj_on_def
      by (cases "ch_id a = i"; cases "ch_id b = i") force+
  qed
  then have "distinct (map (\<lambda>r. to_lower (ch_name r)) (map ?up ?rs))"
    using ids(2) by (simp add: distinct_map comp_def)
  moreover have "distinct (map (\<lambda>c. \<lparr>cc_client = c, cc_child = i\<rparr>) cs)"
    using assms(4) by (simp add: distinct_map inj_on_def)
  moreover have "ch_id ` (?up ` set ?rs) = ch_id ` set ?rs" by (simp add: image_image)
  ultimately show ?thesis
    using assms(1,3) unfolding wf_children_def after_update_def by auto
qed

lemma update_child_tx_eq:
  assumes "wf_children t" "distinct cs"
  shows "update_child_tx i name cs t =
    (if i \<notin> ch_id ` set (t_children t) then Inl ErrChildNotFound
     else if name_taken i name t then Inl ErrNameTaken
     else Inr (\<lparr>child_id = i, child_name = name, child_clients = sort cs\<rparr>,
               after_update i name cs t))"
proof -
  have ids: "distinct (map ch_id (t_children t))" using assms(1) by (simp add: wf_children_def)
  consider (missing) "i \<notin> ch_id ` set (t_children t)"
    | (taken) "i \<in> ch_id ` set (t_children t)" "name_taken i name t"
    | (ok) "i \<in> ch_id ` set (t_children t)" "\<not> name_taken i name t" by blast
  then show ?thesis
  proof cases
    case missing
    then have "getChild i t = Inl ErrChildNotFound" by (simp add: getChild_Inl [OF ids])
    with missing show ?thesis by (simp add: update_child_tx_def)
  next
    case taken
    then obtain c where "getChild i t = Inr c" by (auto simp: getChild_Inr [OF ids])
    with taken show ?thesis
      by (simp add: update_child_tx_def checkConflicts_def name_taken_def)
  next
    case ok
    then obtain c where get: "getChild i t = Inr c" by (auto simp: getChild_Inr [OF ids])
    define t1 where "t1 = delete_child_clients i (t\<lparr>t_children := map (set_name i name) (t_children t)\<rparr>)"
    have "i \<in> ch_id ` set (t_children t1)"
      using ok(1) by (simp add: t1_def delete_child_clients_def image_image)
    then have ins: "insertClients i cs t1 = Inr (after_update i name cs t)"
      using assms(2)
      by (subst insertClients_eq) (auto simp: t1_def delete_child_clients_def after_update_def)
    have get': "getChild i (after_update i name cs t) =
        Inr \<lparr>child_id = i, child_name = name, child_clients = sort cs\<rparr>"
      using wf_after_update [OF assms(1) ok(2,1) assms(2)] ok(1)
      by (subst getChild_Inr)
         (auto simp: wf_children_def after_update_def view_child_def filter_map comp_def)
    from ok get ins get' show ?thesis
      by (simp add: update_child_tx_def checkConflicts_def name_taken_def update_child_name_def t1_def)
  qed
qed

lemma wf_delete_child:
  assumes "wf_tables t" "delete_child_tx i t = Inr (b, t')"
  shows "wf_tables t'"
proof -
  let ?kept = "filter (\<lambda>b. bt_child b \<noteq> i) (t_buttons t)"
  let ?gone = "map bt_id (filter (\<lambda>b. bt_child b = i) (t_buttons t))"
  have t': "t' = t\<lparr>t_children := filter (\<lambda>r. ch_id r \<noteq> i) (t_children t),
      t_child_clients := filter (\<lambda>r. cc_child r \<noteq> i) (t_child_clients t),
      t_buttons := ?kept,
      t_button_services := filter (\<lambda>s. bs_button s \<notin> set ?gone) (t_button_services t)\<rparr>"
    using assms(2) by (simp add: delete_child_tx_def Let_def)
  have "wf_children t'"
    using assms(1) unfolding t' wf_tables_def wf_children_def
    by (auto simp: distinct_map_filter)
  moreover have "wf_buttons t'"
    using assms(1) unfolding t' wf_tables_def wf_buttons_def wf_children_def
    by (auto simp: distinct_map_filter) blast+
  ultimately show ?thesis using assms(1) by (simp add: wf_tables_def t')
qed

section \<open>The rename loop\<close>

lemma cc_row_eq: "\<lparr>cc_client = a, cc_child = b\<rparr> = r \<longleftrightarrow> cc_client r = a \<and> cc_child r = b"
  by (cases r) auto

lemma cc_row_self [simp]: "\<lparr>cc_client = cc_client r, cc_child = cc_child r\<rparr> = r"
  by (simp add: cc_row_eq)

lemma set_clientOwners:
  "set (clientOwners name t) =
     {(ch_id c, ch_name c) |c. c \<in> set (t_children t) \<and>
        \<lparr>cc_client = name, cc_child = ch_id c\<rparr> \<in> set (t_child_clients t)}"
proof -
  have "(\<exists>r \<in> set (t_child_clients t). cc_client r = name \<and> cc_child r = i) \<longleftrightarrow>
      \<lparr>cc_client = name, cc_child = i\<rparr> \<in> set (t_child_clients t)" for i
    by (metis child_client_row.surjective child_client_row.select_convs old.unit.exhaust)
  then show ?thesis by (auto simp: clientOwners_def image_iff) metis
qed

lemma holds_clientOwners:
  assumes "wf_children t"
  shows "holds (clientOwners name t) i \<longleftrightarrow>
     \<lparr>cc_client = name, cc_child = i\<rparr> \<in> set (t_child_clients t)"
proof -
  have "\<lparr>cc_client = name, cc_child = i\<rparr> \<in> set (t_child_clients t) \<Longrightarrow>
      i \<in> ch_id ` set (t_children t)"
    using assms unfolding wf_children_def by force
  then show ?thesis by (auto simp: holds_def set_clientOwners image_iff)
qed

lemma filter_same_row:
  "distinct rows \<Longrightarrow>
     filter (\<lambda>r. cc_client r = name \<and> cc_child r = i) rows =
     (if \<lparr>cc_client = name, cc_child = i\<rparr> \<in> set rows then [\<lparr>cc_client = name, cc_child = i\<rparr>] else [])"
  by (induction rows) (auto simp: cc_row_eq)

lemma distinct_clientOwners:
  assumes "wf_children t"
  shows "distinct (map fst (clientOwners name t))"
proof -
  let ?row = "\<lambda>c. if \<lparr>cc_client = name, cc_child = ch_id c\<rparr> \<in> set (t_child_clients t)
      then [(ch_id c, ch_name c)] else []"
  have eq: "clientOwners name t = concat (map ?row (sort_key ch_id (t_children t)))"
    using assms by (simp add: clientOwners_def wf_children_def filter_same_row if_distrib cong: if_cong)
  have one: "map fst (concat (map ?row cs)) =
      map ch_id (filter (\<lambda>c. \<lparr>cc_client = name, cc_child = ch_id c\<rparr> \<in> set (t_child_clients t)) cs)"
    for cs by (induction cs) auto
  have "distinct (map ch_id (sort_key ch_id (t_children t)))"
    using assms by (simp add: wf_children_def distinct_map)
  then show ?thesis unfolding eq one by (rule distinct_map_filter)
qed

text \<open>
  The loop over the old owners, as one map over the table: an old row of a listed owner
  moves to the new name, or goes when that owner holds the new name already.
\<close>

definition rename_row ::
  "string \<Rightarrow> string \<Rightarrow> (id \<times> string) list \<Rightarrow> id set \<Rightarrow> child_client_row \<Rightarrow> child_client_row list" where
  "rename_row old new newOwners D r =
     (if cc_client r = old \<and> cc_child r \<in> D
      then (if holds newOwners (cc_child r) then [] else [r\<lparr>cc_client := new\<rparr>]) else [r])"

lemma concat_map_concat: "concat (map f (concat xss)) = concat (map (\<lambda>xs. concat (map f xs)) xss)"
  by (induction xss) auto

lemma move_child_client_ok:
  assumes "\<not> holds newOwners (fst ow) \<Longrightarrow>
      \<lparr>cc_client = new, cc_child = fst ow\<rparr> \<notin> set (t_child_clients t)"
  shows "move_child_client old new newOwners ow t =
    Inr (t\<lparr>t_child_clients :=
           concat (map (rename_row old new newOwners {fst ow}) (t_child_clients t))\<rparr>)"
proof -
  have "holds newOwners (fst ow) \<Longrightarrow>
      filter (\<lambda>r. \<not> (cc_child r = fst ow \<and> cc_client r = old)) rows =
      concat (map (rename_row old new newOwners {fst ow}) rows)" for rows
    by (induction rows) (auto simp: rename_row_def)
  moreover have "\<not> holds newOwners (fst ow) \<Longrightarrow>
      map (\<lambda>r. if cc_child r = fst ow \<and> cc_client r = old then r\<lparr>cc_client := new\<rparr> else r) rows =
      concat (map (rename_row old new newOwners {fst ow}) rows)" for rows
    by (induction rows) (auto simp: rename_row_def)
  ultimately show ?thesis using assms by (auto simp: move_child_client_def Let_def)
qed

lemma rename_row_compose:
  assumes "old \<noteq> new"
  shows "concat (map (rename_row old new no D) (rename_row old new no {i} r)) =
    rename_row old new no (insert i D) r"
  using assms by (auto simp: rename_row_def)

lemma move_loop:
  assumes "old \<noteq> new" "distinct (map fst owners)"
    "\<forall>ow \<in> set owners. \<not> holds newOwners (fst ow) \<longrightarrow>
       \<lparr>cc_client = new, cc_child = fst ow\<rparr> \<notin> set (t_child_clients t)"
  shows "res_fold (move_child_client old new newOwners) owners t =
    Inr (t\<lparr>t_child_clients :=
      concat (map (rename_row old new newOwners (fst ` set owners)) (t_child_clients t))\<rparr>)"
  using assms(2,3)
proof (induction owners arbitrary: t)
  case Nil
  have "concat (map (rename_row old new newOwners {}) rows) = rows" for rows
    by (induction rows) (auto simp: rename_row_def)
  then show ?case by simp
next
  case (Cons ow owners)
  define t1 where "t1 = t\<lparr>t_child_clients :=
      concat (map (rename_row old new newOwners {fst ow}) (t_child_clients t))\<rparr>"
  have "\<forall>o' \<in> set owners. \<not> holds newOwners (fst o') \<longrightarrow>
       \<lparr>cc_client = new, cc_child = fst o'\<rparr> \<notin> set (t_child_clients t1)"
    using Cons.prems by (auto simp: t1_def rename_row_def cc_row_eq image_iff split: if_splits)
  then have "res_fold (move_child_client old new newOwners) owners t1 =
      Inr (t1\<lparr>t_child_clients :=
        concat (map (rename_row old new newOwners (fst ` set owners)) (t_child_clients t1))\<rparr>)"
    using Cons.prems by (intro Cons.IH) simp_all
  moreover have "move_child_client old new newOwners ow t = Inr t1"
    unfolding t1_def using Cons.prems by (intro move_child_client_ok) simp
  ultimately show ?case
    by (simp add: t1_def concat_map_concat comp_def rename_row_compose [OF assms(1)])
qed

definition renamed_ccs :: "string \<Rightarrow> string \<Rightarrow> tables \<Rightarrow> child_client_row list" where
  "renamed_ccs old new t =
     concat (map (rename_row old new (clientOwners new t) (fst ` set (clientOwners old t)))
       (t_child_clients t))"

definition renamed_gcs :: "string \<Rightarrow> string \<Rightarrow> tables \<Rightarrow> grant_client_row list" where
  "renamed_gcs old new t =
     map (\<lambda>r. if gc_client r = old \<and> gc_grant r \<in> set (active_grant_ids t)
              then r\<lparr>gc_client := new\<rparr> else r)
       (t_grant_clients (drop_grant_client_dups old new t))"

lemma gc_row_eq: "a = b \<longleftrightarrow> gc_grant a = gc_grant b \<and> gc_client a = (gc_client b :: string)"
  for a b :: grant_client_row
  by (cases a; cases b) auto

lemma distinct_renamed_gcs:
  assumes "distinct (t_grant_clients t)" "old \<noteq> new"
  shows "distinct (renamed_gcs old new t)"
proof -
  let ?kept = "t_grant_clients (drop_grant_client_dups old new t)"
  have "inj_on (\<lambda>r. if gc_client r = old \<and> gc_grant r \<in> set (active_grant_ids t)
              then r\<lparr>gc_client := new\<rparr> else r) (set ?kept)"
    using assms(2) by (rule_tac inj_onI) (auto simp: gc_row_eq drop_grant_client_dups_def image_iff
        split: if_splits)
  moreover have "distinct ?kept" using assms(1) by (simp add: drop_grant_client_dups_def)
  ultimately show ?thesis by (simp add: renamed_gcs_def distinct_map)
qed

definition outsiders :: "string \<Rightarrow> string \<Rightarrow> tables \<Rightarrow> (id \<times> string) list" where
  "outsiders old new t =
     filter (\<lambda>ow. \<not> holds (clientOwners old t) (fst ow)) (clientOwners new t)"

lemma firstOutsider_eq:
  "firstOutsider (clientOwners new t) (clientOwners old t) =
     (case outsiders old new t of [] \<Rightarrow> None | ow # _ \<Rightarrow> Some ow)"
proof -
  have "find P xs = (case filter P xs of [] \<Rightarrow> None | x # _ \<Rightarrow> Some x)" for P and xs :: "(id \<times> string) list"
    by (induction xs) auto
  then show ?thesis by (simp add: firstOutsider_def outsiders_def)
qed

lemma rename_client_tx_eq:
  assumes wf: "wf_tables t" and ne: "old \<noteq> new"
  shows "rename_client_tx old new t =
    (case outsiders old new t of
       (i, n) # _ \<Rightarrow> Inl (ErrClientTaken new i n)
     | [] \<Rightarrow> Inr ((), t\<lparr>t_child_clients := renamed_ccs old new t,
                        t_grant_clients := renamed_gcs old new t\<rparr>))"
proof (cases "outsiders old new t")
  case (Cons ow rest)
  then show ?thesis by (simp add: rename_client_tx_def firstOutsider_eq Let_def split: prod.splits)
next
  case Nil
  have wfc: "wf_children t" and wfg: "wf_grants t" using wf by (simp_all add: wf_tables_def)
  have loop: "res_fold (move_child_client old new (clientOwners new t)) (clientOwners old t) t =
      Inr (t\<lparr>t_child_clients := renamed_ccs old new t\<rparr>)"
    unfolding renamed_ccs_def
    by (rule move_loop [OF ne distinct_clientOwners [OF wfc]]) (simp add: holds_clientOwners [OF wfc])
  define t1 where "t1 = t\<lparr>t_child_clients := renamed_ccs old new t\<rparr>"
  have "renamed_gcs old new t1 = renamed_gcs old new t"
    by (simp add: renamed_gcs_def t1_def active_grant_ids_def drop_grant_client_dups_def)
  then have "move_grant_clients old new (drop_grant_client_dups old new t1) =
      Inr (t1\<lparr>t_grant_clients := renamed_gcs old new t\<rparr>)"
    using distinct_renamed_gcs [of t1 old new] wfg ne
    by (simp add: move_grant_clients_def Let_def renamed_gcs_def active_grant_ids_def
        drop_grant_client_dups_def t1_def wf_grants_def)
  then show ?thesis
    using Nil loop by (simp add: rename_client_tx_def firstOutsider_eq Let_def t1_def)
qed

definition swap_name :: "string \<Rightarrow> string \<Rightarrow> string \<Rightarrow> string" where
  "swap_name old new c = (if c = old then new else c)"

lemma renamed_ccs_iff:
  assumes "wf_children t" "old \<noteq> new"
  shows "r \<in> set (renamed_ccs old new t) \<longleftrightarrow>
    (\<exists>r0 \<in> set (t_child_clients t).
       cc_child r = cc_child r0 \<and> cc_client r = swap_name old new (cc_client r0))"
proof -
  have own: "i \<in> fst ` set (clientOwners old t) \<longleftrightarrow>
      \<lparr>cc_client = old, cc_child = i\<rparr> \<in> set (t_child_clients t)" for i
    using holds_clientOwners [OF assms(1), of old i] by (simp add: holds_def)
  have D: "r0 \<in> set (t_child_clients t) \<Longrightarrow> cc_client r0 = old \<Longrightarrow>
      cc_child r0 \<in> fst ` set (clientOwners old t)" for r0
    by (subst own) (metis cc_row_self)
  show ?thesis (is "?L = ?R")
  proof
    assume ?L
    then show ?R
      using D by (auto simp: renamed_ccs_def rename_row_def swap_name_def split: if_splits)
  next
    assume ?R
    then obtain r0 where r0: "r0 \<in> set (t_child_clients t)" "cc_child r = cc_child r0"
      "cc_client r = swap_name old new (cc_client r0)" by blast
    show ?L
    proof (cases "cc_client r0 = old")
      case False
      with r0 have "r = r0" by (metis cc_row_eq cc_row_self swap_name_def)
      with r0(1) False show ?thesis
        by (auto simp: renamed_ccs_def rename_row_def intro!: bexI [of _ r0])
    next
      case old: True
      then have r: "r = \<lparr>cc_client = new, cc_child = cc_child r0\<rparr>"
        using r0 by (metis cc_row_self swap_name_def)
      show ?thesis
      proof (cases "holds (clientOwners new t) (cc_child r0)")
        case True
        then have "r \<in> set (t_child_clients t)"
          using r by (simp add: holds_clientOwners [OF assms(1)])
        with r assms(2) show ?thesis
          by (auto simp: renamed_ccs_def rename_row_def intro!: bexI [of _ r])
      next
        case False
        then show ?thesis
          using r0(1) D [OF r0(1) old] old r
          by (auto simp: renamed_ccs_def rename_row_def cc_row_eq intro!: bexI [of _ r0])
      qed
    qed
  qed
qed

lemma set_renamed_clients_of:
  assumes "wf_children t" "old \<noteq> new"
  shows "set (clients_of (t\<lparr>t_child_clients := renamed_ccs old new t\<rparr>) i) =
    swap_name old new ` set (clients_of t i)"
  using renamed_ccs_iff [OF assms]
  by (auto simp: clients_of_def image_iff) (metis child_client_row.select_convs)+

lemma distinct_renamed_ccs:
  assumes "wf_children t" "old \<noteq> new"
  shows "distinct (renamed_ccs old new t)"
proof -
  let ?f = "rename_row old new (clientOwners new t) (fst ` set (clientOwners old t))"
  let ?all = "set (t_child_clients t)"
  have hold: "holds (clientOwners new t) i \<longleftrightarrow> \<lparr>cc_client = new, cc_child = i\<rparr> \<in> ?all" for i
    by (rule holds_clientOwners [OF assms(1)])
  have disj: "r = r'" if "r \<in> ?all" "r' \<in> ?all" "y \<in> set (?f r)" "y \<in> set (?f r')" for r r' y
  proof -
    have moved: "y = x \<or> (cc_client x = old \<and> y = \<lparr>cc_client = new, cc_child = cc_child x\<rparr> \<and> y \<notin> ?all)"
      if "y \<in> set (?f x)" for x
      using that by (cases x) (auto simp: rename_row_def hold split: if_splits)
    from moved [OF that(3)] moved [OF that(4)] that(1,2) show ?thesis
      by (metis cc_row_self child_client_row.select_convs(2))
  qed
  have "distinct rows \<Longrightarrow> set rows \<subseteq> ?all \<Longrightarrow> distinct (concat (map ?f rows))" for rows
  proof (induction rows)
    case (Cons r rows)
    then have "set (?f r) \<inter> set (concat (map ?f rows)) = {}" using disj [of r] by auto
    moreover have "distinct (?f r)" by (simp add: rename_row_def)
    ultimately show ?case using Cons by simp
  qed simp
  then show ?thesis using assms(1) by (simp add: renamed_ccs_def wf_children_def)
qed

lemma renamed_gcs_iff:
  assumes "old \<noteq> new"
  shows "r \<in> set (renamed_gcs old new t) \<longleftrightarrow>
    (\<exists>r0 \<in> set (t_grant_clients t). gc_grant r = gc_grant r0 \<and>
       gc_client r = (if gc_grant r0 \<in> set (active_grant_ids t)
                      then swap_name old new (gc_client r0) else gc_client r0))" (is "?L \<longleftrightarrow> ?R")
proof
  assume ?L
  then show ?R
    by (auto simp: renamed_gcs_def drop_grant_client_dups_def swap_name_def split: if_splits)
next
  let ?keep = "\<lambda>r0. \<not> (gc_client r0 = old \<and> gc_grant r0 \<in> set (active_grant_ids t) \<and>
      gc_grant r0 \<in> gc_grant ` {r' \<in> set (t_grant_clients t). gc_client r' = new})"
  let ?mv = "\<lambda>r. if gc_client r = old \<and> gc_grant r \<in> set (active_grant_ids t)
              then r\<lparr>gc_client := new\<rparr> else r"
  have im: "?keep r0 \<Longrightarrow> r0 \<in> set (t_grant_clients t) \<Longrightarrow> ?mv r0 \<in> set (renamed_gcs old new t)" for r0
    by (simp only: renamed_gcs_def drop_grant_client_dups_def set_map set_filter
        tables.select_convs tables.simps) (rule imageI, simp)
  assume ?R
  then obtain r0 where r0: "r0 \<in> set (t_grant_clients t)" "gc_grant r = gc_grant r0"
    "gc_client r = (if gc_grant r0 \<in> set (active_grant_ids t)
                    then swap_name old new (gc_client r0) else gc_client r0)" by blast
  show ?L
  proof (cases "?keep r0")
    case True
    have "?mv r0 = r" using r0 by (simp add: gc_row_eq swap_name_def)
    with im [OF True r0(1)] show ?thesis by simp
  next
    case False
    then obtain r1 where r1: "r1 \<in> set (t_grant_clients t)" "gc_client r1 = new"
      "gc_grant r1 = gc_grant r0" by auto
    with False r0 have "r = r1" by (simp add: gc_row_eq swap_name_def)
    with im [of r1] r1 assms show ?thesis by simp
  qed
qed

lemma set_renamed_gcs:
  assumes "old \<noteq> new"
  shows "set (grant_clients_of (t\<lparr>t_child_clients := ccs, t_grant_clients := renamed_gcs old new t\<rparr>) g) =
    (if g \<in> set (active_grant_ids t) then swap_name old new ` set (grant_clients_of t g)
     else set (grant_clients_of t g))" (is "?L = ?R")
proof -
  have "x \<in> ?L \<longleftrightarrow> \<lparr>gc_grant = g, gc_client = x\<rparr> \<in> set (renamed_gcs old new t)" for x
    by (auto simp: grant_clients_of_def image_iff) (metis grant_client_row.cases grant_client_row.select_convs)+
  moreover have "x \<in> ?R \<longleftrightarrow> \<lparr>gc_grant = g, gc_client = x\<rparr> \<in> set (renamed_gcs old new t)" for x
    unfolding renamed_gcs_iff [OF assms] by (auto simp: grant_clients_of_def)
  ultimately show ?thesis by blast
qed

section \<open>The children as an abstract map\<close>

text \<open>
  What the package promises of the mapping: a partial map from a child's id to its name and
  its set of clients. Each write refines an update of that map.
\<close>

definition abs_children :: "tables \<Rightarrow> id \<Rightarrow> (string \<times> string set) option" where
  "abs_children t i =
     map_option (\<lambda>r. (ch_name r, set (clients_of t i))) (find (\<lambda>r. ch_id r = i) (t_children t))"

lemma find_child:
  "distinct (map ch_id rs) \<Longrightarrow>
     find (\<lambda>r. ch_id r = i) rs = Some r \<longleftrightarrow> r \<in> set rs \<and> ch_id r = i"
  by (induction rs) auto

lemma find_child_None: "find (\<lambda>r. ch_id r = i) rs = None \<longleftrightarrow> i \<notin> ch_id ` set rs"
  by (induction rs) auto

lemma find_child_append:
  "find P (xs @ ys) = (case find P xs of None \<Rightarrow> find P ys | Some x \<Rightarrow> Some x)"
  by (induction xs) auto

lemma find_child_filter: "find P (filter Q xs) = find (\<lambda>x. Q x \<and> P x) xs"
  by (induction xs) auto

lemma find_child_map:
  "(\<And>r. ch_id (f r) = ch_id r) \<Longrightarrow>
     find (\<lambda>r. ch_id r = i) (map f rs) = map_option f (find (\<lambda>r. ch_id r = i) rs)"
  by (induction rs) auto

lemma dom_abs_children: "dom (abs_children t) = ch_id ` set (t_children t)"
  using find_child_None [of _ "t_children t"] by (force simp: abs_children_def dom_def)

declare clients_of_simps(2) [simp del]

lemma clients_of_iff:
  "x \<in> set (clients_of t i) \<longleftrightarrow> \<lparr>cc_client = x, cc_child = i\<rparr> \<in> set (t_child_clients t)"
  by (auto simp: clients_of_def image_iff)

lemma find_child_id: "find (\<lambda>r. ch_id r = i) rs = Some r \<Longrightarrow> ch_id r = i"
  by (induction rs) (auto split: if_splits)

lemma clients_of_after_create:
  assumes "wf_children t"
  shows "set (clients_of (after_create now name cs t) i) =
    (if i = new_child_id t then set cs else set (clients_of t i))"
proof -
  have "\<forall>r \<in> set (t_child_clients t). cc_child r \<noteq> new_child_id t"
    using new_child_id_fresh [of t] assms unfolding wf_children_def by force
  then show ?thesis
    by (intro set_eqI) (auto simp: clients_of_iff after_create_def)
qed

lemma abs_after_create:
  assumes "wf_children t"
  shows "abs_children (after_create now name cs t) =
    (abs_children t)(new_child_id t \<mapsto> (name, set cs))"
proof
  fix i
  have "find (\<lambda>r. ch_id r = new_child_id t) (t_children t) = None"
    using new_child_id_fresh [of t] by (simp add: find_child_None)
  then show "abs_children (after_create now name cs t) i =
      ((abs_children t)(new_child_id t \<mapsto> (name, set cs))) i"
    using clients_of_after_create [OF assms, of now name cs i]
    by (auto simp: abs_children_def find_child_append after_create_def split: option.splits)
qed

lemma clients_of_after_update:
  "set (clients_of (after_update i name cs t) j) = (if j = i then set cs else set (clients_of t j))"
  by (intro set_eqI) (auto simp: clients_of_iff after_update_def)

lemma abs_after_update:
  assumes "i \<in> ch_id ` set (t_children t)"
  shows "abs_children (after_update i name cs t) = (abs_children t)(i \<mapsto> (name, set cs))"
proof
  fix j
  obtain r where "find (\<lambda>r. ch_id r = i) (t_children t) = Some r"
    using assms find_child_None [of i "t_children t"] by fastforce
  moreover have "find (\<lambda>r. ch_id r = j) (t_children t) = Some r' \<Longrightarrow> j \<noteq> i \<Longrightarrow> set_name i name r' = r'" for r'
    using find_child_id [of j "t_children t" r'] by (simp add: set_name_def)
  ultimately show "abs_children (after_update i name cs t) j =
      ((abs_children t)(i \<mapsto> (name, set cs))) j"
    using clients_of_after_update [of i name cs t j]
    by (cases "find (\<lambda>r. ch_id r = j) (t_children t)")
       (auto simp: abs_children_def after_update_def find_child_map dest: find_child_id)
qed

lemma abs_delete_child:
  assumes "delete_child_tx i t = Inr (b, t')"
  shows "abs_children t' = (abs_children t)(i := None)" "b \<longleftrightarrow> i \<in> dom (abs_children t)"
proof -
  have eq: "t_children t' = filter (\<lambda>r. ch_id r \<noteq> i) (t_children t)"
    "t_child_clients t' = filter (\<lambda>r. cc_child r \<noteq> i) (t_child_clients t)"
    "b = (\<exists>r \<in> set (t_children t). ch_id r = i)"
    using assms by (auto simp: delete_child_tx_def Let_def)
  show "abs_children t' = (abs_children t)(i := None)"
  proof
    fix j
    show "abs_children t' j = ((abs_children t)(i := None)) j"
    proof (cases "j = i")
      case True
      have "find (\<lambda>r. ch_id r = i) (t_children t') = None" by (auto simp: find_child_None eq)
      with True show ?thesis by (simp add: abs_children_def)
    next
      case False
      then have "set (clients_of t' j) = set (clients_of t j)"
        by (auto simp: clients_of_iff eq)
      moreover have "find (\<lambda>r. ch_id r \<noteq> i \<and> ch_id r = j) rs = find (\<lambda>r. ch_id r = j) rs" for rs :: "child_row list"
        using False by (induction rs) auto
      ultimately have "abs_children t' j = abs_children t j"
        by (simp add: abs_children_def eq find_child_filter)
      with False show ?thesis by simp
    qed
  qed
  show "b \<longleftrightarrow> i \<in> dom (abs_children t)" by (auto simp: dom_abs_children eq)
qed

lemma abs_rename:
  assumes "wf_children t" "old \<noteq> new"
  shows "abs_children (t\<lparr>t_child_clients := renamed_ccs old new t, t_grant_clients := gcs\<rparr>) i =
    map_option (\<lambda>(n, cs). (n, swap_name old new ` cs)) (abs_children t i)"
proof -
  have "set (clients_of (t\<lparr>t_child_clients := renamed_ccs old new t, t_grant_clients := gcs\<rparr>) i) =
      swap_name old new ` set (clients_of t i)"
    using set_renamed_clients_of [OF assms, of i] by (simp add: clients_of_def)
  then show ?thesis by (simp add: abs_children_def option.map_comp comp_def)
qed

lemma add_child_client_tx_eq:
  assumes wf: "wf_children t"
  shows "add_child_client_tx i name t =
    (if i \<notin> ch_id ` set (t_children t) then Inl ErrChildNotFound
     else if \<lparr>cc_client = name, cc_child = i\<rparr> \<in> set (t_child_clients t) then Inr ((), t)
     else case clientOwners name t of
            (j, n) # _ \<Rightarrow> Inl (ErrClientTaken name j n)
          | [] \<Rightarrow> Inr ((), t\<lparr>t_child_clients := t_child_clients t @ [\<lparr>cc_client = name, cc_child = i\<rparr>]\<rparr>))"
proof -
  have ids: "distinct (map ch_id (t_children t))" using wf by (simp add: wf_children_def)
  show ?thesis
  proof (cases "i \<in> ch_id ` set (t_children t)")
    case False
    then have "getChild i t = Inl ErrChildNotFound" by (simp add: getChild_Inl [OF ids])
    with False show ?thesis by (simp add: add_child_client_tx_def)
  next
    case True
    then obtain c where "getChild i t = Inr c" by (auto simp: getChild_Inr [OF ids])
    moreover have "\<lparr>cc_client = name, cc_child = i\<rparr> \<notin> set (t_child_clients t) \<Longrightarrow>
        insertClients i [name] t =
        Inr (t\<lparr>t_child_clients := t_child_clients t @ [\<lparr>cc_client = name, cc_child = i\<rparr>]\<rparr>)"
      using True by (subst insertClients_eq) simp_all
    ultimately show ?thesis
      using True by (simp add: add_child_client_tx_def Let_def holds_clientOwners [OF wf]
          split: list.splits)
  qed
qed

end
