(* ===== verification/StoreGrants.thy ===== *)
theory StoreGrants
  imports StoreDb StoreChildren
begin

text \<open>
  internal/store/grants.go: the grants, their services and stored clients. The lists of a
  grant are normalised like a child's clients; times are stored as Unix seconds, so a
  grant's times come back truncated to the second.
\<close>

section \<open>Model\<close>

record grant =
  grant_id :: id
  grant_child :: id
  grant_status :: grant_status
  grant_services :: "string list"
  grant_clients :: "string list"
  started_at :: time
  ends_at :: time

subsection \<open>Reading\<close>

definition grant_of_row :: "grant_row \<Rightarrow> grant" where
  "grant_of_row g = \<lparr>grant_id = gr_id g, grant_child = gr_child g, grant_status = gr_status g,
     grant_services = [], grant_clients = [],
     started_at = of_unix (gr_started g), ends_at = of_unix (gr_ends g)\<rparr>"

text \<open>The first query of \<open>loadGrants\<close>: grants joined to their services, ordered by both.\<close>

definition grant_service_rows :: "tables \<Rightarrow> grant_row \<Rightarrow> (grant_row \<times> string option) list" where
  "grant_service_rows t g =
     (case sort (grant_services_of t (gr_id g)) of
        [] \<Rightarrow> [(g, None)]
      | ss \<Rightarrow> map (\<lambda>s. (g, Some s)) ss)"

definition grantQuery :: "(grant_row \<Rightarrow> bool) \<Rightarrow> tables \<Rightarrow> (grant_row \<times> string option) list" where
  "grantQuery p t = concat (map (grant_service_rows t) (sort_key gr_id (filter p (t_grants t))))"

text \<open>The second: the stored clients of the same grants.\<close>

definition grantClientQuery :: "(grant_row \<Rightarrow> bool) \<Rightarrow> tables \<Rightarrow> (id \<times> string) list" where
  "grantClientQuery p t =
     concat (map (\<lambda>g. map (\<lambda>c. (gr_id g, c)) (sort (grant_clients_of t (gr_id g))))
              (sort_key gr_id (filter p (t_grants t))))"

text \<open>
  The loops of \<open>loadGrants\<close>: \<open>out\<close> is the slice built so far; the \<open>index\<close> map of the code finds
  the entry of an id in it.
\<close>

definition add_service :: "id \<Rightarrow> string \<Rightarrow> grant list \<Rightarrow> grant list" where
  "add_service i s out =
     map (\<lambda>g. if grant_id g = i then g\<lparr>grant_services := grant_services g @ [s]\<rparr> else g) out"

definition add_client :: "id \<Rightarrow> string \<Rightarrow> grant list \<Rightarrow> grant list" where
  "add_client i c out =
     map (\<lambda>g. if grant_id g = i then g\<lparr>grant_clients := grant_clients g @ [c]\<rparr> else g) out"

fun scan_services :: "grant list \<Rightarrow> (grant_row \<times> string option) list \<Rightarrow> grant list" where
  "scan_services out [] = out"
| "scan_services out ((g, s) # rows) =
     (let out1 = (if gr_id g \<in> grant_id ` set out then out else out @ [grant_of_row g]);
          out2 = (case s of None \<Rightarrow> out1 | Some sv \<Rightarrow> add_service (gr_id g) sv out1)
      in scan_services out2 rows)"

fun scan_clients :: "grant list \<Rightarrow> (id \<times> string) list \<Rightarrow> grant list" where
  "scan_clients out [] = out"
| "scan_clients out ((i, c) # rows) = scan_clients (add_client i c out) rows"

definition loadGrants :: "(grant_row \<Rightarrow> bool) \<Rightarrow> tables \<Rightarrow> grant list" where
  "loadGrants p t =
     (let out = scan_services [] (grantQuery p t)
      in if out = [] then out else scan_clients out (grantClientQuery p t))"

definition getGrant :: "id \<Rightarrow> tables \<Rightarrow> store_error + grant" where
  "getGrant i t =
     (case loadGrants (\<lambda>g. gr_id g = i) t of [] \<Rightarrow> Inl ErrGrantNotFound | g # _ \<Rightarrow> Inr g)"

definition ListActiveGrants :: "grant list store_op" where
  "ListActiveGrants st =
     map_err (wrap_any ''list active grants'')
       (inTx (\<lambda>t. Inr (loadGrants (\<lambda>g. gr_status g = StatusActive) t, t)) st)"

definition GetGrant :: "id \<Rightarrow> grant store_op" where
  "GetGrant i st =
     map_err (wrapGrantErr ''get grant'')
       (inTx (\<lambda>t. res_bind (getGrant i t) (\<lambda>g. Inr (g, t))) st)"

subsection \<open>Writing\<close>

text \<open>The overlap check: the row of an active grant for (child, service), if there is one.\<close>

definition overlapping :: "id \<Rightarrow> tables \<Rightarrow> string \<Rightarrow> id option" where
  "overlapping child t svc =
     map_option gs_grant
       (find (\<lambda>s. gs_child s = child \<and> gs_service s = svc \<and> gs_active s) (t_grant_services t))"

fun check_overlap :: "id \<Rightarrow> tables \<Rightarrow> string list \<Rightarrow> store_error + unit" where
  "check_overlap child t [] = Inr ()"
| "check_overlap child t (svc # svcs) =
     (case overlapping child t svc of
        Some existing \<Rightarrow> Inl (ErrGrantOverlap existing svc)
      | None \<Rightarrow> check_overlap child t svcs)"

definition insert_grant :: "id \<Rightarrow> time \<Rightarrow> time \<Rightarrow> tables \<Rightarrow> id \<times> tables" where
  "insert_grant child startedAt endsAt t =
     (let i = next_rowid (map gr_id (t_grants t))
      in (i, t\<lparr>t_grants := t_grants t @
               [\<lparr>gr_id = i, gr_child = child, gr_status = StatusActive,
                 gr_started = unix startedAt, gr_ends = unix endsAt, gr_ended = None\<rparr>]\<rparr>))"

text \<open>INSERT INTO grant_services: primary key, foreign key and the partial unique index.\<close>

definition insert_grant_service :: "id \<Rightarrow> id \<Rightarrow> string \<Rightarrow> tables \<Rightarrow> store_error + tables" where
  "insert_grant_service i child svc t =
     (if (i, svc) \<in> (\<lambda>s. (gs_grant s, gs_service s)) ` set (t_grant_services t) \<or>
         (child, svc) \<in> set (live_pairs t) \<or> i \<notin> gr_id ` set (t_grants t)
      then Inl sql_error
      else Inr (t\<lparr>t_grant_services := t_grant_services t @
             [\<lparr>gs_grant = i, gs_child = child, gs_service = svc, gs_active = True\<rparr>]\<rparr>))"

definition insert_grant_client :: "id \<Rightarrow> string \<Rightarrow> tables \<Rightarrow> store_error + tables" where
  "insert_grant_client i c t =
     (let r = \<lparr>gc_grant = i, gc_client = c\<rparr>
      in if r \<in> set (t_grant_clients t) \<or> i \<notin> gr_id ` set (t_grants t) then Inl sql_error
         else Inr (t\<lparr>t_grant_clients := t_grant_clients t @ [r]\<rparr>))"

definition create_grant_tx ::
  "id \<Rightarrow> string list \<Rightarrow> string list \<Rightarrow> time \<Rightarrow> time \<Rightarrow> tables \<Rightarrow> store_error + (grant \<times> tables)" where
  "create_grant_tx child services clients startedAt endsAt t =
     res_bind (check_overlap child t services) (\<lambda>_.
       let (i, t1) = insert_grant child startedAt endsAt t in
     res_bind (res_fold (insert_grant_service i child) services t1) (\<lambda>t2.
     res_bind (res_fold (insert_grant_client i) clients t2) (\<lambda>t3.
     res_bind (getGrant i t3) (\<lambda>g. Inr (g, t3)))))"

definition CreateGrant ::
  "id \<Rightarrow> string list \<Rightarrow> string list \<Rightarrow> time \<Rightarrow> time \<Rightarrow> grant store_op" where
  "CreateGrant child services clients startedAt endsAt st =
     map_err (wrapGrantErr ''create grant'')
       (inTx (create_grant_tx child (normaliseClients services) (normaliseClients clients)
                startedAt endsAt) st)"

definition set_ends :: "id \<Rightarrow> int \<Rightarrow> grant_row \<Rightarrow> grant_row" where
  "set_ends i e g = (if gr_id g = i \<and> gr_status g = StatusActive then g\<lparr>gr_ends := e\<rparr> else g)"

definition extend_grant_tx :: "id \<Rightarrow> time \<Rightarrow> tables \<Rightarrow> store_error + (grant \<times> tables)" where
  "extend_grant_tx i newEndsAt t =
     (if \<exists>g \<in> set (t_grants t). gr_id g = i \<and> gr_status g = StatusActive
      then let t1 = t\<lparr>t_grants := map (set_ends i (unix newEndsAt)) (t_grants t)\<rparr>
           in res_bind (getGrant i t1) (\<lambda>g. Inr (g, t1))
      else Inl ErrGrantNotFound)"

definition ExtendGrant :: "id \<Rightarrow> time \<Rightarrow> grant store_op" where
  "ExtendGrant i newEndsAt st =
     map_err (wrapGrantErr ''extend grant'') (inTx (extend_grant_tx i newEndsAt) st)"

definition set_status :: "id \<Rightarrow> grant_status \<Rightarrow> grant_status \<Rightarrow> int option \<Rightarrow> grant_row \<Rightarrow> grant_row" where
  "set_status i from_st to_st ended g =
     (if gr_id g = i \<and> gr_status g = from_st then g\<lparr>gr_status := to_st, gr_ended := ended\<rparr> else g)"

definition set_active :: "id \<Rightarrow> bool \<Rightarrow> grant_service_row \<Rightarrow> grant_service_row" where
  "set_active i a s = (if gs_grant s = i then s\<lparr>gs_active := a\<rparr> else s)"

definition set_grant_status_tx ::
  "id \<Rightarrow> grant_status \<Rightarrow> grant_status \<Rightarrow> time \<Rightarrow> tables \<Rightarrow> store_error + (bool \<times> tables)" where
  "set_grant_status_tx i from_st to_st at t =
     (let ended = (if to_st \<noteq> StatusActive then Some (unix at) else None)
      in if \<exists>g \<in> set (t_grants t). gr_id g = i \<and> gr_status g = from_st
         then let t1 = t\<lparr>t_grants := map (set_status i from_st to_st ended) (t_grants t),
                         t_grant_services :=
                           map (set_active i (to_st = StatusActive)) (t_grant_services t)\<rparr>
              in if distinct (live_pairs t1) then Inr (True, t1) else Inl sql_error
         else Inr (False, t))"

definition SetGrantStatus :: "id \<Rightarrow> grant_status \<Rightarrow> grant_status \<Rightarrow> time \<Rightarrow> bool store_op" where
  "SetGrantStatus i from_st to_st at st =
     map_err (wrap_any ''set grant status'') (inTx (set_grant_status_tx i from_st to_st at) st)"

section \<open>What reading returns\<close>

definition view_grant :: "tables \<Rightarrow> grant_row \<Rightarrow> grant" where
  "view_grant t g = (grant_of_row g)
     \<lparr>grant_services := sort (grant_services_of t (gr_id g)),
      grant_clients := sort (grant_clients_of t (gr_id g))\<rparr>"

lemma grant_of_row_simps [simp]:
  "grant_id (grant_of_row g) = gr_id g" "grant_services (grant_of_row g) = []"
  "grant_clients (grant_of_row g) = []"
  by (simp_all add: grant_of_row_def)

lemma grant_of_row_no_services [simp]:
  "(grant_of_row g)\<lparr>grant_services := []\<rparr> = grant_of_row g"
  by (simp add: grant_of_row_def)

lemma add_service_notin: "i \<notin> grant_id ` set out \<Longrightarrow> add_service i s out = out"
  by (induction out) (auto simp: add_service_def)

lemma add_client_notin: "i \<notin> grant_id ` set out \<Longrightarrow> add_client i c out = out"
  by (induction out) (auto simp: add_client_def)

lemma add_service_append: "add_service i s (xs @ ys) = add_service i s xs @ add_service i s ys"
  by (simp add: add_service_def)

lemma add_client_append: "add_client i s (xs @ ys) = add_client i s xs @ add_client i s ys"
  by (simp add: add_client_def)

lemma scan_same_grant:
  "grant_id v = gr_id g \<Longrightarrow> gr_id g \<notin> grant_id ` set out \<Longrightarrow>
     scan_services (out @ [v]) (map (\<lambda>s. (g, Some s)) ss @ rows) =
     scan_services (out @ [v\<lparr>grant_services := grant_services v @ ss\<rparr>]) rows"
proof (induction ss arbitrary: v)
  case Nil
  then show ?case by simp
next
  case (Cons s ss)
  have "add_service (gr_id g) s (out @ [v]) = out @ [v\<lparr>grant_services := grant_services v @ [s]\<rparr>]"
    using Cons.prems by (simp add: add_service_append add_service_notin) (simp add: add_service_def)
  then show ?case
    using Cons.IH [of "v\<lparr>grant_services := grant_services v @ [s]\<rparr>"] Cons.prems
    by (simp add: Let_def)
qed

lemma scan_grant_service_rows:
  assumes "gr_id g \<notin> grant_id ` set out"
  shows "scan_services out (grant_service_rows t g @ rows) =
    scan_services (out @ [(grant_of_row g)\<lparr>grant_services := sort (grant_services_of t (gr_id g))\<rparr>]) rows"
proof (cases "sort (grant_services_of t (gr_id g))")
  case Nil
  with assms show ?thesis by (simp add: grant_service_rows_def Let_def)
next
  case (Cons s ss)
  have "scan_services out ((g, Some s) # map (\<lambda>s. (g, Some s)) ss @ rows) =
      scan_services (out @ [(grant_of_row g)\<lparr>grant_services := [s]\<rparr>]) (map (\<lambda>s. (g, Some s)) ss @ rows)"
    using assms by (simp add: Let_def add_service_append add_service_notin) (simp add: add_service_def)
  with Cons assms show ?thesis
    by (simp add: grant_service_rows_def scan_same_grant)
qed

lemma scan_concat_services:
  "distinct (map gr_id gs) \<Longrightarrow> gr_id ` set gs \<inter> grant_id ` set out = {} \<Longrightarrow>
     scan_services out (concat (map (grant_service_rows t) gs)) =
     out @ map (\<lambda>g. (grant_of_row g)\<lparr>grant_services := sort (grant_services_of t (gr_id g))\<rparr>) gs"
proof (induction gs arbitrary: out)
  case Nil
  then show ?case by simp
next
  case (Cons g gs)
  then have "gr_id ` set gs \<inter> grant_id ` set (out @
      [(grant_of_row g)\<lparr>grant_services := sort (grant_services_of t (gr_id g))\<rparr>]) = {}" by auto
  with Cons show ?case by (simp add: scan_grant_service_rows)
qed

lemma scan_clients_eq:
  "scan_clients out rows =
     map (\<lambda>g. g\<lparr>grant_clients := grant_clients g @ map snd (filter (\<lambda>r. fst r = grant_id g) rows)\<rparr>) out"
  by (induction out rows rule: scan_clients.induct) (auto simp: add_client_def)

lemma filter_client_rows:
  "distinct (map gr_id gs) \<Longrightarrow> g \<in> set gs \<Longrightarrow>
     filter (\<lambda>r. fst r = gr_id g) (concat (map (\<lambda>g. map (\<lambda>c. (gr_id g, c)) (f g)) gs)) =
     map (\<lambda>c. (gr_id g, c)) (f g)"
proof (induction gs)
  case Nil
  then show ?case by simp
next
  case (Cons g1 gs)
  have none: "gr_id g \<notin> gr_id ` set hs \<Longrightarrow>
      filter (\<lambda>r. fst r = gr_id g) (concat (map (\<lambda>g. map (\<lambda>c. (gr_id g, c)) (f g)) hs)) = []" for hs
    by (auto simp: filter_empty_conv image_iff)
  show ?case
  proof (cases "g = g1")
    case True
    with Cons.prems none [of gs] show ?thesis by (simp add: filter_map comp_def)
  next
    case False
    with Cons.prems have "gr_id g1 \<noteq> gr_id g" by (auto simp: image_iff)
    with False Cons show ?thesis by (auto simp: filter_map comp_def)
  qed
qed

text \<open>\<open>loadGrants\<close> folds its two result sets into the matching grants, by id.\<close>

lemma loadGrants_eq:
  assumes "distinct (map gr_id (t_grants t))"
  shows "loadGrants p t = map (view_grant t) (sort_key gr_id (filter p (t_grants t)))"
proof -
  let ?gs = "sort_key gr_id (filter p (t_grants t))"
  have ids: "distinct (map gr_id ?gs)" using assms by (simp add: distinct_map inj_on_def)
  have out: "scan_services [] (grantQuery p t) =
      map (\<lambda>g. (grant_of_row g)\<lparr>grant_services := sort (grant_services_of t (gr_id g))\<rparr>) ?gs"
    using scan_concat_services [OF ids, of "[]"] by (simp add: grantQuery_def)
  have "scan_clients (scan_services [] (grantQuery p t)) (grantClientQuery p t) = map (view_grant t) ?gs"
    unfolding out scan_clients_eq grantClientQuery_def
    using filter_client_rows [OF ids, where f = "\<lambda>g. sort (grant_clients_of t (gr_id g))"]
    by (simp add: view_grant_def comp_def)
  then show ?thesis by (simp add: loadGrants_def out Let_def)
qed

lemma view_grant_simps [simp]:
  "grant_id (view_grant t g) = gr_id g" "grant_child (view_grant t g) = gr_child g"
  "grant_status (view_grant t g) = gr_status g" "ends_at (view_grant t g) = of_unix (gr_ends g)"
  "started_at (view_grant t g) = of_unix (gr_started g)"
  "grant_services (view_grant t g) = sort (grant_services_of t (gr_id g))"
  "grant_clients (view_grant t g) = sort (grant_clients_of t (gr_id g))"
  by (simp_all add: view_grant_def grant_of_row_def)

lemma getGrant_Inr:
  assumes "distinct (map gr_id (t_grants t))"
  shows "getGrant i t = Inr g \<longleftrightarrow> (\<exists>r \<in> set (t_grants t). gr_id r = i \<and> g = view_grant t r)"
proof (cases "\<exists>r \<in> set (t_grants t). gr_id r = i")
  case True
  then obtain r where r: "r \<in> set (t_grants t)" "i = gr_id r" by auto
  with assms have "filter (\<lambda>y. gr_id y = i) (t_grants t) = [r]"
    by (simp add: filter_unique_key)
  then have "getGrant i t = Inr (view_grant t r)"
    using assms by (simp add: getGrant_def loadGrants_eq)
  moreover have "\<And>r'. r' \<in> set (t_grants t) \<Longrightarrow> gr_id r' = i \<Longrightarrow> r' = r"
    using assms r by (simp add: distinct_map inj_on_def)
  ultimately show ?thesis using r by (metis sum.inject(2))
next
  case False
  then have "filter (\<lambda>y. gr_id y = i) (t_grants t) = []" by (simp add: filter_empty_conv)
  then have "getGrant i t = Inl ErrGrantNotFound"
    using assms by (simp add: getGrant_def loadGrants_eq)
  then show ?thesis using False by auto
qed

lemma getGrant_Inl:
  assumes "distinct (map gr_id (t_grants t))"
  shows "getGrant i t = Inl e \<longleftrightarrow> e = ErrGrantNotFound \<and> i \<notin> gr_id ` set (t_grants t)"
proof (cases "getGrant i t")
  case (Inl e')
  then have "e' = ErrGrantNotFound" by (simp add: getGrant_def split: list.splits)
  with Inl assms getGrant_Inr [OF assms, of i] show ?thesis by auto
next
  case (Inr c)
  with getGrant_Inr [OF assms, of i c] show ?thesis by auto
qed

section \<open>What writing does to the tables\<close>

lemma overlapping_None:
  "overlapping child t svc = None \<longleftrightarrow> (child, svc) \<notin> set (live_pairs t)"
  by (auto simp: overlapping_def live_pairs_def find_None_iff)

lemma check_overlap_Inr:
  "check_overlap child t svcs = Inr u \<longleftrightarrow> (\<forall>s \<in> set svcs. (child, s) \<notin> set (live_pairs t))"
proof (induction svcs)
  case (Cons s svcs)
  then show ?case by (cases "overlapping child t s") (use overlapping_None [of child t s] in auto)
qed simp

lemma check_overlap_Inl:
  "check_overlap child t svcs = Inl e \<Longrightarrow>
     \<exists>r \<in> set (t_grant_services t). gs_active r \<and> gs_child r = child \<and> gs_service r \<in> set svcs \<and>
       e = ErrGrantOverlap (gs_grant r) (gs_service r)"
proof (induction svcs)
  case (Cons s svcs)
  show ?case
  proof (cases "overlapping child t s")
    case (Some i)
    then obtain r where "find (\<lambda>r. gs_child r = child \<and> gs_service r = s \<and> gs_active r)
        (t_grant_services t) = Some r" "i = gs_grant r"
      by (auto simp: overlapping_def)
    then have "r \<in> set (t_grant_services t) \<and> gs_child r = child \<and> gs_service r = s \<and> gs_active r"
      by (auto simp: find_Some_iff)
    with Some Cons.prems \<open>i = gs_grant r\<close> show ?thesis by auto
  qed (use Cons in auto)
qed simp

definition new_grant_id :: "tables \<Rightarrow> id" where
  "new_grant_id t = next_rowid (map gr_id (t_grants t))"

definition after_grant ::
  "id \<Rightarrow> string list \<Rightarrow> string list \<Rightarrow> time \<Rightarrow> time \<Rightarrow> tables \<Rightarrow> tables" where
  "after_grant child services clients startedAt endsAt t =
     t\<lparr>t_grants := t_grants t @
         [\<lparr>gr_id = new_grant_id t, gr_child = child, gr_status = StatusActive,
           gr_started = unix startedAt, gr_ends = unix endsAt, gr_ended = None\<rparr>],
       t_grant_services := t_grant_services t @
         map (\<lambda>s. \<lparr>gs_grant = new_grant_id t, gs_child = child, gs_service = s, gs_active = True\<rparr>) services,
       t_grant_clients := t_grant_clients t @
         map (\<lambda>c. \<lparr>gc_grant = new_grant_id t, gc_client = c\<rparr>) clients\<rparr>"

lemma new_grant_id_fresh: "new_grant_id t \<notin> gr_id ` set (t_grants t)"
  using next_rowid_fresh [of "map gr_id (t_grants t)"] by (simp add: new_grant_id_def)

lemma new_grant_id_pos: "wf_grants t \<Longrightarrow> 0 < new_grant_id t"
  unfolding new_grant_id_def by (rule next_rowid_pos) (simp add: wf_grants_def)

lemma insert_services_eq:
  "i \<in> gr_id ` set (t_grants t) \<Longrightarrow> distinct ss \<Longrightarrow>
   \<forall>s \<in> set ss. (i, s) \<notin> (\<lambda>r. (gs_grant r, gs_service r)) ` set (t_grant_services t) \<Longrightarrow>
   \<forall>s \<in> set ss. (child, s) \<notin> set (live_pairs t) \<Longrightarrow>
     res_fold (insert_grant_service i child) ss t =
       Inr (t\<lparr>t_grant_services := t_grant_services t @
         map (\<lambda>s. \<lparr>gs_grant = i, gs_child = child, gs_service = s, gs_active = True\<rparr>) ss\<rparr>)"
proof (induction ss arbitrary: t)
  case Nil
  then show ?case by simp
next
  case (Cons a ss)
  define t1 where "t1 = t\<lparr>t_grant_services := t_grant_services t @
      [\<lparr>gs_grant = i, gs_child = child, gs_service = a, gs_active = True\<rparr>]\<rparr>"
  have "insert_grant_service i child a t = Inr t1"
    using Cons.prems by (simp add: insert_grant_service_def t1_def)
  moreover have "res_fold (insert_grant_service i child) ss t1 = Inr (t1\<lparr>t_grant_services :=
      t_grant_services t1 @
      map (\<lambda>s. \<lparr>gs_grant = i, gs_child = child, gs_service = s, gs_active = True\<rparr>) ss\<rparr>)"
    using Cons.prems by (intro Cons.IH) (auto simp: t1_def live_pairs_def)
  ultimately show ?case by (simp add: t1_def)
qed

lemma insert_grant_clients_eq:
  "i \<in> gr_id ` set (t_grants t) \<Longrightarrow> distinct cs \<Longrightarrow>
   \<forall>c \<in> set cs. \<lparr>gc_grant = i, gc_client = c\<rparr> \<notin> set (t_grant_clients t) \<Longrightarrow>
     res_fold (insert_grant_client i) cs t =
       Inr (t\<lparr>t_grant_clients := t_grant_clients t @ map (\<lambda>c. \<lparr>gc_grant = i, gc_client = c\<rparr>) cs\<rparr>)"
proof (induction cs arbitrary: t)
  case Nil
  then show ?case by simp
next
  case (Cons a cs)
  define t1 where "t1 = t\<lparr>t_grant_clients := t_grant_clients t @ [\<lparr>gc_grant = i, gc_client = a\<rparr>]\<rparr>"
  have "insert_grant_client i a t = Inr t1"
    using Cons.prems by (simp add: insert_grant_client_def t1_def)
  moreover have "res_fold (insert_grant_client i) cs t1 = Inr (t1\<lparr>t_grant_clients :=
      t_grant_clients t1 @ map (\<lambda>c. \<lparr>gc_grant = i, gc_client = c\<rparr>) cs\<rparr>)"
    using Cons.prems by (intro Cons.IH) (auto simp: t1_def)
  ultimately show ?case by (simp add: t1_def)
qed

lemma no_rows_of_new_grant:
  assumes "wf_grants t"
  shows "\<forall>r \<in> set (t_grant_services t). gs_grant r \<noteq> new_grant_id t"
    "\<forall>r \<in> set (t_grant_clients t). gc_grant r \<noteq> new_grant_id t"
  using assms new_grant_id_fresh [of t] unfolding wf_grants_def service_matches_def by force+

lemma wf_after_grant:
  assumes wf: "wf_grants t" and ss: "distinct ss" and cs: "distinct cs"
    and free: "\<forall>s \<in> set ss. (child, s) \<notin> set (live_pairs t)"
  shows "wf_grants (after_grant child ss cs a b t)"
proof -
  let ?i = "new_grant_id t"
  let ?new = "map (\<lambda>s. \<lparr>gs_grant = ?i, gs_child = child, gs_service = s, gs_active = True\<rparr>) ss"
  note none = no_rows_of_new_grant [OF wf] and fresh = new_grant_id_fresh [of t]
  have "distinct (map (\<lambda>s. (gs_grant s, gs_service s)) (t_grant_services t @ ?new))"
    using wf ss none(1) unfolding wf_grants_def by (auto simp: distinct_map inj_on_def comp_def)
  moreover have "live_pairs (after_grant child ss cs a b t) = live_pairs t @ map (Pair child) ss"
    by (simp add: live_pairs_def after_grant_def filter_map comp_def)
  moreover have "distinct (live_pairs t @ map (Pair child) ss)"
    using wf ss free by (auto simp: wf_grants_def distinct_map inj_on_def)
  moreover have "distinct (t_grant_clients t @ map (\<lambda>c. \<lparr>gc_grant = ?i, gc_client = c\<rparr>) cs)"
    using wf cs none(2) by (auto simp: wf_grants_def distinct_map inj_on_def)
  moreover have "\<exists>g \<in> set (t_grants (after_grant child ss cs a b t)). service_matches g s"
    if "s \<in> set (t_grant_services t @ ?new)" for s
    using that wf by (auto simp: wf_grants_def after_grant_def service_matches_def)
  ultimately show ?thesis
    using wf fresh new_grant_id_pos [OF wf]
    by (auto simp: wf_grants_def after_grant_def)
qed

lemma create_grant_tx_eq:
  assumes wf: "wf_grants t" and ss: "distinct ss" and cs: "distinct cs"
  shows "create_grant_tx child ss cs a b t =
    (case check_overlap child t ss of
       Inl e \<Rightarrow> Inl e
     | Inr _ \<Rightarrow> Inr (\<lparr>grant_id = new_grant_id t, grant_child = child, grant_status = StatusActive,
           grant_services = sort ss, grant_clients = sort cs,
           started_at = of_unix (unix a), ends_at = of_unix (unix b)\<rparr>,
         after_grant child ss cs a b t))"
proof (cases "check_overlap child t ss")
  case (Inl e)
  then show ?thesis by (simp add: create_grant_tx_def)
next
  case (Inr u)
  then have free: "\<forall>s \<in> set ss. (child, s) \<notin> set (live_pairs t)"
    by (simp add: check_overlap_Inr)
  let ?i = "new_grant_id t" and ?t = "after_grant child ss cs a b t"
  note none = no_rows_of_new_grant [OF wf]
  define t1 where "t1 = t\<lparr>t_grants := t_grants t @
    [\<lparr>gr_id = ?i, gr_child = child, gr_status = StatusActive,
      gr_started = unix a, gr_ends = unix b, gr_ended = None\<rparr>]\<rparr>"
  have t1: "insert_grant child a b t = (?i, t1)"
    by (simp add: insert_grant_def t1_def new_grant_id_def Let_def)
  define t2 where "t2 = t1\<lparr>t_grant_services := t_grant_services t1 @
    map (\<lambda>s. \<lparr>gs_grant = ?i, gs_child = child, gs_service = s, gs_active = True\<rparr>) ss\<rparr>"
  have services: "res_fold (insert_grant_service ?i child) ss t1 = Inr t2"
    unfolding t2_def using ss free none(1)
    by (intro insert_services_eq)
       (auto simp: t1_def live_pairs_def)
  have clients: "res_fold (insert_grant_client ?i) cs t2 = Inr ?t"
    using cs none(2)
    by (subst insert_grant_clients_eq)
       (auto simp: t2_def t1_def after_grant_def)
  have get: "getGrant ?i ?t = Inr \<lparr>grant_id = ?i, grant_child = child, grant_status = StatusActive,
      grant_services = sort ss, grant_clients = sort cs,
      started_at = of_unix (unix a), ends_at = of_unix (unix b)\<rparr>"
    using wf_after_grant [OF wf ss cs free] none
    by (subst getGrant_Inr)
       (auto simp: wf_grants_def after_grant_def view_grant_def grant_of_row_def
          grant_services_of_def grant_clients_of_def map_filter_all filter_map comp_def)
  from Inr t1 services clients get show ?thesis by (simp add: create_grant_tx_def)
qed

section \<open>The grants as an abstract map\<close>

definition abs_grants :: "tables \<Rightarrow> id \<Rightarrow> grant option" where
  "abs_grants t i = map_option (view_grant t) (find (\<lambda>g. gr_id g = i) (t_grants t))"

text \<open>The active grants, as \<open>ListActiveGrants\<close> returns them.\<close>

definition active_list :: "tables \<Rightarrow> grant list" where
  "active_list t = loadGrants (\<lambda>g. gr_status g = StatusActive) t"

lemma find_grant:
  "distinct (map gr_id rs) \<Longrightarrow>
     find (\<lambda>r. gr_id r = i) rs = Some r \<longleftrightarrow> r \<in> set rs \<and> gr_id r = i"
  for rs :: "grant_row list"
  by (induction rs) auto

lemma find_grant_None: "find (\<lambda>r. gr_id r = i) rs = None \<longleftrightarrow> i \<notin> gr_id ` set rs"
  for rs :: "grant_row list"
  by (induction rs) auto

lemma find_grant_map:
  "(\<And>r. gr_id (f r) = gr_id r) \<Longrightarrow>
     find (\<lambda>r. gr_id r = i) (map f rs) = map_option f (find (\<lambda>r. gr_id r = i) rs)"
  for rs :: "grant_row list"
  by (induction rs) auto

lemma abs_grants_Some:
  assumes "wf_grants t"
  shows "abs_grants t i = Some g \<longleftrightarrow> (\<exists>r \<in> set (t_grants t). gr_id r = i \<and> g = view_grant t r)"
  using assms find_grant [of "t_grants t" i] by (auto simp: abs_grants_def wf_grants_def)

lemma abs_grants_None: "abs_grants t i = None \<longleftrightarrow> i \<notin> gr_id ` set (t_grants t)"
  by (simp add: abs_grants_def find_grant_None)

lemma abs_grants_id: "abs_grants t i = Some g \<Longrightarrow> grant_id g = i"
  unfolding abs_grants_def by (auto simp: find_Some_iff)

lemma getGrant_abs:
  assumes "wf_grants t"
  shows "getGrant i t = (case abs_grants t i of None \<Rightarrow> Inl ErrGrantNotFound | Some g \<Rightarrow> Inr g)"
proof (cases "abs_grants t i")
  case None
  then have "getGrant i t = Inl ErrGrantNotFound"
    using assms getGrant_Inl [of t i ErrGrantNotFound] by (simp add: abs_grants_None wf_grants_def)
  with None show ?thesis by simp
next
  case (Some g)
  then show ?thesis
    using assms getGrant_Inr [of t i g] abs_grants_Some [OF assms, of i g]
    by (simp add: wf_grants_def)
qed

lemma set_active_list:
  assumes "wf_grants t"
  shows "g \<in> set (active_list t) \<longleftrightarrow>
    abs_grants t (grant_id g) = Some g \<and> grant_status g = StatusActive"
proof -
  have ids: "distinct (map gr_id (t_grants t))" using assms by (simp add: wf_grants_def)
  have "g \<in> set (active_list t) \<longleftrightarrow>
      (\<exists>r \<in> set (t_grants t). gr_status r = StatusActive \<and> g = view_grant t r)"
    by (auto simp: active_list_def loadGrants_eq [OF ids])
  also have "\<dots> \<longleftrightarrow> abs_grants t (grant_id g) = Some g \<and> grant_status g = StatusActive"
    unfolding abs_grants_Some [OF assms] by auto
  finally show ?thesis .
qed

lemma active_list_ids:
  assumes "wf_grants t"
  shows "distinct (map grant_id (active_list t))" "sorted (map grant_id (active_list t))"
proof -
  let ?gs = "sort_key gr_id (filter (\<lambda>g. gr_status g = StatusActive) (t_grants t))"
  have eq: "map grant_id (active_list t) = map gr_id ?gs"
    using assms by (simp add: active_list_def loadGrants_eq wf_grants_def comp_def)
  show "sorted (map grant_id (active_list t))" unfolding eq by simp
  have "distinct (map gr_id ?gs)"
    using assms by (simp add: wf_grants_def distinct_map inj_on_def)
  then show "distinct (map grant_id (active_list t))" unfolding eq .
qed

lemma set_ends_simps [simp]:
  "gr_id (set_ends i e g) = gr_id g" "gr_child (set_ends i e g) = gr_child g"
  "gr_status (set_ends i e g) = gr_status g" "gr_started (set_ends i e g) = gr_started g"
  "gr_ends (set_ends i e g) = (if gr_id g = i \<and> gr_status g = StatusActive then e else gr_ends g)"
  by (simp_all add: set_ends_def)

lemma set_status_simps [simp]:
  "gr_id (set_status i a b e g) = gr_id g" "gr_child (set_status i a b e g) = gr_child g"
  "gr_status (set_status i a b e g) = (if gr_id g = i \<and> gr_status g = a then b else gr_status g)"
  "gr_started (set_status i a b e g) = gr_started g" "gr_ends (set_status i a b e g) = gr_ends g"
  by (simp_all add: set_status_def)

lemma set_active_simps [simp]:
  "gs_grant (set_active i a s) = gs_grant s" "gs_child (set_active i a s) = gs_child s"
  "gs_service (set_active i a s) = gs_service s"
  "gs_active (set_active i a s) = (if gs_grant s = i then a else gs_active s)"
  by (simp_all add: set_active_def)

lemma comp_id_simps [simp]:
  "gr_id \<circ> set_ends i e = gr_id" "gr_id \<circ> set_status i a b e' = gr_id"
  by (simp_all add: comp_def)

lemma wf_after_extend:
  assumes "wf_grants t"
  shows "wf_grants (t\<lparr>t_grants := map (set_ends i e) (t_grants t)\<rparr>)"
proof -
  have "\<exists>g \<in> set (map (set_ends i e) (t_grants t)). service_matches g s"
    if "\<exists>g \<in> set (t_grants t). service_matches g s" for s
    using that by (auto simp: service_matches_def)
  then show ?thesis
    using assms by (simp add: wf_grants_def live_pairs_def image_image)
qed

lemma abs_after_extend:
  assumes "abs_grants t i = Some g" "grant_status g = StatusActive"
  shows "abs_grants (t\<lparr>t_grants := map (set_ends i e) (t_grants t)\<rparr>) =
    (abs_grants t)(i \<mapsto> g\<lparr>ends_at := of_unix e\<rparr>)"
proof
  fix j
  have same: "view_grant (t\<lparr>t_grants := gs\<rparr>) r = view_grant t r" for gs r
    by (simp add: view_grant_def grant_services_of_def grant_clients_of_def)
  obtain r where r: "find (\<lambda>g. gr_id g = i) (t_grants t) = Some r" "g = view_grant t r" "gr_id r = i"
    using assms(1) by (auto simp: abs_grants_def find_Some_iff)
  have "view_grant t (set_ends i e r) = g\<lparr>ends_at := of_unix e\<rparr>"
    using r assms(2) by (simp add: view_grant_def grant_of_row_def)
  moreover have "find (\<lambda>g. gr_id g = j) (t_grants t) = Some r' \<Longrightarrow> j \<noteq> i \<Longrightarrow> set_ends i e r' = r'" for r'
    by (auto simp: find_Some_iff set_ends_def)
  ultimately show "abs_grants (t\<lparr>t_grants := map (set_ends i e) (t_grants t)\<rparr>) j =
      ((abs_grants t)(i \<mapsto> g\<lparr>ends_at := of_unix e\<rparr>)) j"
    using r by (cases "find (\<lambda>g. gr_id g = j) (t_grants t)") (auto simp: abs_grants_def same find_grant_map)
qed

text \<open>The tables after a status change, and what the change is on the abstract map.\<close>

definition after_status ::
  "id \<Rightarrow> grant_status \<Rightarrow> grant_status \<Rightarrow> int option \<Rightarrow> tables \<Rightarrow> tables" where
  "after_status i a b e t =
     t\<lparr>t_grants := map (set_status i a b e) (t_grants t),
       t_grant_services := map (set_active i (b = StatusActive)) (t_grant_services t)\<rparr>"

lemma wf_after_status:
  assumes wf: "wf_grants t" and ex: "g0 \<in> set (t_grants t)" "gr_id g0 = i" "gr_status g0 = a"
    and live: "distinct (live_pairs (after_status i a b e t))"
  shows "wf_grants (after_status i a b e t)"
proof -
  have "\<exists>g \<in> set (map (set_status i a b e) (t_grants t)). service_matches g (set_active i (b = StatusActive) s)"
    if "s \<in> set (t_grant_services t)" for s
  proof -
    obtain g where g: "g \<in> set (t_grants t)" "service_matches g s"
      using wf \<open>s \<in> _\<close> by (auto simp: wf_grants_def)
    have "gr_id g = i \<Longrightarrow> g = g0"
      using wf g(1) ex(1,2) by (auto simp: wf_grants_def distinct_map dest: inj_onD)
    with g(2) ex(3) have "service_matches (set_status i a b e g) (set_active i (b = StatusActive) s)"
      by (cases "gr_id g = i") (auto simp: service_matches_def)
    with g(1) show ?thesis by auto
  qed
  then show ?thesis
    using wf live by (simp add: wf_grants_def after_status_def image_image comp_def)
qed

lemma live_set_inactive:
  "map (\<lambda>s. (gs_child s, gs_service s)) (filter gs_active (map (set_active i False) ss)) =
     map (\<lambda>s. (gs_child s, gs_service s)) (filter (\<lambda>s. gs_grant s \<noteq> i) (filter gs_active ss))"
  for ss :: "grant_service_row list"
  by (induction ss) auto

lemma live_pairs_deactivate:
  assumes "wf_grants t" "b \<noteq> StatusActive"
  shows "distinct (live_pairs (after_status i a b e t))"
proof -
  have b: "(b = StatusActive) = False" using assms(2) by simp
  have "t_grant_services (after_status i a b e t) = map (set_active i False) (t_grant_services t)"
    unfolding after_status_def b by simp
  then have "live_pairs (after_status i a b e t) =
      map (\<lambda>s. (gs_child s, gs_service s)) (filter (\<lambda>s. gs_grant s \<noteq> i) (filter gs_active (t_grant_services t)))"
    unfolding live_pairs_def by (simp only: live_set_inactive)
  moreover have "distinct (map (\<lambda>s. (gs_child s, gs_service s)) (filter gs_active (t_grant_services t)))"
    using assms(1) unfolding wf_grants_def live_pairs_def by blast
  ultimately show ?thesis by (simp only: distinct_map_filter)
qed

lemma set_grant_status_tx_eq:
  assumes wf: "wf_grants t" and "b \<noteq> StatusActive"
  shows "set_grant_status_tx i a b at t =
    (case abs_grants t i of
       Some g \<Rightarrow> if grant_status g = a then Inr (True, after_status i a b (Some (unix at)) t)
                 else Inr (False, t)
     | None \<Rightarrow> Inr (False, t))"
proof -
  have "(\<exists>g \<in> set (t_grants t). gr_id g = i \<and> gr_status g = a) \<longleftrightarrow>
      (\<exists>g. abs_grants t i = Some g \<and> grant_status g = a)"
    using abs_grants_Some [OF wf, of i] by auto
  moreover have "distinct (live_pairs (after_status i a b (Some (unix at)) t))"
    using assms by (rule live_pairs_deactivate)
  ultimately show ?thesis
    using assms(2)
    by (auto simp: set_grant_status_tx_def Let_def after_status_def split: option.splits)
qed

lemma abs_after_status:
  assumes "abs_grants t i = Some g" "grant_status g = a"
  shows "abs_grants (after_status i a b e t) = (abs_grants t)(i \<mapsto> g\<lparr>grant_status := b\<rparr>)"
proof
  fix j
  have "grant_services_of (after_status i a b e t) k = grant_services_of t k" for k
    by (simp add: grant_services_of_def after_status_def filter_map comp_def)
  then have same: "view_grant (after_status i a b e t) r = view_grant t r" for r
    by (simp add: view_grant_def grant_clients_of_def after_status_def)
  obtain r where r: "find (\<lambda>g. gr_id g = i) (t_grants t) = Some r" "g = view_grant t r" "gr_id r = i"
    using assms(1) by (auto simp: abs_grants_def find_Some_iff)
  have "view_grant t (set_status i a b e r) = g\<lparr>grant_status := b\<rparr>"
    using r assms(2) by (simp add: view_grant_def grant_of_row_def)
  moreover have "find (\<lambda>g. gr_id g = j) (t_grants t) = Some r' \<Longrightarrow> j \<noteq> i \<Longrightarrow> set_status i a b e r' = r'" for r'
    by (auto simp: find_Some_iff set_status_def)
  moreover have "t_grants (after_status i a b e t) = map (set_status i a b e) (t_grants t)"
    by (simp add: after_status_def)
  ultimately show "abs_grants (after_status i a b e t) j = ((abs_grants t)(i \<mapsto> g\<lparr>grant_status := b\<rparr>)) j"
    using r by (cases "find (\<lambda>g. gr_id g = j) (t_grants t)") (auto simp: abs_grants_def same find_grant_map)
qed

lemma abs_after_grant:
  assumes wf: "wf_grants t"
  shows "abs_grants (after_grant child ss cs a b t) = (abs_grants t)(new_grant_id t \<mapsto>
    \<lparr>grant_id = new_grant_id t, grant_child = child, grant_status = StatusActive,
     grant_services = sort ss, grant_clients = sort cs,
     started_at = of_unix (unix a), ends_at = of_unix (unix b)\<rparr>)"
proof
  fix j
  let ?t = "after_grant child ss cs a b t" and ?i = "new_grant_id t"
  note none = no_rows_of_new_grant [OF wf]
  have lists: "grant_services_of ?t k = (if k = ?i then ss else grant_services_of t k)"
    "grant_clients_of ?t k = (if k = ?i then cs else grant_clients_of t k)" for k
    using none by (auto simp: grant_services_of_def grant_clients_of_def after_grant_def
        map_filter_all filter_map comp_def)
  have old: "find (\<lambda>g. gr_id g = ?i) (t_grants t) = None"
    using new_grant_id_fresh [of t] by (simp add: find_grant_None)
  have same: "find (\<lambda>g. gr_id g = j) (t_grants t) = Some r \<Longrightarrow> j \<noteq> ?i \<Longrightarrow> view_grant ?t r = view_grant t r" for r
    by (auto simp: view_grant_def lists find_Some_iff)
  show "abs_grants ?t j = ((abs_grants t)(?i \<mapsto>
    \<lparr>grant_id = ?i, grant_child = child, grant_status = StatusActive,
     grant_services = sort ss, grant_clients = sort cs,
     started_at = of_unix (unix a), ends_at = of_unix (unix b)\<rparr>)) j"
  proof (cases "j = ?i")
    case True
    with old show ?thesis
      by (simp add: abs_grants_def after_grant_def find_child_append)
         (simp add: view_grant_def grant_of_row_def lists [unfolded after_grant_def])
  next
    case False
    then show ?thesis
      using same by (cases "find (\<lambda>g. gr_id g = j) (t_grants t)")
        (auto simp: abs_grants_def find_child_append after_grant_def)
  qed
qed

end
