(* ===== verification/StoreButtons.thy ===== *)
theory StoreButtons
  imports StoreDb StoreChildren "HOL-Library.Signed_Division"
begin

text \<open>
  internal/store/buttons.go: the preset buttons, replaced as a whole list. A button's id is
  drawn from the AUTOINCREMENT sequence of the table, its position is its index in the list,
  and its duration is stored in whole seconds (Go's truncating division).
\<close>

section \<open>Model\<close>

record button =
  button_id :: id
  button_child :: id
  button_label :: string
  button_services :: "string list"
  button_icon :: string
  button_duration :: duration

fun dedup_keep :: "string list \<Rightarrow> string list \<Rightarrow> string list" where
  "dedup_keep seen [] = []"
| "dedup_keep seen (s # ss) =
     (if s \<in> set seen then dedup_keep seen ss else s # dedup_keep (s # seen) ss)"

definition dedupKeepOrder :: "string list \<Rightarrow> string list" where
  "dedupKeepOrder xs = dedup_keep [] xs"

subsection \<open>Reading\<close>

definition button_of_row :: "button_row \<Rightarrow> button" where
  "button_of_row r = \<lparr>button_id = bt_id r, button_child = bt_child r, button_label = bt_label r,
     button_services = [], button_icon = (case bt_icon r of None \<Rightarrow> [] | Some i \<Rightarrow> i),
     button_duration = i64 (bt_duration r * second)\<rparr>"

definition add_button_service :: "id \<Rightarrow> string \<Rightarrow> button list \<Rightarrow> button list" where
  "add_button_service i s out =
     map (\<lambda>b. if button_id b = i then b\<lparr>button_services := button_services b @ [s]\<rparr> else b) out"

fun scan_button_services :: "button list \<Rightarrow> (id \<times> string) list \<Rightarrow> button list" where
  "scan_button_services out [] = out"
| "scan_button_services out ((i, s) # rows) = scan_button_services (add_button_service i s out) rows"

definition buttonServiceQuery :: "tables \<Rightarrow> (id \<times> string) list" where
  "buttonServiceQuery t =
     map (\<lambda>s. (bs_button s, bs_service s))
       (sort_key bs_button (sort_key bs_position (t_button_services t)))"

definition loadButtons :: "tables \<Rightarrow> button list" where
  "loadButtons t =
     (let out = map button_of_row (sort_key bt_position (t_buttons t))
      in if out = [] then out else scan_button_services out (buttonServiceQuery t))"

definition ListButtons :: "button list store_op" where
  "ListButtons st = map_err (wrap_any ''list buttons'') (inTx (\<lambda>t. Inr (loadButtons t, t)) st)"

subsection \<open>Writing\<close>

text \<open>
  INSERT INTO buttons: UNIQUE position, CHECK (duration > 0), the foreign key, and the id
  AUTOINCREMENT gives: one more than any the table has ever held.
\<close>

definition insert_button :: "int \<Rightarrow> button \<Rightarrow> tables \<Rightarrow> store_error + (id \<times> tables)" where
  "insert_button pos b t =
     (let secs = button_duration b sdiv second; i = t_button_seq t + 1
      in if pos \<in> bt_position ` set (t_buttons t) \<or> \<not> 0 < secs \<or>
            button_child b \<notin> ch_id ` set (t_children t)
         then Inl sql_error
         else Inr (i, t\<lparr>t_buttons := t_buttons t @
                  [\<lparr>bt_id = i, bt_position = pos, bt_label = button_label b, bt_child = button_child b,
                    bt_icon = (if button_icon b = [] then None else Some (button_icon b)),
                    bt_duration = secs\<rparr>],
                t_button_seq := i\<rparr>))"

definition insert_button_service :: "id \<Rightarrow> nat \<times> string \<Rightarrow> tables \<Rightarrow> store_error + tables" where
  "insert_button_service i js t =
     (if (i, snd js) \<in> (\<lambda>s. (bs_button s, bs_service s)) ` set (t_button_services t) \<or>
         i \<notin> bt_id ` set (t_buttons t)
      then Inl sql_error
      else Inr (t\<lparr>t_button_services := t_button_services t @
             [\<lparr>bs_button = i, bs_position = int (fst js), bs_service = snd js\<rparr>]\<rparr>))"

text \<open>One turn of the loop over the incoming list.\<close>

definition replace_one :: "nat \<times> button \<Rightarrow> tables \<Rightarrow> store_error + tables" where
  "replace_one ib t =
     (let b = snd ib
      in if button_child b \<notin> ch_id ` set (t_children t) then Inl (ErrUnknownChild (button_child b))
         else res_bind (insert_button (int (fst ib)) b t) (\<lambda>(i, t1).
              res_fold (insert_button_service i) (List.enumerate 0 (dedupKeepOrder (button_services b))) t1))"

definition replace_buttons_tx :: "button list \<Rightarrow> tables \<Rightarrow> store_error + (button list \<times> tables)" where
  "replace_buttons_tx bs t =
     res_bind (res_fold replace_one (List.enumerate 0 bs) (t\<lparr>t_buttons := [], t_button_services := []\<rparr>))
       (\<lambda>t1. Inr (loadButtons t1, t1))"

fun wrapButtonErr :: "store_error \<Rightarrow> store_error" where
  "wrapButtonErr (ErrUnknownChild i) = ErrUnknownChild i"
| "wrapButtonErr _ = ErrDriver ''replace buttons''"

definition ReplaceButtons :: "button list \<Rightarrow> button list store_op" where
  "ReplaceButtons bs st = map_err wrapButtonErr (inTx (replace_buttons_tx bs) st)"

section \<open>Reading returns the rows by position\<close>

lemma set_dedup_keep: "set (dedup_keep seen xs) = set xs - set seen"
  by (induction seen xs rule: dedup_keep.induct) auto

lemma distinct_dedup_keep: "distinct (dedup_keep seen xs)"
  by (induction seen xs rule: dedup_keep.induct) (auto simp: set_dedup_keep)

lemma dedupKeepOrder_facts [simp, norm_simps]:
  "set (dedupKeepOrder xs) = set xs" "distinct (dedupKeepOrder xs)"
  by (simp_all add: dedupKeepOrder_def set_dedup_keep distinct_dedup_keep)

definition button_services_of :: "tables \<Rightarrow> id \<Rightarrow> string list" where
  "button_services_of t i =
     map bs_service (sort_key bs_position (filter (\<lambda>s. bs_button s = i) (t_button_services t)))"

definition view_button :: "tables \<Rightarrow> button_row \<Rightarrow> button" where
  "view_button t r = (button_of_row r)\<lparr>button_services := button_services_of t (bt_id r)\<rparr>"

lemma scan_button_services_eq:
  "scan_button_services out rows =
     map (\<lambda>b. b\<lparr>button_services := button_services b @ map snd (filter (\<lambda>r. fst r = button_id b) rows)\<rparr>) out"
  by (induction out rows rule: scan_button_services.induct) (auto simp: add_button_service_def)

lemma loadButtons_eq:
  "loadButtons t = map (view_button t) (sort_key bt_position (t_buttons t))"
proof -
  have "map snd (filter (\<lambda>r. fst r = i) (buttonServiceQuery t)) = button_services_of t i" for i
    by (simp add: buttonServiceQuery_def button_services_of_def filter_map comp_def
        sort_key_stable filter_sort)
  then show ?thesis
    by (simp add: loadButtons_def Let_def scan_button_services_eq view_button_def button_of_row_def)
qed

section \<open>What a replace writes\<close>

definition new_button_row :: "id \<Rightarrow> nat \<Rightarrow> button \<Rightarrow> button_row" where
  "new_button_row i n b = \<lparr>bt_id = i, bt_position = int n, bt_label = button_label b,
     bt_child = button_child b, bt_icon = (if button_icon b = [] then None else Some (button_icon b)),
     bt_duration = button_duration b sdiv second\<rparr>"

definition new_service_rows :: "id \<Rightarrow> button \<Rightarrow> button_service_row list" where
  "new_service_rows i b =
     map (\<lambda>(j, s). \<lparr>bs_button = i, bs_position = int j, bs_service = s\<rparr>)
       (List.enumerate 0 (dedupKeepOrder (button_services b)))"

text \<open>Which items a replace accepts: the child exists and the duration is a second or more.\<close>

definition storable :: "tables \<Rightarrow> button \<Rightarrow> bool" where
  "storable t b \<longleftrightarrow>
     button_child b \<in> ch_id ` set (t_children t) \<and> 0 < button_duration b sdiv second"

lemma insert_button_services_eq:
  "i \<in> bt_id ` set (t_buttons t) \<Longrightarrow> distinct (map snd js) \<Longrightarrow>
   \<forall>s \<in> snd ` set js. (i, s) \<notin> (\<lambda>s. (bs_button s, bs_service s)) ` set (t_button_services t) \<Longrightarrow>
     res_fold (insert_button_service i) js t =
       Inr (t\<lparr>t_button_services := t_button_services t @
         map (\<lambda>(j, s). \<lparr>bs_button = i, bs_position = int j, bs_service = s\<rparr>) js\<rparr>)"
proof (induction js arbitrary: t)
  case Nil
  then show ?case by simp
next
  case (Cons a js)
  define t1 where "t1 = t\<lparr>t_button_services := t_button_services t @
      [\<lparr>bs_button = i, bs_position = int (fst a), bs_service = snd a\<rparr>]\<rparr>"
  have "insert_button_service i a t = Inr t1"
    using Cons.prems by (simp add: insert_button_service_def t1_def)
  moreover have "res_fold (insert_button_service i) js t1 = Inr (t1\<lparr>t_button_services :=
      t_button_services t1 @ map (\<lambda>(j, s). \<lparr>bs_button = i, bs_position = int j, bs_service = s\<rparr>) js\<rparr>)"
  proof (rule Cons.IH)
    show "i \<in> bt_id ` set (t_buttons t1)" "distinct (map snd js)"
      using Cons.prems(1,2) by (simp_all add: t1_def)
    have "snd a \<notin> snd ` set js" using Cons.prems(2) by auto
    then show "\<forall>s \<in> snd ` set js. (i, s) \<notin> (\<lambda>s. (bs_button s, bs_service s)) ` set (t_button_services t1)"
      using Cons.prems(3) by (simp add: t1_def) (metis image_eqI snd_conv)
  qed
  ultimately show ?case by (simp add: t1_def case_prod_beta)
qed

lemma replace_one_eq:
  assumes "storable t b" "int n \<notin> bt_position ` set (t_buttons t)"
    "\<forall>s \<in> set (t_button_services t). bs_button s \<le> t_button_seq t"
  shows "replace_one (n, b) t =
    Inr (t\<lparr>t_buttons := t_buttons t @ [new_button_row (t_button_seq t + 1) n b],
           t_button_seq := t_button_seq t + 1,
           t_button_services := t_button_services t @ new_service_rows (t_button_seq t + 1) b\<rparr>)"
proof -
  define t1 where "t1 = t\<lparr>t_buttons := t_buttons t @ [new_button_row (t_button_seq t + 1) n b],
      t_button_seq := t_button_seq t + 1\<rparr>"
  have "insert_button (int n) b t = Inr (t_button_seq t + 1, t1)"
    using assms by (simp add: insert_button_def storable_def t1_def new_button_row_def Let_def)
  moreover have "res_fold (insert_button_service (t_button_seq t + 1))
      (List.enumerate 0 (dedupKeepOrder (button_services b))) t1 =
    Inr (t1\<lparr>t_button_services := t_button_services t1 @ new_service_rows (t_button_seq t + 1) b\<rparr>)"
    unfolding new_service_rows_def
    using assms(3) by (intro insert_button_services_eq) (auto simp: t1_def new_button_row_def)
  ultimately show ?thesis
    using assms(1) by (simp add: replace_one_def storable_def t1_def)
qed

lemma replace_one_err:
  assumes "\<not> storable t b"
  shows "replace_one (n, b) t =
    Inl (if button_child b \<in> ch_id ` set (t_children t) then sql_error
         else ErrUnknownChild (button_child b))"
  using assms by (auto simp: replace_one_def storable_def insert_button_def Let_def)

lemma sdiv_second_range:
  assumes "min_int64 \<le> d" "d \<le> max_int64"
  shows "i64 ((d sdiv second) * second) = (d sdiv second) * second"
proof -
  have "\<bar>(d sdiv second) * second\<bar> \<le> \<bar>d\<bar>"
  proof -
    have "\<bar>d sdiv second\<bar> = \<bar>d\<bar> div second"
      by (simp add: signed_divide_int_def second_def abs_mult sgn_if)
    then show ?thesis by (simp add: abs_mult second_def)
  qed
  then have "min_int64 \<le> (d sdiv second) * second" "(d sdiv second) * second \<le> max_int64"
    using assms by (auto simp: min_int64_def max_int64_def second_def signed_divide_int_def sgn_if abs_if split: if_splits)
  then show ?thesis by (rule i64_id)
qed

text \<open>The rows of a whole list, from the id and the position its first item gets.\<close>

fun rows_from :: "id \<Rightarrow> nat \<Rightarrow> button list \<Rightarrow> button_row list" where
  "rows_from i n [] = []"
| "rows_from i n (b # bs) = new_button_row i n b # rows_from (i + 1) (Suc n) bs"

fun service_rows_from :: "id \<Rightarrow> button list \<Rightarrow> button_service_row list" where
  "service_rows_from i [] = []"
| "service_rows_from i (b # bs) = new_service_rows i b @ service_rows_from (i + 1) bs"

text \<open>What an item becomes once stored under id \<open>i\<close>.\<close>

definition stored_button :: "id \<Rightarrow> button \<Rightarrow> button" where
  "stored_button i b = b\<lparr>button_id := i, button_services := dedupKeepOrder (button_services b),
     button_duration := i64 (button_duration b sdiv second * second)\<rparr>"

fun stored_from :: "id \<Rightarrow> button list \<Rightarrow> button list" where
  "stored_from i [] = []"
| "stored_from i (b # bs) = stored_button i b # stored_from (i + 1) bs"

lemma replace_loop_eq:
  "\<forall>b \<in> set bs. storable t b \<Longrightarrow> \<forall>r \<in> set (t_buttons t). bt_position r < int n \<Longrightarrow>
   \<forall>s \<in> set (t_button_services t). bs_button s \<le> t_button_seq t \<Longrightarrow>
     res_fold replace_one (List.enumerate n bs) t =
       Inr (t\<lparr>t_buttons := t_buttons t @ rows_from (t_button_seq t + 1) n bs,
              t_button_seq := t_button_seq t + int (length bs),
              t_button_services := t_button_services t @ service_rows_from (t_button_seq t + 1) bs\<rparr>)"
proof (induction bs arbitrary: t n)
  case Nil
  then show ?case by simp
next
  case (Cons b bs)
  define t1 where "t1 = t\<lparr>t_buttons := t_buttons t @ [new_button_row (t_button_seq t + 1) n b],
           t_button_seq := t_button_seq t + 1,
           t_button_services := t_button_services t @ new_service_rows (t_button_seq t + 1) b\<rparr>"
  have one: "replace_one (n, b) t = Inr t1"
    unfolding t1_def using Cons.prems by (intro replace_one_eq) auto
  have "res_fold replace_one (List.enumerate (Suc n) bs) t1 =
       Inr (t1\<lparr>t_buttons := t_buttons t1 @ rows_from (t_button_seq t1 + 1) (Suc n) bs,
              t_button_seq := t_button_seq t1 + int (length bs),
              t_button_services := t_button_services t1 @ service_rows_from (t_button_seq t1 + 1) bs\<rparr>)"
    using Cons.prems
    by (intro Cons.IH) (force simp: t1_def storable_def new_button_row_def new_service_rows_def)+
  with one show ?case by (simp add: t1_def algebra_simps)
qed

lemma replace_loop_err:
  "res_fold replace_one (List.enumerate n bs) t = Inl e \<Longrightarrow> \<forall>r \<in> set (t_buttons t). bt_position r < int n \<Longrightarrow>
   \<forall>s \<in> set (t_button_services t). bs_button s \<le> t_button_seq t \<Longrightarrow>
     \<exists>b \<in> set bs. \<not> storable t b \<and>
       e = (if button_child b \<in> ch_id ` set (t_children t) then sql_error
            else ErrUnknownChild (button_child b))"
proof (induction bs arbitrary: t n)
  case Nil
  then show ?case by simp
next
  case (Cons b bs)
  show ?case
  proof (cases "storable t b")
    case False
    with Cons.prems(1) replace_one_err [OF False, of n] show ?thesis by auto
  next
    case True
    define t1 where "t1 = t\<lparr>t_buttons := t_buttons t @ [new_button_row (t_button_seq t + 1) n b],
           t_button_seq := t_button_seq t + 1,
           t_button_services := t_button_services t @ new_service_rows (t_button_seq t + 1) b\<rparr>"
    have "replace_one (n, b) t = Inr t1"
      unfolding t1_def using True Cons.prems by (intro replace_one_eq) auto
    with Cons.prems(1) have "res_fold replace_one (List.enumerate (Suc n) bs) t1 = Inl e" by simp
    moreover have "storable t1 = storable t" "t_children t1 = t_children t"
      by (simp_all add: t1_def storable_def fun_eq_iff)
    moreover have "\<forall>r \<in> set (t_buttons t1). bt_position r < int (Suc n)"
      "\<forall>s \<in> set (t_button_services t1). bs_button s \<le> t_button_seq t1"
      using Cons.prems by (force simp: t1_def new_button_row_def new_service_rows_def)+
    ultimately show ?thesis using Cons.IH [of "Suc n" t1] by auto
  qed
qed

lemma rows_from_ids:
  "r \<in> set (rows_from i n bs) \<Longrightarrow>
     i \<le> bt_id r \<and> bt_id r < i + int (length bs) \<and> int n \<le> bt_position r"
  by (induction i n bs rule: rows_from.induct) (auto simp: new_button_row_def)

lemma rows_from_distinct:
  "distinct (map bt_id (rows_from i n bs))" "distinct (map bt_position (rows_from i n bs))"
  "sorted (map bt_position (rows_from i n bs))"
  by (induction i n bs rule: rows_from.induct)
     (auto simp: new_button_row_def dest: rows_from_ids)

lemma service_rows_from_ids:
  "s \<in> set (service_rows_from i bs) \<Longrightarrow> i \<le> bs_button s \<and> bs_button s < i + int (length bs)"
  by (induction i bs rule: service_rows_from.induct) (auto simp: new_service_rows_def)

lemma new_service_rows_button: "s \<in> set (new_service_rows i b) \<Longrightarrow> bs_button s = i"
  by (auto simp: new_service_rows_def)

lemma new_service_rows_services:
  "map bs_service (sort_key bs_position (new_service_rows i b)) = dedupKeepOrder (button_services b)"
proof -
  have "map bs_position (new_service_rows i b) = map (int \<circ> fst) (List.enumerate 0 (dedupKeepOrder (button_services b)))"
    by (simp add: new_service_rows_def comp_def case_prod_beta)
  then have "sorted (map bs_position (new_service_rows i b))"
    by (simp add: sorted_map sorted_wrt_iff_nth_less nth_enumerate_eq)
  then have "sort_key bs_position (new_service_rows i b) = new_service_rows i b"
    by (rule sort_key_id_if_sorted)
  then show ?thesis by (simp add: new_service_rows_def comp_def case_prod_beta)
qed

lemma service_rows_of:
  "k < length bs \<Longrightarrow>
     filter (\<lambda>s. bs_button s = i + int k) (service_rows_from i bs) = new_service_rows (i + int k) (bs ! k)"
proof (induction bs arbitrary: i k)
  case Nil
  then show ?case by simp
next
  case (Cons b bs)
  show ?case
  proof (cases k)
    case 0
    have "filter (\<lambda>s. bs_button s = i) (service_rows_from (i + 1) bs) = []"
      by (auto simp: filter_empty_conv dest: service_rows_from_ids)
    moreover have "filter (\<lambda>s. bs_button s = i) (new_service_rows i b) = new_service_rows i b"
      by (auto simp: filter_id_conv dest: new_service_rows_button)
    ultimately show ?thesis using 0 by simp
  next
    case (Suc j)
    have "filter (\<lambda>s. bs_button s = i + int k) (new_service_rows i b) = []"
      using Suc by (auto simp: filter_empty_conv dest: new_service_rows_button)
    then show ?thesis using Cons.IH [of j "i + 1"] Cons.prems Suc by (simp add: algebra_simps)
  qed
qed

lemma length_rows_from [simp]: "length (rows_from i n bs) = length bs" "length (stored_from i bs) = length bs"
  by (induction i n bs rule: rows_from.induct) auto

lemma nth_rows_from: "k < length bs \<Longrightarrow> rows_from i n bs ! k = new_button_row (i + int k) (n + k) (bs ! k)"
  by (induction i n bs arbitrary: k rule: rows_from.induct) (auto simp: nth_Cons' algebra_simps)

lemma nth_stored_from: "k < length bs \<Longrightarrow> stored_from i bs ! k = stored_button (i + int k) (bs ! k)"
  by (induction i bs arbitrary: k rule: stored_from.induct) (auto simp: nth_Cons' algebra_simps)

lemma load_replaced:
  assumes "t_buttons t = rows_from i n bs" "t_button_services t = service_rows_from i bs"
  shows "loadButtons t = stored_from i bs"
proof (rule nth_equalityI)
  have sorted: "sort_key bt_position (t_buttons t) = rows_from i n bs"
    using assms(1) rows_from_distinct(3) by (simp add: sort_key_id_if_sorted)
  then show "length (loadButtons t) = length (stored_from i bs)" by (simp add: loadButtons_eq)
  fix k assume "k < length (loadButtons t)"
  then have k: "k < length bs" using sorted by (simp add: loadButtons_eq)
  have "button_services_of t (i + int k) = dedupKeepOrder (button_services (bs ! k))"
    unfolding button_services_of_def assms(2) service_rows_of [OF k] by (rule new_service_rows_services)
  then show "loadButtons t ! k = stored_from i bs ! k"
    using k sorted
    by (simp add: loadButtons_eq nth_rows_from nth_stored_from view_button_def button_of_row_def
        new_button_row_def stored_button_def)
qed

text \<open>The tables a replace leaves.\<close>

definition after_replace :: "button list \<Rightarrow> tables \<Rightarrow> tables" where
  "after_replace bs t =
     t\<lparr>t_buttons := rows_from (t_button_seq t + 1) 0 bs,
       t_button_services := service_rows_from (t_button_seq t + 1) bs,
       t_button_seq := t_button_seq t + int (length bs)\<rparr>"

lemma replace_buttons_tx_ok:
  assumes "\<forall>b \<in> set bs. storable t b"
  shows "replace_buttons_tx bs t = Inr (stored_from (t_button_seq t + 1) bs, after_replace bs t)"
proof -
  let ?t0 = "t\<lparr>t_buttons := [], t_button_services := []\<rparr>"
  have "res_fold replace_one (List.enumerate 0 bs) ?t0 = Inr (after_replace bs t)"
    using assms replace_loop_eq [of bs ?t0 0] by (simp add: storable_def after_replace_def)
  moreover have "loadButtons (after_replace bs t) = stored_from (t_button_seq t + 1) bs"
    by (rule load_replaced [where n = 0]) (simp_all add: after_replace_def)
  ultimately show ?thesis by (simp add: replace_buttons_tx_def)
qed

lemma replace_buttons_tx_err:
  assumes "replace_buttons_tx bs t = Inl e"
  shows "\<exists>b \<in> set bs. \<not> storable t b \<and>
       e = (if button_child b \<in> ch_id ` set (t_children t) then sql_error
            else ErrUnknownChild (button_child b))"
proof -
  let ?t0 = "t\<lparr>t_buttons := [], t_button_services := []\<rparr>"
  have "res_fold replace_one (List.enumerate 0 bs) ?t0 = Inl e"
    using assms by (simp add: replace_buttons_tx_def)
  then show ?thesis using replace_loop_err [of 0 bs ?t0 e] by (simp add: storable_def)
qed

lemma replace_loop_storable:
  "res_fold replace_one (List.enumerate n bs) t = Inr t' \<Longrightarrow> \<forall>r \<in> set (t_buttons t). bt_position r < int n \<Longrightarrow>
   \<forall>s \<in> set (t_button_services t). bs_button s \<le> t_button_seq t \<Longrightarrow> \<forall>b \<in> set bs. storable t b"
proof (induction bs arbitrary: t n)
  case Nil
  then show ?case by simp
next
  case (Cons b bs)
  define t1 where "t1 = t\<lparr>t_buttons := t_buttons t @ [new_button_row (t_button_seq t + 1) n b],
         t_button_seq := t_button_seq t + 1,
         t_button_services := t_button_services t @ new_service_rows (t_button_seq t + 1) b\<rparr>"
  have b: "storable t b"
  proof (rule ccontr)
    assume "\<not> storable t b"
    from replace_one_err [OF this, of n] Cons.prems(1) show False by simp
  qed
  then have "replace_one (n, b) t = Inr t1"
    unfolding t1_def using Cons.prems by (intro replace_one_eq) auto
  with Cons.prems(1) have "res_fold replace_one (List.enumerate (Suc n) bs) t1 = Inr t'" by simp
  moreover have "storable t1 = storable t" by (simp add: t1_def storable_def fun_eq_iff)
  moreover have "\<forall>r \<in> set (t_buttons t1). bt_position r < int (Suc n)"
    "\<forall>s \<in> set (t_button_services t1). bs_button s \<le> t_button_seq t1"
    using Cons.prems by (force simp: t1_def new_button_row_def new_service_rows_def)+
  ultimately show ?case using Cons.IH [of "Suc n" t1] b by auto
qed

lemma replace_buttons_tx_storable:
  assumes "replace_buttons_tx bs t = Inr (out, t')"
  shows "\<forall>b \<in> set bs. storable t b"
proof -
  let ?t0 = "t\<lparr>t_buttons := [], t_button_services := []\<rparr>"
  obtain t1 where "res_fold replace_one (List.enumerate 0 bs) ?t0 = Inr t1"
    using assms by (auto simp: replace_buttons_tx_def)
  then show ?thesis using replace_loop_storable [of 0 bs ?t0 t1] by (simp add: storable_def)
qed

lemma distinct_service_rows:
  "distinct (map (\<lambda>s. (bs_button s, bs_service s)) (service_rows_from i bs))"
proof (induction i bs rule: service_rows_from.induct)
  case (2 i b bs)
  let ?es = "List.enumerate 0 (dedupKeepOrder (button_services b))"
  have "map (\<lambda>s. (bs_button s, bs_service s)) (new_service_rows i b) = map (\<lambda>e. (i, snd e)) ?es"
    by (simp add: new_service_rows_def case_prod_beta)
  also have "\<dots> = map (Pair i) (map snd ?es)" by (simp only: map_map comp_def)
  also have "\<dots> = map (Pair i) (dedupKeepOrder (button_services b))" by simp
  finally have "map (\<lambda>s. (bs_button s, bs_service s)) (new_service_rows i b) =
      map (Pair i) (dedupKeepOrder (button_services b))" .
  then have "distinct (map (\<lambda>s. (bs_button s, bs_service s)) (new_service_rows i b))"
    by (simp add: distinct_map inj_on_def)
  moreover have "s \<in> set (service_rows_from (i + 1) bs) \<Longrightarrow> r \<in> set (new_service_rows i b) \<Longrightarrow>
      bs_button s \<noteq> bs_button r" for s r
    using service_rows_from_ids [of s "i + 1" bs] new_service_rows_button [of r i b] by simp
  ultimately show ?case using 2 by (auto simp: image_iff) metis
qed simp

lemma service_row_button:
  "s \<in> set (service_rows_from i bs) \<Longrightarrow> bs_button s \<in> bt_id ` set (rows_from i n bs)"
  by (induction i n bs rule: rows_from.induct)
     (auto simp: new_button_row_def dest: new_service_rows_button)

lemma rows_from_storable:
  "\<forall>b \<in> set bs. storable t b \<Longrightarrow> r \<in> set (rows_from i n bs) \<Longrightarrow>
     0 < bt_duration r \<and> bt_child r \<in> ch_id ` set (t_children t)"
  by (induction i n bs rule: rows_from.induct) (auto simp: new_button_row_def storable_def)

lemma wf_after_replace:
  assumes "wf_buttons t" "\<forall>b \<in> set bs. storable t b"
  shows "wf_buttons (after_replace bs t)"
proof -
  have "0 < bt_id r \<and> bt_id r \<le> t_button_seq t + int (length bs) \<and> 0 < bt_duration r \<and>
      bt_child r \<in> ch_id ` set (t_children t)"
    if "r \<in> set (rows_from (t_button_seq t + 1) 0 bs)" for r
    using rows_from_ids [OF that] rows_from_storable [OF assms(2) that] assms(1)
    by (auto simp: wf_buttons_def)
  moreover have "bs_button ` set (service_rows_from (t_button_seq t + 1) bs) \<subseteq>
      bt_id ` set (rows_from (t_button_seq t + 1) 0 bs)"
    using service_row_button by blast
  ultimately show ?thesis
    using assms(1) rows_from_distinct distinct_service_rows
    by (auto simp: wf_buttons_def after_replace_def)
qed

end
