(* ===== verification/StoreOps.thy ===== *)
theory StoreOps
  imports StoreGrants StoreButtons StoreSessions
begin

text \<open>
  The operations of internal/store as their callers see them: for every script of driver
  failures, an operation either commits what its abstract specification says or leaves the
  tables alone. The tables stay well-formed under every sequence of operations.
\<close>

section \<open>Transactions under the wrapping of their errors\<close>

lemma tx_run:
  assumes "map_err f (inTx tx st) = (r, st')"
  shows "(case r of Inr x \<Rightarrow> tx (db st) = Inr (x, db st')
     | Inl e \<Rightarrow> db st' = db st \<and> (\<exists>e0. e = f e0 \<and> (e0 = sql_error \<or> tx (db st) = Inl e0)) \<and>
         (faults st = [] \<longrightarrow> (\<exists>e0. tx (db st) = Inl e0 \<and> e = f e0)))"
proof (cases r)
  case (Inr x)
  with assms have "inTx tx st = (Inr x, st')" by simp
  with Inr show ?thesis by (simp add: inTx_ok)
next
  case (Inl e)
  then obtain e0 where e0: "inTx tx st = (Inl e0, st')" "e = f e0" using assms by auto
  have "faults st = [] \<Longrightarrow> tx (db st) = Inl e0"
    using e0(1) by (auto simp: inTx_no_fault split: sum.splits prod.splits)
  with inTx_err [OF e0(1)] e0(2) Inl show ?thesis by auto
qed

text \<open>The closed forms of the transactions keep all tables well-formed.\<close>

lemma wf_tables_after_create:
  assumes "wf_tables t" "\<not> name_taken 0 name t" "distinct cs"
  shows "wf_tables (after_create now name cs t)"
proof -
  have "wf_buttons (t\<lparr>t_children := t_children t @ [r]\<rparr>)" for r
    using assms(1) by (intro wf_buttons_more_children) (auto simp: wf_tables_def)
  then show ?thesis
    using assms wf_after_create [of t name cs now] by (simp add: wf_tables_def after_create_def)
qed

lemma wf_tables_after_update:
  assumes "wf_tables t" "\<not> name_taken i name t" "i \<in> ch_id ` set (t_children t)" "distinct cs"
  shows "wf_tables (after_update i name cs t)"
proof -
  have "wf_buttons (t\<lparr>t_children := map (set_name i name) (t_children t)\<rparr>)"
    using assms(1) by (intro wf_buttons_more_children) (auto simp: wf_tables_def image_image)
  then show ?thesis
    using assms wf_after_update [of t i name cs] by (simp add: wf_tables_def after_update_def)
qed

lemma wf_tables_rename:
  assumes "wf_tables t" "old \<noteq> new"
  shows "wf_tables (t\<lparr>t_child_clients := renamed_ccs old new t, t_grant_clients := renamed_gcs old new t\<rparr>)"
proof -
  let ?t = "t\<lparr>t_child_clients := renamed_ccs old new t, t_grant_clients := renamed_gcs old new t\<rparr>"
  have c: "wf_children t" and g: "wf_grants t" using assms(1) by (simp_all add: wf_tables_def)
  have "wf_children ?t"
  proof -
    have "cc_child ` set (renamed_ccs old new t) \<subseteq> cc_child ` set (t_child_clients t)"
      using renamed_ccs_iff [OF c assms(2)] by auto
    also have "\<dots> \<subseteq> ch_id ` set (t_children t)" using c by (simp add: wf_children_def)
    finally show ?thesis
      using c distinct_renamed_ccs [OF c assms(2)] by (simp add: wf_children_def)
  qed
  moreover have "wf_grants ?t"
  proof -
    have "gc_grant ` set (renamed_gcs old new t) \<subseteq> gc_grant ` set (t_grant_clients t)"
      using renamed_gcs_iff [OF assms(2), of _ t] by auto
    also have "\<dots> \<subseteq> gr_id ` set (t_grants t)" using g by (simp add: wf_grants_def)
    finally show ?thesis
      using g distinct_renamed_gcs [of t old new] assms(2) by (simp add: wf_grants_def live_pairs_def)
  qed
  ultimately show ?thesis using assms(1) by (simp add: wf_tables_def)
qed

lemma wf_tables_grants:
  "wf_tables t \<Longrightarrow> wf_grants (t\<lparr>t_grants := gs, t_grant_services := ss, t_grant_clients := cs\<rparr>) \<Longrightarrow>
     wf_tables (t\<lparr>t_grants := gs, t_grant_services := ss, t_grant_clients := cs\<rparr>)"
  by (simp add: wf_tables_def)

lemma wf_tables_after_grant:
  assumes "wf_tables t" "distinct ss" "distinct cs" "\<forall>s \<in> set ss. (child, s) \<notin> set (live_pairs t)"
  shows "wf_tables (after_grant child ss cs a b t)"
  using assms wf_after_grant [of t ss cs child a b] by (simp add: wf_tables_def after_grant_def)

lemma wf_tables_after_status:
  "wf_tables t \<Longrightarrow> wf_grants (after_status i a b e t) \<Longrightarrow> wf_tables (after_status i a b e t)"
  by (simp add: wf_tables_def after_status_def)

lemma wf_tables_after_extend:
  "wf_tables t \<Longrightarrow> wf_tables (t\<lparr>t_grants := map (set_ends i e) (t_grants t)\<rparr>)"
  using wf_after_extend [of t i e] by (simp add: wf_tables_def)

lemma wf_tables_after_replace:
  "wf_tables t \<Longrightarrow> \<forall>b \<in> set bs. storable t b \<Longrightarrow> wf_tables (after_replace bs t)"
  using wf_after_replace [of t bs] by (simp add: wf_tables_def after_replace_def)

section \<open>Children\<close>

lemma wrapChildErr_cases:
  "wrapChildErr op e = ErrNameTaken \<longleftrightarrow> e = ErrNameTaken"
  "wrapChildErr op e = ErrChildNotFound \<longleftrightarrow> e = ErrChildNotFound"
  "wrapChildErr op e = ErrClientTaken c i n \<longleftrightarrow> e = ErrClientTaken c i n"
  by (cases e; simp)+

lemma CreateChild_out:
  assumes wf: "wf_tables (db st)" and run: "CreateChild now name cs st = (r, st')"
  shows "wf_tables (db st') \<and>
    (case r of
       Inr c \<Rightarrow> \<not> name_taken 0 name (db st) \<and> abs_children (db st) (child_id c) = None \<and>
         abs_children (db st') = (abs_children (db st))(child_id c \<mapsto> (name, trim_space ` set cs - {[]})) \<and>
         child_name c = name \<and> child_clients c = normaliseClients cs
     | Inl e \<Rightarrow> db st' = db st \<and> (e = ErrNameTaken \<longrightarrow> name_taken 0 name (db st)) \<and>
         (faults st = [] \<longrightarrow> e = ErrNameTaken))"
proof -
  have c: "wf_children (db st)" using wf by (simp add: wf_tables_def)
  note out = tx_run [OF run [unfolded CreateChild_def], unfolded create_child_tx_eq [OF c normaliseClients_facts(1)]]
  show ?thesis
  proof (cases r)
    case (Inl e)
    with out wf show ?thesis by (auto split: if_splits simp: wrapChildErr_cases)
  next
    case (Inr x)
    then have free: "\<not> name_taken 0 name (db st)" using out by (auto split: if_splits)
    then have x: "x = \<lparr>child_id = new_child_id (db st), child_name = name,
        child_clients = sort (normaliseClients cs)\<rparr>"
      and t: "db st' = after_create (unix now) name (normaliseClients cs) (db st)"
      using out Inr by simp_all
    have "abs_children (db st) (new_child_id (db st)) = None"
      using new_child_id_fresh [of "db st"] dom_abs_children [of "db st"] by (metis domIff)
    then show ?thesis
      using free wf_tables_after_create [OF wf free normaliseClients_facts(1)] abs_after_create [OF c]
      by (simp add: Inr x t)
  qed
qed

lemma UpdateChild_out:
  assumes wf: "wf_tables (db st)" and run: "UpdateChild i name cs st = (r, st')"
  shows "wf_tables (db st') \<and>
    (case r of
       Inr c \<Rightarrow> abs_children (db st) i \<noteq> None \<and> \<not> name_taken i name (db st) \<and>
         abs_children (db st') = (abs_children (db st))(i \<mapsto> (name, trim_space ` set cs - {[]})) \<and>
         c = \<lparr>child_id = i, child_name = name, child_clients = normaliseClients cs\<rparr>
     | Inl e \<Rightarrow> db st' = db st \<and> (e = ErrChildNotFound \<longrightarrow> abs_children (db st) i = None) \<and>
         (e = ErrNameTaken \<longrightarrow> name_taken i name (db st)) \<and>
         (faults st = [] \<longrightarrow> e \<in> {ErrChildNotFound, ErrNameTaken}))"
proof -
  have c: "wf_children (db st)" using wf by (simp add: wf_tables_def)
  have known: "abs_children (db st) i = None \<longleftrightarrow> i \<notin> ch_id ` set (t_children (db st))"
    using dom_abs_children [of "db st"] by auto
  note out = tx_run [OF run [unfolded UpdateChild_def], unfolded update_child_tx_eq [OF c normaliseClients_facts(1)]]
  show ?thesis
  proof (cases r)
    case (Inl e)
    with out wf show ?thesis by (auto split: if_splits simp: wrapChildErr_cases known)
  next
    case (Inr x)
    then have i: "i \<in> ch_id ` set (t_children (db st))" and free: "\<not> name_taken i name (db st)"
      using out by (auto split: if_splits)
    then have x: "x = \<lparr>child_id = i, child_name = name, child_clients = sort (normaliseClients cs)\<rparr>"
      and t: "db st' = after_update i name (normaliseClients cs) (db st)"
      using out Inr by simp_all
    show ?thesis
      using i free wf_tables_after_update [OF wf free i normaliseClients_facts(1)] abs_after_update [OF i]
      by (simp add: Inr x t known)
  qed
qed

lemma RenameClient_out:
  assumes wf: "wf_tables (db st)" and run: "store_RenameClient old new st = (r, st')" and ne: "old \<noteq> new"
  shows "wf_tables (db st') \<and>
    (case r of
       Inr _ \<Rightarrow> outsiders old new (db st) = [] \<and>
         (\<forall>i. abs_children (db st') i = map_option (\<lambda>(n, cs). (n, swap_name old new ` cs)) (abs_children (db st) i)) \<and>
         (\<forall>g. set (grant_clients_of (db st') g) =
            (if g \<in> set (active_grant_ids (db st)) then swap_name old new ` set (grant_clients_of (db st) g)
             else set (grant_clients_of (db st) g)))
     | Inl e \<Rightarrow> db st' = db st \<and>
         (\<forall>i n. e = ErrClientTaken new i n \<longrightarrow> (i, n) \<in> set (outsiders old new (db st))) \<and>
         (faults st = [] \<longrightarrow> (\<exists>i n. e = ErrClientTaken new i n)))"
proof -
  have run': "map_err (wrapChildErr ''rename client'') (inTx (rename_client_tx old new) st) = (r, st')"
    using run ne by (simp add: store_RenameClient_def)
  have c: "wf_children (db st)" using wf by (simp add: wf_tables_def)
  note out = tx_run [OF run', unfolded rename_client_tx_eq [OF wf ne]]
  show ?thesis
  proof (cases r)
    case (Inl e)
    with out wf show ?thesis
      by (cases "outsiders old new (db st)") (auto simp: wrapChildErr_cases)
  next
    case (Inr x)
    then have none: "outsiders old new (db st) = []"
      and t: "db st' = (db st)\<lparr>t_child_clients := renamed_ccs old new (db st),
                         t_grant_clients := renamed_gcs old new (db st)\<rparr>"
      using out by (cases "outsiders old new (db st)"; auto)+
    show ?thesis
      using wf_tables_rename [OF wf ne] abs_rename [OF c ne] set_renamed_gcs [OF ne]
      by (simp add: Inr none t)
  qed
qed

lemma delete_child_keeps:
  "delete_child_tx i t = Inr (b, t') \<Longrightarrow> t_grants t' = t_grants t \<and> t_grant_services t' = t_grant_services t \<and>
     t_grant_clients t' = t_grant_clients t \<and> t_buttons t' = filter (\<lambda>b. bt_child b \<noteq> i) (t_buttons t)"
  by (auto simp: delete_child_tx_def Let_def)

lemma DeleteChild_out:
  assumes wf: "wf_tables (db st)" and run: "DeleteChild i st = (r, st')"
  shows "wf_tables (db st') \<and> abs_grants (db st') = abs_grants (db st) \<and>
    (case r of
       Inr b \<Rightarrow> abs_children (db st') = (abs_children (db st))(i := None) \<and>
         (b \<longleftrightarrow> abs_children (db st) i \<noteq> None) \<and>
         bt_id ` set (t_buttons (db st')) = bt_id ` {b \<in> set (t_buttons (db st)). bt_child b \<noteq> i}
     | Inl e \<Rightarrow> db st' = db st)"
proof -
  note out = tx_run [OF run [unfolded DeleteChild_def]]
  show ?thesis
  proof (cases r)
    case (Inl e)
    with out wf show ?thesis by simp
  next
    case (Inr b)
    then have tx: "delete_child_tx i (db st) = Inr (b, db st')" using out by simp
    then have t: "t_grants (db st') = t_grants (db st)" "t_grant_services (db st') = t_grant_services (db st)"
      "t_grant_clients (db st') = t_grant_clients (db st)"
      "t_buttons (db st') = filter (\<lambda>b. bt_child b \<noteq> i) (t_buttons (db st))"
      using delete_child_keeps [OF tx] by simp_all
    then have "view_grant (db st') = view_grant (db st)"
      by (simp add: fun_eq_iff view_grant_def grant_services_of_def grant_clients_of_def)
    then have "abs_grants (db st') = abs_grants (db st)"
      unfolding abs_grants_def t(1) by simp
    then show ?thesis
      using wf_delete_child [OF wf tx] abs_delete_child [OF tx] by (simp add: Inr t(4) domIff)
  qed
qed

lemma wf_tables_new_client:
  assumes "wf_tables t" "i \<in> ch_id ` set (t_children t)" "\<lparr>cc_client = name, cc_child = i\<rparr> \<notin> set (t_child_clients t)"
  shows "wf_tables (t\<lparr>t_child_clients := t_child_clients t @ [\<lparr>cc_client = name, cc_child = i\<rparr>]\<rparr>)"
  using assms by (auto simp: wf_tables_def wf_children_def)

lemma AddChildClient_out:
  assumes wf: "wf_tables (db st)" and run: "AddChildClient i name st = (r, st')"
  shows "wf_tables (db st') \<and>
    (case r of
       Inr _ \<Rightarrow> trim_space name \<noteq> [] \<and>
         (\<exists>n cs. abs_children (db st) i = Some (n, cs) \<and>
            abs_children (db st') = (abs_children (db st))(i \<mapsto> (n, insert (trim_space name) cs)))
     | Inl e \<Rightarrow> db st' = db st)"
proof (cases "trim_space name = []")
  case True
  with run wf show ?thesis by (auto simp: AddChildClient_def)
next
  case False
  define x where "x = trim_space name"
  have run': "map_err (wrapChildErr ''add child client'') (inTx (add_child_client_tx i x) st) = (r, st')"
    using run False by (simp add: AddChildClient_def x_def Let_def)
  have c: "wf_children (db st)" using wf by (simp add: wf_tables_def)
  note out = tx_run [OF run', unfolded add_child_client_tx_eq [OF c]]
  show ?thesis
  proof (cases r)
    case (Inl e)
    with out wf show ?thesis by (auto split: if_splits)
  next
    case (Inr u)
    then have i: "i \<in> ch_id ` set (t_children (db st))"
      using out by (auto split: if_splits)
    then obtain n cs where old: "abs_children (db st) i = Some (n, cs)"
      using dom_abs_children [of "db st"] by force
    have new: "abs_children (db st') = (abs_children (db st))(i \<mapsto> (n, insert x cs)) \<and> wf_tables (db st')"
    proof (cases "\<lparr>cc_client = x, cc_child = i\<rparr> \<in> set (t_child_clients (db st))")
      case True
      then have "db st' = db st" using out Inr i by simp
      moreover have "x \<in> cs" using True old by (auto simp: abs_children_def clients_of_iff)
      ultimately show ?thesis using wf old by (simp add: insert_absorb fun_upd_idem)
    next
      case fresh: False
      then have t: "db st' = (db st)\<lparr>t_child_clients := t_child_clients (db st) @ [\<lparr>cc_client = x, cc_child = i\<rparr>]\<rparr>"
        using out Inr i by (cases "clientOwners x (db st)") auto
      have "set (clients_of (db st') j) = (if j = i then insert x (set (clients_of (db st) j)) else set (clients_of (db st) j))" for j
        by (auto simp: clients_of_def t)
      moreover have "t_children (db st') = t_children (db st)" by (simp add: t)
      ultimately have "abs_children (db st') = (abs_children (db st))(i \<mapsto> (n, insert x cs))"
        using old by (auto simp: abs_children_def fun_eq_iff)
      with wf_tables_new_client [OF wf i fresh] t show ?thesis by simp
    qed
    with old False show ?thesis by (simp add: Inr x_def)
  qed
qed

section \<open>Grants\<close>

lemma CreateGrant_out:
  assumes wf: "wf_tables (db st)" and run: "CreateGrant child ss cs a b st = (r, st')"
  shows "wf_tables (db st') \<and>
    (case r of
       Inr g \<Rightarrow> abs_grants (db st) (grant_id g) = None \<and>
         abs_grants (db st') = (abs_grants (db st))(grant_id g \<mapsto> g) \<and>
         g = \<lparr>grant_id = grant_id g, grant_child = child, grant_status = StatusActive,
              grant_services = normaliseClients ss, grant_clients = normaliseClients cs,
              started_at = of_unix (unix a), ends_at = of_unix (unix b)\<rparr>
     | Inl e \<Rightarrow> db st' = db st \<and>
         (\<forall>i s. e = ErrGrantOverlap i s \<longrightarrow> s \<in> set (normaliseClients ss) \<and>
            (\<exists>r \<in> set (t_grant_services (db st)). gs_active r \<and> gs_child r = child \<and> gs_service r = s \<and> gs_grant r = i)) \<and>
         (faults st = [] \<longrightarrow> (\<exists>i s. e = ErrGrantOverlap i s)))"
proof -
  have g: "wf_grants (db st)" using wf by (simp add: wf_tables_def)
  note out = tx_run [OF run [unfolded CreateGrant_def],
      unfolded create_grant_tx_eq [OF g normaliseClients_facts(1) normaliseClients_facts(1)]]
  let ?chk = "check_overlap child (db st) (normaliseClients ss)"
  show ?thesis
  proof (cases r)
    case (Inl e)
    have "\<exists>r \<in> set (t_grant_services (db st)). gs_active r \<and> gs_child r = child \<and> gs_service r \<in> set (normaliseClients ss) \<and>
       e0 = ErrGrantOverlap (gs_grant r) (gs_service r)" if "?chk = Inl e0" for e0
      using check_overlap_Inl [OF that] .
    then show ?thesis using Inl out wf by (cases ?chk) fastforce+
  next
    case (Inr x)
    then have free: "\<forall>s \<in> set (normaliseClients ss). (child, s) \<notin> set (live_pairs (db st))"
      using out check_overlap_Inr [of child "db st" "normaliseClients ss"] by (cases ?chk) auto
    have x: "x = \<lparr>grant_id = new_grant_id (db st), grant_child = child, grant_status = StatusActive,
           grant_services = sort (normaliseClients ss), grant_clients = sort (normaliseClients cs),
           started_at = of_unix (unix a), ends_at = of_unix (unix b)\<rparr>"
      and t: "db st' = after_grant child (normaliseClients ss) (normaliseClients cs) a b (db st)"
      using out Inr by (cases ?chk; simp)+
    have "abs_grants (db st) (new_grant_id (db st)) = None"
      by (simp add: abs_grants_None new_grant_id_fresh)
    then show ?thesis
      using wf_tables_after_grant [OF wf normaliseClients_facts(1) normaliseClients_facts(1) free] abs_after_grant [OF g]
      by (simp add: Inr x t)
  qed
qed

lemma ExtendGrant_out:
  assumes wf: "wf_tables (db st)" and run: "ExtendGrant i e st = (r, st')"
  shows "wf_tables (db st') \<and>
    (case r of
       Inr g' \<Rightarrow> (\<exists>g. abs_grants (db st) i = Some g \<and> grant_status g = StatusActive \<and>
         g' = g\<lparr>ends_at := of_unix (unix e)\<rparr> \<and> abs_grants (db st') = (abs_grants (db st))(i \<mapsto> g'))
     | Inl x \<Rightarrow> db st' = db st \<and>
         (x = ErrGrantNotFound \<longrightarrow> (\<forall>g. abs_grants (db st) i = Some g \<longrightarrow> grant_status g \<noteq> StatusActive)) \<and>
         (faults st = [] \<longrightarrow> x = ErrGrantNotFound))"
proof -
  have g: "wf_grants (db st)" using wf by (simp add: wf_tables_def)
  let ?t = "(db st)\<lparr>t_grants := map (set_ends i (unix e)) (t_grants (db st))\<rparr>"
  have act: "(\<exists>g \<in> set (t_grants (db st)). gr_id g = i \<and> gr_status g = StatusActive) \<longleftrightarrow>
      (\<exists>g. abs_grants (db st) i = Some g \<and> grant_status g = StatusActive)"
    using abs_grants_Some [OF g, of i] by auto
  have tx: "extend_grant_tx i e (db st) =
    (case abs_grants (db st) i of
       Some g0 \<Rightarrow> if grant_status g0 = StatusActive then Inr (g0\<lparr>ends_at := of_unix (unix e)\<rparr>, ?t) else Inl ErrGrantNotFound
     | None \<Rightarrow> Inl ErrGrantNotFound)"
  proof (cases "\<exists>g0. abs_grants (db st) i = Some g0 \<and> grant_status g0 = StatusActive")
    case True
    then obtain g0 where g0: "abs_grants (db st) i = Some g0" "grant_status g0 = StatusActive" by blast
    have "getGrant i ?t = Inr (g0\<lparr>ends_at := of_unix (unix e)\<rparr>)"
      using getGrant_abs [OF wf_after_extend [OF g]] abs_after_extend [OF g0] by simp
    then show ?thesis using act True g0 by (simp add: extend_grant_tx_def Let_def)
  next
    case False
    then show ?thesis using act by (auto simp: extend_grant_tx_def split: option.splits)
  qed
  note out = tx_run [OF run [unfolded ExtendGrant_def], unfolded tx]
  show ?thesis
  proof (cases r)
    case (Inl x)
    with out wf show ?thesis by (auto split: option.splits if_splits)
  next
    case (Inr g')
    then obtain g0 where g0: "abs_grants (db st) i = Some g0" "grant_status g0 = StatusActive"
      "g' = g0\<lparr>ends_at := of_unix (unix e)\<rparr>" "db st' = ?t"
      using out by (auto split: option.splits if_splits)
    then show ?thesis
      using wf_tables_after_extend [OF wf, of i "unix e"] abs_after_extend [OF g0(1,2), of "unix e"] by (simp add: Inr)
  qed
qed

lemma set_grant_status_tx_run:
  assumes "wf_grants t"
  shows "set_grant_status_tx i a b at t =
    (let t' = after_status i a b (if b \<noteq> StatusActive then Some (unix at) else None) t
     in case abs_grants t i of
          None \<Rightarrow> Inr (False, t)
        | Some g \<Rightarrow> if grant_status g \<noteq> a then Inr (False, t)
                    else if distinct (live_pairs t') then Inr (True, t') else Inl sql_error)"
proof -
  have "(\<exists>g \<in> set (t_grants t). gr_id g = i \<and> gr_status g = a) \<longleftrightarrow>
      (\<exists>g. abs_grants t i = Some g \<and> grant_status g = a)"
    using abs_grants_Some [OF assms, of i] by auto
  then show ?thesis
    by (auto simp: set_grant_status_tx_def Let_def after_status_def split: option.splits)
qed

lemma SetGrantStatus_out:
  assumes wf: "wf_tables (db st)" and run: "SetGrantStatus i a b at st = (r, st')"
  shows "wf_tables (db st') \<and>
    (case r of
       Inr True \<Rightarrow> (\<exists>g. abs_grants (db st) i = Some g \<and> grant_status g = a \<and>
         abs_grants (db st') = (abs_grants (db st))(i \<mapsto> g\<lparr>grant_status := b\<rparr>))
     | Inr False \<Rightarrow> db st' = db st \<and> (\<forall>g. abs_grants (db st) i = Some g \<longrightarrow> grant_status g \<noteq> a)
     | Inl _ \<Rightarrow> db st' = db st \<and> (b \<noteq> StatusActive \<longrightarrow> faults st \<noteq> []))"
proof -
  have g: "wf_grants (db st)" using wf by (simp add: wf_tables_def)
  define e where "e = (if b \<noteq> StatusActive then Some (unix at) else None)"
  note out = tx_run [OF run [unfolded SetGrantStatus_def], unfolded set_grant_status_tx_run [OF g] Let_def, folded e_def]
  show ?thesis
  proof (cases r)
    case (Inl x)
    have "b \<noteq> StatusActive \<Longrightarrow> distinct (live_pairs (after_status i a b e (db st)))"
      by (rule live_pairs_deactivate [OF g])
    with Inl out wf show ?thesis by (auto split: option.splits if_splits)
  next
    case (Inr w)
    show ?thesis
    proof (cases w)
      case True
      then obtain g0 where g0: "abs_grants (db st) i = Some g0" "grant_status g0 = a"
        "db st' = after_status i a b e (db st)" "distinct (live_pairs (db st'))"
        using out Inr by (auto split: option.splits if_splits)
      obtain r0 where "r0 \<in> set (t_grants (db st))" "gr_id r0 = i" "gr_status r0 = a"
        using abs_grants_Some [OF g, of i g0] g0 by auto
      then have "wf_grants (after_status i a b e (db st))"
        using wf_after_status [OF g] g0(3,4) by simp
      then have "wf_tables (db st')" unfolding g0(3) by (rule wf_tables_after_status [OF wf])
      then show ?thesis using g0 abs_after_status [OF g0(1,2)] by (simp add: Inr True)
    next
      case False
      then have "db st' = db st" "\<forall>g. abs_grants (db st) i = Some g \<longrightarrow> grant_status g \<noteq> a"
        using out Inr by (auto split: option.splits if_splits)
      with wf show ?thesis by (simp add: Inr False)
    qed
  qed
qed

section \<open>Buttons\<close>

lemma ReplaceButtons_out:
  assumes wf: "wf_tables (db st)" and run: "ReplaceButtons bs st = (r, st')"
  shows "wf_tables (db st') \<and>
    (case r of
       Inr out \<Rightarrow> out = stored_from (t_button_seq (db st) + 1) bs \<and> loadButtons (db st') = out \<and>
         (\<forall>b \<in> set out. \<forall>b0 \<in> set (t_buttons (db st)). bt_id b0 < button_id b)
     | Inl e \<Rightarrow> db st' = db st \<and>
         (\<forall>i. e = ErrUnknownChild i \<longrightarrow> (\<exists>b \<in> set bs. button_child b = i) \<and> i \<notin> ch_id ` set (t_children (db st))) \<and>
         (faults st = [] \<longrightarrow> (\<exists>b \<in> set bs. \<not> storable (db st) b)))"
proof -
  note out = tx_run [OF run [unfolded ReplaceButtons_def]]
  show ?thesis
  proof (cases r)
    case (Inl e)
    have "wrapButtonErr e0 = ErrUnknownChild i \<longleftrightarrow> e0 = ErrUnknownChild i" for e0 i by (cases e0) simp_all
    moreover have "\<exists>b \<in> set bs. \<not> storable (db st) b \<and> (\<forall>i. e0 = ErrUnknownChild i \<longrightarrow>
        button_child b = i \<and> i \<notin> ch_id ` set (t_children (db st)))"
      if "replace_buttons_tx bs (db st) = Inl e0" for e0
      using replace_buttons_tx_err [OF that] by (auto split: if_splits)
    moreover have "db st' = db st" "\<exists>e0. e = wrapButtonErr e0 \<and> (e0 = sql_error \<or> replace_buttons_tx bs (db st) = Inl e0)"
      "faults st = [] \<longrightarrow> (\<exists>e0. replace_buttons_tx bs (db st) = Inl e0 \<and> e = wrapButtonErr e0)"
      using Inl out by simp_all
    ultimately show ?thesis using wf unfolding Inl by fastforce
  next
    case (Inr x)
    then have tx: "replace_buttons_tx bs (db st) = Inr (x, db st')" using out by simp
    have ok: "\<forall>b \<in> set bs. storable (db st) b" using replace_buttons_tx_storable [OF tx] .
    note eq = replace_buttons_tx_ok [OF ok]
    then have t: "x = stored_from (t_button_seq (db st) + 1) bs" "db st' = after_replace bs (db st)"
      using tx by simp_all
    have "loadButtons (db st') = x" unfolding t
      by (rule load_replaced [where n = 0]) (simp_all add: after_replace_def)
    moreover have "button_id b > t_button_seq (db st)" if b: "b \<in> set x" for b
    proof -
      obtain k where "k < length bs" "b = x ! k" using b unfolding t(1) in_set_conv_nth by auto
      then show ?thesis by (simp add: t(1) nth_stored_from stored_button_def)
    qed
    moreover have "bt_id b0 \<le> t_button_seq (db st)" if "b0 \<in> set (t_buttons (db st))" for b0
      using wf that by (simp add: wf_tables_def wf_buttons_def)
    ultimately show ?thesis
      using wf_tables_after_replace [OF wf ok] t(2) unfolding Inr sum.case t(1) [symmetric] by fastforce
  qed
qed

section \<open>Every sequence of operations\<close>

text \<open>One call of any operation of the package, reads included.\<close>

inductive store_step :: "store \<Rightarrow> store \<Rightarrow> bool" where
  step_list_children: "ListChildren st = (r, st') \<Longrightarrow> store_step st st'"
| step_get_child: "GetChild i st = (r, st') \<Longrightarrow> store_step st st'"
| step_create_child: "CreateChild now name cs st = (r, st') \<Longrightarrow> store_step st st'"
| step_update_child: "UpdateChild i name cs st = (r, st') \<Longrightarrow> store_step st st'"
| step_delete_child: "DeleteChild i st = (r, st') \<Longrightarrow> store_step st st'"
| step_rename: "store_RenameClient old new st = (r, st') \<Longrightarrow> store_step st st'"
| step_add_client: "AddChildClient i name st = (r, st') \<Longrightarrow> store_step st st'"
| step_list_grants: "ListActiveGrants st = (r, st') \<Longrightarrow> store_step st st'"
| step_get_grant: "GetGrant i st = (r, st') \<Longrightarrow> store_step st st'"
| step_create_grant: "CreateGrant child ss cs a b st = (r, st') \<Longrightarrow> store_step st st'"
| step_extend_grant: "ExtendGrant i e st = (r, st') \<Longrightarrow> store_step st st'"
| step_set_status: "SetGrantStatus i a b at st = (r, st') \<Longrightarrow> store_step st st'"
| step_list_buttons: "ListButtons st = (r, st') \<Longrightarrow> store_step st st'"
| step_replace_buttons: "ReplaceButtons bs st = (r, st') \<Longrightarrow> store_step st st'"
| step_insert_session: "Insert s st = (r, st') \<Longrightarrow> store_step st st'"
| step_by_hash: "ByTokenHash h st = (r, st') \<Longrightarrow> store_step st st'"
| step_touch: "Touch i l e st = (r, st') \<Longrightarrow> store_step st st'"
| step_delete_session: "Delete i st = (r, st') \<Longrightarrow> store_step st st'"
| step_list_user: "ListByUser u st = (r, st') \<Longrightarrow> store_step st st'"
| step_delete_user: "DeleteByUser u i st = (r, st') \<Longrightarrow> store_step st st'"
| step_delete_others: "DeleteOthers u i st = (r, st') \<Longrightarrow> store_step st st'"
| step_delete_expired: "DeleteExpired now st = (r, st') \<Longrightarrow> store_step st st'"

lemma wf_sessions_db:
  "wf_tables t \<Longrightarrow> wf_sessions (t\<lparr>t_sessions := xs\<rparr>) \<Longrightarrow> wf_tables (t\<lparr>t_sessions := xs\<rparr>)"
  by (simp add: wf_tables_def)

text \<open>A session statement only ever writes the sessions table.\<close>

lemma session_stmt_only_sessions:
  assumes "session_stmt op fn st = (r, st')"
    and "\<And>x t t'. fn t = Inr (x, t') \<Longrightarrow> t' = t\<lparr>t_sessions := t_sessions t'\<rparr>"
  shows "db st' = (db st)\<lparr>t_sessions := t_sessions (db st')\<rparr>"
proof (cases r)
  case (Inl e)
  with assms(1) show ?thesis by (simp add: session_stmt_Inl)
next
  case (Inr x)
  with assms(1) have "fn (db st) = Inr (x, db st')" by (simp add: session_stmt_Inr)
  then show ?thesis by (rule assms(2))
qed

lemma session_ops_only_sessions:
  "Insert s st = (r1, st') \<Longrightarrow> db st' = (db st)\<lparr>t_sessions := t_sessions (db st')\<rparr>"
  "Touch i l e st = (r2, st') \<Longrightarrow> db st' = (db st)\<lparr>t_sessions := t_sessions (db st')\<rparr>"
  "Delete i st = (r3, st') \<Longrightarrow> db st' = (db st)\<lparr>t_sessions := t_sessions (db st')\<rparr>"
  "DeleteByUser u i st = (r4, st') \<Longrightarrow> db st' = (db st)\<lparr>t_sessions := t_sessions (db st')\<rparr>"
  "DeleteOthers u i st = (r5, st') \<Longrightarrow> db st' = (db st)\<lparr>t_sessions := t_sessions (db st')\<rparr>"
  "DeleteExpired now st = (r6, st') \<Longrightarrow> db st' = (db st)\<lparr>t_sessions := t_sessions (db st')\<rparr>"
  unfolding Insert_def Touch_def Delete_def DeleteByUser_def DeleteOthers_def DeleteExpired_def
  by (erule session_stmt_only_sessions;
      force simp: insert_session_stmt_Inr delete_sessions_def split: prod.splits)+

lemma session_ops_wf:
  "wf_sessions (db st) \<Longrightarrow> Insert s st = (r1, st') \<Longrightarrow> wf_sessions (db st')"
  "wf_sessions (db st) \<Longrightarrow> Touch i l e st = (r2, st') \<Longrightarrow> wf_sessions (db st')"
  "wf_sessions (db st) \<Longrightarrow> Delete i st = (r3, st') \<Longrightarrow> wf_sessions (db st')"
  "wf_sessions (db st) \<Longrightarrow> DeleteByUser u i st = (r4, st') \<Longrightarrow> wf_sessions (db st')"
  "wf_sessions (db st) \<Longrightarrow> DeleteOthers u i st = (r5, st') \<Longrightarrow> wf_sessions (db st')"
  "wf_sessions (db st) \<Longrightarrow> DeleteExpired now st = (r6, st') \<Longrightarrow> wf_sessions (db st')"
proof -
  show "wf_sessions (db st) \<Longrightarrow> Insert s st = (r1, st') \<Longrightarrow> wf_sessions (db st')"
    by (cases r1) (auto dest: Insert_Inl Insert_Inr(1))
  show "wf_sessions (db st) \<Longrightarrow> Touch i l e st = (r2, st') \<Longrightarrow> wf_sessions (db st')"
    by (cases r2) (auto dest: Delete_db(2) Touch_Inr(1))
  show "wf_sessions (db st) \<Longrightarrow> Delete i st = (r3, st') \<Longrightarrow> wf_sessions (db st')"
    by (cases r3) (auto dest: Delete_db(1) Delete_Inr(1))
  show "wf_sessions (db st) \<Longrightarrow> DeleteByUser u i st = (r4, st') \<Longrightarrow> wf_sessions (db st')"
    by (cases r4) (auto simp: DeleteByUser_def dest: session_stmt_Inl DeleteByUser_Inr(1) [unfolded DeleteByUser_def])
  show "wf_sessions (db st) \<Longrightarrow> DeleteOthers u i st = (r5, st') \<Longrightarrow> wf_sessions (db st')"
    by (cases r5) (auto simp: DeleteOthers_def dest: session_stmt_Inl DeleteOthers_Inr(1) [unfolded DeleteOthers_def])
  show "wf_sessions (db st) \<Longrightarrow> DeleteExpired now st = (r6, st') \<Longrightarrow> wf_sessions (db st')"
    by (cases r6) (auto simp: DeleteExpired_def dest: session_stmt_Inl DeleteExpired_Inr(1) [unfolded DeleteExpired_def])
qed

lemma wf_tables_sessions: "wf_tables t \<Longrightarrow> wf_sessions t"
  by (simp add: wf_tables_def)

lemma session_op_wf_tables:
  "wf_tables (db st) \<Longrightarrow> wf_sessions (db st') \<Longrightarrow> db st' = (db st)\<lparr>t_sessions := t_sessions (db st')\<rparr> \<Longrightarrow>
     wf_tables (db st')"
  using wf_sessions_db by metis

text \<open>The reads leave the tables as they are.\<close>

lemma read_ops_db:
  "ListChildren st = (r1, st') \<Longrightarrow> db st' = db st"
  "GetChild i st = (r2, st') \<Longrightarrow> db st' = db st"
  "ListActiveGrants st = (r3, st') \<Longrightarrow> db st' = db st"
  "GetGrant i st = (r4, st') \<Longrightarrow> db st' = db st"
  "ListButtons st = (r5, st') \<Longrightarrow> db st' = db st"
  "ListByUser u st = (r6, st') \<Longrightarrow> db st' = db st"
proof -
  have q: "map_err f (query fn st) = (r, st') \<Longrightarrow> db st' = db st" for f fn and r :: "store_error + 'x"
    by (cases r) (auto dest: query_db)
  show "ListChildren st = (r1, st') \<Longrightarrow> db st' = db st" unfolding ListChildren_def by (rule q)
  show "GetChild i st = (r2, st') \<Longrightarrow> db st' = db st" unfolding GetChild_def by (rule q)
  show "ListActiveGrants st = (r3, st') \<Longrightarrow> db st' = db st"
    unfolding ListActiveGrants_def by (drule tx_run) (auto split: sum.splits)
  show "GetGrant i st = (r4, st') \<Longrightarrow> db st' = db st"
    unfolding GetGrant_def by (drule tx_run) (auto split: sum.splits)
  show "ListButtons st = (r5, st') \<Longrightarrow> db st' = db st"
    unfolding ListButtons_def by (drule tx_run) (auto split: sum.splits)
  show "ListByUser u st = (r6, st') \<Longrightarrow> db st' = db st"
    unfolding ListByUser_def by (cases r6) (auto dest: session_stmt_Inl session_stmt_Inr)
qed

inductive store_reachable :: "store \<Rightarrow> bool" where
  init: "db st = empty_tables \<Longrightarrow> store_reachable st"
| step: "store_reachable st \<Longrightarrow> store_step st st' \<Longrightarrow> store_reachable st'"

lemmas store_outcomes = CreateChild_out UpdateChild_out DeleteChild_out AddChildClient_out CreateGrant_out
  ExtendGrant_out SetGrantStatus_out ReplaceButtons_out

lemmas outcomes_wf = store_outcomes [THEN conjunct1]

lemma store_step_wf: "store_step st st' \<Longrightarrow> wf_tables (db st) \<Longrightarrow> wf_tables (db st')"
proof (induction rule: store_step.induct)
  case (step_rename old new st r st')
  show ?case
  proof (cases "old = new")
    case False
    with step_rename show ?thesis using RenameClient_out by blast
  qed (use step_rename in \<open>simp add: store_RenameClient_def\<close>)
next
  case (step_insert_session s st r st')
  show ?case
    by (rule session_op_wf_tables [OF step_insert_session(2) session_ops_wf(1) [OF wf_tables_sessions [OF step_insert_session(2)] step_insert_session(1)]
          session_ops_only_sessions(1) [OF step_insert_session(1)]])
next
  case (step_touch i l e st r st')
  show ?case
    by (rule session_op_wf_tables [OF step_touch(2) session_ops_wf(2) [OF wf_tables_sessions [OF step_touch(2)] step_touch(1)]
          session_ops_only_sessions(2) [OF step_touch(1)]])
next
  case (step_delete_session i st r st')
  show ?case
    by (rule session_op_wf_tables [OF step_delete_session(2) session_ops_wf(3) [OF wf_tables_sessions [OF step_delete_session(2)] step_delete_session(1)]
          session_ops_only_sessions(3) [OF step_delete_session(1)]])
next
  case (step_delete_user u i st r st')
  show ?case
    by (rule session_op_wf_tables [OF step_delete_user(2) session_ops_wf(4) [OF wf_tables_sessions [OF step_delete_user(2)] step_delete_user(1)]
          session_ops_only_sessions(4) [OF step_delete_user(1)]])
next
  case (step_delete_others u i st r st')
  show ?case
    by (rule session_op_wf_tables [OF step_delete_others(2) session_ops_wf(5) [OF wf_tables_sessions [OF step_delete_others(2)] step_delete_others(1)]
          session_ops_only_sessions(5) [OF step_delete_others(1)]])
next
  case (step_delete_expired now st r st')
  show ?case
    by (rule session_op_wf_tables [OF step_delete_expired(2) session_ops_wf(6) [OF wf_tables_sessions [OF step_delete_expired(2)] step_delete_expired(1)]
          session_ops_only_sessions(6) [OF step_delete_expired(1)]])
qed ((rule outcomes_wf, assumption, assumption) | (drule read_ops_db ByTokenHash_db, simp))+

section \<open>Properties\<close>

text \<open>Property C36. The operations on children, against the map from ids to a name and a set of clients. CreateChild adds
  exactly one child under a fresh id with the given name and the normalised clients, when no other child has
  that name ignoring ASCII case; UpdateChild replaces exactly the named child's name and clients; DeleteChild
  removes exactly the given child, says whether it existed, and never a grant; AddChildClient maps the trimmed
  name to one child. Any error, injected driver failures included, changes no row, and without one the only
  errors are the refusals named.\<close>

theorem children_refine:
  assumes "wf_tables (db st)"
  shows "(case CreateChild now name cs st of (r, st') \<Rightarrow> wf_tables (db st') \<and>
      (case r of
         Inr c \<Rightarrow> \<not> name_taken 0 name (db st) \<and> abs_children (db st) (child_id c) = None \<and>
           abs_children (db st') = (abs_children (db st))(child_id c \<mapsto> (name, trim_space ` set cs - {[]})) \<and>
           child_name c = name \<and> child_clients c = normaliseClients cs
       | Inl e \<Rightarrow> db st' = db st \<and> (e = ErrNameTaken \<longrightarrow> name_taken 0 name (db st)) \<and>
           (faults st = [] \<longrightarrow> e = ErrNameTaken))) \<and>
    (case UpdateChild i name cs st of (r, st') \<Rightarrow> wf_tables (db st') \<and>
      (case r of
         Inr c \<Rightarrow> abs_children (db st) i \<noteq> None \<and> \<not> name_taken i name (db st) \<and>
           abs_children (db st') = (abs_children (db st))(i \<mapsto> (name, trim_space ` set cs - {[]})) \<and>
           c = \<lparr>child_id = i, child_name = name, child_clients = normaliseClients cs\<rparr>
       | Inl e \<Rightarrow> db st' = db st \<and> (e = ErrChildNotFound \<longrightarrow> abs_children (db st) i = None) \<and>
           (e = ErrNameTaken \<longrightarrow> name_taken i name (db st)) \<and>
           (faults st = [] \<longrightarrow> e \<in> {ErrChildNotFound, ErrNameTaken}))) \<and>
    (case DeleteChild i st of (r, st') \<Rightarrow> wf_tables (db st') \<and> abs_grants (db st') = abs_grants (db st) \<and>
      (case r of
         Inr b \<Rightarrow> abs_children (db st') = (abs_children (db st))(i := None) \<and>
           (b \<longleftrightarrow> abs_children (db st) i \<noteq> None) \<and>
           bt_id ` set (t_buttons (db st')) = bt_id ` {b \<in> set (t_buttons (db st)). bt_child b \<noteq> i}
       | Inl e \<Rightarrow> db st' = db st)) \<and>
    (case AddChildClient i name st of (r, st') \<Rightarrow> wf_tables (db st') \<and>
      (case r of
         Inr _ \<Rightarrow> trim_space name \<noteq> [] \<and>
           (\<exists>n cs. abs_children (db st) i = Some (n, cs) \<and>
              abs_children (db st') = (abs_children (db st))(i \<mapsto> (n, insert (trim_space name) cs)))
       | Inl e \<Rightarrow> db st' = db st))"
  using CreateChild_out [OF assms, of now name cs] UpdateChild_out [OF assms, of i name cs]
    DeleteChild_out [OF assms, of i] AddChildClient_out [OF assms, of i name]
  by (intro conjI; split prod.split; intro allI impI; assumption?) blast+

text \<open>Property C19. store.RenameClient: the mappings of every child and the stored clients of every active
  grant follow the rename as sets, grants that are over keep the old name, and the operation
  refuses (changing nothing) exactly when a child that does not map the old name maps the new
  one.\<close>

theorem RenameClient_refines:
  assumes wf: "wf_tables (db st)" and run: "store_RenameClient old new st = (r, st')" and ne: "old \<noteq> new"
  shows "wf_tables (db st') \<and>
    (case r of
       Inr _ \<Rightarrow> outsiders old new (db st) = [] \<and>
         (\<forall>i. abs_children (db st') i = map_option (\<lambda>(n, cs). (n, swap_name old new ` cs)) (abs_children (db st) i)) \<and>
         (\<forall>g. set (grant_clients_of (db st') g) =
            (if g \<in> set (active_grant_ids (db st)) then swap_name old new ` set (grant_clients_of (db st) g)
             else set (grant_clients_of (db st) g)))
     | Inl e \<Rightarrow> db st' = db st \<and>
         (\<forall>i n. e = ErrClientTaken new i n \<longrightarrow> (i, n) \<in> set (outsiders old new (db st))) \<and>
         (faults st = [] \<longrightarrow> (\<exists>i n. e = ErrClientTaken new i n)))"
  using assms by (rule RenameClient_out)

text \<open>Property C18. CreateGrant: an overlap names an active grant of the same child that holds the service; success
  adds exactly one active grant, with the normalised services and clients and times cut to the
  second; nothing else happens, and no error changes a row.\<close>

theorem CreateGrant_refines:
  assumes wf: "wf_tables (db st)" and run: "CreateGrant child ss cs a b st = (r, st')"
  shows "wf_tables (db st') \<and>
    (case r of
       Inr g \<Rightarrow> abs_grants (db st) (grant_id g) = None \<and>
         abs_grants (db st') = (abs_grants (db st))(grant_id g \<mapsto> g) \<and>
         g = \<lparr>grant_id = grant_id g, grant_child = child, grant_status = StatusActive,
              grant_services = normaliseClients ss, grant_clients = normaliseClients cs,
              started_at = of_unix (unix a), ends_at = of_unix (unix b)\<rparr>
     | Inl e \<Rightarrow> db st' = db st \<and>
         (\<forall>i s. e = ErrGrantOverlap i s \<longrightarrow> s \<in> set (normaliseClients ss) \<and>
            (\<exists>r \<in> set (t_grant_services (db st)). gs_active r \<and> gs_child r = child \<and> gs_service r = s \<and> gs_grant r = i)) \<and>
         (faults st = [] \<longrightarrow> (\<exists>i s. e = ErrGrantOverlap i s)))"
  using assms by (rule CreateGrant_out)

text \<open>Property C17. SetGrantStatus is a compare-and-set: it writes exactly when the grant has the expected status
  and says so, which is how two finishers of one grant never both win; nothing else changes, and
  moving a grant out of the active status fails only with the driver.\<close>

theorem SetGrantStatus_cas:
  assumes wf: "wf_tables (db st)" and run: "SetGrantStatus i a b at st = (r, st')"
  shows "wf_tables (db st') \<and>
    (case r of
       Inr True \<Rightarrow> (\<exists>g. abs_grants (db st) i = Some g \<and> grant_status g = a \<and>
         abs_grants (db st') = (abs_grants (db st))(i \<mapsto> g\<lparr>grant_status := b\<rparr>))
     | Inr False \<Rightarrow> db st' = db st \<and> (\<forall>g. abs_grants (db st) i = Some g \<longrightarrow> grant_status g \<noteq> a)
     | Inl _ \<Rightarrow> db st' = db st \<and> (b \<noteq> StatusActive \<longrightarrow> faults st \<noteq> []))"
  using assms by (rule SetGrantStatus_out)

text \<open>Property C33. ReplaceButtons is all or nothing: success stores exactly the given list in order, each item
  with a fresh id no button ever had, its services deduplicated in first-occurrence order and its
  duration in whole seconds, and reading back returns that list; an unknown child is named, and any
  error keeps the previous buttons.\<close>

theorem ReplaceButtons_refines:
  assumes wf: "wf_tables (db st)" and run: "ReplaceButtons bs st = (r, st')"
  shows "wf_tables (db st') \<and>
    (case r of
       Inr out \<Rightarrow> out = stored_from (t_button_seq (db st) + 1) bs \<and> loadButtons (db st') = out \<and>
         (\<forall>b \<in> set out. \<forall>b0 \<in> set (t_buttons (db st)). bt_id b0 < button_id b)
     | Inl e \<Rightarrow> db st' = db st \<and>
         (\<forall>i. e = ErrUnknownChild i \<longrightarrow> (\<exists>b \<in> set bs. button_child b = i) \<and> i \<notin> ch_id ` set (t_children (db st))) \<and>
         (faults st = [] \<longrightarrow> (\<exists>b \<in> set bs. \<not> storable (db st) b)))"
  using assms by (rule ReplaceButtons_out)

lemma live_grants_disjoint:
  assumes wf: "wf_grants t" and g: "g \<in> set (active_list t)" and g': "g' \<in> set (active_list t)"
    and c: "grant_child g = grant_child g'" and s: "s \<in> set (grant_services g)" "s \<in> set (grant_services g')"
  shows "g = g'"
proof -
  have row: "\<exists>r \<in> set (t_grant_services t). gs_grant r = grant_id x \<and> gs_service r = s \<and> gs_active r \<and> gs_child r = grant_child x"
    if x: "x \<in> set (active_list t)" "s \<in> set (grant_services x)" for x
  proof -
    have act: "abs_grants t (grant_id x) = Some x" "grant_status x = StatusActive"
      using x(1) unfolding set_active_list [OF wf] by simp_all
    obtain gr where gr: "gr \<in> set (t_grants t)" "gr_id gr = grant_id x" "x = view_grant t gr"
      using act(1) unfolding abs_grants_Some [OF wf] by blast
    have st: "gr_status gr = StatusActive" "gr_child gr = grant_child x"
      using act(2) by (simp_all add: gr(3))
    have "s \<in> set (grant_services_of t (gr_id gr))" using x(2) by (simp add: gr(3))
    then obtain r where r: "r \<in> set (t_grant_services t)" "gs_grant r = gr_id gr" "gs_service r = s"
      by (auto simp: grant_services_of_def)
    obtain h where h: "h \<in> set (t_grants t)" "service_matches h r" using wf r(1) by (auto simp: wf_grants_def)
    have "inj_on gr_id (set (t_grants t))" using wf by (simp add: wf_grants_def distinct_map)
    then have "h = gr" using h gr(1) r(2) by (simp add: inj_on_def service_matches_def)
    with h have "gs_active r" "gs_child r = grant_child x" using st by (simp_all add: service_matches_def)
    with r gr(2) show ?thesis by auto
  qed
  obtain r r' where r: "r \<in> set (t_grant_services t)" "gs_grant r = grant_id g" "gs_service r = s" "gs_active r" "gs_child r = grant_child g"
    and r': "r' \<in> set (t_grant_services t)" "gs_grant r' = grant_id g'" "gs_service r' = s" "gs_active r'" "gs_child r' = grant_child g'"
    using row [OF g s(1)] row [OF g' s(2)] by blast
  have "distinct (map (\<lambda>s. (gs_child s, gs_service s)) (filter gs_active (t_grant_services t)))"
    using wf by (simp add: wf_grants_def live_pairs_def)
  then have "r = r'" using r r' c by (auto simp: distinct_map inj_on_def)
  then have "grant_id g = grant_id g'" using r(2) r'(2) by simp
  moreover have "abs_grants t (grant_id g) = Some g" "abs_grants t (grant_id g') = Some g'"
    using g g' unfolding set_active_list [OF wf] by blast+
  ultimately have "Some g = Some g'" by metis
  then show ?thesis by (rule option.inject [THEN iffD1])
qed

text \<open>
  Property C8. In every state any sequence of operations can reach, whatever the driver failures, the tables
  are well-formed, and two active grants of one child never cover the same service: the partial
  unique index and the overlap check together keep what the engine relies on.
\<close>

theorem store_invariant:
  assumes "store_reachable st"
  shows "wf_tables (db st) \<and>
    (\<forall>g \<in> set (active_list (db st)). \<forall>g' \<in> set (active_list (db st)). \<forall>s.
       grant_child g = grant_child g' \<and> s \<in> set (grant_services g) \<and> s \<in> set (grant_services g') \<longrightarrow> g = g')"
proof -
  have wf: "wf_tables (db st)"
    using assms by induction (auto simp: wf_empty_tables dest: store_step_wf)
  then have "wf_grants (db st)" by (simp add: wf_tables_def)
  with wf show ?thesis using live_grants_disjoint by blast
qed

section \<open>The properties at concrete inputs\<close>

text \<open>Two children, one of them with an active grant and an ended one, and a button.\<close>

definition demo_tables :: tables where
  "demo_tables = \<lparr>
     t_children = [\<lparr>ch_id = 1, ch_name = ''Ann'', ch_created = 10\<rparr>, \<lparr>ch_id = 2, ch_name = ''Ben'', ch_created = 20\<rparr>],
     t_child_clients = [\<lparr>cc_client = ''phone'', cc_child = 1\<rparr>, \<lparr>cc_client = ''tv'', cc_child = 1\<rparr>, \<lparr>cc_client = ''tv'', cc_child = 2\<rparr>],
     t_grants = [\<lparr>gr_id = 1, gr_child = 1, gr_status = StatusEnded, gr_started = 0, gr_ends = 5, gr_ended = Some 4\<rparr>,
                 \<lparr>gr_id = 2, gr_child = 1, gr_status = StatusActive, gr_started = 50, gr_ends = 100, gr_ended = None\<rparr>],
     t_grant_services = [\<lparr>gs_grant = 1, gs_child = 1, gs_service = ''youtube'', gs_active = False\<rparr>,
                         \<lparr>gs_grant = 2, gs_child = 1, gs_service = ''youtube'', gs_active = True\<rparr>],
     t_grant_clients = [\<lparr>gc_grant = 1, gc_client = ''tv''\<rparr>, \<lparr>gc_grant = 2, gc_client = ''tv''\<rparr>],
     t_buttons = [\<lparr>bt_id = 7, bt_position = 0, bt_label = ''Tube'', bt_child = 1, bt_icon = None, bt_duration = 600\<rparr>],
     t_button_services = [\<lparr>bs_button = 7, bs_position = 0, bs_service = ''youtube''\<rparr>],
     t_button_seq = 7,
     t_sessions = []\<rparr>"

definition demo_store :: store where "demo_store = \<lparr>db = demo_tables, faults = []\<rparr>"

lemma demo_wf: "wf_tables (db demo_store)"
  by code_simp

theorem children_refine_witness:
  "(\<exists>st'. CreateChild 30 ''Cleo'' ['' pad ''] demo_store =
      (Inr \<lparr>child_id = 3, child_name = ''Cleo'', child_clients = [''pad'']\<rparr>, st') \<and>
      abs_children (db st') = (abs_children demo_tables)(3 \<mapsto> (''Cleo'', {''pad''}))) \<and>
   (\<exists>st'. UpdateChild 2 ''ANN'' [] demo_store = (Inl ErrNameTaken, st') \<and> db st' = demo_tables) \<and>
   (\<exists>st'. DeleteChild 1 demo_store = (Inr True, st') \<and> abs_children (db st') 1 = None \<and>
      abs_grants (db st') = abs_grants demo_tables)"
proof (intro conjI)
  have d: "db demo_store = demo_tables" by (simp add: demo_store_def)
  note all = children_refine [OF demo_wf, unfolded d]
  have "fst (CreateChild 30 ''Cleo'' ['' pad ''] demo_store) =
      Inr \<lparr>child_id = 3, child_name = ''Cleo'', child_clients = [''pad'']\<rparr>" "trim_space '' pad '' = ''pad''" by code_simp+
  then show "\<exists>st'. CreateChild 30 ''Cleo'' ['' pad ''] demo_store =
      (Inr \<lparr>child_id = 3, child_name = ''Cleo'', child_clients = [''pad'']\<rparr>, st') \<and>
      abs_children (db st') = (abs_children demo_tables)(3 \<mapsto> (''Cleo'', {''pad''}))"
    using all [where now = 30 and name = "''Cleo''" and cs = "['' pad '']"] by (cases "CreateChild 30 ''Cleo'' ['' pad ''] demo_store") auto
  have "fst (UpdateChild 2 ''ANN'' [] demo_store) = Inl ErrNameTaken" by code_simp
  then show "\<exists>st'. UpdateChild 2 ''ANN'' [] demo_store = (Inl ErrNameTaken, st') \<and> db st' = demo_tables"
    using all [where i = 2 and name = "''ANN''" and cs = "[]"] by (cases "UpdateChild 2 ''ANN'' [] demo_store") auto
  have "fst (DeleteChild 1 demo_store) = Inr True" by code_simp
  then show "\<exists>st'. DeleteChild 1 demo_store = (Inr True, st') \<and> abs_children (db st') 1 = None \<and>
      abs_grants (db st') = abs_grants demo_tables"
    using all [where i = 1] by (cases "DeleteChild 1 demo_store") auto
qed

theorem RenameClient_refines_witness:
  "\<exists>st'. store_RenameClient ''tv'' ''telly'' demo_store = (Inr (), st') \<and>
    abs_children (db st') 1 = Some (''Ann'', {''phone'', ''telly''}) \<and>
    set (grant_clients_of (db st') 1) = {''tv''} \<and> set (grant_clients_of (db st') 2) = {''telly''}"
proof -
  obtain r st' where run: "store_RenameClient ''tv'' ''telly'' demo_store = (r, st')" by fastforce
  moreover have "fst (store_RenameClient ''tv'' ''telly'' demo_store) = Inr ()" by code_simp
  moreover have "abs_children (db demo_store) 1 = Some (''Ann'', {''phone'', ''tv''})"
    "set (active_grant_ids (db demo_store)) = {2}"
    "set (grant_clients_of (db demo_store) 1) = {''tv''}" "set (grant_clients_of (db demo_store) 2) = {''tv''}"
    by code_simp+
  ultimately show ?thesis using RenameClient_refines [OF demo_wf run] by (simp add: swap_name_def)
qed

theorem CreateGrant_refines_witness:
  "\<exists>st'. CreateGrant 1 [''chess'', ''youtube''] [''tv''] 7 9 demo_store = (Inl (ErrGrantOverlap 2 ''youtube''), st') \<and>
    db st' = demo_tables"
proof -
  obtain r st' where run: "CreateGrant 1 [''chess'', ''youtube''] [''tv''] 7 9 demo_store = (r, st')" by fastforce
  moreover have "fst (CreateGrant 1 [''chess'', ''youtube''] [''tv''] 7 9 demo_store) = Inl (ErrGrantOverlap 2 ''youtube'')"
    by code_simp
  ultimately show ?thesis using CreateGrant_refines [OF demo_wf run] by (simp add: demo_store_def)
qed

theorem SetGrantStatus_cas_witness:
  "\<exists>st'. SetGrantStatus 2 StatusActive StatusExpired 9 demo_store = (Inr True, st') \<and>
    (\<exists>g. abs_grants (db st') 2 = Some g \<and> grant_status g = StatusExpired)"
proof -
  obtain r st' where run: "SetGrantStatus 2 StatusActive StatusExpired 9 demo_store = (r, st')" by fastforce
  moreover have "fst (SetGrantStatus 2 StatusActive StatusExpired 9 demo_store) = Inr True" by code_simp
  ultimately show ?thesis using SetGrantStatus_cas [OF demo_wf run] by auto
qed

definition demo_button :: button where
  "demo_button = \<lparr>button_id = 0, button_child = 1, button_label = ''B'', button_services = [''x'', ''a'', ''x''],
     button_icon = [], button_duration = 90500000000\<rparr>"

theorem ReplaceButtons_refines_witness:
  "\<exists>st'. ReplaceButtons [demo_button] demo_store =
      (Inr [demo_button\<lparr>button_id := 8, button_services := [''x'', ''a''], button_duration := 90000000000\<rparr>], st') \<and>
    loadButtons (db st') = [demo_button\<lparr>button_id := 8, button_services := [''x'', ''a''], button_duration := 90000000000\<rparr>]"
proof -
  obtain r st' where run: "ReplaceButtons [demo_button] demo_store = (r, st')" by fastforce
  moreover have "fst (ReplaceButtons [demo_button] demo_store) =
      Inr [demo_button\<lparr>button_id := 8, button_services := [''x'', ''a''], button_duration := 90000000000\<rparr>]" by code_simp
  ultimately show ?thesis using ReplaceButtons_refines [OF demo_wf run] by simp
qed

theorem store_invariant_witness:
  "\<exists>st. store_reachable st \<and> wf_tables (db st) \<and> t_children (db st) \<noteq> []"
proof -
  define st0 where "st0 = \<lparr>db = empty_tables, faults = []\<rparr>"
  obtain r st1 where run: "CreateChild 5 ''Ann'' [] st0 = (r, st1)" by fastforce
  have "store_reachable st1"
    by (rule store_reachable.step [OF store_reachable.init step_create_child [OF run]]) (simp add: st0_def)
  moreover have "t_children (db (snd (CreateChild 5 ''Ann'' [] \<lparr>db = empty_tables, faults = []\<rparr>))) \<noteq> []" by code_simp
  ultimately show ?thesis using store_invariant [of st1] run by (intro exI [of _ st1]) (simp add: st0_def)
qed

end
