(* ===== verification/EngineShared.thy ===== *)
theory EngineShared
  imports StoreGrants
begin

text \<open>
  The pure part of internal/grants: what may be re-blocked on a client when a grant ends
  (shared.go), and the list operations of clients.go and reconcile.go. Coverage is keyed on the
  clients stored on each grant.
\<close>

section \<open>Model\<close>

definition heldOpen :: "grant list \<Rightarrow> id \<Rightarrow> string \<Rightarrow> string list" where
  "heldOpen active exclude client =
     sort_compact (concat (map grant_services
       (filter (\<lambda>a. \<not> (grant_id a = exclude \<or> client \<notin> set (grant_clients a))) active)))"

text \<open>The inner loop of \<open>revertPlan\<close>: the services of the grant that nothing holds open.\<close>

fun pick_services :: "string list \<Rightarrow> string list \<Rightarrow> string list \<Rightarrow> string list" where
  "pick_services held svcs [] = svcs"
| "pick_services held svcs (s # ss) =
     pick_services held (if \<not> binary_search held s \<and> s \<notin> set svcs then svcs @ [s] else svcs) ss"

text \<open>The map the loop over the grant's clients fills in.\<close>

fun plan_loop :: "grant \<Rightarrow> grant list \<Rightarrow> (string \<Rightarrow> string list option) \<Rightarrow> string list \<Rightarrow> string \<Rightarrow> string list option" where
  "plan_loop g active plan [] = plan"
| "plan_loop g active plan (client # cs) =
     (let svcs = pick_services (heldOpen active (grant_id g) client) [] (grant_services g)
      in plan_loop g active (if svcs = [] then plan else plan(client \<mapsto> svcs)) cs)"

definition revertPlan :: "grant \<Rightarrow> grant list \<Rightarrow> string \<Rightarrow> string list option" where
  "revertPlan g active = plan_loop g active Map.empty (grant_clients g)"

definition without :: "string list \<Rightarrow> string list \<Rightarrow> string list" where
  "without base held = filter (\<lambda>s. \<not> binary_search held s) base"

definition intersect :: "string list \<Rightarrow> string list \<Rightarrow> string list" where
  "intersect want have_ids = filter (\<lambda>i. i \<in> set have_ids) want"

section \<open>What they compute\<close>

lemma heldOpen_set:
  "set (heldOpen active x client) =
     {s. \<exists>a \<in> set active. grant_id a \<noteq> x \<and> client \<in> set (grant_clients a) \<and> s \<in> set (grant_services a)}"
  by (auto simp: heldOpen_def)

lemma heldOpen_normal [simp]: "sorted (heldOpen active x client)" "distinct (heldOpen active x client)"
  by (simp_all add: heldOpen_def)

text \<open>The loop keeps the grant's order and takes each service once: a filtered, deduplicated list.\<close>

lemma pick_services_set:
  "sorted held \<Longrightarrow> set (pick_services held svcs ss) = set svcs \<union> (set ss - set held)"
  by (induction ss arbitrary: svcs) auto

lemma pick_services_distinct: "distinct svcs \<Longrightarrow> distinct (pick_services held svcs ss)"
  by (induction ss arbitrary: svcs) auto

lemma pick_services_distinct_input:
  "distinct ss \<Longrightarrow> set svcs \<inter> set ss = {} \<Longrightarrow> sorted held \<Longrightarrow>
     pick_services held svcs ss = svcs @ filter (\<lambda>s. s \<notin> set held) ss"
  by (induction ss arbitrary: svcs) auto

text \<open>Against a reference: what nothing holds open, each service once, in order of first occurrence.\<close>

lemma remdups_snoc: "remdups (xs @ [x]) = filter (\<lambda>y. y \<noteq> x) (remdups xs) @ [x]"
  by (induction xs) auto

lemma remdups_filter_rev: "rev (remdups (rev (x # xs))) = x # filter (\<lambda>y. y \<noteq> x) (rev (remdups (rev xs)))"
  by (simp add: remdups_snoc rev_filter)

lemma pick_services_reference:
  "sorted held \<Longrightarrow> pick_services held svcs ss =
     svcs @ filter (\<lambda>s. s \<notin> set svcs) (rev (remdups (rev (filter (\<lambda>s. s \<notin> set held) ss))))"
proof (induction ss arbitrary: svcs)
  case Nil
  then show ?case by simp
next
  case (Cons s ss)
  have "filter (\<lambda>x. x \<notin> set svcs) (filter (\<lambda>y. y \<noteq> s) xs) = filter (\<lambda>x. x \<notin> set (svcs @ [s])) xs" for xs
    by (simp add: conj_commute)
  with Cons show ?case
    by (cases "s \<in> set held"; cases "s \<in> set svcs") (simp_all add: remdups_filter_rev del: rev.simps filter_filter, (auto intro: filter_cong)?)
qed

lemma plan_loop_eq:
  "plan_loop g active plan cs n =
     (if n \<in> set cs \<and> pick_services (heldOpen active (grant_id g) n) [] (grant_services g) \<noteq> []
      then Some (pick_services (heldOpen active (grant_id g) n) [] (grant_services g)) else plan n)"
  by (induction g active plan cs rule: plan_loop.induct) (auto simp: Let_def)

lemma revertPlan_eq:
  "revertPlan g active n =
     (let svcs = pick_services (heldOpen active (grant_id g) n) [] (grant_services g)
      in if n \<in> set (grant_clients g) \<and> svcs \<noteq> [] then Some svcs else None)"
  by (simp add: revertPlan_def plan_loop_eq Let_def)

lemma revertPlan_Some:
  "revertPlan g active n = Some svcs \<Longrightarrow>
     set svcs = set (grant_services g) - set (heldOpen active (grant_id g) n) \<and> distinct svcs"
  by (auto simp: revertPlan_eq Let_def pick_services_set pick_services_distinct split: if_splits)

lemma revertPlan_None:
  "revertPlan g active n = None \<longleftrightarrow>
     n \<notin> set (grant_clients g) \<or> set (grant_services g) \<subseteq> set (heldOpen active (grant_id g) n)"
proof -
  have "pick_services h [] ss = [] \<longleftrightarrow> set ss \<subseteq> set h" if "sorted h" for h ss
    using pick_services_set [OF that, of "[]" ss] by (metis Diff_eq_empty_iff Un_empty_left set_empty)
  then show ?thesis by (auto simp: revertPlan_eq Let_def)
qed

lemma without_set: "sorted held \<Longrightarrow> set (without base held) = set base - set held"
  by (auto simp: without_def)

lemma intersect_set [simp]: "set (intersect want have_ids) = set want \<inter> set have_ids"
  by (auto simp: intersect_def)

end
