(* ===== verification/Engine.thy ===== *)
theory Engine
  imports EngineShared StoreChildren AdguardClients
begin

text \<open>
  internal/grants: the engine that writes to AdGuard Home on behalf of grants (grants.go,
  clients.go, rename.go, reconcile.go). Its two interfaces are records of functions, the store's
  over a state \<open>'s\<close> and AdGuard's over a state \<open>'w\<close>; a world holds both states, the armed timers,
  the closed flag and the clock. Every operation holds the engine's mutex from its first step
  to its last, so an operation is one function of the world.
\<close>

section \<open>Interfaces and state\<close>

record 's engine_store =
  es_CreateGrant :: "id \<Rightarrow> string list \<Rightarrow> string list \<Rightarrow> time \<Rightarrow> time \<Rightarrow> 's \<Rightarrow> (store_error + grant) \<times> 's"
  es_ListActiveGrants :: "'s \<Rightarrow> (store_error + grant list) \<times> 's"
  es_GetGrant :: "id \<Rightarrow> 's \<Rightarrow> (store_error + grant) \<times> 's"
  es_ExtendGrant :: "id \<Rightarrow> time \<Rightarrow> 's \<Rightarrow> (store_error + grant) \<times> 's"
  es_SetGrantStatus :: "id \<Rightarrow> grant_status \<Rightarrow> grant_status \<Rightarrow> time \<Rightarrow> 's \<Rightarrow> (store_error + bool) \<times> 's"
  es_GetChild :: "id \<Rightarrow> 's \<Rightarrow> (store_error + child) \<times> 's"
  es_ListChildren :: "'s \<Rightarrow> (store_error + child list) \<times> 's"
  es_AddChildClient :: "id \<Rightarrow> string \<Rightarrow> 's \<Rightarrow> (store_error + unit) \<times> 's"
  es_RenameClient :: "string \<Rightarrow> string \<Rightarrow> 's \<Rightarrow> (store_error + unit) \<times> 's"

record 'w engine_adguard =
  ea_Clients :: "'w \<Rightarrow> (ag_error + clients_result) \<times> 'w"
  ea_RemoveBlockedServices :: "string \<Rightarrow> string list \<Rightarrow> 'w \<Rightarrow> (ag_error + unit) \<times> 'w"
  ea_AddBlockedServices :: "string \<Rightarrow> string list \<Rightarrow> 'w \<Rightarrow> (ag_error + unit) \<times> 'w"
  ea_AddClient :: "new_client \<Rightarrow> 'w \<Rightarrow> (ag_error + unit) \<times> 'w"
  ea_AdoptBlockedServices :: "string \<Rightarrow> string list \<Rightarrow> 'w \<Rightarrow> (ag_error + unit) \<times> 'w"
  ea_RenameClient :: "string \<Rightarrow> string \<Rightarrow> 'w \<Rightarrow> (ag_error + unit) \<times> 'w"

record ('s, 'w) engine =
  e_store :: "'s engine_store"
  e_ag :: "'w engine_adguard"

text \<open>A timer is the instant it fires at; \<open>w_ticks\<close> are the clock's next readings.\<close>

record ('s, 'w) world =
  w_store :: 's
  w_ag :: 'w
  w_timers :: "id \<Rightarrow> time option"
  w_closed :: bool
  w_now :: time
  w_ticks :: "time list"

datatype engine_error =
    StoreErr store_error
  | AgErr ag_error
  | ErrRevertFailed "string list"
  | ErrAdoptFailed string ag_error
  | EndFailed store_error
  | NotAssigned string string store_error
  | RenameLost string string store_error ag_error
  | RenamedBack string string store_error
  | ReconcileList store_error
  | ReconcileRead ag_error

definition run_store :: "('s \<Rightarrow> 'r \<times> 's) \<Rightarrow> ('s, 'w) world \<Rightarrow> 'r \<times> ('s, 'w) world" where
  "run_store f w = (case f (w_store w) of (r, s) \<Rightarrow> (r, w\<lparr>w_store := s\<rparr>))"

definition run_ag :: "('w \<Rightarrow> 'r \<times> 'w) \<Rightarrow> ('s, 'w) world \<Rightarrow> 'r \<times> ('s, 'w) world" where
  "run_ag f w = (case f (w_ag w) of (r, a) \<Rightarrow> (r, w\<lparr>w_ag := a\<rparr>))"

text \<open>\<open>e.now()\<close>.\<close>

definition clock :: "('s, 'w) world \<Rightarrow> time \<times> ('s, 'w) world" where
  "clock w =
     (case w_ticks w of [] \<Rightarrow> (w_now w, w) | t # ts \<Rightarrow> (t, w\<lparr>w_now := t, w_ticks := ts\<rparr>))"

definition engine_New :: "'s \<Rightarrow> 'w \<Rightarrow> time \<Rightarrow> time list \<Rightarrow> ('s, 'w) world" where
  "engine_New s a now ticks =
     \<lparr>w_store = s, w_ag = a, w_timers = Map.empty, w_closed = False, w_now = now, w_ticks = ticks\<rparr>"

definition MinDuration :: duration where "MinDuration = minute"
definition MaxDuration :: duration where "MaxDuration = 24 * hour"

section \<open>Timers\<close>

definition stopTimer :: "id \<Rightarrow> ('s, 'w) world \<Rightarrow> ('s, 'w) world" where
  "stopTimer i w = w\<lparr>w_timers := (w_timers w)(i := None)\<rparr>"

definition arm :: "grant \<Rightarrow> ('s, 'w) world \<Rightarrow> ('s, 'w) world" where
  "arm g w =
     (let w1 = stopTimer (grant_id g) w
      in if w_closed w1 then w1
         else let (now, w2) = clock w1;
                  d = time_sub (ends_at g) now
              in w2\<lparr>w_timers := (w_timers w2)(grant_id g \<mapsto> now + (if d < 0 then 0 else d))\<rparr>)"

definition Close :: "('s, 'w) world \<Rightarrow> ('s, 'w) world" where
  "Close w = w\<lparr>w_closed := True, w_timers := Map.empty\<rparr>"

section \<open>Grants (grants.go)\<close>

definition engine_List :: "('s, 'w) engine \<Rightarrow> ('s, 'w) world \<Rightarrow> (store_error + grant list) \<times> ('s, 'w) world" where
  "engine_List e w = run_store (es_ListActiveGrants (e_store e)) w"

definition by_name :: "persistent_client list \<Rightarrow> string \<Rightarrow> persistent_client option" where
  "by_name pcs = map_of (rev (map (\<lambda>pc. (pc_name pc, pc)) pcs))"

text \<open>The loop of \<open>unblock\<close> over the stored clients; the names it could not unblock, in order.\<close>

fun unblock_loop ::
  "('s, 'w) engine \<Rightarrow> string list \<Rightarrow> (string \<Rightarrow> persistent_client option) \<Rightarrow> string list \<Rightarrow>
     ('s, 'w) world \<Rightarrow> string list \<times> ('s, 'w) world" where
  "unblock_loop e svcs bn [] w = ([], w)"
| "unblock_loop e svcs bn (name # names) w =
     (let (bad, w1) =
        (case bn name of
           None \<Rightarrow> (True, w)
         | Some pc \<Rightarrow>
             if pc_global pc then (True, w)
             else (case run_ag (ea_RemoveBlockedServices (e_ag e) name svcs) w of
                     (Inl _, w1) \<Rightarrow> (True, w1)
                   | (Inr _, w1) \<Rightarrow> (False, w1)));
          (failed, w2) = unblock_loop e svcs bn names w1
      in (if bad then name # failed else failed, w2))"

definition unblock :: "('s, 'w) engine \<Rightarrow> grant \<Rightarrow> ('s, 'w) world \<Rightarrow> string list \<times> ('s, 'w) world" where
  "unblock e g w =
     (case run_ag (ea_Clients (e_ag e)) w of
        (Inl _, w1) \<Rightarrow> (grant_clients g, w1)
      | (Inr res, w1) \<Rightarrow>
          unblock_loop e (grant_services g) (by_name (cr_persistent res)) (grant_clients g) w1)"

record create_result =
  cg_grant :: grant
  cg_applied :: bool
  cg_failed :: "string list"

definition Create ::
  "('s, 'w) engine \<Rightarrow> id \<Rightarrow> string list \<Rightarrow> string list \<Rightarrow> duration \<Rightarrow> ('s, 'w) world \<Rightarrow>
     (engine_error + create_result) \<times> ('s, 'w) world" where
  "Create e child services clients d w =
     (let (now, w0) = clock w
      in case run_store (es_CreateGrant (e_store e) child services clients now (now + d)) w0 of
           (Inl x, w1) \<Rightarrow> (Inl (StoreErr x), w1)
         | (Inr g, w1) \<Rightarrow>
             (let (failed, w2) = unblock e g w1;
                  w3 = arm g w2
              in (Inr \<lparr>cg_grant = g, cg_applied = (failed = []), cg_failed = failed\<rparr>, w3)))"

fun client_gone :: "ag_error \<Rightarrow> bool" where
  "client_gone (ErrClientNotFound _) = True"
| "client_gone _ = False"

text \<open>The loop of \<open>revert\<close>: the names that could not be re-blocked, and the calls issued.\<close>

fun revert_loop ::
  "('s, 'w) engine \<Rightarrow> (string \<Rightarrow> string list option) \<Rightarrow> string list \<Rightarrow> ('s, 'w) world \<Rightarrow>
     string list \<times> nat \<times> ('s, 'w) world" where
  "revert_loop e plan [] w = ([], 0, w)"
| "revert_loop e plan (name # names) w =
     (case plan name of
        None \<Rightarrow> revert_loop e plan names w
      | Some svcs \<Rightarrow>
          (let (r, w1) = run_ag (ea_AddBlockedServices (e_ag e) name svcs) w;
               bad = (case r of Inr _ \<Rightarrow> False | Inl x \<Rightarrow> \<not> client_gone x);
               (failed, writes, w2) = revert_loop e plan names w1
           in (if bad then name # failed else failed, writes + 1, w2)))"

definition revert ::
  "('s, 'w) engine \<Rightarrow> grant \<Rightarrow> ('s, 'w) world \<Rightarrow> string list \<times> nat \<times> ('s, 'w) world" where
  "revert e g w =
     (case run_store (es_ListActiveGrants (e_store e)) w of
        (Inl _, w1) \<Rightarrow> (grant_clients g, 0, w1)
      | (Inr active, w1) \<Rightarrow> revert_loop e (revertPlan g active) (grant_clients g) w1)"

definition expireLocked ::
  "('s, 'w) engine \<Rightarrow> grant \<Rightarrow> ('s, 'w) world \<Rightarrow> bool \<times> nat \<times> ('s, 'w) world" where
  "expireLocked e g w =
     (let (failed, writes, w1) = revert e g w
      in if failed \<noteq> [] then (False, writes, w1)
         else let (now, w2) = clock w1
              in case run_store (es_SetGrantStatus (e_store e) (grant_id g) StatusActive StatusExpired now) w2 of
                   (Inl _, w3) \<Rightarrow> (False, writes, w3)
                 | (Inr b, w3) \<Rightarrow> (b, writes, if b then stopTimer (grant_id g) w3 else w3))"

text \<open>The callback of a timer.\<close>

definition expire :: "('s, 'w) engine \<Rightarrow> id \<Rightarrow> ('s, 'w) world \<Rightarrow> ('s, 'w) world" where
  "expire e i w =
     (let w0 = w\<lparr>w_timers := (w_timers w)(i := None)\<rparr>
      in case run_store (es_GetGrant (e_store e) i) w0 of
           (Inl _, w1) \<Rightarrow> w1
         | (Inr g, w1) \<Rightarrow>
             if grant_status g \<noteq> StatusActive then w1
             else let (now, w2) = clock w1
                  in if now < ends_at g then arm g w2
                     else snd (snd (expireLocked e g w2)))"

definition Extend ::
  "('s, 'w) engine \<Rightarrow> id \<Rightarrow> duration \<Rightarrow> ('s, 'w) world \<Rightarrow> (engine_error + grant) \<times> ('s, 'w) world" where
  "Extend e i d w =
     (case run_store (es_GetGrant (e_store e) i) w of
        (Inl x, w1) \<Rightarrow> (Inl (StoreErr x), w1)
      | (Inr g, w1) \<Rightarrow>
          if grant_status g \<noteq> StatusActive then (Inl (StoreErr ErrGrantNotFound), w1)
          else (case run_store (es_ExtendGrant (e_store e) i (ends_at g + d)) w1 of
                  (Inl x, w2) \<Rightarrow> (Inl (StoreErr x), w2)
                | (Inr g', w2) \<Rightarrow> (Inr g', arm g' w2)))"

definition End ::
  "('s, 'w) engine \<Rightarrow> id \<Rightarrow> ('s, 'w) world \<Rightarrow> (engine_error + unit) \<times> ('s, 'w) world" where
  "End e i w =
     (case run_store (es_GetGrant (e_store e) i) w of
        (Inl x, w1) \<Rightarrow> (Inl (StoreErr x), w1)
      | (Inr g, w1) \<Rightarrow>
          if grant_status g \<noteq> StatusActive then (Inl (StoreErr ErrGrantNotFound), w1)
          else (let (failed, _, w2) = revert e g w1
                in if failed \<noteq> [] then (Inl (ErrRevertFailed failed), w2)
                   else let (now, w3) = clock w2
                        in case run_store (es_SetGrantStatus (e_store e) i StatusActive StatusEnded now) w3 of
                             (Inl x, w4) \<Rightarrow> (Inl (EndFailed x), w4)
                           | (Inr b, w4) \<Rightarrow>
                               if b then (Inr (), stopTimer i w4) else (Inl (StoreErr ErrGrantNotFound), w4)))"

section \<open>New and adopted clients (clients.go)\<close>

definition grant_covers :: "id \<Rightarrow> string list \<Rightarrow> grant \<Rightarrow> bool" where
  "grant_covers child known g \<longleftrightarrow>
     grant_child g = child \<or> (\<exists>s \<in> set known. s \<in> set (grant_clients g))"

text \<open>The baseline from what was read of AdGuard and of the store.\<close>

definition baseline_of :: "clients_result \<Rightarrow> id \<Rightarrow> string list \<Rightarrow> grant list \<Rightarrow> string list" where
  "baseline_of res child siblings grants =
     (let bn = by_name (cr_persistent res);
          known = filter (\<lambda>s. bn s \<noteq> None) siblings;
          own = concat (map (\<lambda>s. let pc = the (bn s)
                                 in if pc_global pc then cr_global res else pc_blocked pc) known);
          base = (if known = [] then own @ cr_global res else own)
      in sort_compact (base @ concat (map grant_services (filter (grant_covers child known) grants))))"

definition baselineFrom ::
  "('s, 'w) engine \<Rightarrow> clients_result \<Rightarrow> id \<Rightarrow> string list \<Rightarrow> ('s, 'w) world \<Rightarrow>
     (engine_error + string list \<times> grant list) \<times> ('s, 'w) world" where
  "baselineFrom e res child siblings w =
     (case run_store (es_ListActiveGrants (e_store e)) w of
        (Inl x, w1) \<Rightarrow> (Inl (StoreErr x), w1)
      | (Inr grants, w1) \<Rightarrow> (Inr (baseline_of res child siblings grants, grants), w1))"

definition baseline ::
  "('s, 'w) engine \<Rightarrow> id \<Rightarrow> string list \<Rightarrow> ('s, 'w) world \<Rightarrow> (engine_error + string list) \<times> ('s, 'w) world" where
  "baseline e child siblings w =
     (case run_ag (ea_Clients (e_ag e)) w of
        (Inl x, w1) \<Rightarrow> (Inl (AgErr x), w1)
      | (Inr res, w1) \<Rightarrow>
          (case baselineFrom e res child siblings w1 of
             (Inl x, w2) \<Rightarrow> (Inl x, w2)
           | (Inr (base, _), w2) \<Rightarrow> (Inr base, w2)))"

text \<open>\<open>CreateClient\<close> without a child, and with one.\<close>

definition CreateClient ::
  "('s, 'w) engine \<Rightarrow> string \<Rightarrow> string list \<Rightarrow> id option \<Rightarrow> ('s, 'w) world \<Rightarrow>
     (engine_error + unit) \<times> ('s, 'w) world" where
  "CreateClient e name ids childID w =
     (case childID of
        None \<Rightarrow>
          (case run_ag (ea_AddClient (e_ag e) \<lparr>nc_name = name, nc_ids = ids, nc_blocked = None\<rparr>) w of
             (Inl x, w1) \<Rightarrow> (Inl (AgErr x), w1)
           | (Inr _, w1) \<Rightarrow> (Inr (), w1))
      | Some i \<Rightarrow>
          (case run_store (es_GetChild (e_store e) i) w of
             (Inl x, w1) \<Rightarrow> (Inl (StoreErr x), w1)
           | (Inr child, w1) \<Rightarrow>
               (case baseline e (child_id child) (child_clients child) w1 of
                  (Inl x, w2) \<Rightarrow> (Inl x, w2)
                | (Inr base, w2) \<Rightarrow>
                    (case run_ag (ea_AddClient (e_ag e) \<lparr>nc_name = name, nc_ids = ids, nc_blocked = Some base\<rparr>) w2 of
                       (Inl x, w3) \<Rightarrow> (Inl (AgErr x), w3)
                     | (Inr _, w3) \<Rightarrow>
                         (case run_store (es_AddChildClient (e_store e) (child_id child) name) w3 of
                            (Inl x, w4) \<Rightarrow> (Inl (NotAssigned name (child_name child) x), w4)
                          | (Inr _, w4) \<Rightarrow> (Inr (), w4))))))"

text \<open>The loop of \<open>AdoptClients\<close> over the added clients.\<close>

fun adopt_loop ::
  "('s, 'w) engine \<Rightarrow> string list \<Rightarrow> grant list \<Rightarrow> (string \<Rightarrow> bool) \<Rightarrow> string list \<Rightarrow> ('s, 'w) world \<Rightarrow>
     (engine_error + unit) \<times> ('s, 'w) world" where
  "adopt_loop e base active known [] w = (Inr (), w)"
| "adopt_loop e base active known (name # names) w =
     (if \<not> known name then adopt_loop e base active known names w
      else case run_ag (ea_AdoptBlockedServices (e_ag e) name (without base (heldOpen active 0 name))) w of
             (Inr _, w1) \<Rightarrow> adopt_loop e base active known names w1
           | (Inl x, w1) \<Rightarrow>
               if client_gone x then adopt_loop e base active known names w1
               else (Inl (ErrAdoptFailed name x), w1))"

definition AdoptClients ::
  "('s, 'w) engine \<Rightarrow> id \<Rightarrow> string list \<Rightarrow> string list \<Rightarrow> ('s, 'w) world \<Rightarrow>
     (engine_error + unit) \<times> ('s, 'w) world" where
  "AdoptClients e child siblings added w =
     (if added = [] then (Inr (), w)
      else case run_ag (ea_Clients (e_ag e)) w of
             (Inl x, w1) \<Rightarrow> (Inl (AgErr x), w1)
           | (Inr res, w1) \<Rightarrow>
               (case baselineFrom e res child siblings w1 of
                  (Inl x, w2) \<Rightarrow> (Inl x, w2)
                | (Inr (base, active), w2) \<Rightarrow>
                    adopt_loop e base active (\<lambda>n. n \<in> pc_name ` set (cr_persistent res)) added w2))"

section \<open>Renaming (rename.go)\<close>

definition checkRename ::
  "('s, 'w) engine \<Rightarrow> string \<Rightarrow> string \<Rightarrow> ('s, 'w) world \<Rightarrow> (engine_error + unit) \<times> ('s, 'w) world" where
  "checkRename e old new w =
     (case run_store (es_ListChildren (e_store e)) w of
        (Inl x, w1) \<Rightarrow> (Inl (StoreErr x), w1)
      | (Inr children, w1) \<Rightarrow>
          (case find (\<lambda>c. new \<in> set (child_clients c) \<and> old \<notin> set (child_clients c)) children of
             Some c \<Rightarrow> (Inl (StoreErr (ErrClientTaken new (child_id c) (child_name c))), w1)
           | None \<Rightarrow> (Inr (), w1)))"

definition engine_RenameClient ::
  "('s, 'w) engine \<Rightarrow> string \<Rightarrow> string \<Rightarrow> ('s, 'w) world \<Rightarrow> (engine_error + unit) \<times> ('s, 'w) world" where
  "engine_RenameClient e old new w =
     (if old = new then (Inr (), w)
      else case checkRename e old new w of
             (Inl x, w1) \<Rightarrow> (Inl x, w1)
           | (Inr _, w1) \<Rightarrow>
               (case run_ag (ea_RenameClient (e_ag e) old new) w1 of
                  (Inl x, w2) \<Rightarrow> (Inl (AgErr x), w2)
                | (Inr _, w2) \<Rightarrow>
                    (case run_store (es_RenameClient (e_store e) old new) w2 of
                       (Inr _, w3) \<Rightarrow> (Inr (), w3)
                     | (Inl serr, w3) \<Rightarrow>
                         (case run_ag (ea_RenameClient (e_ag e) new old) w3 of
                            (Inl aerr, w4) \<Rightarrow> (Inl (RenameLost old new serr aerr), w4)
                          | (Inr _, w4) \<Rightarrow> (Inl (RenamedBack old new serr), w4)))))"

section \<open>Reconciling (reconcile.go)\<close>

record stats =
  rs_grants :: nat
  rs_reverted :: nat
  rs_repaired :: nat
  rs_writes :: nat

text \<open>One live grant: its clients in order, re-unblocked where a granted service reappeared.\<close>

fun repair_loop ::
  "('s, 'w) engine \<Rightarrow> (string \<Rightarrow> persistent_client option) \<Rightarrow> string list \<Rightarrow> string list \<Rightarrow>
     stats \<Rightarrow> ('s, 'w) world \<Rightarrow> stats \<times> ('s, 'w) world" where
  "repair_loop e bn svcs [] st w = (st, w)"
| "repair_loop e bn svcs (name # names) st w =
     (case bn name of
        None \<Rightarrow> repair_loop e bn svcs names st w
      | Some pc \<Rightarrow>
          if pc_global pc then repair_loop e bn svcs names st w
          else let drifted = intersect svcs (pc_blocked pc)
               in if drifted = [] then repair_loop e bn svcs names st w
                  else let st1 = st\<lparr>rs_writes := rs_writes st + 1\<rparr>
                       in case run_ag (ea_RemoveBlockedServices (e_ag e) name drifted) w of
                            (Inl _, w1) \<Rightarrow> repair_loop e bn svcs names st1 w1
                          | (Inr _, w1) \<Rightarrow>
                              repair_loop e bn svcs names (st1\<lparr>rs_repaired := rs_repaired st1 + 1\<rparr>) w1)"

definition reconcile_grant ::
  "('s, 'w) engine \<Rightarrow> (string \<Rightarrow> persistent_client option) \<Rightarrow> time \<Rightarrow> grant \<Rightarrow> stats \<Rightarrow> ('s, 'w) world \<Rightarrow>
     stats \<times> ('s, 'w) world" where
  "reconcile_grant e bn now g st w =
     (if \<not> now < ends_at g
      then (case expireLocked e g w of
              (expired, writes, w1) \<Rightarrow>
                (st\<lparr>rs_writes := rs_writes st + writes,
                    rs_reverted := rs_reverted st + (if expired then 1 else 0)\<rparr>, w1))
      else (case repair_loop e bn (grant_services g) (grant_clients g) st w of
              (st1, w1) \<Rightarrow> (st1, if w_timers w1 (grant_id g) = None then arm g w1 else w1)))"

fun reconcile_loop ::
  "('s, 'w) engine \<Rightarrow> (string \<Rightarrow> persistent_client option) \<Rightarrow> time \<Rightarrow> grant list \<Rightarrow> stats \<Rightarrow> ('s, 'w) world \<Rightarrow>
     stats \<times> ('s, 'w) world" where
  "reconcile_loop e bn now [] st w = (st, w)"
| "reconcile_loop e bn now (g # gs) st w =
     (case reconcile_grant e bn now g st w of (st1, w1) \<Rightarrow> reconcile_loop e bn now gs st1 w1)"

definition Reconcile ::
  "('s, 'w) engine \<Rightarrow> ('s, 'w) world \<Rightarrow> (engine_error + stats) \<times> ('s, 'w) world" where
  "Reconcile e w =
     (case run_store (es_ListActiveGrants (e_store e)) w of
        (Inl x, w1) \<Rightarrow> (Inl (ReconcileList x), w1)
      | (Inr grants, w1) \<Rightarrow>
          (let st = \<lparr>rs_grants = length grants, rs_reverted = 0, rs_repaired = 0, rs_writes = 0\<rparr>
           in if grants = [] then (Inr st, w1)
              else case run_ag (ea_Clients (e_ag e)) w1 of
                     (Inl x, w2) \<Rightarrow> (Inl (ReconcileRead x), w2)
                   | (Inr res, w2) \<Rightarrow>
                       (let (now, w3) = clock w2;
                            (st', w4) = reconcile_loop e (by_name (cr_persistent res)) now grants st w3
                        in (Inr st', w4))))"

definition Start :: "('s, 'w) engine \<Rightarrow> ('s, 'w) world \<Rightarrow> (engine_error + unit) \<times> ('s, 'w) world" where
  "Start e w = (case Reconcile e w of (Inl x, w1) \<Rightarrow> (Inl x, w1) | (Inr _, w1) \<Rightarrow> (Inr (), w1))"

text \<open>\<open>Run\<close>: the passes of \<open>n\<close> ticks of its timer.\<close>

fun Run :: "('s, 'w) engine \<Rightarrow> nat \<Rightarrow> ('s, 'w) world \<Rightarrow> ('s, 'w) world" where
  "Run e 0 w = w"
| "Run e (Suc n) w = Run e n (snd (Reconcile e w))"

end
