(* ===== verification/EngineContract.thy ===== *)
theory EngineContract
  imports Engine AdguardView
begin

text \<open>
  What the engine relies on: the locale \<open>grant_store\<close> for its Store interface (a map of grants
  and a map of children), \<open>blocklist_server\<close> for its AdGuard interface (the lists of each client),
  and the effect of every operation on both maps, proved once against the two. What fails may
  fail at any call; a failed AdGuard write may or may not have been applied.
\<close>

section \<open>The two interfaces\<close>

locale grant_store =
  fixes ES :: "'s engine_store" and okS :: "'s \<Rightarrow> bool" and gv :: "'s \<Rightarrow> id \<Rightarrow> grant option"
    and cv :: "'s \<Rightarrow> id \<Rightarrow> (string \<times> string set) option" and upS :: "'s \<Rightarrow> bool"
  assumes grant_ids: "okS s \<Longrightarrow> gv s i = Some g \<Longrightarrow> grant_id g = i \<and> 0 < i"
    and list_active: "okS s \<Longrightarrow> es_ListActiveGrants ES s = (rl, s') \<Longrightarrow>
      okS s' \<and> gv s' = gv s \<and> cv s' = cv s \<and> (\<forall>gs. rl = Inr gs \<longrightarrow> distinct (map grant_id gs) \<and>
        (\<forall>g. g \<in> set gs \<longleftrightarrow> gv s (grant_id g) = Some g \<and> grant_status g = StatusActive))"
    and get_grant: "okS s \<Longrightarrow> es_GetGrant ES i s = (rg, s') \<Longrightarrow>
      okS s' \<and> gv s' = gv s \<and> cv s' = cv s \<and> (\<forall>g. rg = Inr g \<longrightarrow> gv s i = Some g)"
    and create_grant: "okS s \<Longrightarrow> es_CreateGrant ES child ss cs a b s = (rc, s') \<Longrightarrow>
      okS s' \<and> cv s' = cv s \<and> (\<forall>x. rc = Inl x \<longrightarrow> gv s' = gv s) \<and>
      (\<forall>g. rc = Inr g \<longrightarrow> gv s (grant_id g) = None \<and> gv s' = (gv s)(grant_id g \<mapsto> g) \<and>
         grant_child g = child \<and> grant_status g = StatusActive \<and> grant_services g = normaliseClients ss \<and>
         grant_clients g = normaliseClients cs \<and> ends_at g = of_unix (unix b))"
    and extend_grant: "okS s \<Longrightarrow> es_ExtendGrant ES i b s = (re, s') \<Longrightarrow>
      okS s' \<and> cv s' = cv s \<and> (\<forall>x. re = Inl x \<longrightarrow> gv s' = gv s) \<and>
      (\<forall>g'. re = Inr g' \<longrightarrow> (\<exists>g. gv s i = Some g \<and> grant_status g = StatusActive \<and>
         g' = g\<lparr>ends_at := of_unix (unix b)\<rparr> \<and> gv s' = (gv s)(i \<mapsto> g')))"
    and set_status: "okS s \<Longrightarrow> es_SetGrantStatus ES i x y at s = (rs, s') \<Longrightarrow>
      okS s' \<and> cv s' = cv s \<and> (rs \<noteq> Inr True \<longrightarrow> gv s' = gv s) \<and>
      (rs = Inr True \<longrightarrow> (\<exists>g. gv s i = Some g \<and> grant_status g = x \<and> gv s' = (gv s)(i \<mapsto> g\<lparr>grant_status := y\<rparr>))) \<and>
      (rs = Inr False \<longrightarrow> (\<forall>g. gv s i = Some g \<longrightarrow> grant_status g \<noteq> x))"
    and get_child: "okS s \<Longrightarrow> es_GetChild ES i s = (rk, s') \<Longrightarrow>
      okS s' \<and> gv s' = gv s \<and> cv s' = cv s \<and>
      (\<forall>c. rk = Inr c \<longrightarrow> child_id c = i \<and> cv s i = Some (child_name c, set (child_clients c)))"
    and list_children: "okS s \<Longrightarrow> es_ListChildren ES s = (rks, s') \<Longrightarrow>
      okS s' \<and> gv s' = gv s \<and> cv s' = cv s \<and>
      (\<forall>cs i n K. rks = Inr cs \<longrightarrow> (cv s i = Some (n, K) \<longleftrightarrow>
         (\<exists>c \<in> set cs. child_id c = i \<and> child_name c = n \<and> set (child_clients c) = K)))"
    and add_child_client: "okS s \<Longrightarrow> es_AddChildClient ES i n s = (ru, s') \<Longrightarrow>
      okS s' \<and> gv s' = gv s \<and> (\<forall>x. ru = Inl x \<longrightarrow> cv s' = cv s) \<and>
      (\<forall>u. ru = Inr u \<longrightarrow> (\<exists>m K. cv s i = Some (m, K) \<and> cv s' = (cv s)(i \<mapsto> (m, insert (trim_space n) K))))"
    and rename_client: "okS s \<Longrightarrow> old \<noteq> new \<Longrightarrow> es_RenameClient ES old new s = (rn, s') \<Longrightarrow>
      okS s' \<and> (\<forall>x. rn = Inl x \<longrightarrow> gv s' = gv s \<and> cv s' = cv s) \<and>
      (\<forall>u. rn = Inr u \<longrightarrow>
         (\<forall>i. cv s' i = map_option (apsnd ((`) (swap_name old new))) (cv s i)) \<and>
         (\<forall>i. gv s i = None \<longrightarrow> gv s' i = None) \<and>
         (\<forall>i g. gv s i = Some g \<longrightarrow> (\<exists>g'. gv s' i = Some g' \<and> grant_status g' = grant_status g \<and>
            grant_services g' = grant_services g \<and> grant_child g' = grant_child g \<and> ends_at g' = ends_at g \<and>
            set (grant_clients g') = (if grant_status g = StatusActive then swap_name old new ` set (grant_clients g)
                                      else set (grant_clients g)))))"
    and up_list_active: "okS s \<Longrightarrow> upS s \<Longrightarrow> es_ListActiveGrants ES s = (rl, s') \<Longrightarrow> is_ok rl \<and> upS s'"
    and up_get_grant: "okS s \<Longrightarrow> upS s \<Longrightarrow> gv s i \<noteq> None \<Longrightarrow> es_GetGrant ES i s = (rg, s') \<Longrightarrow> is_ok rg \<and> upS s'"
    and up_set_status: "okS s \<Longrightarrow> upS s \<Longrightarrow> es_SetGrantStatus ES i x y at s = (rs, s') \<Longrightarrow> y \<noteq> StatusActive \<Longrightarrow>
      is_ok rs \<and> upS s'"

locale blocklist_server =
  fixes AG :: "'w engine_adguard" and okW :: "'w \<Rightarrow> bool" and view :: "'w \<Rightarrow> lists"
    and glob :: "'w \<Rightarrow> string set" and upW :: "'w \<Rightarrow> bool"
  assumes clients: "okW a \<Longrightarrow> ea_Clients AG a = (rl, a') \<Longrightarrow>
      okW a' \<and> view a' = view a \<and> glob a' = glob a \<and>
      (\<forall>res. rl = Inr res \<longrightarrow> set (cr_global res) = glob a \<and>
         (\<forall>n. view a n = map_option (\<lambda>pc. (pc_global pc, set (pc_blocked pc))) (by_name (cr_persistent res) n)))"
    and remove: "okW a \<Longrightarrow> ea_RemoveBlockedServices AG n ids a = (rr, a') \<Longrightarrow>
      okW a' \<and> glob a' = glob a \<and> (view a' = view a \<or> edited n (apsnd (\<lambda>b. b - set ids)) (view a) (view a')) \<and>
      (is_ok rr \<longrightarrow> edited n (apsnd (\<lambda>b. b - set ids)) (view a) (view a'))"
    and add: "okW a \<Longrightarrow> ea_AddBlockedServices AG n ids a = (ra, a') \<Longrightarrow>
      okW a' \<and> glob a' = glob a \<and> (view a' = view a \<or> edited n (apsnd (\<lambda>b. b \<union> set ids)) (view a) (view a')) \<and>
      (is_ok ra \<longrightarrow> edited n (apsnd (\<lambda>b. b \<union> set ids)) (view a) (view a')) \<and>
      (\<forall>x. ra = Inl x \<and> client_gone x \<longrightarrow> view a n = None \<and> view a' = view a)"
    and adopt: "okW a \<Longrightarrow> ea_AdoptBlockedServices AG n ids a = (rd, a') \<Longrightarrow>
      okW a' \<and> glob a' = glob a \<and>
      (view a' = view a \<or> edited n (\<lambda>(i, b). (False, (if i then glob a else b) \<union> set ids)) (view a) (view a')) \<and>
      (is_ok rd \<longrightarrow> edited n (\<lambda>(i, b). (False, (if i then glob a else b) \<union> set ids)) (view a) (view a')) \<and>
      (\<forall>x. rd = Inl x \<and> client_gone x \<longrightarrow> view a n = None \<and> view a' = view a)"
    and add_client: "okW a \<Longrightarrow> ea_AddClient AG nc a = (rc, a') \<Longrightarrow>
      okW a' \<and> glob a' = glob a \<and> (view a' = view a \<and> \<not> is_ok rc \<or> view a (nc_name nc) = None \<and>
        view a' = (view a)(nc_name nc \<mapsto> (nc_blocked nc = None, case nc_blocked nc of None \<Rightarrow> {} | Some b \<Rightarrow> set b)))"
    and rename: "okW a \<Longrightarrow> old \<noteq> new \<Longrightarrow> ea_RenameClient AG old new a = (rn, a') \<Longrightarrow>
      okW a' \<and> glob a' = glob a \<and> (view a' = view a \<and> \<not> is_ok rn \<or>
        (\<exists>x. view a old = Some x \<and> view a new = None \<and> view a' = (view a)(old := None, new \<mapsto> x)))"
    and up_clients: "okW a \<Longrightarrow> upW a \<Longrightarrow> ea_Clients AG a = (rl, a') \<Longrightarrow> is_ok rl \<and> upW a'"
    and up_remove: "okW a \<Longrightarrow> upW a \<Longrightarrow> view a n \<noteq> None \<Longrightarrow> ea_RemoveBlockedServices AG n ids a = (rr, a') \<Longrightarrow> is_ok rr \<and> upW a'"
    and up_add: "okW a \<Longrightarrow> upW a \<Longrightarrow> ea_AddBlockedServices AG n ids a = (ra, a') \<Longrightarrow>
      (case ra of Inl x \<Rightarrow> client_gone x | Inr _ \<Rightarrow> True) \<and> upW a'"

section \<open>Ledger\<close>

text \<open>
  The services an active grant holds open on a client, and the state in which nothing is
  forgotten: \<open>base n\<close>, what the parents want blocked on the client \<open>n\<close>, is blocked there (by the
  global list when the client inherits it) or held open by an active grant.
\<close>

definition covered :: "(id \<Rightarrow> grant option) \<Rightarrow> string \<Rightarrow> string set" where
  "covered G n = {s. \<exists>i g. G i = Some g \<and> grant_status g = StatusActive \<and> n \<in> set (grant_clients g) \<and>
     s \<in> set (grant_services g)}"

definition held_by_others :: "(id \<Rightarrow> grant option) \<Rightarrow> id \<Rightarrow> string \<Rightarrow> string set" where
  "held_by_others G x n = {s. \<exists>i g. G i = Some g \<and> i \<noteq> x \<and> grant_status g = StatusActive \<and>
     n \<in> set (grant_clients g) \<and> s \<in> set (grant_services g)}"

definition ledger :: "(string \<Rightarrow> string set) \<Rightarrow> string set \<Rightarrow> lists \<Rightarrow> (id \<Rightarrow> grant option) \<Rightarrow> bool" where
  "ledger base gl V G \<longleftrightarrow>
     (\<forall>n i b. V n = Some (i, b) \<longrightarrow> base n \<subseteq> (if i then gl else b \<union> covered G n))"

text \<open>Lists that only lost, or only gained, services; whether a client inherits is as it was.\<close>

definition shrunk :: "(string \<Rightarrow> string set) \<Rightarrow> lists \<Rightarrow> lists \<Rightarrow> bool" where
  "shrunk lost V V' \<longleftrightarrow> (\<forall>n. rel_option (\<lambda>(i, b) (i', b'). i' = i \<and> b' \<subseteq> b \<and> b \<subseteq> b' \<union> lost n) (V n) (V' n))"

definition grown :: "(string \<Rightarrow> string set) \<Rightarrow> lists \<Rightarrow> lists \<Rightarrow> bool" where
  "grown gain V V' \<longleftrightarrow> (\<forall>n. rel_option (\<lambda>(i, b) (i', b'). i' = i \<and> b \<subseteq> b' \<and> b' \<subseteq> b \<union> gain n) (V n) (V' n))"

lemma shrunk_refl [simp]: "shrunk lost V V"
  by (auto simp: shrunk_def option_rel_Some1 split: option.splits intro!: option.rel_refl)

lemma grown_refl [simp]: "grown gain V V"
  by (auto simp: grown_def intro!: option.rel_refl)

lemma shrunk_Some: "shrunk lost V V' \<Longrightarrow> V n = Some (i, b) \<Longrightarrow> \<exists>b'. V' n = Some (i, b') \<and> b' \<subseteq> b \<and> b \<subseteq> b' \<union> lost n"
  by (auto simp: shrunk_def option_rel_Some1 dest!: spec [of _ n])

lemma shrunk_Some': "shrunk lost V V' \<Longrightarrow> V' n = Some (i, b') \<Longrightarrow> \<exists>b. V n = Some (i, b) \<and> b' \<subseteq> b \<and> b \<subseteq> b' \<union> lost n"
  by (auto simp: shrunk_def option_rel_Some2 dest!: spec [of _ n])

lemma shrunk_None: "shrunk lost V V' \<Longrightarrow> V' n = None \<longleftrightarrow> V n = None"
  by (cases "V n"; cases "V' n") (auto simp: shrunk_def dest!: spec [of _ n])

lemma grown_Some: "grown gain V V' \<Longrightarrow> V n = Some (i, b) \<Longrightarrow> \<exists>b'. V' n = Some (i, b') \<and> b \<subseteq> b' \<and> b' \<subseteq> b \<union> gain n"
  by (auto simp: grown_def option_rel_Some1 dest!: spec [of _ n])

lemma grown_Some': "grown gain V V' \<Longrightarrow> V' n = Some (i, b') \<Longrightarrow> \<exists>b. V n = Some (i, b) \<and> b \<subseteq> b' \<and> b' \<subseteq> b \<union> gain n"
  by (auto simp: grown_def option_rel_Some2 dest!: spec [of _ n])

lemma grown_None: "grown gain V V' \<Longrightarrow> V' n = None \<longleftrightarrow> V n = None"
  by (cases "V n"; cases "V' n") (auto simp: grown_def dest!: spec [of _ n])

lemma shrunk_trans:
  assumes "shrunk lost V V1" "shrunk lost V1 V2"
  shows "shrunk lost V V2"
  unfolding shrunk_def
proof
  fix n
  show "rel_option (\<lambda>(i, b) (i', b'). i' = i \<and> b' \<subseteq> b \<and> b \<subseteq> b' \<union> lost n) (V n) (V2 n)"
    using assms [unfolded shrunk_def, THEN spec, of n] by (auto elim!: option.rel_cases) blast+
qed

lemma grown_trans:
  assumes "grown gain V V1" "grown gain V1 V2"
  shows "grown gain V V2"
  unfolding grown_def
proof
  fix n
  show "rel_option (\<lambda>(i, b) (i', b'). i' = i \<and> b \<subseteq> b' \<and> b' \<subseteq> b \<union> gain n) (V n) (V2 n)"
    using assms [unfolded grown_def, THEN spec, of n] by (auto elim!: option.rel_cases) blast+
qed

lemma shrunk_mono: "shrunk lost V V' \<Longrightarrow> (\<And>n. lost n \<subseteq> lost' n) \<Longrightarrow> shrunk lost' V V'"
  unfolding shrunk_def by (intro allI, drule_tac x = n in spec) (auto elim!: option.rel_cases, blast)

lemma grown_mono: "grown gain V V' \<Longrightarrow> (\<And>n. gain n \<subseteq> gain' n) \<Longrightarrow> grown gain' V V'"
  unfolding grown_def by (intro allI, drule_tac x = n in spec) (auto elim!: option.rel_cases, blast)

lemma edited_shrunk: "edited n (apsnd (\<lambda>b. b - D)) V V' \<Longrightarrow> D \<subseteq> lost n \<Longrightarrow> shrunk lost V V'"
  by (auto simp: edited_def shrunk_def intro!: option.rel_refl split: option.splits)
     (auto simp: option.rel_map intro!: option.rel_refl)

lemma edited_grown: "edited n (apsnd (\<lambda>b. b \<union> D)) V V' \<Longrightarrow> D \<subseteq> gain n \<Longrightarrow> grown gain V V'"
  by (auto simp: edited_def grown_def intro!: option.rel_refl split: option.splits)
     (auto simp: option.rel_map intro!: option.rel_refl)

text \<open>What keeps the ledger.\<close>

lemma ledger_shrunk:
  assumes "ledger base gl V G" "shrunk lost V V'" "\<And>n. lost n \<subseteq> covered G n"
  shows "ledger base gl V' G"
  unfolding ledger_def
proof (intro allI impI)
  fix n i b'
  assume "V' n = Some (i, b')"
  then obtain b where b: "V n = Some (i, b)" "b \<subseteq> b' \<union> lost n" using shrunk_Some' [OF assms(2)] by blast
  with assms(1) have "base n \<subseteq> (if i then gl else b \<union> covered G n)" by (simp add: ledger_def)
  with b(2) assms(3) [of n] show "base n \<subseteq> (if i then gl else b' \<union> covered G n)"
    by (auto split: if_splits)
qed

lemma ledger_grown:
  assumes "ledger base gl V G" "grown gain V V'"
  shows "ledger base gl V' G"
  unfolding ledger_def
proof (intro allI impI)
  fix n i b'
  assume "V' n = Some (i, b')"
  then obtain b where b: "V n = Some (i, b)" "b \<subseteq> b'" using grown_Some' [OF assms(2)] by blast
  with assms(1) have "base n \<subseteq> (if i then gl else b \<union> covered G n)" by (simp add: ledger_def)
  with b(2) show "base n \<subseteq> (if i then gl else b' \<union> covered G n)" by (auto split: if_splits)
qed

lemma ledger_cover_mono:
  assumes "ledger base gl V G" "\<And>n. covered G n \<subseteq> covered G' n"
  shows "ledger base gl V G'"
  unfolding ledger_def
proof (intro allI impI)
  fix n i b
  assume "V n = Some (i, b)"
  with assms(1) have "base n \<subseteq> (if i then gl else b \<union> covered G n)" by (simp add: ledger_def)
  with assms(2) [of n] show "base n \<subseteq> (if i then gl else b \<union> covered G' n)" by (auto split: if_splits)
qed

text \<open>Closing a grant whose services are blocked again wherever no other active grant holds them.\<close>

lemma covered_closed:
  assumes "G i = Some g" "st \<noteq> StatusActive"
  shows "covered G n \<subseteq> covered (G(i \<mapsto> g\<lparr>grant_status := st\<rparr>)) n \<union>
    (if n \<in> set (grant_clients g) then set (grant_services g) - held_by_others G i n else {})"
proof
  fix s
  assume "s \<in> covered G n"
  then obtain j h where h: "G j = Some h" "grant_status h = StatusActive" "n \<in> set (grant_clients h)"
    "s \<in> set (grant_services h)" by (auto simp: covered_def)
  have other: "s \<in> covered (G(i \<mapsto> g\<lparr>grant_status := st\<rparr>)) n"
    if "G k = Some h'" "k \<noteq> i" "grant_status h' = StatusActive" "n \<in> set (grant_clients h')"
      "s \<in> set (grant_services h')" for k h'
    unfolding covered_def using that by (intro CollectI exI [of _ k] exI [of _ h']) simp
  show "s \<in> covered (G(i \<mapsto> g\<lparr>grant_status := st\<rparr>)) n \<union>
    (if n \<in> set (grant_clients g) then set (grant_services g) - held_by_others G i n else {})"
  proof (cases "j = i")
    case False
    with other h show ?thesis by blast
  next
    case True
    with h(1) assms(1) have "h = g" by simp
    with h other show ?thesis by (auto simp: held_by_others_def)
  qed
qed

lemma ledger_closed:
  assumes "ledger base gl V G" "G i = Some g" "st \<noteq> StatusActive"
    "\<And>n j b. n \<in> set (grant_clients g) \<Longrightarrow> V n = Some (j, b) \<Longrightarrow> set (grant_services g) - held_by_others G i n \<subseteq> b"
  shows "ledger base gl V (G(i \<mapsto> g\<lparr>grant_status := st\<rparr>))"
  unfolding ledger_def
proof (intro allI impI)
  fix n j b
  assume V: "V n = Some (j, b)"
  with assms(1) have "base n \<subseteq> (if j then gl else b \<union> covered G n)" by (simp add: ledger_def)
  with covered_closed [of G i g st n, OF assms(2,3)] assms(4) [OF _ V]
  show "base n \<subseteq> (if j then gl else b \<union> covered (G(i \<mapsto> g\<lparr>grant_status := st\<rparr>)) n)"
    by (auto split: if_splits)
qed

lemma ledger_adopted:
  assumes "ledger base gl V G" "edited n (\<lambda>(i, b). (False, (if i then gl else b) \<union> ids)) V V'"
  shows "ledger base gl V' G"
  using assms unfolding ledger_def edited_def by (auto split: if_splits prod.splits) blast

end
