(* ===== verification/EngineOps.thy ===== *)
theory EngineOps
  imports EngineContract
begin

text \<open>
  What each engine operation does to the grants and to the lists of the clients, in the locale
  \<open>engine_env\<close> of the two contracts: the writes of a grant stay within its services and its
  stored clients, the ledger is kept on every path, and under \<open>up\<close> a reconcile pass converges.
\<close>

section \<open>Timers and calls\<close>

text \<open>The parts of a world an operation's proof speaks of, and worlds that agree on them.\<close>

definition agree :: "('s, 'w) world \<Rightarrow> ('s, 'w) world \<Rightarrow> bool" where
  "agree w w' \<longleftrightarrow> w_store w' = w_store w \<and> w_ag w' = w_ag w \<and> w_closed w' = w_closed w"

lemma clock_agree: "clock w = (t, w') \<Longrightarrow> agree w w' \<and> w_timers w' = w_timers w"
  by (auto simp: clock_def agree_def split: list.splits)

lemma clock_simps [simp]:
  "w_store (snd (clock w)) = w_store w" "w_ag (snd (clock w)) = w_ag w"
  "w_closed (snd (clock w)) = w_closed w" "w_timers (snd (clock w)) = w_timers w"
  by (simp_all add: clock_def split: list.splits)

lemma stopTimer_simps [simp]:
  "w_store (stopTimer i w) = w_store w" "w_ag (stopTimer i w) = w_ag w"
  "w_closed (stopTimer i w) = w_closed w" "w_timers (stopTimer i w) = (w_timers w)(i := None)"
  by (simp_all add: stopTimer_def)

lemma arm_simps [simp]:
  "w_store (arm g w) = w_store w" "w_ag (arm g w) = w_ag w" "w_closed (arm g w) = w_closed w"
  by (simp_all add: arm_def Let_def case_prod_unfold)

lemma arm_timers:
  "w_timers (arm g w) (grant_id g) \<noteq> None \<longleftrightarrow> \<not> w_closed w"
  "i \<noteq> grant_id g \<Longrightarrow> w_timers (arm g w) i = w_timers w i"
  by (simp_all add: arm_def Let_def case_prod_unfold)

lemma run_store_eq: "run_store f w = (r, w') \<longleftrightarrow> (\<exists>s. f (w_store w) = (r, s) \<and> w' = w\<lparr>w_store := s\<rparr>)"
  by (auto simp: run_store_def split: prod.splits)

lemma run_ag_eq: "run_ag f w = (r, w') \<longleftrightarrow> (\<exists>a. f (w_ag w) = (r, a) \<and> w' = w\<lparr>w_ag := a\<rparr>)"
  by (auto simp: run_ag_def split: prod.splits)

section \<open>The two contracts together\<close>

locale engine_env = grant_store ES okS gv cv upS + blocklist_server AG okW view glob upW
  for ES :: "'s engine_store" and okS :: "'s \<Rightarrow> bool" and gv :: "'s \<Rightarrow> id \<Rightarrow> grant option"
    and cv :: "'s \<Rightarrow> id \<Rightarrow> (string \<times> string set) option" and upS :: "'s \<Rightarrow> bool"
    and AG :: "'w engine_adguard" and okW :: "'w \<Rightarrow> bool" and view :: "'w \<Rightarrow> lists"
    and glob :: "'w \<Rightarrow> string set" and upW :: "'w \<Rightarrow> bool"
begin

abbreviation eng :: "('s, 'w) engine" where "eng \<equiv> \<lparr>e_store = ES, e_ag = AG\<rparr>"

abbreviation G :: "('s, 'w) world \<Rightarrow> id \<Rightarrow> grant option" where "G w \<equiv> gv (w_store w)"
abbreviation K :: "('s, 'w) world \<Rightarrow> id \<Rightarrow> (string \<times> string set) option" where "K w \<equiv> cv (w_store w)"
abbreviation V :: "('s, 'w) world \<Rightarrow> lists" where "V w \<equiv> view (w_ag w)"
abbreviation L :: "('s, 'w) world \<Rightarrow> string set" where "L w \<equiv> glob (w_ag w)"

definition okw :: "('s, 'w) world \<Rightarrow> bool" where "okw w \<longleftrightarrow> okS (w_store w) \<and> okW (w_ag w)"
definition upw :: "('s, 'w) world \<Rightarrow> bool" where "upw w \<longleftrightarrow> okw w \<and> upS (w_store w) \<and> upW (w_ag w)"

lemma ok_simps [simp]: "okw (stopTimer i w) = okw w" "okw (arm g w) = okw w" "upw (stopTimer i w) = upw w"
  "upw (arm g w) = upw w"
  by (simp_all add: okw_def upw_def)

lemma agree_ok: "agree w w' \<Longrightarrow> okw w' = okw w \<and> upw w' = upw w"
  by (simp add: agree_def okw_def upw_def)

text \<open>The store is left alone, and so are the timers.\<close>

definition same_store :: "('s, 'w) world \<Rightarrow> ('s, 'w) world \<Rightarrow> bool" where
  "same_store w w' \<longleftrightarrow> okw w' \<and> w_store w' = w_store w \<and> w_timers w' = w_timers w \<and> w_closed w' = w_closed w \<and>
     L w' = L w \<and> w_now w' = w_now w \<and> w_ticks w' = w_ticks w"

text \<open>A read of the store: the grants and the children stay, nothing else is touched.\<close>

definition store_read :: "('s, 'w) world \<Rightarrow> ('s, 'w) world \<Rightarrow> bool" where
  "store_read w w' \<longleftrightarrow> okw w' \<and> G w' = G w \<and> K w' = K w \<and> w_ag w' = w_ag w \<and> w_timers w' = w_timers w \<and>
     w_closed w' = w_closed w \<and> w_now w' = w_now w \<and> w_ticks w' = w_ticks w"

lemma run_clients:
  assumes "okw w" "run_ag (ea_Clients AG) w = (r, w')"
  shows "same_store w w'" "V w' = V w"
    "r = Inr res \<Longrightarrow> set (cr_global res) = L w \<and>
       V w n = map_option (\<lambda>pc. (pc_global pc, set (pc_blocked pc))) (by_name (cr_persistent res) n)"
proof -
  obtain a where a: "ea_Clients AG (w_ag w) = (r, a)" "w' = w\<lparr>w_ag := a\<rparr>"
    using assms(2) by (auto simp: run_ag_eq)
  have "okW (w_ag w)" "okS (w_store w)" using assms(1) by (simp_all add: okw_def)
  note c = clients [OF this(1) a(1)] this(2)
  from c show "same_store w w'" "V w' = V w" by (simp_all add: a(2) same_store_def okw_def)
  assume "r = Inr res"
  with c show "set (cr_global res) = L w \<and>
       V w n = map_option (\<lambda>pc. (pc_global pc, set (pc_blocked pc))) (by_name (cr_persistent res) n)" by blast
qed

lemma run_list:
  assumes "okw w" "run_store (es_ListActiveGrants ES) w = (r, w')"
  shows "store_read w w'"
    "r = Inr gs \<Longrightarrow> distinct (map grant_id gs) \<and>
       (\<forall>g. g \<in> set gs \<longleftrightarrow> G w (grant_id g) = Some g \<and> grant_status g = StatusActive)"
proof -
  obtain s where s: "es_ListActiveGrants ES (w_store w) = (r, s)" "w' = w\<lparr>w_store := s\<rparr>"
    using assms(2) by (auto simp: run_store_eq)
  have "okS (w_store w)" "okW (w_ag w)" using assms(1) by (simp_all add: okw_def)
  note c = list_active [OF this(1) s(1)] this(2)
  from c show "store_read w w'" by (simp add: s(2) store_read_def okw_def)
  assume "r = Inr gs"
  with c show "distinct (map grant_id gs) \<and>
       (\<forall>g. g \<in> set gs \<longleftrightarrow> G w (grant_id g) = Some g \<and> grant_status g = StatusActive)" by blast
qed

lemma run_get:
  assumes "okw w" "run_store (es_GetGrant ES i) w = (r, w')"
  shows "store_read w w'" "r = Inr g \<Longrightarrow> G w i = Some g \<and> grant_id g = i \<and> 0 < i"
  using assms get_grant [of "w_store w"] grant_ids [of "w_store w" i g]
  by (auto simp: run_store_eq okw_def store_read_def)

lemma list_held:
  assumes "okw w" "\<forall>g. g \<in> set gs \<longleftrightarrow> G w (grant_id g) = Some g \<and> grant_status g = StatusActive"
  shows "set (heldOpen gs x n) = held_by_others (G w) x n"
proof -
  have "G w i = Some g \<Longrightarrow> grant_id g = i" for i g
    using grant_ids [of "w_store w" i g] assms(1) by (simp add: okw_def)
  note id = this
  show ?thesis
  proof (intro set_eqI iffI)
    fix s
    assume "s \<in> set (heldOpen gs x n)"
    then obtain a where "a \<in> set gs" "grant_id a \<noteq> x" "n \<in> set (grant_clients a)" "s \<in> set (grant_services a)"
      unfolding heldOpen_set by blast
    with assms(2) show "s \<in> held_by_others (G w) x n" unfolding held_by_others_def by blast
  next
    fix s
    assume "s \<in> held_by_others (G w) x n"
    then obtain i g where g: "G w i = Some g" "i \<noteq> x" "grant_status g = StatusActive"
      "n \<in> set (grant_clients g)" "s \<in> set (grant_services g)" unfolding held_by_others_def by blast
    then have "g \<in> set gs" using assms(2) id [OF g(1)] by blast
    with g id [OF g(1)] show "s \<in> set (heldOpen gs x n)" unfolding heldOpen_set by blast
  qed
qed

section \<open>Unblocking and reverting\<close>

lemma unblock_loop_outcome:
  assumes "okw w" "unblock_loop eng svcs bn names w = (failed, w')"
    and "\<And>n. (bn n = None) = (V w n = None)" "\<And>n pc i b. bn n = Some pc \<Longrightarrow> V w n = Some (i, b) \<Longrightarrow> pc_global pc = i"
  shows "same_store w w' \<and> shrunk (\<lambda>n. if n \<in> set names then set svcs else {}) (V w) (V w') \<and>
    set failed \<subseteq> set names \<and>
    (\<forall>n \<in> set names - set failed. \<exists>b. V w' n = Some (False, b) \<and> b \<inter> set svcs = {})"
  using assms
proof (induction names arbitrary: w failed)
  case Nil
  then show ?case by (simp add: same_store_def)
next
  case (Cons name names)
  let ?less = "\<lambda>n. if n \<in> set (name # names) then set svcs else {}"
  define step where "step =
        (case bn name of
           None \<Rightarrow> (True, w)
         | Some pc \<Rightarrow>
             if pc_global pc then (True, w)
             else (case run_ag (ea_RemoveBlockedServices AG name svcs) w of
                     (Inl _, w1) \<Rightarrow> (True, w1)
                   | (Inr _, w1) \<Rightarrow> (False, w1)))"
  obtain bad w1 where st: "step = (bad, w1)" by (cases step)
  obtain f2 where rest: "unblock_loop eng svcs bn names w1 = (f2, w')" "failed = (if bad then name # f2 else f2)"
    using Cons.prems(2) st by (auto simp: step_def Let_def split: prod.splits)
  have one: "same_store w w1 \<and> shrunk ?less (V w) (V w1) \<and>
      (\<not> bad \<longrightarrow> (\<exists>b. V w1 name = Some (False, b) \<and> b \<inter> set svcs = {}))"
  proof (cases "bn name")
    case None
    with st Cons.prems(1) show ?thesis by (auto simp: step_def same_store_def)
  next
    case (Some pc)
    show ?thesis
    proof (cases "pc_global pc")
      case True
      with Some st Cons.prems(1) show ?thesis by (auto simp: step_def same_store_def)
    next
      case False
      obtain r a where run: "ea_RemoveBlockedServices AG name svcs (w_ag w) = (r, a)"
        by (cases "ea_RemoveBlockedServices AG name svcs (w_ag w)")
      have w1: "w1 = w\<lparr>w_ag := a\<rparr>" "bad = (\<not> is_ok r)"
        using st Some False run by (auto simp: step_def run_ag_def split: sum.splits)
      note rem = remove [OF _ run]
      have r1: "okW a" "glob a = glob (w_ag w)" "view a = V w \<or> edited name (apsnd (\<lambda>b. b - set svcs)) (V w) (view a)"
        "is_ok r \<Longrightarrow> edited name (apsnd (\<lambda>b. b - set svcs)) (V w) (view a)"
        using rem Cons.prems(1) by (auto simp: okw_def)
      obtain i b where v: "V w name = Some (i, b)" using Cons.prems(3) [of name] Some by auto
      have "i = False" using Cons.prems(4) [OF Some v] False by simp
      with r1(4) v have "is_ok r \<Longrightarrow> view a name = Some (False, b - set svcs)"
        by (simp add: edited_def)
      moreover have "shrunk ?less (V w) (view a)"
        using r1(3) by (auto intro: edited_shrunk)
      ultimately show ?thesis using w1 r1(1,2) Cons.prems(1) by (auto simp: same_store_def okw_def)
    qed
  qed
  have ok1: "okw w1" using one by (simp add: same_store_def)
  have sh: "shrunk ?less (V w) (V w1)" using one by blast
  have bn1: "(bn n = None) = (V w1 n = None)" for n using Cons.prems(3) [of n] shrunk_None [OF sh] by simp
  have bn2: "pc_global pc = i" if "bn n = Some pc" "V w1 n = Some (i, b)" for n pc i b
    using shrunk_Some' [OF sh that(2)] Cons.prems(4) [OF that(1)] by blast
  have "same_store w1 w' \<and> shrunk (\<lambda>n. if n \<in> set names then set svcs else {}) (V w1) (V w') \<and>
      set f2 \<subseteq> set names \<and>
      (\<forall>n \<in> set names - set f2. \<exists>b. V w' n = Some (False, b) \<and> b \<inter> set svcs = {})"
    by (rule Cons.IH [OF ok1 rest(1) bn1]) (rule bn2)
  then have IH: "same_store w1 w'"
    "shrunk (\<lambda>n. if n \<in> set names then set svcs else {}) (V w1) (V w')" "set f2 \<subseteq> set names"
    "\<forall>n \<in> set names - set f2. \<exists>b. V w' n = Some (False, b) \<and> b \<inter> set svcs = {}" by blast+
  have sh2: "shrunk ?less (V w1) (V w')" by (rule shrunk_mono [OF IH(2)]) auto
  have "\<exists>b. V w' name = Some (False, b) \<and> b \<inter> set svcs = {}" if nb: "\<not> bad"
  proof -
    obtain b where "V w1 name = Some (False, b)" "b \<inter> set svcs = {}" using one nb by blast
    with shrunk_Some [OF sh2] show ?thesis by blast
  qed
  moreover have "same_store w w'" using one IH(1) by (simp add: same_store_def)
  moreover have "shrunk ?less (V w) (V w')" using shrunk_trans [OF sh sh2] .
  ultimately show ?case using rest(2) IH(3,4) by auto
qed

lemma unblock_outcome:
  assumes "okw w" "unblock eng g w = (failed, w')"
  shows "same_store w w' \<and> shrunk (\<lambda>n. if n \<in> set (grant_clients g) then set (grant_services g) else {}) (V w) (V w') \<and>
    set failed \<subseteq> set (grant_clients g) \<and>
    (\<forall>n \<in> set (grant_clients g) - set failed. \<exists>b. V w' n = Some (False, b) \<and> b \<inter> set (grant_services g) = {})"
proof -
  obtain r w1 where r: "run_ag (ea_Clients AG) w = (r, w1)" by (cases "run_ag (ea_Clients AG) w")
  note c = run_clients [OF assms(1) r]
  show ?thesis
  proof (cases r)
    case (Inl e)
    with r c assms(2) show ?thesis by (auto simp: unblock_def)
  next
    case (Inr res)
    have loop: "unblock_loop eng (grant_services g) (by_name (cr_persistent res)) (grant_clients g) w1 = (failed, w')"
      using r Inr assms(2) by (simp add: unblock_def)
    have ok: "okw w1" using c(1) by (simp add: same_store_def)
    have bn: "V w1 n = map_option (\<lambda>pc. (pc_global pc, set (pc_blocked pc))) (by_name (cr_persistent res) n)" for n
      using c(2,3) Inr by simp
    have "same_store w1 w' \<and> shrunk (\<lambda>n. if n \<in> set (grant_clients g) then set (grant_services g) else {}) (V w1) (V w') \<and>
      set failed \<subseteq> set (grant_clients g) \<and>
      (\<forall>n \<in> set (grant_clients g) - set failed. \<exists>b. V w' n = Some (False, b) \<and> b \<inter> set (grant_services g) = {})"
      by (rule unblock_loop_outcome [OF ok loop]) (auto simp: bn)
    with c(1,2) show ?thesis by (auto simp: same_store_def)
  qed
qed

lemma revert_loop_outcome:
  assumes "okw w" "revert_loop eng plan names w = (failed, k, w')"
  shows "same_store w w' \<and>
    grown (\<lambda>n. case plan n of None \<Rightarrow> {} | Some svcs \<Rightarrow> if n \<in> set names then set svcs else {}) (V w) (V w') \<and>
    set failed \<subseteq> set names \<and>
    (\<forall>n \<in> set names - set failed. \<forall>svcs i b. plan n = Some svcs \<and> V w' n = Some (i, b) \<longrightarrow> set svcs \<subseteq> b)"
  using assms
proof (induction names arbitrary: w failed k)
  case Nil
  then show ?case by (simp add: same_store_def)
next
  case (Cons name names)
  let ?more = "\<lambda>n. case plan n of None \<Rightarrow> {} | Some svcs \<Rightarrow> if n \<in> set (name # names) then set svcs else {}"
  let ?more' = "\<lambda>n. case plan n of None \<Rightarrow> {} | Some svcs \<Rightarrow> if n \<in> set names then set svcs else {}"
  have mono: "?more' n \<subseteq> ?more n" for n by (auto split: option.splits)
  show ?case
  proof (cases "plan name")
    case None
    with Cons.prems(2) have "revert_loop eng plan names w = (failed, k, w')" by simp
    note IH = Cons.IH [OF Cons.prems(1) this]
    then have "grown ?more' (V w) (V w')" by blast
    then have "grown ?more (V w) (V w')" by (rule grown_mono) (rule mono)
    moreover have "set svcs \<subseteq> b"
      if "n \<in> set (name # names) - set failed" "plan n = Some svcs" "V w' n = Some (i, b)" for n svcs i b
      using IH that None by (cases "n = name") auto
    ultimately show ?thesis using IH by auto
  next
    case (Some svcs)
    obtain r a where run: "ea_AddBlockedServices AG name svcs (w_ag w) = (r, a)"
      by (cases "ea_AddBlockedServices AG name svcs (w_ag w)")
    define w1 where "w1 = w\<lparr>w_ag := a\<rparr>"
    define bad where "bad = (case r of Inr _ \<Rightarrow> False | Inl x \<Rightarrow> \<not> client_gone x)"
    obtain f2 k2 where rest: "revert_loop eng plan names w1 = (f2, k2, w')"
      "failed = (if bad then name # f2 else f2)"
      using Cons.prems(2) Some run by (auto simp: run_ag_def w1_def bad_def Let_def split: prod.splits)
    note ad = add [OF _ run]
    have a1: "okW a" "glob a = glob (w_ag w)" "view a = V w \<or> edited name (apsnd (\<lambda>b. b \<union> set svcs)) (V w) (view a)"
      "is_ok r \<Longrightarrow> edited name (apsnd (\<lambda>b. b \<union> set svcs)) (V w) (view a)"
      "\<And>x. r = Inl x \<Longrightarrow> client_gone x \<Longrightarrow> V w name = None \<and> view a = V w"
      using ad Cons.prems(1) by (auto simp: okw_def)
    have one: "same_store w w1" using a1(1,2) Cons.prems(1) by (simp add: w1_def same_store_def okw_def)
    have gr: "grown ?more (V w) (V w1)"
      using a1(3) Some by (auto simp: w1_def intro: edited_grown)
    have reblocked: "set svcs \<subseteq> b" if "\<not> bad" "V w1 name = Some (i, b)" for i b
    proof (cases r)
      case (Inl x)
      with that(1) have "client_gone x" by (simp add: bad_def)
      with a1(5) [OF Inl] that(2) show ?thesis by (simp add: w1_def)
    next
      case (Inr u)
      with a1(4) that(2) show ?thesis by (auto simp: w1_def edited_def)
    qed
    have ok1: "okw w1" using one by (simp add: same_store_def)
    from Cons.IH [OF ok1 rest(1)] have IH: "same_store w1 w'" "grown ?more' (V w1) (V w')" "set f2 \<subseteq> set names"
      "\<forall>n \<in> set names - set f2. \<forall>svcs i b. plan n = Some svcs \<and> V w' n = Some (i, b) \<longrightarrow> set svcs \<subseteq> b" by blast+
    have gr2: "grown ?more (V w1) (V w')" by (rule grown_mono [OF IH(2) mono])
    have "set svcs \<subseteq> b" if "\<not> bad" "V w' name = Some (i, b)" for i b
      using grown_Some' [OF gr2 that(2)] reblocked [OF that(1)] by blast
    moreover have "same_store w w'" using one IH(1) by (simp add: same_store_def)
    moreover have "set svcs' \<subseteq> b"
      if n: "n \<in> set (name # names) - set failed" "plan n = Some svcs'" "V w' n = Some (i, b)" for n svcs' i b
    proof (cases "n \<in> set f2")
      case False
      have "n = name \<and> \<not> bad \<or> n \<in> set names" using n(1) rest(2) False by (auto split: if_splits)
      then show ?thesis
      proof
        assume "n = name \<and> \<not> bad"
        with n Some grown_Some' [OF gr2, of name i b] reblocked show ?thesis by fastforce
      next
        assume "n \<in> set names"
        with IH(4) False n(2,3) show ?thesis by blast
      qed
    qed (use n(1) rest(2) in \<open>auto split: if_splits\<close>)
    moreover have "set failed \<subseteq> set (name # names)" using IH(3) rest(2) by auto
    ultimately show ?thesis using grown_trans [OF gr gr2] by blast
  qed
qed

text \<open>A revert adds only the grant's services, and only where no other active grant holds them.\<close>

lemma revert_outcome:
  assumes "okw w" "revert eng g w = (failed, k, w')"
  shows "okw w' \<and> G w' = G w \<and> K w' = K w \<and> L w' = L w \<and> w_timers w' = w_timers w \<and> w_closed w' = w_closed w \<and>
    grown (\<lambda>n. if n \<in> set (grant_clients g)
      then set (grant_services g) - held_by_others (G w) (grant_id g) n else {}) (V w) (V w') \<and>
    set failed \<subseteq> set (grant_clients g) \<and>
    (\<forall>n \<in> set (grant_clients g) - set failed. \<forall>i b. V w' n = Some (i, b) \<longrightarrow>
       set (grant_services g) - held_by_others (G w) (grant_id g) n \<subseteq> b)"
proof -
  obtain r w1 where r: "run_store (es_ListActiveGrants ES) w = (r, w1)"
    by (cases "run_store (es_ListActiveGrants ES) w")
  note l = run_list [OF assms(1) r]
  show ?thesis
  proof (cases r)
    case (Inl e)
    with r l assms(2) show ?thesis by (auto simp: revert_def store_read_def)
  next
    case (Inr gs)
    have loop: "revert_loop eng (revertPlan g gs) (grant_clients g) w1 = (failed, k, w')"
      using r Inr assms(2) by (simp add: revert_def)
    have ok: "okw w1" using l(1) by (simp add: store_read_def)
    have held: "set (heldOpen gs (grant_id g) n) = held_by_others (G w) (grant_id g) n" for n
      using l(2) Inr by (intro list_held [OF assms(1)]) simp
    note out = revert_loop_outcome [OF ok loop]
    have gr: "grown (\<lambda>n. if n \<in> set (grant_clients g)
      then set (grant_services g) - held_by_others (G w) (grant_id g) n else {}) (V w1) (V w')"
    proof (rule grown_mono)
      show "grown (\<lambda>n. case revertPlan g gs n of None \<Rightarrow> {}
        | Some svcs \<Rightarrow> if n \<in> set (grant_clients g) then set svcs else {}) (V w1) (V w')" using out by blast
    qed (use held revertPlan_Some [of g gs] in \<open>auto split: option.splits if_splits\<close>)
    have "set (grant_services g) - held_by_others (G w) (grant_id g) n \<subseteq> b"
      if n: "n \<in> set (grant_clients g) - set failed" "V w' n = Some (i, b)" for n i b
    proof (cases "revertPlan g gs n")
      case None
      with n(1) held show ?thesis by (auto simp: revertPlan_None)
    next
      case (Some svcs)
      with out n have "set svcs \<subseteq> b" by blast
      with revertPlan_Some [OF Some] held show ?thesis by simp
    qed
    with gr out l(1) show ?thesis by (auto simp: same_store_def store_read_def)
  qed
qed

end

end
