(* ===== verification/EngineLedger.thy ===== *)
theory EngineLedger
  imports EngineOps
begin

text \<open>
  The operations of the engine one by one: what each returns and leaves, and that each keeps
  the ledger, whatever calls fail on the way.
\<close>

section \<open>What the operations promise\<close>

text \<open>
  What \<open>Create\<close> promises of a stored grant \<open>g\<close>: only its services left its clients' lists, and
  every client that is not reported failed blocks none of them.
\<close>

definition opened :: "grant \<Rightarrow> string list \<Rightarrow> lists \<Rightarrow> lists \<Rightarrow> bool" where
  "opened g failed v v' \<longleftrightarrow>
     shrunk (\<lambda>n. if n \<in> set (grant_clients g) then set (grant_services g) else {}) v v' \<and>
     set failed \<subseteq> set (grant_clients g) \<and>
     (\<forall>n \<in> set (grant_clients g) - set failed. \<exists>b. v' n = Some (False, b) \<and> b \<inter> set (grant_services g) = {})"

text \<open>A grant closed with status \<open>st\<close>: its services are blocked again where nothing else holds them.\<close>

definition closes :: "grant \<Rightarrow> grant_status \<Rightarrow> (id \<Rightarrow> grant option) \<Rightarrow> (id \<Rightarrow> grant option) \<Rightarrow> lists \<Rightarrow> bool" where
  "closes g st gr gr' v' \<longleftrightarrow> gr' = gr(grant_id g \<mapsto> g\<lparr>grant_status := st\<rparr>) \<and>
     (\<forall>n \<in> set (grant_clients g). \<forall>i b. v' n = Some (i, b) \<longrightarrow>
        set (grant_services g) - held_by_others gr (grant_id g) n \<subseteq> b)"

text \<open>What a revert may add to the lists.\<close>

definition revert_bound :: "grant \<Rightarrow> (id \<Rightarrow> grant option) \<Rightarrow> string \<Rightarrow> string set" where
  "revert_bound g gr n = (if n \<in> set (grant_clients g)
     then set (grant_services g) - held_by_others gr (grant_id g) n else {})"

context engine_env
begin

text \<open>\<open>keeps w w'\<close>: whatever ledger held in \<open>w\<close> holds in \<open>w'\<close>, for the same devices.\<close>

definition keeps :: "('s, 'w) world \<Rightarrow> ('s, 'w) world \<Rightarrow> bool" where
  "keeps w w' \<longleftrightarrow> okw w' \<and> L w' = L w \<and> (\<forall>n. V w' n = None \<longleftrightarrow> V w n = None) \<and>
     (\<forall>base. ledger base (L w) (V w) (G w) \<longrightarrow> ledger base (L w') (V w') (G w'))"

lemma keeps_trans: "keeps w w1 \<Longrightarrow> keeps w1 w2 \<Longrightarrow> keeps w w2"
  unfolding keeps_def by metis

lemma keeps_view: "okw w' \<Longrightarrow> L w' = L w \<Longrightarrow> V w' = V w \<Longrightarrow> G w' = G w \<Longrightarrow> keeps w w'"
  by (simp add: keeps_def)

lemma keeps_read: "store_read w w' \<Longrightarrow> keeps w w'"
  by (rule keeps_view) (simp_all add: store_read_def)

lemma keeps_agree: "okw w \<Longrightarrow> agree w w' \<Longrightarrow> keeps w w'"
  by (rule keeps_view) (simp_all add: agree_def okw_def)

lemma keeps_stop: "okw w \<Longrightarrow> keeps w (stopTimer i w)" "okw w \<Longrightarrow> keeps w (arm g w)"
  by (rule keeps_view; simp)+

lemma keeps_ok: "keeps w w' \<Longrightarrow> okw w'"
  by (simp add: keeps_def)

lemma keeps_shrunk:
  assumes "same_store w w'" "shrunk lost (V w) (V w')" "\<And>n. lost n \<subseteq> covered (G w) n"
  shows "keeps w w'"
  using assms(1) ledger_shrunk [OF _ assms(2,3)] shrunk_None [OF assms(2)] by (auto simp: keeps_def same_store_def)

text \<open>The grants an active grant covers, as a bound on what may be taken off a list.\<close>

lemma grant_covered:
  "G w i = Some g \<Longrightarrow> grant_status g = StatusActive \<Longrightarrow>
     (if n \<in> set (grant_clients g) then set (grant_services g) else {}) \<subseteq> covered (G w) n"
  by (auto simp: covered_def)

section \<open>Create and Extend\<close>

lemma create_outcome:
  assumes "okw w" "Create eng child ss cs d w = (r, w')"
  shows "keeps w w' \<and> K w' = K w \<and>
    (case r of
       Inl x \<Rightarrow> (\<exists>y. x = StoreErr y) \<and> G w' = G w \<and> w_ag w' = w_ag w \<and> w_timers w' = w_timers w
     | Inr res \<Rightarrow>
         let g = cg_grant res in
         G w (grant_id g) = None \<and> G w' = (G w)(grant_id g \<mapsto> g) \<and> grant_child g = child \<and>
         grant_status g = StatusActive \<and> grant_services g = normaliseClients ss \<and> grant_clients g = normaliseClients cs \<and>
         ends_at g = of_unix (unix (fst (clock w) + d)) \<and> opened g (cg_failed res) (V w) (V w') \<and>
         (cg_applied res \<longleftrightarrow> cg_failed res = []) \<and> (w_timers w' (grant_id g) \<noteq> None \<longleftrightarrow> \<not> w_closed w))"
proof -
  obtain now w0 where c: "clock w = (now, w0)" by (cases "clock w")
  have ag: "agree w w0" "w_timers w0 = w_timers w" using clock_agree [OF c] by simp_all
  have ok0: "okw w0" using agree_ok [OF ag(1)] assms(1) by simp
  obtain rc s where rc: "es_CreateGrant ES child ss cs now (now + d) (w_store w0) = (rc, s)"
    by (cases "es_CreateGrant ES child ss cs now (now + d) (w_store w0)")
  define w1 where "w1 = w0\<lparr>w_store := s\<rparr>"
  have okS: "okS (w_store w0)" using ok0 by (simp add: okw_def)
  note law = create_grant [OF okS rc]
  have ok1: "okw w1" using law ok0 by (simp add: okw_def w1_def)
  show ?thesis
  proof (cases rc)
    case (Inl x)
    then have "r = Inl (StoreErr x)" "w' = w1"
      using assms(2) c rc by (simp_all add: Create_def run_store_def w1_def)
    moreover have "keeps w w1"
      by (rule keeps_view [OF ok1]) (use law Inl ag in \<open>simp_all add: w1_def agree_def\<close>)
    ultimately show ?thesis using law Inl ag by (simp add: w1_def agree_def)
  next
    case (Inr g)
    obtain failed w2 where ub: "unblock eng g w1 = (failed, w2)" by (cases "unblock eng g w1")
    have r: "r = Inr \<lparr>cg_grant = g, cg_applied = (failed = []), cg_failed = failed\<rparr>" "w' = arm g w2"
      using assms(2) c rc Inr ub by (simp_all add: Create_def run_store_def w1_def Let_def)
    have G1: "G w (grant_id g) = None" "G w1 = (G w)(grant_id g \<mapsto> g)" "K w1 = K w" "w_ag w1 = w_ag w"
      using law Inr ag(1) by (simp_all add: w1_def agree_def)
    note u = unblock_outcome [OF ok1 ub]
    have "covered (G w) n \<subseteq> covered (G w1) n" for n
      using G1(1) by (auto simp: covered_def G1(2)) (metis option.distinct(1))
    then have k1: "keeps w w1"
      using ok1 ledger_cover_mono [of _ _ _ "G w" "G w1"] by (auto simp: keeps_def G1(4))
    have "keeps w1 w2"
      by (rule keeps_shrunk [of _ _ "\<lambda>n. if n \<in> set (grant_clients g) then set (grant_services g) else {}"])
         (use u law Inr in \<open>auto simp: covered_def G1(2)\<close>)
    then have k2: "keeps w w2" using k1 keeps_trans by blast
    then have "keeps w w'" using keeps_trans [OF _ keeps_stop(2)] keeps_ok r(2) by blast
    moreover have "w_timers w' (grant_id g) \<noteq> None \<longleftrightarrow> \<not> w_closed w"
      unfolding r(2) arm_timers(1) using u ag(1) by (simp add: same_store_def w1_def agree_def)
    ultimately show ?thesis
      using r G1 u law Inr c by (simp add: opened_def same_store_def)
  qed
qed

lemma extend_outcome:
  assumes "okw w" "Extend eng i d w = (r, w')"
  shows "keeps w w' \<and> K w' = K w \<and> w_ag w' = w_ag w \<and>
    (case r of
       Inl x \<Rightarrow> G w' = G w \<and> w_timers w' = w_timers w
     | Inr g' \<Rightarrow> (\<exists>g. G w i = Some g \<and> grant_status g = StatusActive \<and>
         g' = g\<lparr>ends_at := of_unix (unix (ends_at g + d))\<rparr> \<and> G w' = (G w)(i \<mapsto> g')) \<and>
         (w_timers w' i \<noteq> None \<longleftrightarrow> \<not> w_closed w))"
proof -
  obtain rg w1 where rg: "run_store (es_GetGrant ES i) w = (rg, w1)" by (cases "run_store (es_GetGrant ES i) w")
  note get = run_get [OF assms(1) rg]
  show ?thesis
  proof (cases rg)
    case (Inl x)
    with rg assms(2) get(1) keeps_read [OF get(1)] show ?thesis
      by (auto simp: Extend_def store_read_def)
  next
    case (Inr g)
    note g = get(2) [OF Inr]
    show ?thesis
    proof (cases "grant_status g = StatusActive")
      case False
      with rg Inr assms(2) get(1) keeps_read [OF get(1)] show ?thesis
        by (auto simp: Extend_def store_read_def)
    next
      case True
      have ok1: "okw w1" "okS (w_store w1)" using get(1) by (auto simp add: store_read_def okw_def)
      obtain re s where re: "es_ExtendGrant ES i (ends_at g + d) (w_store w1) = (re, s)"
        by (cases "es_ExtendGrant ES i (ends_at g + d) (w_store w1)")
      define w2 where "w2 = w1\<lparr>w_store := s\<rparr>"
      note law = extend_grant [OF ok1(2) re]
      have ok2: "okw w2" using law ok1(1) by (auto simp add: okw_def w2_def)
      show ?thesis
      proof (cases re)
        case (Inl x)
        then have "r = Inl (StoreErr x)" "w' = w2"
          using assms(2) rg \<open>rg = Inr g\<close> True re by (simp_all add: Extend_def run_store_def w2_def)
        moreover have "keeps w w2"
          by (rule keeps_view [OF ok2]) (use law Inl get(1) in \<open>simp_all add: w2_def store_read_def\<close>)
        ultimately show ?thesis using law Inl get(1) by (simp add: w2_def store_read_def)
      next
        case (Inr g')
        then have r: "r = Inr g'" "w' = arm g' w2"
          using assms(2) rg \<open>rg = Inr g\<close> True re by (simp_all add: Extend_def run_store_def w2_def)
        obtain g0 where "gv (w_store w1) i = Some g0" "g' = g0\<lparr>ends_at := of_unix (unix (ends_at g + d))\<rparr>"
          "gv s = (gv (w_store w1))(i \<mapsto> g')" using law Inr by blast
        then have G2: "g' = g\<lparr>ends_at := of_unix (unix (ends_at g + d))\<rparr>" "G w2 = (G w)(i \<mapsto> g')"
          using g get(1) by (simp_all add: w2_def store_read_def)
        have "covered (G w) n \<subseteq> covered (G w2) n" for n
        proof
          fix s
          assume "s \<in> covered (G w) n"
          then obtain j h where h: "G w j = Some h" "grant_status h = StatusActive" "n \<in> set (grant_clients h)"
            "s \<in> set (grant_services h)" by (auto simp: covered_def)
          show "s \<in> covered (G w2) n"
          proof (cases "j = i")
            case True
            with h g have "G w2 i = Some g' \<and> grant_status g' = StatusActive \<and> n \<in> set (grant_clients g') \<and>
                s \<in> set (grant_services g')" by (simp add: G2)
            then show ?thesis unfolding covered_def by blast
          next
            case False
            with h show ?thesis unfolding covered_def G2(2) by (intro CollectI exI [of _ j] exI [of _ h]) simp
          qed
        qed
        then have k: "keeps w w2"
          using ok2 get(1) ledger_cover_mono [of _ _ _ "G w" "G w2"] by (auto simp: keeps_def w2_def store_read_def)
        have id: "grant_id g' = i" using g by (simp add: G2(1))
        have "keeps w w'" using k keeps_trans [OF _ keeps_stop(2)] ok2 r(2) by blast
        moreover have "w_timers w' i \<noteq> None \<longleftrightarrow> \<not> w_closed w"
          using arm_timers(1) [of g' w2] get(1) unfolding r(2) id by (simp add: w2_def store_read_def)
        ultimately show ?thesis using r G2 law get(1) g True by (simp add: w2_def store_read_def)
      qed
    qed
  qed
qed

section \<open>Expiry and End\<close>

lemma revert_then_status:
  assumes "okw w" "G w (grant_id g) = Some g" "grant_status g = StatusActive" "st \<noteq> StatusActive"
    and "revert eng g w = ([], k, w1)" "agree w1 w2" "w_timers w2 = w_timers w1"
    and "run_store (es_SetGrantStatus ES (grant_id g) StatusActive st now) w2 = (r, w3)"
  shows "keeps w w3 \<and> K w3 = K w \<and> w_timers w3 = w_timers w \<and> w_closed w3 = w_closed w \<and>
    grown (revert_bound g (G w)) (V w) (V w3) \<and>
    (if r = Inr True then closes g st (G w) (G w3) (V w3) else G w3 = G w) \<and> r \<noteq> Inr False"
proof -
  note rev = revert_outcome [OF assms(1,5)]
  obtain s where s: "es_SetGrantStatus ES (grant_id g) StatusActive st now (w_store w2) = (r, s)"
    "w3 = w2\<lparr>w_store := s\<rparr>" using assms(8) by (auto simp: run_store_eq)
  have ok2: "okS (w_store w2)" "okW (w_ag w2)" "G w2 = G w" "K w2 = K w"
    using rev assms(6) by (simp_all add: okw_def agree_def)
  note law = set_status [OF ok2(1) s(1)]
  have view: "V w3 = V w1" "L w3 = L w" "K w3 = K w" "w_timers w3 = w_timers w" "w_closed w3 = w_closed w" "okw w3"
    using rev assms(6,7) s(2) law ok2 by (simp_all add: agree_def okw_def)
  have gr: "grown (revert_bound g (G w)) (V w) (V w3)"
    using rev unfolding view revert_bound_def by blast
  have led: "ledger base (L w) (V w3) (G w)" if "ledger base (L w) (V w) (G w)" for base
    using ledger_grown [OF that gr] .
  have nf: "r \<noteq> Inr False" using law assms(2,3) ok2(3) by auto
  show ?thesis
  proof (cases "r = Inr True")
    case True
    with law ok2(3) assms(2) have G3: "G w3 = (G w)(grant_id g \<mapsto> g\<lparr>grant_status := st\<rparr>)"
      by (auto simp: s(2))
    have blk: "set (grant_services g) - held_by_others (G w) (grant_id g) n \<subseteq> b"
      if "n \<in> set (grant_clients g)" "V w3 n = Some (j, b)" for n j b
      using rev that by (auto simp: view)
    then have "ledger base (L w3) (V w3) (G w3)" if "ledger base (L w) (V w) (G w)" for base
      unfolding G3 view(2) by (intro ledger_closed [OF led [OF that] assms(2,4)])
    then have "keeps w w3" using grown_None [OF gr] by (simp add: keeps_def view)
    with gr view True nf blk G3 show ?thesis by (auto simp: closes_def)
  next
    case False
    with law ok2(3) have "G w3 = G w" by (simp add: s(2))
    moreover from this have "keeps w w3" using led grown_None [OF gr] by (simp add: keeps_def view)
    ultimately show ?thesis using gr view False nf by auto
  qed
qed

lemma revert_keeps:
  assumes "okw w" "revert eng g w = (failed, k, w1)"
  shows "keeps w w1 \<and> grown (revert_bound g (G w)) (V w) (V w1) \<and> G w1 = G w \<and> K w1 = K w \<and>
    w_timers w1 = w_timers w \<and> w_closed w1 = w_closed w"
proof -
  note rev = revert_outcome [OF assms]
  then have gr: "grown (revert_bound g (G w)) (V w) (V w1)" unfolding revert_bound_def by blast
  have "ledger base (L w) (V w1) (G w)" if "ledger base (L w) (V w) (G w)" for base
    using ledger_grown [OF that gr] .
  with rev gr grown_None [OF gr] show ?thesis by (simp add: keeps_def)
qed

lemma expireLocked_outcome:
  assumes "okw w" "G w (grant_id g) = Some g" "grant_status g = StatusActive"
    and "expireLocked eng g w = (b, k, w')"
  shows "keeps w w' \<and> K w' = K w \<and> w_closed w' = w_closed w \<and> grown (revert_bound g (G w)) (V w) (V w') \<and>
    (if b then closes g StatusExpired (G w) (G w') (V w') \<and> w_timers w' = (w_timers w)(grant_id g := None)
     else G w' = G w \<and> w_timers w' = w_timers w)"
proof -
  obtain failed k1 w1 where rev: "revert eng g w = (failed, k1, w1)" by (cases "revert eng g w")
  show ?thesis
  proof (cases "failed = []")
    case False
    with rev assms(4) revert_keeps [OF assms(1) rev] show ?thesis by (auto simp: expireLocked_def)
  next
    case True
    obtain now w2 where c: "clock w1 = (now, w2)" by (cases "clock w1")
    obtain r w3 where r: "run_store (es_SetGrantStatus ES (grant_id g) StatusActive StatusExpired now) w2 = (r, w3)"
      by (cases "run_store (es_SetGrantStatus ES (grant_id g) StatusActive StatusExpired now) w2")
    have out: "keeps w w3 \<and> K w3 = K w \<and> w_timers w3 = w_timers w \<and> w_closed w3 = w_closed w \<and>
      grown (revert_bound g (G w)) (V w) (V w3) \<and>
      (if r = Inr True then closes g StatusExpired (G w) (G w3) (V w3) else G w3 = G w) \<and> r \<noteq> Inr False"
      by (rule revert_then_status [OF assms(1-3) _ rev [unfolded True] _ _ r]) (use clock_agree [OF c] in simp_all)
    show ?thesis
    proof (cases r)
      case (Inl x)
      with rev True c r assms(4) out show ?thesis by (auto simp: expireLocked_def)
    next
      case (Inr ok)
      with out have t: "ok" by (cases ok) auto
      have w': "b" "w' = stopTimer (grant_id g) w3"
        using rev True c r Inr t assms(4) by (simp_all add: expireLocked_def)
      have "keeps w w'" using out keeps_trans [OF _ keeps_stop(1)] keeps_ok w'(2) by blast
      with out Inr t w' show ?thesis by (simp add: closes_def)
    qed
  qed
qed

lemma expire_outcome:
  assumes "okw w"
  shows "keeps w (expire eng i w) \<and> K (expire eng i w) = K w"
proof -
  let ?w0 = "w\<lparr>w_timers := (w_timers w)(i := None)\<rparr>"
  have ok0: "okw ?w0" "keeps w ?w0" using assms by (simp_all add: okw_def keeps_def)
  obtain rg w1 where rg: "run_store (es_GetGrant ES i) ?w0 = (rg, w1)" by (cases "run_store (es_GetGrant ES i) ?w0")
  note get = run_get [OF ok0(1) rg]
  have k1: "keeps w w1" "K w1 = K w" using keeps_trans [OF ok0(2) keeps_read [OF get(1)]] get(1) by (simp_all add: store_read_def)
  show ?thesis
  proof (cases rg)
    case (Inl x)
    with rg k1 show ?thesis by (simp add: expire_def)
  next
    case (Inr g)
    note g = get(2) [OF Inr]
    show ?thesis
    proof (cases "grant_status g = StatusActive")
      case False
      with rg Inr k1 show ?thesis by (simp add: expire_def)
    next
      case True
      obtain now w2 where c: "clock w1 = (now, w2)" by (cases "clock w1")
      have ag: "agree w1 w2" using clock_agree [OF c] by simp
      have k2: "keeps w w2" "okw w2"
        using keeps_trans [OF k1(1) keeps_agree [OF keeps_ok [OF k1(1)] ag]] keeps_ok by blast+
      show ?thesis
      proof (cases "now < ends_at g")
        case True
        then have "expire eng i w = arm g w2"
          using rg Inr \<open>grant_status g = StatusActive\<close> c by (simp add: expire_def)
        then show ?thesis using keeps_trans [OF k2(1) keeps_stop(2) [OF k2(2)]] k1(2) ag by (simp add: agree_def)
      next
        case False
        obtain b k w3 where e: "expireLocked eng g w2 = (b, k, w3)" by (cases "expireLocked eng g w2")
        have g2: "G w2 (grant_id g) = Some g" using g get(1) ag by (simp add: store_read_def agree_def)
        note out = expireLocked_outcome [OF k2(2) g2 True e]
        have "expire eng i w = w3"
          using rg Inr True c False e by (simp add: expire_def)
        then show ?thesis using keeps_trans [OF k2(1)] out k1(2) ag by (simp add: agree_def)
      qed
    qed
  qed
qed

lemma end_outcome:
  assumes "okw w" "End eng i w = (r, w')"
  shows "keeps w w' \<and> K w' = K w \<and>
    (case r of
       Inr _ \<Rightarrow> (\<exists>g. G w i = Some g \<and> grant_status g = StatusActive \<and> closes g StatusEnded (G w) (G w') (V w') \<and>
         grown (revert_bound g (G w)) (V w) (V w') \<and> w_timers w' i = None)
     | Inl x \<Rightarrow> G w' = G w \<and> w_timers w' = w_timers w \<and>
         (\<forall>f. x = ErrRevertFailed f \<longrightarrow> f \<noteq> [] \<and> (\<exists>g. G w i = Some g \<and> set f \<subseteq> set (grant_clients g))))"
proof -
  obtain rg w1 where rg: "run_store (es_GetGrant ES i) w = (rg, w1)" by (cases "run_store (es_GetGrant ES i) w")
  note get = run_get [OF assms(1) rg]
  show ?thesis
  proof (cases rg)
    case (Inl x)
    with rg assms(2) get(1) keeps_read [OF get(1)] show ?thesis by (auto simp: End_def store_read_def)
  next
    case (Inr g)
    note g = get(2) [OF Inr]
    show ?thesis
    proof (cases "grant_status g = StatusActive")
      case False
      with rg Inr assms(2) get(1) keeps_read [OF get(1)] show ?thesis by (auto simp: End_def store_read_def)
    next
      case act: True
      have ok1: "okw w1" "G w1 = G w" "K w1 = K w" "w_timers w1 = w_timers w" "w_closed w1 = w_closed w" "V w1 = V w"
        using get(1) by (simp_all add: store_read_def)
      have g1: "G w1 (grant_id g) = Some g" using g ok1 by simp
      obtain failed k w2 where rev: "revert eng g w1 = (failed, k, w2)" by (cases "revert eng g w1")
      note rk = revert_keeps [OF ok1(1) rev] revert_outcome [OF ok1(1) rev]
      have bound: "revert_bound g (G w1) = revert_bound g (G w)" by (simp add: ok1)
      show ?thesis
      proof (cases "failed = []")
        case False
        then have "r = Inl (ErrRevertFailed failed)" "w' = w2"
          using assms(2) rg Inr act rev by (simp_all add: End_def)
        with rk ok1 g False keeps_trans [OF keeps_read [OF get(1)], of w2] show ?thesis by simp
      next
        case True
        obtain now w3 where c: "clock w2 = (now, w3)" by (cases "clock w2")
        obtain rs w4 where rs: "run_store (es_SetGrantStatus ES i StatusActive StatusEnded now) w3 = (rs, w4)"
          by (cases "run_store (es_SetGrantStatus ES i StatusActive StatusEnded now) w3")
        have rs': "run_store (es_SetGrantStatus ES (grant_id g) StatusActive StatusEnded now) w3 = (rs, w4)"
          using rs g by simp
        have out: "keeps w1 w4 \<and> K w4 = K w1 \<and> w_timers w4 = w_timers w1 \<and> w_closed w4 = w_closed w1 \<and>
          grown (revert_bound g (G w1)) (V w1) (V w4) \<and>
          (if rs = Inr True then closes g StatusEnded (G w1) (G w4) (V w4) else G w4 = G w1) \<and> rs \<noteq> Inr False"
          by (rule revert_then_status [OF ok1(1) g1 act _ rev [unfolded True] _ _ rs'])
             (use clock_agree [OF c] in simp_all)
        have k4: "keeps w w4" using keeps_trans [OF keeps_read [OF get(1)]] out by blast
        show ?thesis
        proof (cases rs)
          case (Inl x)
          then have "r = Inl (EndFailed x)" "w' = w4"
            using assms(2) rg \<open>rg = Inr g\<close> act rev True c rs by (simp_all add: End_def)
          with Inl out ok1 k4 show ?thesis by simp
        next
          case (Inr b)
          with out have "b" by (cases b) auto
          then have "r = Inr ()" "w' = stopTimer i w4"
            using assms(2) rg \<open>rg = Inr g\<close> act rev True c rs Inr by (simp_all add: End_def)
          moreover have "keeps w (stopTimer i w4)" using keeps_trans [OF k4 keeps_stop(1)] keeps_ok [OF k4] by blast
          ultimately show ?thesis using out Inr \<open>b\<close> ok1 g act bound by (simp add: closes_def)
        qed
      qed
    qed
  qed
qed

lemma close_outcome: "okw w \<Longrightarrow> keeps w (Close w)"
  by (rule keeps_view) (simp_all add: Close_def okw_def)

end

end
