(* ===== verification/EngineReconcile.thy ===== *)
theory EngineReconcile
  imports EngineLedger
begin

text \<open>
  The reconcile pass: it keeps the ledger whatever fails, and with both sides answering it
  converges, i.e. every overdue grant is expired with its services blocked again, and every live
  grant is open on each of its clients that has a list of its own.
\<close>

text \<open>The services a set of grants opens on a client.\<close>

definition opens :: "grant set \<Rightarrow> string \<Rightarrow> string set" where
  "opens H n = {s. \<exists>h \<in> H. n \<in> set (grant_clients h) \<and> s \<in> set (grant_services h)}"

lemma opens_member: "h \<in> H \<Longrightarrow> n \<in> set (grant_clients h) \<Longrightarrow> set (grant_services h) \<subseteq> opens H n"
  by (auto simp: opens_def)

text \<open>A grant is open where its client has a list of its own.\<close>

definition live_open :: "grant \<Rightarrow> lists \<Rightarrow> bool" where
  "live_open g v \<longleftrightarrow>
     (\<forall>n \<in> set (grant_clients g). \<forall>b. v n = Some (False, b) \<longrightarrow> b \<inter> set (grant_services g) = {})"

lemma live_open_shrunk:
  assumes "live_open g v" "shrunk lost v v'"
  shows "live_open g v'"
  unfolding live_open_def
proof (intro ballI allI impI)
  fix n b
  assume n: "n \<in> set (grant_clients g)" "v' n = Some (False, b)"
  then obtain c where "v n = Some (False, c)" "b \<subseteq> c" using shrunk_Some' [OF assms(2)] by blast
  with assms(1) n(1) show "b \<inter> set (grant_services g) = {}" unfolding live_open_def by blast
qed

lemma live_open_grown:
  assumes "live_open g v" "grown gain v v'" "\<And>n. gain n \<inter> opens H n = {}" "g \<in> H"
  shows "live_open g v'"
  unfolding live_open_def
proof (intro ballI allI impI)
  fix n b
  assume n: "n \<in> set (grant_clients g)" "v' n = Some (False, b)"
  then obtain c where "v n = Some (False, c)" "b \<subseteq> c \<union> gain n" using grown_Some' [OF assms(2)] by blast
  moreover have "set (grant_services g) \<subseteq> opens H n" by (rule opens_member [OF assms(4) n(1)])
  ultimately show "b \<inter> set (grant_services g) = {}"
    using assms(1) n(1) assms(3) [of n] unfolding live_open_def by blast
qed

context engine_env
begin

section \<open>Repairing drift\<close>

text \<open>
  The snapshot of the pass still bounds the lists: of the services \<open>X n\<close> a client's own list holds
  at most those of the snapshot.
\<close>

definition snap :: "(string \<Rightarrow> persistent_client option) \<Rightarrow> (string \<Rightarrow> string set) \<Rightarrow> ('s, 'w) world \<Rightarrow> bool" where
  "snap bn X w \<longleftrightarrow>
     (\<forall>n. rel_option (\<lambda>pc (i, b). pc_global pc = i \<and> (\<not> i \<longrightarrow> b \<inter> X n \<subseteq> set (pc_blocked pc))) (bn n) (V w n))"

lemma snap_None: "snap bn X w \<Longrightarrow> bn n = None \<longleftrightarrow> V w n = None"
  by (cases "bn n"; cases "V w n") (auto simp: snap_def dest!: spec [of _ n])

lemma snap_Some: "snap bn X w \<Longrightarrow> bn n = Some pc \<Longrightarrow>
  \<exists>b. V w n = Some (pc_global pc, b) \<and> (\<not> pc_global pc \<longrightarrow> b \<inter> X n \<subseteq> set (pc_blocked pc))"
  by (auto simp: snap_def option_rel_Some1 dest!: spec [of _ n])

lemma snap_shrunk:
  assumes "snap bn X w" "shrunk lost (V w) (V w')"
  shows "snap bn X w'"
  unfolding snap_def
proof
  fix n
  show "rel_option (\<lambda>pc (i, b). pc_global pc = i \<and> (\<not> i \<longrightarrow> b \<inter> X n \<subseteq> set (pc_blocked pc))) (bn n) (V w' n)"
    using assms(1) [unfolded snap_def, THEN spec, of n] assms(2) [unfolded shrunk_def, THEN spec, of n]
    by (auto elim!: option.rel_cases) blast+
qed

lemma snap_grown:
  assumes "snap bn X w" "grown gain (V w) (V w')" "\<And>n. gain n \<inter> X n = {}"
  shows "snap bn X w'"
  unfolding snap_def
proof
  fix n
  show "rel_option (\<lambda>pc (i, b). pc_global pc = i \<and> (\<not> i \<longrightarrow> b \<inter> X n \<subseteq> set (pc_blocked pc))) (bn n) (V w' n)"
    using assms(1) [unfolded snap_def, THEN spec, of n] assms(2) [unfolded grown_def, THEN spec, of n] assms(3) [of n]
    by (auto elim!: option.rel_cases) blast+
qed

text \<open>One client of one live grant.\<close>

lemma repair_loop_step:
  assumes "okw w"
  obtains st1 w1 where
    "repair_loop eng bn svcs (name # names) st w = repair_loop eng bn svcs names st1 w1"
    "same_store w w1" "shrunk (\<lambda>n. if n = name then set svcs else {}) (V w) (V w1)"
    "upw w \<and> snap bn X w \<and> set svcs \<subseteq> X name \<longrightarrow>
       upw w1 \<and> (\<forall>b. V w1 name = Some (False, b) \<longrightarrow> b \<inter> set svcs = {})"
proof -
  note ret = that
  have quiet: thesis
    if "repair_loop eng bn svcs (name # names) st w = repair_loop eng bn svcs names st w"
      "\<And>b. snap bn X w \<Longrightarrow> set svcs \<subseteq> X name \<Longrightarrow> V w name = Some (False, b) \<Longrightarrow> b \<inter> set svcs = {}"
    by (rule ret [of st w]) (use that assms in \<open>simp_all add: same_store_def\<close>)
  show thesis
  proof (cases "bn name")
    case None
    show thesis by (rule quiet) (use None snap_None [of bn X w name] in auto)
  next
    case (Some pc)
    show thesis
    proof (cases "pc_global pc \<or> intersect svcs (pc_blocked pc) = []")
      case True
      have e: "pc_global pc \<or> set svcs \<inter> set (pc_blocked pc) = {}"
        using True intersect_set [of svcs "pc_blocked pc"] by (metis set_empty)
      show thesis
      proof (rule quiet)
        show "repair_loop eng bn svcs (name # names) st w = repair_loop eng bn svcs names st w"
          using True Some by (auto simp: Let_def)
        fix b
        assume h: "snap bn X w" "set svcs \<subseteq> X name" "V w name = Some (False, b)"
        obtain c where "V w name = Some (pc_global pc, c)" "\<not> pc_global pc \<longrightarrow> c \<inter> X name \<subseteq> set (pc_blocked pc)"
          using snap_Some [OF h(1) Some] by blast
        with h(2,3) e show "b \<inter> set svcs = {}" by auto
      qed
    next
      case False
      define drifted where "drifted = intersect svcs (pc_blocked pc)"
      obtain r a where run: "ea_RemoveBlockedServices AG name drifted (w_ag w) = (r, a)"
        by (cases "ea_RemoveBlockedServices AG name drifted (w_ag w)")
      define w1 where "w1 = w\<lparr>w_ag := a\<rparr>"
      have okW: "okW (w_ag w)" using assms by (simp add: okw_def)
      note rem = remove [OF okW run]
      have sub: "set drifted \<subseteq> set svcs" by (auto simp: drifted_def)
      obtain st1 where step: "repair_loop eng bn svcs (name # names) st w = repair_loop eng bn svcs names st1 w1"
        using Some False run by (cases r) (auto simp: run_ag_def w1_def drifted_def Let_def)
      show thesis
      proof (rule ret [of st1 w1, OF step])
        show "same_store w w1" using rem assms by (simp add: same_store_def w1_def okw_def)
        show "shrunk (\<lambda>n. if n = name then set svcs else {}) (V w) (V w1)"
          using rem edited_shrunk [of name "set drifted" "V w" "view a" "\<lambda>n. if n = name then set svcs else {}"] sub
          by (auto simp: w1_def)
        show "upw w \<and> snap bn X w \<and> set svcs \<subseteq> X name \<longrightarrow>
          upw w1 \<and> (\<forall>b. V w1 name = Some (False, b) \<longrightarrow> b \<inter> set svcs = {})"
        proof
        assume "upw w \<and> snap bn X w \<and> set svcs \<subseteq> X name"
        then have up: "upw w" "snap bn X w" "set svcs \<subseteq> X name" by simp_all
        obtain c where c: "V w name = Some (False, c)" "c \<inter> X name \<subseteq> set (pc_blocked pc)"
          using snap_Some [OF up(2) Some] False by auto
        have u: "is_ok r" "upW a" using up_remove [OF okW _ _ run] up(1) c(1) by (auto simp: upw_def)
        with rem c(1) have "V w1 name = Some (False, c - set drifted)"
          by (simp add: edited_def w1_def)
        moreover have "(c - set drifted) \<inter> set svcs = {}"
          using c(2) up(3) by (auto simp: drifted_def)
        moreover have "upw w1" using u(2) up(1) rem by (simp add: upw_def okw_def w1_def)
        ultimately show "upw w1 \<and> (\<forall>b. V w1 name = Some (False, b) \<longrightarrow> b \<inter> set svcs = {})" by simp
        qed
      qed
    qed
  qed
qed

lemma repair_loop_outcome:
  assumes "okw w" "repair_loop eng bn svcs names st w = (st', w')"
  shows "same_store w w' \<and> shrunk (\<lambda>n. if n \<in> set names then set svcs else {}) (V w) (V w') \<and>
    (upw w \<and> snap bn X w \<and> (\<forall>n \<in> set names. set svcs \<subseteq> X n) \<longrightarrow>
       upw w' \<and> (\<forall>n \<in> set names. \<forall>b. V w' n = Some (False, b) \<longrightarrow> b \<inter> set svcs = {}))"
  using assms
proof (induction names arbitrary: st w)
  case Nil
  then show ?case by (simp add: same_store_def)
next
  case (Cons name names)
  obtain st1 w1 where s: "repair_loop eng bn svcs (name # names) st w = repair_loop eng bn svcs names st1 w1"
    "same_store w w1" "shrunk (\<lambda>n. if n = name then set svcs else {}) (V w) (V w1)"
    "upw w \<and> snap bn X w \<and> set svcs \<subseteq> X name \<longrightarrow>
       upw w1 \<and> (\<forall>b. V w1 name = Some (False, b) \<longrightarrow> b \<inter> set svcs = {})"
    by (rule repair_loop_step [OF Cons.prems(1), of bn svcs name names st X])
  have ok1: "okw w1" using s(2) by (simp add: same_store_def)
  have loop: "repair_loop eng bn svcs names st1 w1 = (st', w')" using s(1) Cons.prems(2) by simp
  note IH = Cons.IH [OF ok1 loop]
  have sh1: "shrunk (\<lambda>n. if n \<in> set (name # names) then set svcs else {}) (V w) (V w1)"
    by (rule shrunk_mono [OF s(3)]) auto
  have "shrunk (\<lambda>n. if n \<in> set names then set svcs else {}) (V w1) (V w')" using IH by blast
  then have sh2: "shrunk (\<lambda>n. if n \<in> set (name # names) then set svcs else {}) (V w1) (V w')"
    by (rule shrunk_mono) auto
  have "upw w' \<and> (\<forall>n \<in> set (name # names). \<forall>b. V w' n = Some (False, b) \<longrightarrow> b \<inter> set svcs = {})"
    if up: "upw w \<and> snap bn X w \<and> (\<forall>n \<in> set (name # names). set svcs \<subseteq> X n)"
  proof -
    have one: "upw w1" "\<forall>b. V w1 name = Some (False, b) \<longrightarrow> b \<inter> set svcs = {}" using s(4) up by auto
    have "snap bn X w1" using snap_shrunk [OF _ s(3)] up by blast
    with IH one up have rest: "upw w'" "\<forall>n \<in> set names. \<forall>b. V w' n = Some (False, b) \<longrightarrow> b \<inter> set svcs = {}"
      by simp_all
    have "b \<inter> set svcs = {}" if "V w' name = Some (False, b)" for b
      using shrunk_Some' [OF sh2 that] one(2) by blast
    with rest show ?thesis by simp
  qed
  moreover have "same_store w w'" using IH s(2) by (simp add: same_store_def)
  ultimately show ?case using shrunk_trans [OF sh1 sh2] by blast
qed

section \<open>Expiring under \<open>up\<close>\<close>

lemma revert_loop_up:
  assumes "upw w" "revert_loop eng plan names w = (failed, k, w')"
  shows "failed = [] \<and> upw w'"
  using assms
proof (induction names arbitrary: w failed k)
  case Nil
  then show ?case by simp
next
  case (Cons name names)
  show ?case
  proof (cases "plan name")
    case None
    with Cons show ?thesis by simp
  next
    case (Some svcs)
    obtain r a where run: "ea_AddBlockedServices AG name svcs (w_ag w) = (r, a)"
      by (cases "ea_AddBlockedServices AG name svcs (w_ag w)")
    have ok: "okW (w_ag w)" "upW (w_ag w)" using Cons.prems(1) by (simp_all add: upw_def okw_def)
    have u: "(case r of Inl x \<Rightarrow> client_gone x | Inr _ \<Rightarrow> True) \<and> upW a" by (rule up_add [OF ok run])
    have "upw (w\<lparr>w_ag := a\<rparr>)" using u add [OF ok(1) run] Cons.prems(1) by (simp add: upw_def okw_def)
    note IH = Cons.IH [OF this]
    obtain f2 k2 where "revert_loop eng plan names (w\<lparr>w_ag := a\<rparr>) = (f2, k2, w')" "failed = f2"
      using Cons.prems(2) Some run u by (cases r) (auto simp: run_ag_def Let_def split: prod.splits)
    with IH show ?thesis by simp
  qed
qed

lemma revert_up:
  assumes "upw w" "revert eng g w = (failed, k, w')"
  shows "failed = [] \<and> upw w'"
proof -
  obtain r s where r: "es_ListActiveGrants ES (w_store w) = (r, s)" by (cases "es_ListActiveGrants ES (w_store w)")
  have ok: "okS (w_store w)" "upS (w_store w)" using assms(1) by (simp_all add: upw_def okw_def)
  have u: "is_ok r \<and> upS s" by (rule up_list_active [OF ok r])
  then obtain gs where "r = Inr gs" by (cases r) auto
  with r assms(2) have "revert_loop eng (revertPlan g gs) (grant_clients g) (w\<lparr>w_store := s\<rparr>) = (failed, k, w')"
    by (simp add: revert_def run_store_def)
  moreover have "upw (w\<lparr>w_store := s\<rparr>)" using u list_active [OF ok(1) r] assms(1) by (simp add: upw_def okw_def)
  ultimately show ?thesis by (rule revert_loop_up [rotated])
qed

lemma expireLocked_up:
  assumes "upw w" "G w (grant_id g) = Some g" "grant_status g = StatusActive"
    and "expireLocked eng g w = (b, k, w')"
  shows "b \<and> upw w'"
proof -
  obtain failed k1 w1 where rev: "revert eng g w = (failed, k1, w1)" by (cases "revert eng g w")
  have f: "failed = []" "upw w1" using revert_up [OF assms(1) rev] by simp_all
  have okw: "okw w" using assms(1) by (simp add: upw_def)
  obtain now w2 where c: "clock w1 = (now, w2)" by (cases "clock w1")
  have ag: "agree w1 w2" using clock_agree [OF c] by simp
  obtain r s where r: "es_SetGrantStatus ES (grant_id g) StatusActive StatusExpired now (w_store w2) = (r, s)"
    by (cases "es_SetGrantStatus ES (grant_id g) StatusActive StatusExpired now (w_store w2)")
  have up2: "upw w2" using f(2) agree_ok [OF ag] by simp
  then have ok2: "okS (w_store w2)" "upS (w_store w2)" by (simp_all add: upw_def okw_def)
  have u: "is_ok r \<and> upS s" by (rule up_set_status [OF ok2 r]) simp
  have "r \<noteq> Inr False"
    using set_status [OF ok2(1) r] revert_keeps [OF okw rev] ag assms(2,3) by (auto simp: agree_def)
  with u have "r = Inr True" by (cases r) auto
  with rev f(1) c r assms(4) have "b" "w' = stopTimer (grant_id g) (w2\<lparr>w_store := s\<rparr>)"
    by (simp_all add: expireLocked_def run_store_def)
  moreover have "upw (w2\<lparr>w_store := s\<rparr>)" using u set_status [OF ok2(1) r] up2 by (simp add: upw_def okw_def)
  ultimately show ?thesis by simp
qed

text \<open>A timer that fires with both sides answering: early it is armed again, late the grant is closed.\<close>

lemma expire_up:
  assumes "upw w" "G w i = Some g" "grant_status g = StatusActive"
  defines "w' \<equiv> expire eng i w"
  shows "upw w' \<and>
    (if fst (clock w) < ends_at g
     then G w' = G w \<and> V w' = V w \<and> (w_timers w' i \<noteq> None \<or> w_closed w)
     else closes g StatusExpired (G w) (G w') (V w') \<and> grown (revert_bound g (G w)) (V w) (V w') \<and> w_timers w' i = None)"
proof -
  let ?w0 = "w\<lparr>w_timers := (w_timers w)(i := None)\<rparr>"
  obtain rg s where rg: "es_GetGrant ES i (w_store w) = (rg, s)" by (cases "es_GetGrant ES i (w_store w)")
  have ok: "okS (w_store w)" "upS (w_store w)" using assms(1) by (simp_all add: upw_def okw_def)
  note gg = get_grant [OF ok(1) rg] up_get_grant [OF ok _ rg] assms(2)
  have id: "grant_id g = i" using grant_ids [OF ok(1) assms(2)] by simp
  define w1 where "w1 = w\<lparr>w_timers := (w_timers w)(i := None), w_store := s\<rparr>"
  have run: "run_store (es_GetGrant ES i) ?w0 = (Inr g, w1)" and up1: "upw w1" and same: "G w1 = G w" "V w1 = V w"
    using gg assms(1) rg by (cases rg; auto simp: run_store_def upw_def okw_def w1_def)+
  obtain now w2 where c: "clock w1 = (now, w2)" by (cases "clock w1")
  have now: "now = fst (clock w)" using c by (auto simp: clock_def w1_def split: list.splits)
  have ag: "agree w1 w2" "w_timers w2 = w_timers w1" using clock_agree [OF c] by simp_all
  have up2: "upw w2" using up1 agree_ok [OF ag(1)] by simp
  have same2: "G w2 = G w" "V w2 = V w" "w_closed w2 = w_closed w" using ag(1) same by (simp_all add: agree_def w1_def)
  show ?thesis
  proof (cases "now < ends_at g")
    case True
    then have "w' = arm g w2" using run assms(3) c by (simp add: w'_def expire_def)
    with True up2 same2 arm_timers(1) [of g w2] show ?thesis unfolding now by (simp add: id)
  next
    case False
    obtain b k w3 where e: "expireLocked eng g w2 = (b, k, w3)" by (cases "expireLocked eng g w2")
    have w': "w' = w3" using run assms(3) c False e by (simp add: w'_def expire_def)
    have g2: "G w2 (grant_id g) = Some g" using assms(2) same2 id by simp
    have okw2: "okw w2" using up2 by (simp add: upw_def)
    note out = expireLocked_outcome [OF okw2 g2 assms(3) e] expireLocked_up [OF up2 g2 assms(3) e]
    then have "b" by blast
    with out same2 False show ?thesis unfolding now w' by (simp add: id)
  qed
qed

section \<open>One grant of the pass\<close>

text \<open>The grants the pass walks are stored and active; \<open>H\<close> are the live ones, which it leaves alone.\<close>

definition held_active :: "grant set \<Rightarrow> ('s, 'w) world \<Rightarrow> bool" where
  "held_active H w \<longleftrightarrow> (\<forall>h \<in> H. G w (grant_id h) = Some h \<and> grant_status h = StatusActive)"

lemma held_active_rest:
  assumes "held_active (set (g # gs)) w" "distinct (map grant_id (g # gs))"
    "\<And>i. i \<noteq> grant_id g \<Longrightarrow> G w1 i = G w i"
  shows "held_active (set gs) w1"
  unfolding held_active_def
proof
  fix h
  assume "h \<in> set gs"
  with assms(1) have "G w (grant_id h) = Some h \<and> grant_status h = StatusActive" unfolding held_active_def by simp
  moreover have "grant_id h \<noteq> grant_id g" using assms(2) \<open>h \<in> set gs\<close> by (simp add: image_iff) metis
  ultimately show "G w1 (grant_id h) = Some h \<and> grant_status h = StatusActive" using assms(3) by simp
qed

lemma overdue_gain:
  assumes "held_active H w" "\<forall>h \<in> H. grant_id h \<noteq> grant_id g"
  shows "revert_bound g (G w) n \<inter> opens H n = {}"
proof -
  have "opens H n \<subseteq> held_by_others (G w) (grant_id g) n"
    using assms unfolding opens_def held_by_others_def held_active_def by blast
  then show ?thesis unfolding revert_bound_def by auto
qed

lemma reconcile_grant_outcome:
  assumes "okw w" "G w (grant_id g) = Some g" "grant_status g = StatusActive"
    and "reconcile_grant eng bn now g st w = (st', w')"
  shows "keeps w w' \<and> K w' = K w \<and> w_closed w' = w_closed w \<and>
    (\<forall>i. i \<noteq> grant_id g \<longrightarrow> G w' i = G w i \<and> w_timers w' i = w_timers w i) \<and>
    (now < ends_at g \<longrightarrow> G w' = G w \<and> (w_timers w' (grant_id g) \<noteq> None \<or> w_closed w))"
proof (cases "now < ends_at g")
  case False
  obtain b k where e: "expireLocked eng g w = (b, k, w')"
    using assms(4) False by (auto simp: reconcile_grant_def split: prod.splits)
  note out = expireLocked_outcome [OF assms(1-3) e]
  with False show ?thesis by (cases b) (auto simp: closes_def)
next
  case True
  obtain w1 where r: "repair_loop eng bn (grant_services g) (grant_clients g) st w = (st', w1)"
    "w' = (if w_timers w1 (grant_id g) = None then arm g w1 else w1)"
    using assms(4) True by (auto simp: reconcile_grant_def split: prod.splits)
  note rep = repair_loop_outcome [OF assms(1) r(1)]
  have s: "same_store w w1" using rep by blast
  have k1: "keeps w w1"
    by (rule keeps_shrunk [OF s, of "\<lambda>n. if n \<in> set (grant_clients g) then set (grant_services g) else {}"])
       (use rep grant_covered [OF assms(2,3)] in blast)+
  have "keeps w w'"
    using k1 keeps_trans [OF k1 keeps_stop(2) [OF keeps_ok [OF k1]]] by (simp add: r(2))
  then show ?thesis
    using s arm_timers(1) [of g w1] arm_timers(2) [of _ g w1] True by (auto simp: r(2) same_store_def)
qed

lemma reconcile_grant_up:
  assumes "upw w" "G w (grant_id g) = Some g" "grant_status g = StatusActive"
    and "reconcile_grant eng bn now g st w = (st', w')"
    and "held_active H w" "\<forall>h \<in> H. now < ends_at h" "now < ends_at g \<longrightarrow> g \<in> H" "snap bn (opens H) w"
  shows "upw w' \<and> snap bn (opens H) w' \<and> (\<forall>h \<in> H. live_open h (V w) \<longrightarrow> live_open h (V w')) \<and>
    (if now < ends_at g then live_open g (V w') else G w' (grant_id g) = Some (g\<lparr>grant_status := StatusExpired\<rparr>))"
proof (cases "now < ends_at g")
  case False
  have okw: "okw w" using assms(1) by (simp add: upw_def)
  obtain b k where e: "expireLocked eng g w = (b, k, w')"
    using assms(4) False by (auto simp: reconcile_grant_def split: prod.splits)
  note out = expireLocked_outcome [OF okw assms(2,3) e] expireLocked_up [OF assms(1-3) e]
  then have gr: "grown (revert_bound g (G w)) (V w) (V w')" by blast
  have ids: "\<forall>h \<in> H. grant_id h \<noteq> grant_id g"
  proof
    fix h
    assume "h \<in> H"
    with assms(5,6) have "G w (grant_id h) = Some h" "now < ends_at h" by (auto simp: held_active_def)
    with assms(2) False show "grant_id h \<noteq> grant_id g" by auto
  qed
  note gain = overdue_gain [OF assms(5) ids]
  have "snap bn (opens H) w'" by (rule snap_grown [OF assms(8) gr gain])
  moreover have "live_open h (V w')" if "h \<in> H" "live_open h (V w)" for h
    by (rule live_open_grown [OF that(2) gr gain that(1)])
  ultimately show ?thesis using out False by (simp add: closes_def)
next
  case True
  have okw: "okw w" using assms(1) by (simp add: upw_def)
  obtain w1 where r: "repair_loop eng bn (grant_services g) (grant_clients g) st w = (st', w1)"
    "w' = (if w_timers w1 (grant_id g) = None then arm g w1 else w1)"
    using assms(4) True by (auto simp: reconcile_grant_def split: prod.splits)
  note rep = repair_loop_outcome [OF okw r(1), of "opens H"]
  have sh: "shrunk (\<lambda>n. if n \<in> set (grant_clients g) then set (grant_services g) else {}) (V w) (V w')"
    using rep by (simp add: r(2))
  have "\<forall>n \<in> set (grant_clients g). set (grant_services g) \<subseteq> opens H n"
    using opens_member [of g H] assms(7) True by blast
  with rep assms(1,8) have "upw w1" "live_open g (V w1)" unfolding live_open_def by blast+
  then have "upw w'" "live_open g (V w')" by (simp_all add: r(2) live_open_def)
  with True snap_shrunk [OF assms(8) sh] live_open_shrunk [OF _ sh] show ?thesis by auto
qed

section \<open>The pass\<close>

lemma reconcile_loop_outcome:
  assumes "okw w" "distinct (map grant_id gs)" "held_active (set gs) w"
    and "reconcile_loop eng bn now gs st w = (st', w')"
  shows "keeps w w' \<and> K w' = K w \<and> w_closed w' = w_closed w \<and>
    (\<forall>i. i \<notin> grant_id ` set gs \<longrightarrow> G w' i = G w i \<and> w_timers w' i = w_timers w i) \<and>
    (\<forall>g \<in> set gs. now < ends_at g \<longrightarrow> G w' (grant_id g) = Some g \<and> (w_timers w' (grant_id g) \<noteq> None \<or> w_closed w))"
  using assms
proof (induction gs arbitrary: st w)
  case Nil
  then show ?case by (simp add: keeps_def)
next
  case (Cons g gs)
  obtain st1 w1 where one: "reconcile_grant eng bn now g st w = (st1, w1)" by (cases "reconcile_grant eng bn now g st w")
  have loop: "reconcile_loop eng bn now gs st1 w1 = (st', w')" using Cons.prems(4) one by simp
  have g: "G w (grant_id g) = Some g" "grant_status g = StatusActive" using Cons.prems(3) by (simp_all add: held_active_def)
  note out = reconcile_grant_outcome [OF Cons.prems(1) g one]
  have k1: "keeps w w1" using out by blast
  have ha: "held_active (set gs) w1"
    by (rule held_active_rest [OF Cons.prems(3,2)]) (use out in blast)
  have d: "distinct (map grant_id gs)" "grant_id g \<notin> grant_id ` set gs" using Cons.prems(2) by auto
  note IH = Cons.IH [OF keeps_ok [OF k1] d(1) ha loop]
  have "keeps w w'" using keeps_trans [OF k1] IH by blast
  moreover have "G w' (grant_id g) = Some g \<and> (w_timers w' (grant_id g) \<noteq> None \<or> w_closed w)" if "now < ends_at g"
    using IH out d(2) g(1) that by auto
  ultimately show ?case using IH out by auto
qed

lemma reconcile_loop_up:
  assumes "upw w" "distinct (map grant_id gs)" "held_active (set gs) w"
    and "reconcile_loop eng bn now gs st w = (st', w')"
    and "held_active H w" "\<forall>h \<in> H. now < ends_at h" "{g \<in> set gs. now < ends_at g} \<subseteq> H" "snap bn (opens H) w"
  shows "upw w' \<and> (\<forall>h \<in> H. live_open h (V w) \<longrightarrow> live_open h (V w')) \<and>
    (\<forall>g \<in> set gs. if now < ends_at g then live_open g (V w')
       else G w' (grant_id g) = Some (g\<lparr>grant_status := StatusExpired\<rparr>))"
  using assms
proof (induction gs arbitrary: st w)
  case Nil
  then show ?case by simp
next
  case (Cons g gs)
  obtain st1 w1 where one: "reconcile_grant eng bn now g st w = (st1, w1)" by (cases "reconcile_grant eng bn now g st w")
  have loop: "reconcile_loop eng bn now gs st1 w1 = (st', w')" using Cons.prems(4) one by simp
  have okw: "okw w" using Cons.prems(1) by (simp add: upw_def)
  have g: "G w (grant_id g) = Some g" "grant_status g = StatusActive" using Cons.prems(3) by (simp_all add: held_active_def)
  have gH: "now < ends_at g \<longrightarrow> g \<in> H" using Cons.prems(7) by auto
  note out = reconcile_grant_outcome [OF okw g one]
  note up = reconcile_grant_up [OF Cons.prems(1) g one Cons.prems(5,6) gH Cons.prems(8)]
  have d: "distinct (map grant_id gs)" "grant_id g \<notin> grant_id ` set gs" using Cons.prems(2) by auto
  have ha: "held_active (set gs) w1"
    by (rule held_active_rest [OF Cons.prems(3,2)]) (use out in blast)
  have hH: "held_active H w1"
    unfolding held_active_def
  proof
    fix h
    assume h: "h \<in> H"
    then have Gh: "G w (grant_id h) = Some h" "grant_status h = StatusActive" "now < ends_at h"
      using Cons.prems(5,6) by (auto simp: held_active_def)
    have "G w1 (grant_id h) = Some h"
    proof (cases "grant_id h = grant_id g")
      case True
      with Gh(1) g(1) have "h = g" by (metis option.inject)
      with Gh(3) have "now < ends_at g" by simp
      with out have "G w1 = G w" by blast
      with Gh(1) show ?thesis by simp
    next
      case False
      with out have "G w1 (grant_id h) = G w (grant_id h)" by blast
      with Gh(1) show ?thesis by simp
    qed
    with Gh(2) show "G w1 (grant_id h) = Some h \<and> grant_status h = StatusActive" by simp
  qed
  have okup: "upw w1" "snap bn (opens H) w1" using up by blast+
  have sub: "{g \<in> set gs. now < ends_at g} \<subseteq> H" using Cons.prems(7) by auto
  note IH = Cons.IH [OF okup(1) d(1) ha loop hH Cons.prems(6) sub okup(2)]
  have ok1: "okw w1" using okup(1) by (simp add: upw_def)
  have rest: "G w' (grant_id g) = G w1 (grant_id g)"
    using reconcile_loop_outcome [OF ok1 d(1) ha loop] d(2) by blast
  have "if now < ends_at g then live_open g (V w') else G w' (grant_id g) = Some (g\<lparr>grant_status := StatusExpired\<rparr>)"
    using up IH gH rest by auto
  with IH up show ?case by auto
qed

lemma reconcile_outcome:
  assumes "okw w" "Reconcile eng w = (r, w')"
  shows "keeps w w' \<and> K w' = K w \<and> w_closed w' = w_closed w \<and> (\<forall>x. r = Inl x \<longrightarrow> G w' = G w \<and> V w' = V w) \<and>
    (\<forall>i g. G w i = Some g \<and> (grant_status g \<noteq> StatusActive \<or> fst (clock w) < ends_at g) \<longrightarrow> G w' i = Some g) \<and>
    (upw w \<longrightarrow> is_ok r \<and> upw w' \<and>
       (\<forall>i g. G w i = Some g \<and> grant_status g = StatusActive \<longrightarrow>
          (if fst (clock w) < ends_at g then live_open g (V w') \<and> (w_timers w' i \<noteq> None \<or> w_closed w)
           else G w' i = Some (g\<lparr>grant_status := StatusExpired\<rparr>))))"
proof -
  obtain rl w1 where rl: "run_store (es_ListActiveGrants ES) w = (rl, w1)" by (cases "run_store (es_ListActiveGrants ES) w")
  note l = run_list [OF assms(1) rl]
  have ids: "G w i = Some g \<Longrightarrow> grant_id g = i" for i g
    using grant_ids [of "w_store w" i g] assms(1) by (simp add: okw_def)
  have upl: "is_ok rl \<and> upw w1" if "upw w"
    using that rl up_list_active [of "w_store w"] list_active [of "w_store w"]
    by (auto simp: run_store_eq upw_def okw_def)
  show ?thesis
  proof (cases rl)
    case (Inl x)
    then have e: "r = Inl (ReconcileList x)" "w' = w1" using rl assms(2) by (simp_all add: Reconcile_def)
    with l upl Inl keeps_read [OF l(1)] show ?thesis by (auto simp: store_read_def)
  next
    case (Inr gs)
    note L = l(2) [OF Inr]
    have sr: "okw w1" "G w1 = G w" "K w1 = K w" "w_ag w1 = w_ag w" "w_timers w1 = w_timers w" "w_closed w1 = w_closed w"
      "fst (clock w1) = fst (clock w)"
      using l(1) by (simp_all add: store_read_def clock_def split: list.splits)
    have act: "G w i = Some g \<and> grant_status g = StatusActive \<longleftrightarrow> g \<in> set gs \<and> grant_id g = i" for i g
      using L ids by blast
    show ?thesis
    proof (cases "gs = []")
      case True
      then have e: "is_ok r" "w' = w1" using rl Inr assms(2) by (auto simp: Reconcile_def Let_def)
      have none: "\<not> (G w i = Some g \<and> grant_status g = StatusActive)" for i g using act True by simp
      have "upw w \<longrightarrow> upw w'" using upl e(2) by blast
      then show ?thesis
        using e keeps_read [OF l(1)] sr none by (cases r) auto
    next
      case False
      obtain rc w2 where rc: "run_ag (ea_Clients AG) w1 = (rc, w2)" by (cases "run_ag (ea_Clients AG) w1")
      note c = run_clients [OF sr(1) rc]
      have ss: "okw w2" "G w2 = G w" "K w2 = K w" "V w2 = V w" "w_timers w2 = w_timers w" "w_closed w2 = w_closed w"
        "fst (clock w2) = fst (clock w)" "L w2 = L w"
        using c(1,2) sr by (simp_all add: same_store_def clock_def split: list.splits)
      have k2: "keeps w w2" by (rule keeps_view) (use ss in simp_all)
      have upc: "is_ok rc \<and> upw w2" if "upw w"
        using upl [OF that] rc up_clients [of "w_ag w1"] clients [of "w_ag w1"]
        by (auto simp: run_ag_eq upw_def okw_def)
      show ?thesis
      proof (cases rc)
        case (Inl x)
        then have e: "r = Inl (ReconcileRead x)" "w' = w2"
          using rl \<open>rl = Inr gs\<close> False rc assms(2) by (simp_all add: Reconcile_def Let_def)
        with ss k2 upc Inl show ?thesis by auto
      next
        case (Inr res)
        obtain now w3 where ck: "clock w2 = (now, w3)" by (cases "clock w2")
        have now: "now = fst (clock w)" using ck ss(7) by simp
        have ag: "agree w2 w3" "w_timers w3 = w_timers w2" using clock_agree [OF ck] by simp_all
        define bn where "bn = by_name (cr_persistent res)"
        obtain st where lp: "reconcile_loop eng bn now gs st w3 = (case r of Inr s \<Rightarrow> s, w')" "is_ok r"
          using rl \<open>rl = Inr gs\<close> False rc Inr ck assms(2)
          by (auto simp: Reconcile_def Let_def bn_def split: prod.splits)
        have w3: "okw w3" "G w3 = G w" "K w3 = K w" "V w3 = V w" "w_timers w3 = w_timers w" "w_closed w3 = w_closed w"
          using ag ss agree_ok [OF ag(1)] by (simp_all add: agree_def)
        have k3: "keeps w w3" using keeps_trans [OF k2 keeps_agree [OF ss(1) ag(1)]] .
        have ha: "held_active (set gs) w3" unfolding held_active_def w3(2) using L by blast
        have d: "distinct (map grant_id gs)" using L by blast
        note out = reconcile_loop_outcome [OF w3(1) d ha lp(1)]
        have k: "keeps w w'" using keeps_trans [OF k3] out by blast
        have unmoved: "G w' i = Some g"
          if "G w i = Some g" "grant_status g \<noteq> StatusActive \<or> now < ends_at g" for i g
        proof (cases "grant_status g = StatusActive")
          case True
          with that act have "g \<in> set gs" "grant_id g = i" "now < ends_at g" by auto
          with out show ?thesis by auto
        next
          case False
          have "i \<notin> grant_id ` set gs"
          proof
            assume "i \<in> grant_id ` set gs"
            then obtain h where "h \<in> set gs" "grant_id h = i" by auto
            with act [of i h] that(1) False show False by auto
          qed
          with out w3(2) that(1) show ?thesis by simp
        qed
        have live: "is_ok r \<and> upw w' \<and> (\<forall>i g. G w i = Some g \<and> grant_status g = StatusActive \<longrightarrow>
          (if now < ends_at g then live_open g (V w') \<and> (w_timers w' i \<noteq> None \<or> w_closed w)
           else G w' i = Some (g\<lparr>grant_status := StatusExpired\<rparr>)))" if up: "upw w"
        proof -
          let ?H = "{g \<in> set gs. now < ends_at g}"
          have up3: "upw w3" using upc [OF up] agree_ok [OF ag(1)] by simp
          have "V w1 n = map_option (\<lambda>pc. (pc_global pc, set (pc_blocked pc))) (bn n)" for n
            using c(3) [OF Inr] by (simp add: bn_def)
          then have view: "V w3 n = map_option (\<lambda>pc. (pc_global pc, set (pc_blocked pc))) (bn n)" for n
            using w3(4) sr(4) by simp
          have sn: "snap bn (opens ?H) w3"
            unfolding snap_def view by (auto simp: option.rel_map intro!: option.rel_refl)
          have hH: "held_active ?H w3" "\<forall>h \<in> ?H. now < ends_at h" using ha by (auto simp: held_active_def)
          have fin: "upw w'" "\<forall>g \<in> set gs. if now < ends_at g then live_open g (V w')
             else G w' (grant_id g) = Some (g\<lparr>grant_status := StatusExpired\<rparr>)"
            using reconcile_loop_up [OF up3 d ha lp(1) hH order_refl sn] by blast+
          have "if now < ends_at g then live_open g (V w') \<and> (w_timers w' i \<noteq> None \<or> w_closed w)
              else G w' i = Some (g\<lparr>grant_status := StatusExpired\<rparr>)"
            if "G w i = Some g \<and> grant_status g = StatusActive" for i g
            using that fin(2) out w3(6) unfolding act by auto
          with fin(1) lp(2) show ?thesis by blast
        qed
        have "K w' = K w" "w_closed w' = w_closed w" "\<forall>x. r = Inl x \<longrightarrow> G w' = G w \<and> V w' = V w"
          using out w3 lp(2) by auto
        with k unmoved live show ?thesis unfolding now by blast
      qed
    qed
  qed
qed

section \<open>A pass with nothing to do\<close>

lemma repair_loop_quiet:
  assumes "\<And>n pc. n \<in> set names \<Longrightarrow> bn n = Some pc \<Longrightarrow> pc_global pc \<or> set svcs \<inter> set (pc_blocked pc) = {}"
  shows "repair_loop e bn svcs names st w = (st, w)"
  using assms
proof (induction names)
  case Nil
  then show ?case by simp
next
  case (Cons n ns)
  have "intersect svcs (pc_blocked pc) = []" if "bn n = Some pc" "\<not> pc_global pc" for pc
    using Cons.prems [of n pc] that intersect_set [of svcs "pc_blocked pc"] by (metis list.set_intros(1) set_empty)
  with Cons show ?case by (auto split: option.splits)
qed

lemma reconcile_loop_quiet:
  assumes "\<And>g. g \<in> set gs \<Longrightarrow> now < ends_at g"
    and "\<And>g n pc. g \<in> set gs \<Longrightarrow> n \<in> set (grant_clients g) \<Longrightarrow> bn n = Some pc \<Longrightarrow>
      pc_global pc \<or> set (grant_services g) \<inter> set (pc_blocked pc) = {}"
  shows "\<exists>w'. reconcile_loop e bn now gs st w = (st, w') \<and> agree w w'"
  using assms
proof (induction gs arbitrary: w)
  case Nil
  then show ?case by (simp add: agree_def)
next
  case (Cons g gs)
  let ?w1 = "if w_timers w (grant_id g) = None then arm g w else w"
  have "repair_loop e bn (grant_services g) (grant_clients g) st w = (st, w)"
    by (rule repair_loop_quiet) (use Cons.prems(2) [of g] in simp)
  then have one: "reconcile_grant e bn now g st w = (st, ?w1)"
    using Cons.prems(1) [of g] by (simp add: reconcile_grant_def)
  obtain w' where "reconcile_loop e bn now gs st ?w1 = (st, w')" "agree ?w1 w'"
    using Cons.IH [of ?w1] Cons.prems by auto
  with one show ?case by (auto simp: agree_def)
qed

lemma reconcile_quiet:
  assumes "okw w" "Reconcile eng w = (Inr st, w')"
    and "\<And>i g. G w i = Some g \<Longrightarrow> grant_status g = StatusActive \<Longrightarrow> fst (clock w) < ends_at g \<and> live_open g (V w)"
  shows "rs_writes st = 0 \<and> rs_reverted st = 0 \<and> rs_repaired st = 0 \<and> V w' = V w \<and> G w' = G w"
proof -
  obtain rl w1 where rl: "run_store (es_ListActiveGrants ES) w = (rl, w1)" by (cases "run_store (es_ListActiveGrants ES) w")
  note l = run_list [OF assms(1) rl]
  obtain gs where gs: "rl = Inr gs" using assms(2) rl by (cases rl) (simp_all add: Reconcile_def)
  note L = l(2) [OF gs]
  have sr: "okw w1" "G w1 = G w" "w_ag w1 = w_ag w" "fst (clock w1) = fst (clock w)"
    using l(1) by (simp_all add: store_read_def clock_def split: list.splits)
  show ?thesis
  proof (cases "gs = []")
    case True
    with assms(2) rl gs sr show ?thesis by (auto simp: Reconcile_def Let_def)
  next
    case False
    obtain rc w2 where rc: "run_ag (ea_Clients AG) w1 = (rc, w2)" by (cases "run_ag (ea_Clients AG) w1")
    note c = run_clients [OF sr(1) rc]
    obtain res where res: "rc = Inr res" using assms(2) rl gs False rc by (cases rc) (simp_all add: Reconcile_def Let_def)
    obtain now w3 where ck: "clock w2 = (now, w3)" by (cases "clock w2")
    have now: "now = fst (clock w)" using ck c(1) sr(4) by (auto simp: same_store_def clock_def split: list.splits)
    have ag: "agree w2 w3" using clock_agree [OF ck] by simp
    let ?st = "\<lparr>rs_grants = length gs, rs_reverted = 0, rs_repaired = 0, rs_writes = 0\<rparr>"
    have "\<exists>w4. reconcile_loop eng (by_name (cr_persistent res)) now gs ?st w3 = (?st, w4) \<and> agree w3 w4"
    proof (rule reconcile_loop_quiet)
      fix g
      assume g: "g \<in> set gs"
      with L assms(3) show "now < ends_at g" unfolding now by blast
      fix n pc
      assume n: "n \<in> set (grant_clients g)" "by_name (cr_persistent res) n = Some pc"
      have "V w n = Some (pc_global pc, set (pc_blocked pc))" using c(3) [OF res, of n] n(2) sr(3) by simp
      moreover have "live_open g (V w)" using L assms(3) g by blast
      ultimately show "pc_global pc \<or> set (grant_services g) \<inter> set (pc_blocked pc) = {}"
        using n(1) unfolding live_open_def by (cases "pc_global pc") auto
    qed
    then obtain w4 where w4: "reconcile_loop eng (by_name (cr_persistent res)) now gs ?st w3 = (?st, w4)" "agree w3 w4"
      by blast
    have "st = ?st" "w' = w4" using assms(2) rl gs False rc res ck w4(1) by (simp_all add: Reconcile_def Let_def)
    with w4(2) ag c(1,2) sr show ?thesis by (simp add: agree_def same_store_def)
  qed
qed

end

end
