(* ===== verification/EngineClients.thy ===== *)
theory EngineClients
  imports EngineLedger
begin

text \<open>
  The engine's operations on devices: what a device that joins a child is made to block
  (\<open>device_base\<close>), the creation and the adoption of clients, and the renaming of a client in
  AdGuard and in the store together.
\<close>

section \<open>What a joining device must block\<close>

definition known_of :: "lists \<Rightarrow> string set \<Rightarrow> string set" where
  "known_of v sib = {s \<in> sib. v s \<noteq> None}"

definition blocked_on :: "string set \<Rightarrow> lists \<Rightarrow> string \<Rightarrow> string set" where
  "blocked_on gl v s = (case v s of None \<Rightarrow> {} | Some (i, b) \<Rightarrow> if i then gl else b)"

definition device_base :: "string set \<Rightarrow> lists \<Rightarrow> (id \<Rightarrow> grant option) \<Rightarrow> id \<Rightarrow> string set \<Rightarrow> string set" where
  "device_base gl v gr child sib =
     (\<Union>s \<in> known_of v sib. blocked_on gl v s) \<union> (if known_of v sib = {} then gl else {}) \<union>
     {s. \<exists>i g. gr i = Some g \<and> grant_status g = StatusActive \<and>
        (grant_child g = child \<or> known_of v sib \<inter> set (grant_clients g) \<noteq> {}) \<and> s \<in> set (grant_services g)}"

text \<open>
  It holds everything the parents want blocked on any sibling AdGuard knows, the services a
  running grant has opened there included.
\<close>

lemma device_base_siblings:
  assumes "ledger base gl v gr" "s \<in> known_of v sib"
  shows "base s \<subseteq> device_base gl v gr child sib"
proof -
  obtain i b where v: "v s = Some (i, b)" using assms(2) by (auto simp: known_of_def)
  have "base s \<subseteq> (if i then gl else b \<union> covered gr s)" using assms(1) v by (simp add: ledger_def)
  moreover have "blocked_on gl v s \<subseteq> device_base gl v gr child sib"
    using assms(2) unfolding device_base_def by blast
  moreover have "covered gr s \<subseteq> device_base gl v gr child sib"
    using assms(2) unfolding device_base_def covered_def by blast
  ultimately show ?thesis by (auto simp: blocked_on_def v split: if_splits)
qed

lemma ledger_new:
  assumes "ledger base gl v gr" "B \<subseteq> (if i then gl else b)"
  shows "ledger (base(n := B)) gl (v(n \<mapsto> (i, b))) gr"
  using assms unfolding ledger_def by (auto split: if_splits)

lemma ledger_moved:
  assumes "ledger base gl v gr" "v old = Some x" "v new = None" "old \<noteq> new"
    and "\<And>n. n \<noteq> old \<Longrightarrow> n \<noteq> new \<Longrightarrow> covered gr n \<subseteq> covered gr' n" "covered gr old \<subseteq> covered gr' new"
  shows "ledger (base(new := base old)) gl (v(old := None, new \<mapsto> x)) gr'"
  unfolding ledger_def
proof (intro allI impI)
  fix n i b
  assume V: "(v(old := None, new \<mapsto> x)) n = Some (i, b)"
  show "(base(new := base old)) n \<subseteq> (if i then gl else b \<union> covered gr' n)"
  proof (cases "n = new")
    case True
    with V assms(2) have "v old = Some (i, b)" by simp
    with assms(1) have "base old \<subseteq> (if i then gl else b \<union> covered gr old)" by (simp add: ledger_def)
    with assms(6) True show ?thesis by (auto split: if_splits)
  next
    case False
    with V have n: "n \<noteq> old" "v n = Some (i, b)" by (auto split: if_splits)
    with assms(1) have "base n \<subseteq> (if i then gl else b \<union> covered gr n)" by (simp add: ledger_def)
    with assms(5) [OF n(1) False] False show ?thesis by (auto split: if_splits)
  qed
qed

context engine_env
begin

text \<open>What \<open>baselineFrom\<close> computes from its two reads.\<close>

lemma baseline_set:
  assumes "set (cr_global res) = L w"
    and "\<And>n. V w n = map_option (\<lambda>pc. (pc_global pc, set (pc_blocked pc))) (by_name (cr_persistent res) n)"
    and "\<forall>g. g \<in> set gs \<longleftrightarrow> G w (grant_id g) = Some g \<and> grant_status g = StatusActive"
    and "\<And>i g. G w i = Some g \<Longrightarrow> grant_id g = i"
  shows "set (baseline_of res child siblings gs) = device_base (L w) (V w) (G w) child (set siblings)"
proof -
  let ?bn = "by_name (cr_persistent res)"
  define known where "known = filter (\<lambda>s. ?bn s \<noteq> None) siblings"
  have k: "set known = known_of (V w) (set siblings)" by (auto simp: known_def known_of_def assms(2))
  have own: "set (if pc_global (the (?bn s)) then cr_global res else pc_blocked (the (?bn s))) = blocked_on (L w) (V w) s"
    if "s \<in> set known" for s
    using that by (auto simp: known_def blocked_on_def assms(1,2) split: option.splits)
  have gr: "{s. \<exists>g \<in> set gs. grant_covers child known g \<and> s \<in> set (grant_services g)} =
    {s. \<exists>i g. G w i = Some g \<and> grant_status g = StatusActive \<and>
        (grant_child g = child \<or> known_of (V w) (set siblings) \<inter> set (grant_clients g) \<noteq> {}) \<and> s \<in> set (grant_services g)}"
    (is "?A = ?B")
  proof (intro set_eqI iffI)
    fix s
    assume "s \<in> ?A"
    then obtain g where g: "g \<in> set gs" "grant_covers child known g" "s \<in> set (grant_services g)" by blast
    then have "grant_child g = child \<or> known_of (V w) (set siblings) \<inter> set (grant_clients g) \<noteq> {}"
      unfolding grant_covers_def k by blast
    with g assms(3) show "s \<in> ?B" by blast
  next
    fix s
    assume "s \<in> ?B"
    then obtain i g where g: "G w i = Some g" "grant_status g = StatusActive"
      "grant_child g = child \<or> known_of (V w) (set siblings) \<inter> set (grant_clients g) \<noteq> {}"
      "s \<in> set (grant_services g)" by blast
    then have "g \<in> set gs" using assms(3) assms(4) [OF g(1)] by blast
    with g show "s \<in> ?A" unfolding grant_covers_def k [symmetric] by blast
  qed
  let ?own = "\<lambda>s. if pc_global (the (?bn s)) then cr_global res else pc_blocked (the (?bn s))"
  have "set (concat (map ?own known)) = (\<Union>s \<in> set known. set (?own s))" by (simp only: set_concat set_map image_image)
  also have "\<dots> = (\<Union>s \<in> set known. blocked_on (L w) (V w) s)" by (rule SUP_cong [OF refl own])
  finally have own': "set (concat (map ?own known)) = (\<Union>s \<in> known_of (V w) (set siblings). blocked_on (L w) (V w) s)"
    by (simp only: k)
  have "set (baseline_of res child siblings gs) =
    (\<Union>s \<in> known_of (V w) (set siblings). blocked_on (L w) (V w) s) \<union> (if known = [] then L w else {}) \<union> ?A"
    unfolding baseline_of_def Let_def known_def [symmetric] sort_compact_set set_append if_distrib [of set] own' assms(1)
    by auto
  moreover have "known = [] \<longleftrightarrow> known_of (V w) (set siblings) = {}" using k by (metis set_empty)
  ultimately show ?thesis unfolding device_base_def gr by simp
qed

lemma baselineFrom_outcome:
  assumes "okw w" "baselineFrom eng res child siblings w = (r, w')"
    and "set (cr_global res) = L w"
    and "\<And>n. V w n = map_option (\<lambda>pc. (pc_global pc, set (pc_blocked pc))) (by_name (cr_persistent res) n)"
  shows "store_read w w' \<and> (\<forall>base gs. r = Inr (base, gs) \<longrightarrow>
    set base = device_base (L w) (V w) (G w) child (set siblings) \<and>
    (\<forall>n. set (heldOpen gs 0 n) = covered (G w) n))"
proof -
  obtain rl w1 where rl: "run_store (es_ListActiveGrants ES) w = (rl, w1)" by (cases "run_store (es_ListActiveGrants ES) w")
  note l = run_list [OF assms(1) rl]
  have ids: "grant_id g = i \<and> 0 < i" if "G w i = Some g" for i g
    using grant_ids [of "w_store w" i g] that assms(1) by (simp add: okw_def)
  show ?thesis
  proof (cases rl)
    case (Inl x)
    with rl l(1) assms(2) show ?thesis by (auto simp: baselineFrom_def)
  next
    case (Inr gs)
    have L: "\<forall>g. g \<in> set gs \<longleftrightarrow> G w (grant_id g) = Some g \<and> grant_status g = StatusActive" using l(2) [OF Inr] by blast
    have e: "r = Inr (baseline_of res child siblings gs, gs)" "w' = w1"
      using rl Inr assms(2) by (simp_all add: baselineFrom_def)
    have "set (baseline_of res child siblings gs) = device_base (L w) (V w) (G w) child (set siblings)"
      by (rule baseline_set [OF assms(3,4) L]) (use ids in blast)
    moreover have "set (heldOpen gs 0 n) = covered (G w) n" for n
    proof -
      have "held_by_others (G w) 0 n = covered (G w) n"
        using ids unfolding held_by_others_def covered_def by blast
      then show ?thesis using list_held [OF assms(1) L] by simp
    qed
    ultimately show ?thesis using e l(1) by simp
  qed
qed

section \<open>Creating a client\<close>

text \<open>The client is there with its list; \<open>same_rest\<close> is the world around it.\<close>

definition same_rest :: "('s, 'w) world \<Rightarrow> ('s, 'w) world \<Rightarrow> bool" where
  "same_rest w w' \<longleftrightarrow> okw w' \<and> G w' = G w \<and> L w' = L w \<and> w_timers w' = w_timers w \<and> w_closed w' = w_closed w"

lemma add_run:
  assumes "okw w" "run_ag (ea_AddClient AG nc) w = (r, w')"
  shows "same_rest w w' \<and> K w' = K w \<and> (V w' = V w \<and> \<not> is_ok r \<or> V w (nc_name nc) = None \<and>
    V w' = (V w)(nc_name nc \<mapsto> (nc_blocked nc = None, case nc_blocked nc of None \<Rightarrow> {} | Some b \<Rightarrow> set b)))"
proof -
  obtain a where a: "ea_AddClient AG nc (w_ag w) = (r, a)" "w' = w\<lparr>w_ag := a\<rparr>" using assms(2) by (auto simp: run_ag_eq)
  have "okW (w_ag w)" "okS (w_store w)" using assms(1) by (simp_all add: okw_def)
  with add_client [OF _ a(1)] show ?thesis by (simp add: a(2) same_rest_def okw_def)
qed

lemma create_client_outcome:
  assumes "okw w" "CreateClient eng name ids cid w = (r, w')"
  shows "same_rest w w' \<and>
    (V w' = V w \<and> K w' = K w \<and> \<not> is_ok r \<or>
     V w name = None \<and>
       (case cid of
          None \<Rightarrow> V w' = (V w)(name \<mapsto> (True, {})) \<and> K w' = K w
        | Some i \<Rightarrow> \<exists>m sib. K w i = Some (m, sib) \<and>
            V w' = (V w)(name \<mapsto> (False, device_base (L w) (V w) (G w) i sib)) \<and>
            K w' = (if is_ok r then (K w)(i \<mapsto> (m, insert (trim_space name) sib)) else K w)))"
proof (cases cid)
  case None
  obtain ra w1 where ra: "run_ag (ea_AddClient AG \<lparr>nc_name = name, nc_ids = ids, nc_blocked = None\<rparr>) w = (ra, w1)"
    by (cases "run_ag (ea_AddClient AG \<lparr>nc_name = name, nc_ids = ids, nc_blocked = None\<rparr>) w")
  have "w' = w1" "is_ok r = is_ok ra" using assms(2) None ra by (cases ra; auto simp: CreateClient_def)+
  with add_run [OF assms(1) ra] None show ?thesis by simp
next
  case (Some i)
  obtain rk s where rk: "es_GetChild ES i (w_store w) = (rk, s)" by (cases "es_GetChild ES i (w_store w)")
  define w1 where "w1 = w\<lparr>w_store := s\<rparr>"
  have okS: "okS (w_store w)" using assms(1) by (simp add: okw_def)
  note gc = get_child [OF okS rk]
  have w1: "same_rest w w1" "V w1 = V w" "K w1 = K w"
    using gc assms(1) by (simp_all add: same_rest_def w1_def okw_def)
  show ?thesis
  proof (cases rk)
    case (Inl x)
    with assms(2) Some rk w1 show ?thesis by (auto simp: CreateClient_def run_store_def w1_def)
  next
    case (Inr child)
    have ch: "child_id child = i" "K w i = Some (child_name child, set (child_clients child))" using gc Inr by blast+
    have ok1: "okw w1" using w1 by (simp add: same_rest_def)
    obtain rc w2 where rc: "run_ag (ea_Clients AG) w1 = (rc, w2)" by (cases "run_ag (ea_Clients AG) w1")
    note c = run_clients [OF ok1 rc]
    have w2: "same_rest w w2" "V w2 = V w" "K w2 = K w"
      using c(1,2) w1 by (simp_all add: same_rest_def same_store_def)
    have body: "CreateClient eng name ids cid w =
      (case baseline eng i (child_clients child) w1 of
         (Inl x, w2) \<Rightarrow> (Inl x, w2)
       | (Inr base, w2) \<Rightarrow>
           (case run_ag (ea_AddClient AG \<lparr>nc_name = name, nc_ids = ids, nc_blocked = Some base\<rparr>) w2 of
              (Inl x, w3) \<Rightarrow> (Inl (AgErr x), w3)
            | (Inr _, w3) \<Rightarrow>
                (case run_store (es_AddChildClient ES i name) w3 of
                   (Inl x, w4) \<Rightarrow> (Inl (NotAssigned name (child_name child) x), w4)
                 | (Inr _, w4) \<Rightarrow> (Inr (), w4))))"
      using Some rk Inr ch(1)
      by (simp add: CreateClient_def run_store_def w1_def cong: prod.case_cong sum.case_cong)
    show ?thesis
    proof (cases rc)
      case (Inl x)
      with assms(2) body rc w2 show ?thesis by (auto simp: baseline_def)
    next
      case res: (Inr res)
      obtain rb w3 where rb: "baselineFrom eng res i (child_clients child) w2 = (rb, w3)"
        by (cases "baselineFrom eng res i (child_clients child) w2")
      have ok2: "okw w2" using w2 by (simp add: same_rest_def)
      have "set (cr_global res) = L w2"
        "\<And>n. V w2 n = map_option (\<lambda>pc. (pc_global pc, set (pc_blocked pc))) (by_name (cr_persistent res) n)"
        using c(3) [OF res] c(1,2) by (simp_all add: same_store_def)
      note bf = baselineFrom_outcome [OF ok2 rb this]
      have w3: "same_rest w w3" "V w3 = V w" "K w3 = K w"
        using bf w2 by (simp_all add: same_rest_def store_read_def)
      show ?thesis
      proof (cases rb)
        case (Inl x)
        with assms(2) body rc res rb w3 show ?thesis by (auto simp: baseline_def)
      next
        case (Inr bg)
        obtain base gs where bg: "bg = (base, gs)" by (cases bg)
        have base: "set base = device_base (L w) (V w) (G w) i (set (child_clients child))"
          using bf Inr bg w2 by (simp add: same_rest_def)
        obtain ra w4 where ra: "run_ag (ea_AddClient AG \<lparr>nc_name = name, nc_ids = ids, nc_blocked = Some base\<rparr>) w3 = (ra, w4)"
          by (cases "run_ag (ea_AddClient AG \<lparr>nc_name = name, nc_ids = ids, nc_blocked = Some base\<rparr>) w3")
        have ok3: "okw w3" using w3 by (simp add: same_rest_def)
        note ad = add_run [OF ok3 ra]
        have w4: "same_rest w w4" "K w4 = K w" "V w4 = V w \<and> \<not> is_ok ra \<or> V w name = None \<and>
            V w4 = (V w)(name \<mapsto> (False, device_base (L w) (V w) (G w) i (set (child_clients child))))"
          using ad w3 base by (auto simp: same_rest_def)
        show ?thesis
        proof (cases ra)
          case (Inl x)
          then have "r = Inl (AgErr x)" "w' = w4" using assms(2) body rc res rb \<open>rb = Inr bg\<close> bg ra by (simp_all add: baseline_def)
          with w4 ch(2) Some show ?thesis by simp blast
        next
          case u: (Inr u)
          obtain rs s' where rs: "es_AddChildClient ES i name (w_store w4) = (rs, s')"
            by (cases "es_AddChildClient ES i name (w_store w4)")
          have okS4: "okS (w_store w4)" using w4(1) by (simp add: same_rest_def okw_def)
          note ac = add_child_client [OF okS4 rs]
          have e: "w' = w4\<lparr>w_store := s'\<rparr>" "is_ok r = is_ok rs"
            using assms(2) body rc res rb \<open>rb = Inr bg\<close> bg ra u rs by (cases rs; auto simp: baseline_def run_store_def)+
          have "same_rest w w'" using ac w4(1) by (simp add: e same_rest_def okw_def)
          moreover have "V w' = V w4" by (simp add: e)
          moreover have "K w' = (if is_ok r then (K w)(i \<mapsto> (child_name child, insert (trim_space name) (set (child_clients child)))) else K w)"
            using ac w4(2) ch(2) e by (cases rs) auto
          ultimately show ?thesis using w4(3) u ch(2) Some by simp
        qed
      qed
    qed
  qed
qed

end

section \<open>Adopting clients\<close>

text \<open>
  \<open>adopted\<close>: what the adoption of \<open>names\<close> may do to the lists. A client keeps what it blocks
  effectively and gains at most its own addition \<open>more n\<close>; a client not named is untouched.
\<close>

definition adopted :: "string set \<Rightarrow> (string \<Rightarrow> string set) \<Rightarrow> string set \<Rightarrow> lists \<Rightarrow> lists \<Rightarrow> bool" where
  "adopted gl gain names v v' \<longleftrightarrow>
     (\<forall>n. v' n = v n \<or> n \<in> names \<and> (\<exists>i b. v n = Some (i, b) \<and> v' n = Some (False, (if i then gl else b) \<union> gain n)))"

lemma adopted_refl [simp]: "adopted gl gain names v v"
  by (simp add: adopted_def)

lemma edited_adopted:
  assumes "edited n (\<lambda>(i, b). (False, (if i then gl else b) \<union> gain n)) v v'"
  shows "adopted gl gain {n} v v'"
  unfolding adopted_def
proof
  fix m
  show "v' m = v m \<or> m \<in> {n} \<and> (\<exists>i b. v m = Some (i, b) \<and> v' m = Some (False, (if i then gl else b) \<union> gain m))"
  proof (cases "m = n \<and> v n \<noteq> None")
    case True
    then obtain i b where "m = n" "v n = Some (i, b)" by auto
    moreover from this have "v' n = Some (False, (if i then gl else b) \<union> gain n)"
      using assms by (simp add: edited_def)
    ultimately show ?thesis by blast
  next
    case False
    then have "m \<noteq> n \<or> v n = None" by blast
    with assms have "v' m = v m" by (elim disjE) (simp_all add: edited_def)
    then show ?thesis ..
  qed
qed

lemma adopted_mono: "adopted gl gain names v v' \<Longrightarrow> names \<subseteq> names' \<Longrightarrow> adopted gl gain names' v v'"
  unfolding adopted_def by blast

lemma adopted_trans:
  assumes "adopted gl gain names v v1" "adopted gl gain names v1 v2"
  shows "adopted gl gain names v v2"
  unfolding adopted_def
proof
  fix n
  from assms(1) consider "v1 n = v n" | i b where "n \<in> names" "v n = Some (i, b)" "v1 n = Some (False, (if i then gl else b) \<union> gain n)"
    unfolding adopted_def by blast
  then show "v2 n = v n \<or> n \<in> names \<and> (\<exists>i b. v n = Some (i, b) \<and> v2 n = Some (False, (if i then gl else b) \<union> gain n))"
  proof cases
    case 1
    with assms(2) [unfolded adopted_def, THEN spec, of n] show ?thesis by simp
  next
    case 2
    from assms(2) [unfolded adopted_def, THEN spec, of n] have "v2 n = v1 n \<or> v2 n = Some (False, (if i then gl else b) \<union> gain n)"
      using 2(3) by (auto simp: Un_assoc)
    with 2 show ?thesis by simp
  qed
qed

lemma adopted_None: "adopted gl gain names v v' \<Longrightarrow> v' n = None \<longleftrightarrow> v n = None"
  unfolding adopted_def by (drule spec [of _ n]) auto

lemma adopted_grows: "adopted gl gain names v v' \<Longrightarrow> v n = Some (False, b) \<Longrightarrow> \<exists>b'. v' n = Some (False, b') \<and> b \<subseteq> b'"
  unfolding adopted_def by (drule spec [of _ n]) auto

lemma ledger_adoptions:
  assumes "ledger base gl v gr" "adopted gl gain names v v'"
  shows "ledger base gl v' gr"
  unfolding ledger_def
proof (intro allI impI)
  fix n i b
  assume V': "v' n = Some (i, b)"
  from assms(2) consider "v' n = v n"
    | j c where "v n = Some (j, c)" "v' n = Some (False, (if j then gl else c) \<union> gain n)"
    unfolding adopted_def by blast
  then show "base n \<subseteq> (if i then gl else b \<union> covered gr n)"
  proof cases
    case 1
    with V' assms(1) show ?thesis by (simp add: ledger_def)
  next
    case 2
    then have "base n \<subseteq> (if j then gl else c \<union> covered gr n)" using assms(1) by (simp add: ledger_def)
    with 2 V' show ?thesis by (auto split: if_splits)
  qed
qed

context engine_env
begin

lemma adopt_loop_outcome:
  assumes "okw w" "adopt_loop eng base active known names w = (r, w')"
    and "\<And>n. known n \<longleftrightarrow> V w n \<noteq> None" "\<And>n. set (without base (heldOpen active 0 n)) = gain n"
  shows "same_store w w' \<and> adopted (L w) gain (set names) (V w) (V w') \<and>
    (case r of
       Inr _ \<Rightarrow> (\<forall>n \<in> set names. V w n \<noteq> None \<longrightarrow> (\<exists>b. V w' n = Some (False, b) \<and> gain n \<subseteq> b))
     | Inl x \<Rightarrow> \<exists>n \<in> set names. \<exists>y. x = ErrAdoptFailed n y)"
  using assms
proof (induction names arbitrary: w)
  case Nil
  then show ?case by (auto simp: same_store_def)
next
  case (Cons n ns)
  show ?case
  proof (cases "known n")
    case False
    with Cons.prems(2) have "adopt_loop eng base active known ns w = (r, w')" by simp
    from Cons.IH [OF Cons.prems(1) this Cons.prems(3,4)] False Cons.prems(3) show ?thesis
      using adopted_mono [of "L w" gain "set ns" "V w" "V w'" "set (n # ns)"] by (auto split: sum.splits)
  next
    case True
    obtain ra a where ra: "ea_AdoptBlockedServices AG n (without base (heldOpen active 0 n)) (w_ag w) = (ra, a)"
      by (cases "ea_AdoptBlockedServices AG n (without base (heldOpen active 0 n)) (w_ag w)")
    define w1 where "w1 = w\<lparr>w_ag := a\<rparr>"
    have okW: "okW (w_ag w)" using Cons.prems(1) by (simp add: okw_def)
    let ?f = "\<lambda>(i, b). (False, (if i then L w else b) \<union> gain n)"
    note ad = adopt [OF okW ra, unfolded Cons.prems(4)]
    then have law: "okW a" "glob a = L w" "view a = V w \<or> edited n ?f (V w) (view a)" "is_ok ra \<longrightarrow> edited n ?f (V w) (view a)"
      "\<forall>x. ra = Inl x \<and> client_gone x \<longrightarrow> V w n = None \<and> view a = V w"
      by - (elim conjE, assumption)+
    have ss: "same_store w w1" using law(1,2) Cons.prems(1) by (simp add: same_store_def w1_def okw_def)
    have one: "adopted (L w) gain {n} (V w) (V w1)"
      using law(3) edited_adopted [of n "L w" gain "V w" "view a"] by (elim disjE) (simp_all add: w1_def)
    obtain i b where v: "V w n = Some (i, b)" using True Cons.prems(3) by (cases "V w n") auto
    show ?thesis
    proof (cases ra)
      case (Inl x)
      with law(5) Inl v have "\<not> client_gone x" by auto
      then have "r = Inl (ErrAdoptFailed n x)" "w' = w1"
        using Cons.prems(2) True ra Inl by (simp_all add: run_ag_def w1_def)
      with ss one adopted_mono [OF one] show ?thesis by simp
    next
      case (Inr u)
      have loop: "adopt_loop eng base active known ns w1 = (r, w')"
        using Cons.prems(2) True ra Inr by (simp add: run_ag_def w1_def)
      have kn: "known m \<longleftrightarrow> V w1 m \<noteq> None" for m using Cons.prems(3) adopted_None [OF one, of m] by simp
      have ok1: "okw w1" using ss by (simp add: same_store_def)
      have l1: "L w1 = L w" using ss by (simp add: same_store_def)
      note IH = Cons.IH [OF ok1 loop kn Cons.prems(4), unfolded l1]
      have n1: "V w1 n = Some (False, (if i then L w else b) \<union> gain n)"
        using law(4) Inr v by (simp add: edited_def w1_def)
      have ad2: "adopted (L w) gain (set (n # ns)) (V w1) (V w')"
        using IH adopted_mono [of "L w" gain "set ns" "V w1" "V w'" "set (n # ns)"] by auto
      have ad: "adopted (L w) gain (set (n # ns)) (V w) (V w')"
        by (rule adopted_trans [OF adopted_mono [OF one] ad2]) simp
      obtain b' where b': "V w' n = Some (False, b')" "gain n \<subseteq> b'"
        using adopted_grows [OF ad2 n1] by auto
      have "same_store w w'" using IH ss by (simp add: same_store_def)
      with IH ad b' adopted_None [OF one] show ?thesis by (auto split: sum.splits)
    qed
  qed
qed

text \<open>A sibling grant may hold a service open on the device: it is left out of that device's addition.\<close>

lemma adopt_outcome:
  assumes "okw w" "AdoptClients eng child siblings added w = (r, w')"
  shows "same_rest w w' \<and> K w' = K w \<and>
    adopted (L w) (\<lambda>n. device_base (L w) (V w) (G w) child (set siblings) - covered (G w) n) (set added) (V w) (V w') \<and>
    (is_ok r \<longrightarrow> (\<forall>n \<in> set added. V w n \<noteq> None \<longrightarrow> (\<exists>b. V w' n = Some (False, b) \<and>
       device_base (L w) (V w) (G w) child (set siblings) - covered (G w) n \<subseteq> b)))"
proof (cases "added = []")
  case True
  with assms show ?thesis by (simp add: AdoptClients_def same_rest_def)
next
  case False
  obtain rc w1 where rc: "run_ag (ea_Clients AG) w = (rc, w1)" by (cases "run_ag (ea_Clients AG) w")
  note c = run_clients [OF assms(1) rc]
  have w1: "okw w1" "V w1 = V w" "L w1 = L w" "G w1 = G w" "K w1 = K w" "same_rest w w1"
    using c(1,2) by (simp_all add: same_store_def same_rest_def)
  show ?thesis
  proof (cases rc)
    case (Inl x)
    with assms(2) False rc w1 show ?thesis by (auto simp: AdoptClients_def)
  next
    case (Inr res)
    obtain rb w2 where rb: "baselineFrom eng res child siblings w1 = (rb, w2)"
      by (cases "baselineFrom eng res child siblings w1")
    have "set (cr_global res) = L w1"
      "\<And>n. V w1 n = map_option (\<lambda>pc. (pc_global pc, set (pc_blocked pc))) (by_name (cr_persistent res) n)"
      using c(3) [OF Inr] w1 by simp_all
    note bf = baselineFrom_outcome [OF w1(1) rb this]
    have w2: "okw w2" "V w2 = V w" "L w2 = L w" "G w2 = G w" "K w2 = K w" "same_rest w w2"
      using bf w1 by (simp_all add: store_read_def same_rest_def)
    show ?thesis
    proof (cases rb)
      case (Inl x)
      with assms(2) False rc Inr rb w2 show ?thesis by (auto simp: AdoptClients_def)
    next
      case bg0: (Inr bg)
      obtain base gs where bg: "bg = (base, gs)" by (cases bg)
      have loop: "adopt_loop eng base gs (\<lambda>n. n \<in> pc_name ` set (cr_persistent res)) added w2 = (r, w')"
        using assms(2) False rc Inr rb bg0 bg by (simp add: AdoptClients_def)
      have gain: "set (without base (heldOpen gs 0 n)) = device_base (L w) (V w) (G w) child (set siblings) - covered (G w) n" for n
        using bf bg0 bg w1 by (simp add: without_set)
      have known: "n \<in> pc_name ` set (cr_persistent res) \<longleftrightarrow> V w2 n \<noteq> None" for n
      proof -
        have "by_name (cr_persistent res) n = None \<longleftrightarrow> n \<notin> pc_name ` set (cr_persistent res)"
          by (simp add: by_name_def map_of_eq_None_iff image_image)
        with c(3) [OF Inr, of n] w2(2) show ?thesis by (cases "by_name (cr_persistent res) n") auto
      qed
      note out = adopt_loop_outcome [OF w2(1) loop known gain, unfolded w2(2,3)]
      have "is_ok r \<longrightarrow> (\<forall>n \<in> set added. V w n \<noteq> None \<longrightarrow> (\<exists>b. V w' n = Some (False, b) \<and>
         device_base (L w) (V w) (G w) child (set siblings) - covered (G w) n \<subseteq> b))"
        using out by (cases r) auto
      with out w2 show ?thesis by (simp add: same_rest_def same_store_def)
    qed
  qed
qed

end

section \<open>Renaming a client\<close>

text \<open>
  Three outcomes: nothing moved, the rename is in AdGuard and in the store, or (its error says
  so, or AdGuard's reply was lost) it is in AdGuard only.
\<close>

definition lists_moved :: "string \<Rightarrow> string \<Rightarrow> lists \<Rightarrow> lists \<Rightarrow> bool" where
  "lists_moved old new v v' \<longleftrightarrow> (\<exists>x. v old = Some x \<and> v new = None \<and> v' = v(old := None, new \<mapsto> x))"

definition grants_moved :: "string \<Rightarrow> string \<Rightarrow> (id \<Rightarrow> grant option) \<Rightarrow> (id \<Rightarrow> grant option) \<Rightarrow> bool" where
  "grants_moved old new gr gr' \<longleftrightarrow>
     (\<forall>i. gr i = None \<longrightarrow> gr' i = None) \<and>
     (\<forall>i g. gr i = Some g \<longrightarrow> (\<exists>g'. gr' i = Some g' \<and> grant_status g' = grant_status g \<and>
        grant_services g' = grant_services g \<and> grant_child g' = grant_child g \<and> ends_at g' = ends_at g \<and>
        set (grant_clients g') = (if grant_status g = StatusActive then swap_name old new ` set (grant_clients g)
                                  else set (grant_clients g))))"

lemma grants_moved_covered:
  assumes "grants_moved old new gr gr'"
  shows "covered gr n \<subseteq> covered gr' (swap_name old new n)"
proof
  fix s
  assume "s \<in> covered gr n"
  then obtain i g where g: "gr i = Some g" "grant_status g = StatusActive" "n \<in> set (grant_clients g)"
    "s \<in> set (grant_services g)" by (auto simp: covered_def)
  with assms obtain g' where "gr' i = Some g'" "grant_status g' = StatusActive" "grant_services g' = grant_services g"
    "set (grant_clients g') = swap_name old new ` set (grant_clients g)" unfolding grants_moved_def by force
  moreover from this g have "swap_name old new n \<in> set (grant_clients g')" "s \<in> set (grant_services g')" by simp_all
  ultimately show "s \<in> covered gr' (swap_name old new n)" unfolding covered_def by blast
qed

context engine_env
begin

lemma rename_run:
  assumes "okw w" "old \<noteq> new" "run_ag (ea_RenameClient AG old new) w = (r, w')"
  shows "same_store w w' \<and> (V w' = V w \<and> \<not> is_ok r \<or> lists_moved old new (V w) (V w'))"
proof -
  obtain a where a: "ea_RenameClient AG old new (w_ag w) = (r, a)" "w' = w\<lparr>w_ag := a\<rparr>" using assms(3) by (auto simp: run_ag_eq)
  have "okW (w_ag w)" "okS (w_store w)" using assms(1) by (simp_all add: okw_def)
  with rename [OF _ assms(2) a(1)] show ?thesis by (simp add: a(2) same_store_def okw_def lists_moved_def)
qed

lemma check_outcome:
  assumes "okw w" "checkRename eng old new w = (r, w')"
  shows "store_read w w' \<and> (is_ok r \<longrightarrow> (\<forall>i m C. K w i = Some (m, C) \<and> new \<in> C \<longrightarrow> old \<in> C))"
proof -
  obtain rl s where rl: "es_ListChildren ES (w_store w) = (rl, s)" by (cases "es_ListChildren ES (w_store w)")
  have okS: "okS (w_store w)" using assms(1) by (simp add: okw_def)
  note lc = list_children [OF okS rl]
  show ?thesis
  proof (cases rl)
    case (Inl x)
    with lc rl assms show ?thesis by (auto simp: checkRename_def run_store_def store_read_def okw_def)
  next
    case (Inr cs)
    let ?p = "\<lambda>c. new \<in> set (child_clients c) \<and> old \<notin> set (child_clients c)"
    have w': "w' = w\<lparr>w_store := s\<rparr>" "is_ok r = (find ?p cs = None)"
      using rl Inr assms(2) by (auto simp: checkRename_def run_store_def split: option.splits)
    have "old \<in> C" if none: "find ?p cs = None" and K: "K w i = Some (m, C)" and new: "new \<in> C" for i m C
    proof -
      obtain c where "c \<in> set cs" "set (child_clients c) = C" using lc Inr K by blast
      with none new show ?thesis by (auto simp: find_None_iff)
    qed
    moreover have "store_read w w'" using lc assms(1) w'(1) by (simp add: store_read_def okw_def)
    ultimately show ?thesis using w'(2) by blast
  qed
qed

lemma rename_outcome:
  assumes "okw w" "engine_RenameClient eng old new w = (r, w')" "old \<noteq> new"
  shows "okw w' \<and> L w' = L w \<and> w_timers w' = w_timers w \<and> w_closed w' = w_closed w \<and>
    (V w' = V w \<and> G w' = G w \<and> K w' = K w \<and> \<not> is_ok r \<or>
     lists_moved old new (V w) (V w') \<and> grants_moved old new (G w) (G w') \<and>
       (\<forall>i. K w' i = map_option (apsnd ((`) (swap_name old new))) (K w i)) \<and> r = Inr () \<or>
     lists_moved old new (V w) (V w') \<and> G w' = G w \<and> K w' = K w \<and>
       ((\<exists>x. r = Inl (AgErr x)) \<or> (\<exists>x y. r = Inl (RenameLost old new x y))))"
proof -
  obtain r1 w1 where r1: "checkRename eng old new w = (r1, w1)" by (cases "checkRename eng old new w")
  have w1: "okw w1" "G w1 = G w" "K w1 = K w" "V w1 = V w" "L w1 = L w" "w_timers w1 = w_timers w" "w_closed w1 = w_closed w"
    using check_outcome [OF assms(1) r1] by (simp_all add: store_read_def)
  show ?thesis
  proof (cases r1)
    case (Inl x)
    with assms(2,3) r1 w1 show ?thesis by (auto simp: engine_RenameClient_def)
  next
    case (Inr u)
    obtain r2 w2 where r2: "run_ag (ea_RenameClient AG old new) w1 = (r2, w2)" by (cases "run_ag (ea_RenameClient AG old new) w1")
    note m = rename_run [OF w1(1) assms(3) r2]
    have w2: "okw w2" "G w2 = G w" "K w2 = K w" "L w2 = L w" "w_timers w2 = w_timers w" "w_closed w2 = w_closed w"
      "V w2 = V w \<and> \<not> is_ok r2 \<or> lists_moved old new (V w) (V w2)"
      using m w1 by (simp_all add: same_store_def)
    show ?thesis
    proof (cases r2)
      case (Inl x)
      then have "r = Inl (AgErr x)" "w' = w2" using assms(2,3) r1 Inr r2 by (simp_all add: engine_RenameClient_def)
      with w2 show ?thesis by auto
    next
      case ok2: (Inr u2)
      with w2(7) have mv: "lists_moved old new (V w) (V w2)" by simp
      obtain r3 s where r3: "es_RenameClient ES old new (w_store w2) = (r3, s)" by (cases "es_RenameClient ES old new (w_store w2)")
      define w3 where "w3 = w2\<lparr>w_store := s\<rparr>"
      have okS: "okS (w_store w2)" using w2(1) by (simp add: okw_def)
      note law = rename_client [OF okS assms(3) r3]
      have w3: "okw w3" "V w3 = V w2" "L w3 = L w" "w_timers w3 = w_timers w" "w_closed w3 = w_closed w"
        using law w2 by (simp_all add: w3_def okw_def)
      show ?thesis
      proof (cases r3)
        case (Inr u3)
        then have e: "r = Inr ()" "w' = w3"
          using assms(2,3) r1 \<open>r1 = Inr u\<close> r2 ok2 r3 by (simp_all add: engine_RenameClient_def run_store_def w3_def)
        have "\<forall>i. K w3 i = map_option (apsnd ((`) (swap_name old new))) (K w2 i)" "grants_moved old new (G w2) (G w3)"
          using law Inr unfolding grants_moved_def by (simp_all add: w3_def)
        with e w2 w3 mv show ?thesis by simp
      next
        case (Inl x)
        have same: "G w3 = G w" "K w3 = K w" using law Inl w2 by (simp_all add: w3_def)
        obtain r4 w4 where r4: "run_ag (ea_RenameClient AG new old) w3 = (r4, w4)" by (cases "run_ag (ea_RenameClient AG new old) w3")
        note m4 = rename_run [OF w3(1) assms(3) [symmetric] r4]
        have w4: "okw w4" "G w4 = G w" "K w4 = K w" "L w4 = L w" "w_timers w4 = w_timers w" "w_closed w4 = w_closed w"
          using m4 w3 same by (simp_all add: same_store_def)
        have undone: "V w4 = V w" if "lists_moved new old (V w3) (V w4)"
          using that mv assms(3) w3(2) by (auto simp: lists_moved_def fun_eq_iff)
        have e: "w' = w4" "r = (case r4 of Inl y \<Rightarrow> Inl (RenameLost old new x y) | Inr _ \<Rightarrow> Inl (RenamedBack old new x))"
          using assms(2,3) r1 \<open>r1 = Inr u\<close> r2 ok2 r3 Inl r4
          by (cases r4; simp add: engine_RenameClient_def run_store_def w3_def)+
        have "V w4 = V w3 \<and> \<not> is_ok r4 \<or> V w4 = V w" using m4 undone by blast
        with e w4 mv w3(2) show ?thesis by (cases r4) auto
      qed
    qed
  qed
qed

end

end
