(* ===== verification/EngineWiring.thy ===== *)
theory EngineWiring
  imports StoreOps EngineReconcile EngineClients AdguardProps
begin

text \<open>
  The two providers of the engine's interfaces (reconcile.go's compile-time checks): the SQLite
  store and the AdGuard client. Their own lemmas discharge the two contracts, so everything
  proved of the engine holds of the program's engine.
\<close>

section \<open>The store as the engine's Store\<close>

definition sqlite_engine :: "store engine_store" where
  "sqlite_engine =
     \<lparr>es_CreateGrant = CreateGrant, es_ListActiveGrants = ListActiveGrants, es_GetGrant = GetGrant,
      es_ExtendGrant = ExtendGrant, es_SetGrantStatus = SetGrantStatus, es_GetChild = GetChild,
      es_ListChildren = ListChildren, es_AddChildClient = AddChildClient, es_RenameClient = store_RenameClient\<rparr>"

lemma sqlite_engine_simps [simp]:
  "es_CreateGrant sqlite_engine = CreateGrant" "es_ListActiveGrants sqlite_engine = ListActiveGrants"
  "es_GetGrant sqlite_engine = GetGrant" "es_ExtendGrant sqlite_engine = ExtendGrant"
  "es_SetGrantStatus sqlite_engine = SetGrantStatus" "es_GetChild sqlite_engine = GetChild"
  "es_ListChildren sqlite_engine = ListChildren" "es_AddChildClient sqlite_engine = AddChildClient"
  "es_RenameClient sqlite_engine = store_RenameClient"
  by (simp_all add: sqlite_engine_def)

text \<open>A script without failures stays without failures.\<close>

lemma no_faults:
  assumes "faults st = []" "map_err f (inTx tx st) = (r, st')"
  shows "faults st' = []"
  using assms by (auto simp: map_err_def inTx_no_fault split: sum.splits prod.splits)

lemma ListActiveGrants_out:
  assumes "wf_tables (db st)" "ListActiveGrants st = (r, st')"
  shows "db st' = db st \<and> (\<forall>gs. r = Inr gs \<longrightarrow> gs = active_list (db st)) \<and>
    (faults st = [] \<longrightarrow> is_ok r \<and> faults st' = [])"
proof -
  note out = tx_run [OF assms(2) [unfolded ListActiveGrants_def]]
  have "faults st = [] \<Longrightarrow> faults st' = []" using no_faults assms(2) unfolding ListActiveGrants_def by blast
  with out show ?thesis by (cases r) (auto simp: active_list_def)
qed

lemma GetGrant_out:
  assumes "wf_tables (db st)" "GetGrant i st = (r, st')"
  shows "db st' = db st \<and> (\<forall>g. r = Inr g \<longrightarrow> abs_grants (db st) i = Some g)"
proof -
  have g: "wf_grants (db st)" using assms(1) by (simp add: wf_tables_def)
  note out = tx_run [OF assms(2) [unfolded GetGrant_def getGrant_abs [OF g]]]
  then show ?thesis by (cases r; cases "abs_grants (db st) i") (auto simp: res_bind_def getGrant_abs [OF g])
qed

lemma GetChild_out:
  assumes "wf_tables (db st)" "GetChild i st = (r, st')"
  shows "db st' = db st \<and> (\<forall>c. r = Inr c \<longrightarrow> child_id c = i \<and>
    abs_children (db st) i = Some (child_name c, set (child_clients c)))"
proof (cases r)
  case (Inl e)
  with read_ops_db(2) [OF assms(2)] show ?thesis by simp
next
  case (Inr c)
  have ids: "distinct (map ch_id (t_children (db st)))" using assms(1) by (simp add: wf_tables_def wf_children_def)
  have "getChild i (db st) = Inr c"
    using assms(2) Inr query_db [of "getChild i" st] by (auto simp: GetChild_def)
  then obtain r0 where r0: "r0 \<in> set (t_children (db st))" "ch_id r0 = i" "c = view_child (db st) r0"
    unfolding getChild_Inr [OF ids] by blast
  then have "find (\<lambda>x. ch_id x = i) (t_children (db st)) = Some r0" using find_child [OF ids] by blast
  with r0 Inr read_ops_db(2) [OF assms(2)] show ?thesis by (simp add: abs_children_def view_child_def)
qed

lemma ListChildren_out:
  assumes "wf_tables (db st)" "ListChildren st = (r, st')"
  shows "db st' = db st \<and> (\<forall>cs i n C. r = Inr cs \<longrightarrow> (abs_children (db st) i = Some (n, C) \<longleftrightarrow>
    (\<exists>c \<in> set cs. child_id c = i \<and> child_name c = n \<and> set (child_clients c) = C)))"
proof (cases r)
  case (Inl e)
  with read_ops_db(1) [OF assms(2)] show ?thesis by simp
next
  case (Inr cs)
  have ids: "distinct (map ch_id (t_children (db st)))" using assms(1) by (simp add: wf_tables_def wf_children_def)
  have "Inr (scanChildren [] (listQuery (\<lambda>_. True) (db st))) = (Inr cs :: store_error + child list)"
    using assms(2) Inr query_db [of "\<lambda>t. Inr (scanChildren [] (listQuery (\<lambda>_. True) t))" st] by (auto simp: ListChildren_def)
  then have cs: "set cs = view_child (db st) ` set (t_children (db st))"
    by (auto simp: scan_listQuery [OF ids])
  have "abs_children (db st) i = Some (n, C) \<longleftrightarrow>
      (\<exists>r0 \<in> set (t_children (db st)). ch_id r0 = i \<and> ch_name r0 = n \<and> set (clients_of (db st) i) = C)" for i n C
    using find_child [OF ids, of i] by (auto simp: abs_children_def)
  then show ?thesis using cs Inr read_ops_db(1) [OF assms(2)] by (auto simp: view_child_def)
qed

text \<open>What a transaction's body leaves alone, the transaction leaves alone.\<close>

lemma tx_frame:
  assumes "map_err f (inTx tx st) = (r, st')" "\<And>x t'. tx (db st) = Inr (x, t') \<Longrightarrow> P t' = P (db st)"
  shows "P (db st') = P (db st)"
  using tx_run [OF assms(1)] assms(2) by (cases r) auto

lemma abs_children_cong:
  "t_children t' = t_children t \<Longrightarrow> t_child_clients t' = t_child_clients t \<Longrightarrow> abs_children t' = abs_children t"
  by (simp add: fun_eq_iff abs_children_def clients_of_def)

lemma abs_grants_cong:
  assumes "t_grants t' = t_grants t" "t_grant_services t' = t_grant_services t" "t_grant_clients t' = t_grant_clients t"
  shows "abs_grants t' = abs_grants t"
proof -
  have "view_grant t' = view_grant t"
    using assms by (simp add: fun_eq_iff view_grant_def grant_services_of_def grant_clients_of_def)
  then show ?thesis unfolding abs_grants_def assms(1) by simp
qed

lemma grant_writes_children:
  assumes wf: "wf_tables (db st)"
  shows "CreateGrant child ss cs a b st = (rc, st') \<Longrightarrow> abs_children (db st') = abs_children (db st)"
    "ExtendGrant i e st = (re, st') \<Longrightarrow> abs_children (db st') = abs_children (db st)"
    "SetGrantStatus i x y at st = (rs, st') \<Longrightarrow> abs_children (db st') = abs_children (db st)"
proof -
  have g: "wf_grants (db st)" using wf by (simp add: wf_tables_def)
  show "CreateGrant child ss cs a b st = (rc, st') \<Longrightarrow> abs_children (db st') = abs_children (db st)"
    unfolding CreateGrant_def
    by (erule tx_frame)
       (auto simp: create_grant_tx_eq [OF g] after_grant_def intro!: abs_children_cong split: sum.splits)
  show "ExtendGrant i e st = (re, st') \<Longrightarrow> abs_children (db st') = abs_children (db st)"
    unfolding ExtendGrant_def
    by (erule tx_frame)
       (auto simp: extend_grant_tx_def Let_def res_bind_def intro!: abs_children_cong split: sum.splits if_splits)
  show "SetGrantStatus i x y at st = (rs, st') \<Longrightarrow> abs_children (db st') = abs_children (db st)"
    unfolding SetGrantStatus_def
    by (erule tx_frame)
       (auto simp: set_grant_status_tx_def Let_def intro!: abs_children_cong split: if_splits)
qed

lemma AddChildClient_grants:
  assumes wf: "wf_tables (db st)" and run: "AddChildClient i name st = (r, st')"
  shows "abs_grants (db st') = abs_grants (db st)"
proof (cases "trim_space name = []")
  case True
  with run show ?thesis by (auto simp: AddChildClient_def)
next
  case False
  have c: "wf_children (db st)" using wf by (simp add: wf_tables_def)
  have "map_err (wrapChildErr ''add child client'') (inTx (add_child_client_tx i (trim_space name)) st) = (r, st')"
    using run False by (simp add: AddChildClient_def Let_def)
  then show ?thesis
    by (rule tx_frame)
       (auto simp: add_child_client_tx_eq [OF c] intro!: abs_grants_cong split: if_splits list.splits)
qed

text \<open>What a rename makes of the grants: the clients of the active ones, as sets.\<close>

lemma RenameClient_db:
  assumes "wf_tables (db st)" "store_RenameClient old new st = (Inr u, st')" "old \<noteq> new"
  shows "db st' = (db st)\<lparr>t_child_clients := renamed_ccs old new (db st), t_grant_clients := renamed_gcs old new (db st)\<rparr>"
proof -
  have run: "map_err (wrapChildErr ''rename client'') (inTx (rename_client_tx old new) st) = (Inr u, st')"
    using assms(2,3) by (simp add: store_RenameClient_def)
  show ?thesis
    using tx_run [OF run, unfolded rename_client_tx_eq [OF assms(1,3)]] by (cases "outsiders old new (db st)"; auto)
qed

lemma RenameClient_grants:
  assumes "wf_tables (db st)" "store_RenameClient old new st = (Inr u, st')" "old \<noteq> new"
  shows "(abs_grants (db st) i = None \<longrightarrow> abs_grants (db st') i = None) \<and>
    (\<forall>g. abs_grants (db st) i = Some g \<longrightarrow>
      (\<exists>g'. abs_grants (db st') i = Some g' \<and> grant_status g' = grant_status g \<and>
        grant_services g' = grant_services g \<and> grant_child g' = grant_child g \<and> ends_at g' = ends_at g \<and>
        set (grant_clients g') = (if grant_status g = StatusActive then swap_name old new ` set (grant_clients g)
                                  else set (grant_clients g))))"
proof (intro conjI allI impI)
  note t = RenameClient_db [OF assms]
  show "abs_grants (db st') i = None" if "abs_grants (db st) i = None"
    using that by (simp add: abs_grants_None t)
  fix g
  assume g: "abs_grants (db st) i = Some g"
  have wg: "wf_grants (db st)" using assms(1) by (simp add: wf_tables_def)
  obtain r where r: "r \<in> set (t_grants (db st))" "gr_id r = i" "g = view_grant (db st) r"
    using g unfolding abs_grants_Some [OF wg] by blast
  have find: "find (\<lambda>x. gr_id x = i) (t_grants (db st)) = Some r"
    using find_grant [of "t_grants (db st)" i r] r wg by (simp add: wf_grants_def)
  have "gr_id r \<in> set (active_grant_ids (db st)) \<longleftrightarrow> gr_status r = StatusActive"
  proof -
    have "inj_on gr_id (set (t_grants (db st)))" using wg by (simp add: wf_grants_def distinct_map)
    then show ?thesis using r(1) by (auto simp: active_grant_ids_def inj_on_def)
  qed
  then have "set (grant_clients (view_grant (db st') r)) = (if grant_status g = StatusActive
      then swap_name old new ` set (grant_clients g) else set (grant_clients g))"
    by (simp add: r(3) t set_renamed_gcs [OF assms(3)])
  moreover have "abs_grants (db st') i = Some (view_grant (db st') r)" by (simp add: abs_grants_def t find)
  moreover have "grant_services (view_grant (db st') r) = grant_services g"
    by (simp add: r(3) grant_services_of_def t)
  ultimately show "\<exists>g'. abs_grants (db st') i = Some g' \<and> grant_status g' = grant_status g \<and>
      grant_services g' = grant_services g \<and> grant_child g' = grant_child g \<and> ends_at g' = ends_at g \<and>
      set (grant_clients g') = (if grant_status g = StatusActive then swap_name old new ` set (grant_clients g)
                                else set (grant_clients g))"
    by (intro exI [of _ "view_grant (db st') r"]) (simp add: r(3))
qed

lemma abs_grants_pos: "wf_grants t \<Longrightarrow> abs_grants t i = Some g \<Longrightarrow> grant_id g = i \<and> 0 < i"
  using abs_grants_Some [of t i g] by (auto simp: wf_grants_def)

interpretation sqlite: grant_store sqlite_engine "\<lambda>st. wf_tables (db st)" "\<lambda>st. abs_grants (db st)"
  "\<lambda>st. abs_children (db st)" "\<lambda>st. faults st = []"
proof
  fix s i g
  show "wf_tables (db s) \<Longrightarrow> abs_grants (db s) i = Some g \<Longrightarrow> grant_id g = i \<and> 0 < i"
    by (rule abs_grants_pos) (simp_all add: wf_tables_def)
next
  fix s s' rl
  assume *: "wf_tables (db s)" "es_ListActiveGrants sqlite_engine s = (rl, s')"
  then have g: "wf_grants (db s)" by (simp add: wf_tables_def)
  show "wf_tables (db s') \<and> abs_grants (db s') = abs_grants (db s) \<and> abs_children (db s') = abs_children (db s) \<and>
    (\<forall>gs. rl = Inr gs \<longrightarrow> distinct (map grant_id gs) \<and>
      (\<forall>g. g \<in> set gs \<longleftrightarrow> abs_grants (db s) (grant_id g) = Some g \<and> grant_status g = StatusActive))"
    using ListActiveGrants_out [of s rl s'] * active_list_ids(1) [OF g] set_active_list [OF g] by (cases rl) simp_all
next
  fix s s' i rg
  assume "wf_tables (db s)" "es_GetGrant sqlite_engine i s = (rg, s')"
  with GetGrant_out [of s i rg s'] show "wf_tables (db s') \<and> abs_grants (db s') = abs_grants (db s) \<and>
    abs_children (db s') = abs_children (db s) \<and> (\<forall>g. rg = Inr g \<longrightarrow> abs_grants (db s) i = Some g)" by simp
next
  fix s s' child ss cs a b rc
  assume *: "wf_tables (db s)" "es_CreateGrant sqlite_engine child ss cs a b s = (rc, s')"
  have c: "abs_children (db s') = abs_children (db s)"
    using grant_writes_children(1) [of s] * by simp
  from CreateGrant_out [of s child ss cs a b rc s'] * c show "wf_tables (db s') \<and> abs_children (db s') = abs_children (db s) \<and>
    (\<forall>x. rc = Inl x \<longrightarrow> abs_grants (db s') = abs_grants (db s)) \<and>
    (\<forall>g. rc = Inr g \<longrightarrow> abs_grants (db s) (grant_id g) = None \<and> abs_grants (db s') = (abs_grants (db s))(grant_id g \<mapsto> g) \<and>
       grant_child g = child \<and> grant_status g = StatusActive \<and> grant_services g = normaliseClients ss \<and>
       grant_clients g = normaliseClients cs \<and> ends_at g = of_unix (unix b))"
    by (cases rc) (auto, (metis grant.select_convs)+)
next
  fix s s' i b re
  assume *: "wf_tables (db s)" "es_ExtendGrant sqlite_engine i b s = (re, s')"
  have c: "abs_children (db s') = abs_children (db s)" using grant_writes_children(2) [of s] * by simp
  from ExtendGrant_out [of s i b re s'] * c show "wf_tables (db s') \<and> abs_children (db s') = abs_children (db s) \<and>
    (\<forall>x. re = Inl x \<longrightarrow> abs_grants (db s') = abs_grants (db s)) \<and>
    (\<forall>g'. re = Inr g' \<longrightarrow> (\<exists>g. abs_grants (db s) i = Some g \<and> grant_status g = StatusActive \<and>
       g' = g\<lparr>ends_at := of_unix (unix b)\<rparr> \<and> abs_grants (db s') = (abs_grants (db s))(i \<mapsto> g')))"
    by (cases re) simp_all
next
  fix s s' i x y at rs
  assume *: "wf_tables (db s)" "es_SetGrantStatus sqlite_engine i x y at s = (rs, s')"
  have c: "abs_children (db s') = abs_children (db s)" using grant_writes_children(3) [of s] * by simp
  have run: "SetGrantStatus i x y at s = (rs, s')" using * by simp
  note out = SetGrantStatus_out [OF *(1) run] c
  consider e where "rs = Inl e" | "rs = Inr True" | "rs = Inr False" by (cases rs) auto
  then show "wf_tables (db s') \<and> abs_children (db s') = abs_children (db s) \<and>
    (rs \<noteq> Inr True \<longrightarrow> abs_grants (db s') = abs_grants (db s)) \<and>
    (rs = Inr True \<longrightarrow> (\<exists>g. abs_grants (db s) i = Some g \<and> grant_status g = x \<and>
       abs_grants (db s') = (abs_grants (db s))(i \<mapsto> g\<lparr>grant_status := y\<rparr>))) \<and>
    (rs = Inr False \<longrightarrow> (\<forall>g. abs_grants (db s) i = Some g \<longrightarrow> grant_status g \<noteq> x))"
    by cases (use out *(1) in simp_all)
next
  fix s s' i rk
  assume "wf_tables (db s)" "es_GetChild sqlite_engine i s = (rk, s')"
  with GetChild_out [of s i rk s'] show "wf_tables (db s') \<and> abs_grants (db s') = abs_grants (db s) \<and>
    abs_children (db s') = abs_children (db s) \<and> (\<forall>c. rk = Inr c \<longrightarrow> child_id c = i \<and>
      abs_children (db s) i = Some (child_name c, set (child_clients c)))" by simp
next
  fix s s' rks
  assume "wf_tables (db s)" "es_ListChildren sqlite_engine s = (rks, s')"
  with ListChildren_out [of s rks s'] show "wf_tables (db s') \<and> abs_grants (db s') = abs_grants (db s) \<and>
    abs_children (db s') = abs_children (db s) \<and> (\<forall>cs i n K. rks = Inr cs \<longrightarrow> (abs_children (db s) i = Some (n, K) \<longleftrightarrow>
      (\<exists>c \<in> set cs. child_id c = i \<and> child_name c = n \<and> set (child_clients c) = K)))" by simp
next
  fix s s' i n ru
  assume *: "wf_tables (db s)" "es_AddChildClient sqlite_engine i n s = (ru, s')"
  have g: "abs_grants (db s') = abs_grants (db s)" using AddChildClient_grants [of s] * by simp
  from AddChildClient_out [of s i n ru s'] * g show "wf_tables (db s') \<and> abs_grants (db s') = abs_grants (db s) \<and>
    (\<forall>x. ru = Inl x \<longrightarrow> abs_children (db s') = abs_children (db s)) \<and>
    (\<forall>u. ru = Inr u \<longrightarrow> (\<exists>m K. abs_children (db s) i = Some (m, K) \<and>
       abs_children (db s') = (abs_children (db s))(i \<mapsto> (m, insert (trim_space n) K))))"
    by (cases ru) simp_all
next
  fix s s' old new rn
  assume *: "wf_tables (db s)" "old \<noteq> new" "es_RenameClient sqlite_engine old new s = (rn, s')"
  then have run: "store_RenameClient old new s = (rn, s')" by simp
  note out = RenameClient_out [OF *(1) run *(2)]
  have ap: "(\<lambda>(n, cs). (n, swap_name old new ` cs)) = apsnd ((`) (swap_name old new))" by (simp add: fun_eq_iff)
  show "wf_tables (db s') \<and> (\<forall>x. rn = Inl x \<longrightarrow> abs_grants (db s') = abs_grants (db s) \<and> abs_children (db s') = abs_children (db s)) \<and>
    (\<forall>u. rn = Inr u \<longrightarrow>
       (\<forall>i. abs_children (db s') i = map_option (apsnd ((`) (swap_name old new))) (abs_children (db s) i)) \<and>
       (\<forall>i. abs_grants (db s) i = None \<longrightarrow> abs_grants (db s') i = None) \<and>
       (\<forall>i g. abs_grants (db s) i = Some g \<longrightarrow> (\<exists>g'. abs_grants (db s') i = Some g' \<and> grant_status g' = grant_status g \<and>
          grant_services g' = grant_services g \<and> grant_child g' = grant_child g \<and> ends_at g' = ends_at g \<and>
          set (grant_clients g') = (if grant_status g = StatusActive then swap_name old new ` set (grant_clients g)
                                    else set (grant_clients g)))))"
  proof (cases rn)
    case (Inl x)
    with out *(1) show ?thesis by simp
  next
    case (Inr u)
    have "wf_tables (db s')" using out by blast
    moreover have "\<forall>i. abs_children (db s') i = map_option (apsnd ((`) (swap_name old new))) (abs_children (db s) i)"
      using out by (simp add: Inr ap)
    ultimately show ?thesis
      using Inr RenameClient_grants [OF *(1) run [unfolded Inr] *(2)] by blast
  qed
next
  fix s s' rl
  assume "wf_tables (db s)" "faults s = []" "es_ListActiveGrants sqlite_engine s = (rl, s')"
  with ListActiveGrants_out [of s rl s'] show "is_ok rl \<and> faults s' = []" by simp
next
  fix s s' i rg
  assume *: "wf_tables (db s)" "faults s = []" "abs_grants (db s) i \<noteq> None" "es_GetGrant sqlite_engine i s = (rg, s')"
  then have run: "GetGrant i s = (rg, s')" by simp
  have g: "wf_grants (db s)" using *(1) by (simp add: wf_tables_def)
  have "faults s' = []" using no_faults [OF *(2) run [unfolded GetGrant_def]] .
  moreover have "is_ok rg"
    using tx_run [OF run [unfolded GetGrant_def]] *(2,3) getGrant_abs [OF g, of i]
    by (cases rg; cases "abs_grants (db s) i") (auto simp: res_bind_def)
  ultimately show "is_ok rg \<and> faults s' = []" by simp
next
  fix s s' i x y at rs
  assume *: "wf_tables (db s)" "faults s = []" "es_SetGrantStatus sqlite_engine i x y at s = (rs, s')" "y \<noteq> StatusActive"
  then have run: "SetGrantStatus i x y at s = (rs, s')" by simp
  have "faults s' = []" using no_faults [OF *(2) run [unfolded SetGrantStatus_def]] .
  with SetGrantStatus_out [OF *(1) run] *(2,4) show "is_ok rs \<and> faults s' = []" by (cases rs) auto
qed

section \<open>The client as the engine's AdGuard\<close>

definition adguard_api :: "'w server \<Rightarrow> ag_client \<Rightarrow> 'w engine_adguard" where
  "adguard_api srv c =
     \<lparr>ea_Clients = Clients srv c, ea_RemoveBlockedServices = RemoveBlockedServices srv c,
      ea_AddBlockedServices = AddBlockedServices srv c, ea_AddClient = AddClient srv c,
      ea_AdoptBlockedServices = AdoptBlockedServices srv c, ea_RenameClient = RenameClient srv c\<rparr>"

lemma adguard_api_simps [simp]:
  "ea_Clients (adguard_api srv c) = Clients srv c"
  "ea_RemoveBlockedServices (adguard_api srv c) = RemoveBlockedServices srv c"
  "ea_AddBlockedServices (adguard_api srv c) = AddBlockedServices srv c"
  "ea_AddClient (adguard_api srv c) = AddClient srv c"
  "ea_AdoptBlockedServices (adguard_api srv c) = AdoptBlockedServices srv c"
  "ea_RenameClient (adguard_api srv c) = RenameClient srv c"
  by (simp_all add: adguard_api_def)

lemma by_name_distinct:
  assumes "distinct (map pc_name pcs)"
  shows "by_name pcs = map_of (map (\<lambda>pc. (pc_name pc, pc)) pcs)"
proof -
  have "distinct (map fst (map (\<lambda>pc. (pc_name pc, pc)) pcs))" using assms by (simp add: comp_def)
  moreover from this have "distinct (map fst (rev (map (\<lambda>pc. (pc_name pc, pc)) pcs)))"
    by (simp only: rev_map [symmetric] distinct_rev)
  ultimately show ?thesis unfolding by_name_def by (subst map_of_inject_set) simp_all
qed

lemma client_gone_iff: "client_gone x \<longleftrightarrow> (\<exists>n. x = ErrClientNotFound n)"
  by (cases x) simp_all

context ag_server
begin

text \<open>The laws of the engine's contract, save the three about a server that answers.\<close>

lemma api_clients:
  assumes "good a" "Clients srv c a = (rl, a')"
  shows "good a' \<and> view a' = view a \<and> set (glob a') = set (glob a) \<and>
    (\<forall>res. rl = Inr res \<longrightarrow> set (cr_global res) = set (glob a) \<and>
      (\<forall>n. view a n = map_option (\<lambda>pc. (pc_global pc, set (pc_blocked pc))) (by_name (cr_persistent res) n)))"
proof -
  have "set (cr_global res) = set (glob a) \<and>
      (\<forall>n. view a n = map_option (\<lambda>pc. (pc_global pc, set (pc_blocked pc))) (by_name (cr_persistent res) n))"
    if r: "rl = Inr res" for res
  proof -
    note v = clients_view(4) [OF assms r]
    have "lists_of = (\<lambda>pc. (pc_global pc, set (pc_blocked pc)))" by (simp add: fun_eq_iff lists_of_def)
    with v by_name_distinct [of "cr_persistent res"] show ?thesis by simp
  qed
  with clients_view(1-3) [OF assms] show ?thesis by simp
qed

lemma api_add:
  assumes "good a" "AddBlockedServices srv c n ids a = (ra, a')"
  shows "good a' \<and> set (glob a') = set (glob a) \<and>
    (view a' = view a \<or> edited n (apsnd (\<lambda>b. b \<union> set ids)) (view a) (view a')) \<and>
    (is_ok ra \<longrightarrow> edited n (apsnd (\<lambda>b. b \<union> set ids)) (view a) (view a')) \<and>
    (\<forall>x. ra = Inl x \<and> client_gone x \<longrightarrow> view a n = None \<and> view a' = view a)"
  using add_view [OF assms] by (auto simp: client_gone_iff)

lemma api_adopt:
  assumes "good a" "AdoptBlockedServices srv c n ids a = (rd, a')"
  defines "f \<equiv> \<lambda>(i, b). (False, (if i then set (glob a) else b) \<union> set ids)"
  shows "good a' \<and> set (glob a') = set (glob a) \<and> (view a' = view a \<or> edited n f (view a) (view a')) \<and>
    (is_ok rd \<longrightarrow> edited n f (view a) (view a')) \<and>
    (\<forall>x. rd = Inl x \<and> client_gone x \<longrightarrow> view a n = None \<and> view a' = view a)"
  using adopt_view [OF assms(1,2), folded f_def] by (auto simp: client_gone_iff)

end

sublocale ag_server \<subseteq> api: blocklist_server "adguard_api srv c" good view "\<lambda>w. set (glob w)" "\<lambda>_. False"
proof
  fix a a' rl
  assume "good a" "ea_Clients (adguard_api srv c) a = (rl, a')"
  then show "good a' \<and> view a' = view a \<and> set (glob a') = set (glob a) \<and>
    (\<forall>res. rl = Inr res \<longrightarrow> set (cr_global res) = set (glob a) \<and>
      (\<forall>n. view a n = map_option (\<lambda>pc. (pc_global pc, set (pc_blocked pc))) (by_name (cr_persistent res) n)))"
    by (intro api_clients) simp_all
next
  fix a a' n ids rr
  assume "good a" "ea_RemoveBlockedServices (adguard_api srv c) n ids a = (rr, a')"
  with remove_view [of a n ids rr a'] show "good a' \<and> set (glob a') = set (glob a) \<and>
    (view a' = view a \<or> edited n (apsnd (\<lambda>b. b - set ids)) (view a) (view a')) \<and>
    (is_ok rr \<longrightarrow> edited n (apsnd (\<lambda>b. b - set ids)) (view a) (view a'))" by simp
next
  fix a a' n ids ra
  assume "good a" "ea_AddBlockedServices (adguard_api srv c) n ids a = (ra, a')"
  then show "good a' \<and> set (glob a') = set (glob a) \<and>
    (view a' = view a \<or> edited n (apsnd (\<lambda>b. b \<union> set ids)) (view a) (view a')) \<and>
    (is_ok ra \<longrightarrow> edited n (apsnd (\<lambda>b. b \<union> set ids)) (view a) (view a')) \<and>
    (\<forall>x. ra = Inl x \<and> client_gone x \<longrightarrow> view a n = None \<and> view a' = view a)"
    by (intro api_add) simp_all
next
  fix a a' n ids rd
  assume "good a" "ea_AdoptBlockedServices (adguard_api srv c) n ids a = (rd, a')"
  then show "good a' \<and> set (glob a') = set (glob a) \<and>
    (view a' = view a \<or> edited n (\<lambda>(i, b). (False, (if i then set (glob a) else b) \<union> set ids)) (view a) (view a')) \<and>
    (is_ok rd \<longrightarrow> edited n (\<lambda>(i, b). (False, (if i then set (glob a) else b) \<union> set ids)) (view a) (view a')) \<and>
    (\<forall>x. rd = Inl x \<and> client_gone x \<longrightarrow> view a n = None \<and> view a' = view a)"
    by (intro api_adopt) simp_all
next
  fix a a' nc rc
  assume "good a" "ea_AddClient (adguard_api srv c) nc a = (rc, a')"
  with add_client_view [of a nc rc a'] show "good a' \<and> set (glob a') = set (glob a) \<and>
    (view a' = view a \<and> \<not> is_ok rc \<or> view a (nc_name nc) = None \<and>
      view a' = (view a)(nc_name nc \<mapsto> (nc_blocked nc = None, case nc_blocked nc of None \<Rightarrow> {} | Some b \<Rightarrow> set b)))"
    by simp
next
  fix a a' old new rn
  assume "good a" "old \<noteq> new" "ea_RenameClient (adguard_api srv c) old new a = (rn, a')"
  with rename_view [of a old new rn a'] show "good a' \<and> set (glob a') = set (glob a) \<and>
    (view a' = view a \<and> \<not> is_ok rn \<or>
      (\<exists>x. view a old = Some x \<and> view a new = None \<and> view a' = (view a)(old := None, new \<mapsto> x)))" by simp
qed simp_all

sublocale ag_server_up \<subseteq> api_up: blocklist_server "adguard_api srv c" good view "\<lambda>w. set (glob w)" up
proof unfold_locales
  fix a a' rl
  assume "up a" "ea_Clients (adguard_api srv c) a = (rl, a')"
  with clients_up [of a] show "is_ok rl \<and> up a'" by auto
next
  fix a a' n ids rr
  assume "up a" "view a n \<noteq> None" "ea_RemoveBlockedServices (adguard_api srv c) n ids a = (rr, a')"
  then show "is_ok rr \<and> up a'" using edit_up [of a n "\<lambda>current. filter (\<lambda>i. i \<notin> set ids) current"]
    by (auto simp: RemoveBlockedServices_def)
next
  fix a a' n ids ra
  assume "up a" "ea_AddBlockedServices (adguard_api srv c) n ids a = (ra, a')"
  then show "(case ra of Inl x \<Rightarrow> client_gone x | Inr _ \<Rightarrow> True) \<and> up a'"
    using edit_up [of a n "\<lambda>current. current @ ids" ra a'] by (auto simp: AddBlockedServices_def split: if_splits sum.splits)
qed (rule api.clients api.remove api.add api.adopt api.add_client api.rename; assumption)+

section \<open>The engine on both\<close>

definition sys_engine :: "'w server \<Rightarrow> ag_client \<Rightarrow> (store, 'w) engine" where
  "sys_engine srv c = \<lparr>e_store = sqlite_engine, e_ag = adguard_api srv c\<rparr>"

sublocale ag_server \<subseteq> sys: engine_env sqlite_engine "\<lambda>st. wf_tables (db st)" "\<lambda>st. abs_grants (db st)"
  "\<lambda>st. abs_children (db st)" "\<lambda>st. faults st = []" "adguard_api srv c" good view "\<lambda>w. set (glob w)" "\<lambda>_. False"
  by unfold_locales

sublocale ag_server_up \<subseteq> sys_up: engine_env sqlite_engine "\<lambda>st. wf_tables (db st)" "\<lambda>st. abs_grants (db st)"
  "\<lambda>st. abs_children (db st)" "\<lambda>st. faults st = []" "adguard_api srv c" good view "\<lambda>w. set (glob w)" up
  by unfold_locales

context ag_server
begin

lemma on_sys: "engine_env sqlite_engine (\<lambda>st. wf_tables (db st)) (\<lambda>st. abs_grants (db st)) (\<lambda>st. abs_children (db st))
    (\<lambda>st. faults st = []) (adguard_api srv c) good (\<lambda>w. ag_view (cls w)) (\<lambda>w. set (glob w)) (\<lambda>_. False)"
  using sys.engine_env_axioms unfolding view_def [abs_def] .

end

context ag_server_up
begin

lemma on_sys_up: "engine_env sqlite_engine (\<lambda>st. wf_tables (db st)) (\<lambda>st. abs_grants (db st)) (\<lambda>st. abs_children (db st))
    (\<lambda>st. faults st = []) (adguard_api srv c) good (\<lambda>w. ag_view (cls w)) (\<lambda>w. set (glob w)) up"
  using sys_up.engine_env_axioms unfolding view_def [abs_def] .

end

interpretation fake_api: blocklist_server "adguard_api (serve patience) c" fake_good "\<lambda>s. ag_view (fk_clients s)"
  "\<lambda>s. set (fake_glob s)" "\<lambda>_. False" for patience c
  using fake.api.blocklist_server_axioms unfolding fake.view_def [abs_def] .

interpretation fake_sys: engine_env sqlite_engine "\<lambda>st. wf_tables (db st)" "\<lambda>st. abs_grants (db st)"
  "\<lambda>st. abs_children (db st)" "\<lambda>st. faults st = []" "adguard_api (serve patience) c" fake_good
  "\<lambda>s. ag_view (fk_clients s)" "\<lambda>s. set (fake_glob s)" "\<lambda>_. False" for patience c
  by unfold_locales

end
