(* ===== verification/EngineProps.thy ===== *)
theory EngineProps
  imports EngineWiring
begin

text \<open>
  The properties of the grant engine on the SQLite store and any AdGuard that keeps the contract
  \<open>ag_server\<close>, and the invariant of the whole system: nothing the parents want blocked is ever
  forgotten, whatever operations run in whatever order and whichever of their calls fail.
\<close>

section \<open>Vocabulary\<close>

abbreviation grants_of :: "(store, 'w) world \<Rightarrow> id \<Rightarrow> grant option" where
  "grants_of w \<equiv> abs_grants (db (w_store w))"

abbreviation children_of :: "(store, 'w) world \<Rightarrow> id \<Rightarrow> (string \<times> string set) option" where
  "children_of w \<equiv> abs_children (db (w_store w))"

definition sys_ok :: "('w \<Rightarrow> bool) \<Rightarrow> (store, 'w) world \<Rightarrow> bool" where
  "sys_ok good w \<longleftrightarrow> wf_tables (db (w_store w)) \<and> good (w_ag w)"

definition sys_up :: "('w \<Rightarrow> bool) \<Rightarrow> (store, 'w) world \<Rightarrow> bool" where
  "sys_up up w \<longleftrightarrow> wf_tables (db (w_store w)) \<and> faults (w_store w) = [] \<and> up (w_ag w)"

lemma env_ok:
  assumes "engine_env sqlite_engine (\<lambda>st. wf_tables (db st)) (\<lambda>st. abs_grants (db st)) (\<lambda>st. abs_children (db st))
    (\<lambda>st. faults st = []) AG good view gl up"
  shows "engine_env.okw (\<lambda>st. wf_tables (db st)) good w = sys_ok good w"
  by (simp add: engine_env.okw_def [OF assms] sys_ok_def)

lemma env_up:
  assumes "engine_env sqlite_engine (\<lambda>st. wf_tables (db st)) (\<lambda>st. abs_grants (db st)) (\<lambda>st. abs_children (db st))
    (\<lambda>st. faults st = []) AG good view gl up"
  shows "engine_env.upw (\<lambda>st. wf_tables (db st)) (\<lambda>st. faults st = []) good up w =
    (sys_ok good w \<and> faults (w_store w) = [] \<and> up (w_ag w))"
  by (simp add: engine_env.upw_def [OF assms] env_ok [OF assms])

text \<open>What an operation that keeps the ledger does to the two sides.\<close>

definition holds_ledger :: "('w \<Rightarrow> bool) \<Rightarrow> ('w \<Rightarrow> obj list) \<Rightarrow> ('w \<Rightarrow> string list) \<Rightarrow> (string \<Rightarrow> string set) \<Rightarrow>
     (store, 'w) world \<Rightarrow> bool" where
  "holds_ledger good cls glob base w \<longleftrightarrow>
     sys_ok good w \<and> ledger base (set (glob (w_ag w))) (ag_view (cls (w_ag w))) (grants_of w)"

definition same_devices :: "lists \<Rightarrow> lists \<Rightarrow> bool" where
  "same_devices v v' \<longleftrightarrow> (\<forall>n. v' n = None \<longleftrightarrow> v n = None)"

text \<open>The ledger is held on, for the devices there were.\<close>

definition held_on :: "('w \<Rightarrow> bool) \<Rightarrow> ('w \<Rightarrow> obj list) \<Rightarrow> ('w \<Rightarrow> string list) \<Rightarrow> (string \<Rightarrow> string set) \<Rightarrow> lists \<Rightarrow>
     (store, 'w) world \<Rightarrow> bool" where
  "held_on good cls glob base v w \<longleftrightarrow> holds_ledger good cls glob base w \<and> same_devices v (ag_view (cls (w_ag w)))"

lemma keeps_ledger:
  assumes "ag_server srv c good cls glob"
    and "engine_env.keeps (\<lambda>st. wf_tables (db st)) (\<lambda>st. abs_grants (db st)) good (\<lambda>w. ag_view (cls w))
      (\<lambda>w. set (glob w)) w w'"
    and "held_on good cls glob base v w"
  shows "held_on good cls glob base v w'"
proof -
  note env = ag_server.on_sys [OF assms(1)]
  show ?thesis
    using assms(2,3) unfolding engine_env.keeps_def [OF env] env_ok [OF env] held_on_def holds_ledger_def same_devices_def by metis
qed

lemma held_ledger: "held_on good cls glob base v w \<Longrightarrow> holds_ledger good cls glob base w"
  by (simp add: held_on_def)

lemma held_refl: "holds_ledger good cls glob base w \<Longrightarrow> held_on good cls glob base (ag_view (cls (w_ag w))) w"
  by (simp add: held_on_def same_devices_def)

section \<open>The steps of the system\<close>

text \<open>
  What the parents want blocked on a client after they (or anyone) edited AdGuard: what its list
  now says, and what a running grant holds open there; a client left alone keeps its wishes.
\<close>

definition wanted ::
  "(string \<Rightarrow> string set) \<Rightarrow> string set \<Rightarrow> lists \<Rightarrow> string set \<Rightarrow> lists \<Rightarrow> (id \<Rightarrow> grant option) \<Rightarrow> string \<Rightarrow> string set" where
  "wanted base gl v gl' v' gr n =
     (if v' n = v n \<and> gl' = gl then base n
      else blocked_on gl' v' n \<union> (case v' n of Some (False, _) \<Rightarrow> base n \<inter> covered gr n | _ \<Rightarrow> {}))"

text \<open>
  The wishes after a rename. They follow the device to its new name; only when AdGuard renamed it and
  the store did not learn of it (the reply was lost, or it could not be renamed back), what the running grants
  held open under the old name is forgotten, for those grants will not find the device again.
\<close>

definition renamed_wishes ::
  "string \<Rightarrow> string \<Rightarrow> bool \<Rightarrow> (id \<Rightarrow> grant option) \<Rightarrow> (string \<Rightarrow> string set) \<Rightarrow> string \<Rightarrow> string set" where
  "renamed_wishes old new stored gr base = base(new := base old - (if stored then {} else covered gr old))"

text \<open>
  One step of the running program, over the parents' wishes and the world: an operation of the
  engine, a timer that fires, any other operation on the store, a write of the migration, an edit
  somebody makes in AdGuard itself, the clock. Only that edit, a new device and a rename touch the wishes.
\<close>

inductive sys_step ::
  "'w server \<Rightarrow> ag_client \<Rightarrow> ('w \<Rightarrow> bool) \<Rightarrow> ('w \<Rightarrow> obj list) \<Rightarrow> ('w \<Rightarrow> string list) \<Rightarrow>
     (string \<Rightarrow> string set) \<times> (store, 'w) world \<Rightarrow> (string \<Rightarrow> string set) \<times> (store, 'w) world \<Rightarrow> bool"
  for srv c good cls glob where
  ss_create: "Create (sys_engine srv c) child ss cs d w = (rc, w') \<Longrightarrow>
    sys_step srv c good cls glob (base, w) (base, w')"
| ss_expire: "w_timers w i \<noteq> None \<Longrightarrow>
    sys_step srv c good cls glob (base, w) (base, expire (sys_engine srv c) i w)"
| ss_extend: "Extend (sys_engine srv c) i d w = (re, w') \<Longrightarrow> sys_step srv c good cls glob (base, w) (base, w')"
| ss_end: "End (sys_engine srv c) i w = (ru, w') \<Longrightarrow> sys_step srv c good cls glob (base, w) (base, w')"
| ss_close: "sys_step srv c good cls glob (base, w) (base, Close w)"
| ss_reconcile: "Reconcile (sys_engine srv c) w = (rr, w') \<Longrightarrow> sys_step srv c good cls glob (base, w) (base, w')"
| ss_adopt: "AdoptClients (sys_engine srv c) child siblings added w = (ra, w') \<Longrightarrow>
    sys_step srv c good cls glob (base, w) (base, w')"
| ss_create_client: "CreateClient (sys_engine srv c) name ids cid w = (rn, w') \<Longrightarrow>
    base' = (if ag_view (cls (w_ag w')) = ag_view (cls (w_ag w)) then base
             else base(name := blocked_on (set (glob (w_ag w'))) (ag_view (cls (w_ag w'))) name)) \<Longrightarrow>
    sys_step srv c good cls glob (base, w) (base', w')"
| ss_rename: "engine_RenameClient (sys_engine srv c) old new w = (rm, w') \<Longrightarrow>
    base' = (if ag_view (cls (w_ag w')) = ag_view (cls (w_ag w)) then base
             else renamed_wishes old new (is_ok rm) (grants_of w) base) \<Longrightarrow>
    sys_step srv c good cls glob (base, w) (base', w')"
| ss_migrate: "MigrateFromGlobal srv c n ids (w_ag w) = (rg, a) \<Longrightarrow>
    ag_view (cls (w_ag w)) n = Some (True, b) \<Longrightarrow> set ids = b \<union> set (glob (w_ag w)) \<Longrightarrow>
    sys_step srv c good cls glob (base, w) (base, w\<lparr>w_ag := a\<rparr>)"
| ss_edit: "good a \<Longrightarrow>
    base' = wanted base (set (glob (w_ag w))) (ag_view (cls (w_ag w))) (set (glob a)) (ag_view (cls a)) (grants_of w) \<Longrightarrow>
    sys_step srv c good cls glob (base, w) (base', w\<lparr>w_ag := a\<rparr>)"
| ss_store: "store_step (w_store w) s \<Longrightarrow> abs_grants (db s) = grants_of w \<Longrightarrow>
    sys_step srv c good cls glob (base, w) (base, w\<lparr>w_store := s\<rparr>)"
| ss_clock: "sys_step srv c good cls glob (base, w) (base, w\<lparr>w_now := t, w_ticks := ts\<rparr>)"

lemma ledger_wanted:
  assumes "ledger base gl v gr"
  shows "ledger (wanted base gl v gl' v' gr) gl' v' gr"
  unfolding ledger_def
proof (intro allI impI)
  fix n i b
  assume v': "v' n = Some (i, b)"
  show "wanted base gl v gl' v' gr n \<subseteq> (if i then gl' else b \<union> covered gr n)"
  proof (cases "v' n = v n \<and> gl' = gl")
    case True
    with assms v' have "base n \<subseteq> (if i then gl else b \<union> covered gr n)" by (simp add: ledger_def)
    with True show ?thesis by (auto simp: wanted_def)
  next
    case False
    with v' show ?thesis by (cases i) (auto simp: wanted_def blocked_on_def)
  qed
qed

lemma step_create_client:
  assumes srv: "ag_server srv c good cls glob" and ok: "holds_ledger good cls glob base w"
    and run: "CreateClient (sys_engine srv c) name ids cid w = (r, w')"
  shows "holds_ledger good cls glob
    (if ag_view (cls (w_ag w')) = ag_view (cls (w_ag w)) then base
     else base(name := blocked_on (set (glob (w_ag w'))) (ag_view (cls (w_ag w'))) name)) w'"
proof -
  note env = ag_server.on_sys [OF srv]
  let ?v = "ag_view (cls (w_ag w))" and ?v' = "ag_view (cls (w_ag w'))" and ?gl = "set (glob (w_ag w))"
  have ok0: "sys_ok good w" "ledger base ?gl ?v (grants_of w)" using ok by (simp_all add: holds_ledger_def)
  note out = engine_env.create_client_outcome [OF env, unfolded env_ok [OF env], OF ok0(1) run [unfolded sys_engine_def]]
  have same: "sys_ok good w'" "grants_of w' = grants_of w" "set (glob (w_ag w')) = ?gl"
    using out unfolding engine_env.same_rest_def [OF env] env_ok [OF env] by blast+
  show ?thesis
  proof (cases "?v' = ?v")
    case True
    with same ok0 show ?thesis by (simp add: holds_ledger_def)
  next
    case False
    then obtain i b where v': "?v' = ?v(name \<mapsto> (i, b))" using out by (cases cid) auto
    have "ledger (base(name := blocked_on ?gl ?v' name)) ?gl (?v(name \<mapsto> (i, b))) (grants_of w)"
      by (rule ledger_new [OF ok0(2)]) (simp add: v' blocked_on_def)
    with False same v' show ?thesis by (simp add: holds_ledger_def)
  qed
qed

lemma ledger_lost:
  assumes "ledger base gl v gr" "v old = Some x" "old \<noteq> new"
  shows "ledger (base(new := base old - covered gr old)) gl (v(old := None, new \<mapsto> x)) gr"
  unfolding ledger_def
proof (intro allI impI)
  fix n i b
  assume V: "(v(old := None, new \<mapsto> x)) n = Some (i, b)"
  show "(base(new := base old - covered gr old)) n \<subseteq> (if i then gl else b \<union> covered gr n)"
  proof (cases "n = new")
    case True
    with V assms(2) have "v old = Some (i, b)" by simp
    with assms(1) have "base old \<subseteq> (if i then gl else b \<union> covered gr old)" by (simp add: ledger_def)
    with True show ?thesis by (auto split: if_splits)
  next
    case False
    with V have "v n = Some (i, b)" by (auto split: if_splits)
    with assms(1) False show ?thesis by (simp add: ledger_def)
  qed
qed

lemma step_rename:
  assumes srv: "ag_server srv c good cls glob" and ok: "holds_ledger good cls glob base w"
    and run: "engine_RenameClient (sys_engine srv c) old new w = (r, w')"
  shows "holds_ledger good cls glob
    (if ag_view (cls (w_ag w')) = ag_view (cls (w_ag w)) then base else renamed_wishes old new (is_ok r) (grants_of w) base) w'"
proof (cases "old = new")
  case True
  with run have "r = Inr ()" "w' = w" by (simp_all add: engine_RenameClient_def)
  with True ok show ?thesis by simp
next
  case ne: False
  note env = ag_server.on_sys [OF srv]
  let ?v = "ag_view (cls (w_ag w))" and ?v' = "ag_view (cls (w_ag w'))"
  have ok0: "sys_ok good w" "ledger base (set (glob (w_ag w))) ?v (grants_of w)"
    using ok by (simp_all add: holds_ledger_def)
  note out = engine_env.rename_outcome [OF env, unfolded env_ok [OF env], OF ok0(1) run [unfolded sys_engine_def] ne]
  then have same: "sys_ok good w'" "set (glob (w_ag w')) = set (glob (w_ag w))" by blast+
  from out consider (no) "?v' = ?v" "grants_of w' = grants_of w"
    | (both) "lists_moved old new ?v ?v'" "grants_moved old new (grants_of w) (grants_of w')" "is_ok r"
    | (lost) "lists_moved old new ?v ?v'" "grants_of w' = grants_of w" "\<not> is_ok r" by auto
  then show ?thesis
  proof cases
    case no
    with same ok0 show ?thesis by (simp add: holds_ledger_def)
  next
    case both
    then obtain x where x: "?v old = Some x" "?v new = None" "?v' = ?v(old := None, new \<mapsto> x)" by (auto simp: lists_moved_def)
    then have "?v' new \<noteq> ?v new" by simp
    then have moved: "?v' \<noteq> ?v" by metis
    note cov = grants_moved_covered [OF both(2)]
    have "ledger (base(new := base old)) (set (glob (w_ag w))) ?v' (grants_of w')"
      unfolding x(3)
    proof (rule ledger_moved [OF ok0(2) x(1,2) ne])
      show "covered (grants_of w) n \<subseteq> covered (grants_of w') n" if "n \<noteq> old" "n \<noteq> new" for n
        using cov [of n] that by (simp add: swap_name_def)
      show "covered (grants_of w) old \<subseteq> covered (grants_of w') new"
        using cov [of old] by (simp add: swap_name_def)
    qed
    with moved both(3) same show ?thesis by (simp add: holds_ledger_def renamed_wishes_def)
  next
    case lost
    then obtain x where x: "?v old = Some x" "?v new = None" "?v' = ?v(old := None, new \<mapsto> x)" by (auto simp: lists_moved_def)
    then have "?v' new \<noteq> ?v new" by simp
    then have "?v' \<noteq> ?v" by metis
    moreover have "ledger (base(new := base old - covered (grants_of w) old)) (set (glob (w_ag w))) ?v' (grants_of w)"
      unfolding x(3) by (rule ledger_lost [OF ok0(2) x(1) ne])
    ultimately show ?thesis using lost(2,3) same by (simp add: holds_ledger_def renamed_wishes_def)
  qed
qed

lemma ledger_own:
  assumes "ledger base gl v gr" "v n = Some (True, b)"
  shows "ledger base gl (v(n \<mapsto> (False, b \<union> gl))) gr"
  unfolding ledger_def
proof (intro allI impI)
  fix m i c
  assume V: "(v(n \<mapsto> (False, b \<union> gl))) m = Some (i, c)"
  show "base m \<subseteq> (if i then gl else c \<union> covered gr m)"
  proof (cases "m = n")
    case True
    have "base n \<subseteq> gl" using assms(1) [unfolded ledger_def, rule_format, OF assms(2)] by simp
    with True V show ?thesis by auto
  next
    case False
    with V have "v m = Some (i, c)" by simp
    with assms(1) show ?thesis by (simp add: ledger_def)
  qed
qed

lemma step_migrate:
  assumes srv: "ag_server srv c good cls glob" and ok: "holds_ledger good cls glob base w"
    and run: "MigrateFromGlobal srv c n ids (w_ag w) = (r, a)"
    and ids: "ag_view (cls (w_ag w)) n = Some (True, b)" "set ids = b \<union> set (glob (w_ag w))"
  shows "holds_ledger good cls glob base (w\<lparr>w_ag := a\<rparr>)"
proof -
  let ?v = "ag_view (cls (w_ag w))" and ?gl = "set (glob (w_ag w))"
  have ok0: "sys_ok good w" "ledger base ?gl ?v (grants_of w)" using ok by (simp_all add: holds_ledger_def)
  then have g: "good (w_ag w)" by (simp add: sys_ok_def)
  note out = ag_server.migrate_view [OF srv g run, unfolded ag_server.view_def [OF srv, abs_def]]
  have "ag_view (cls a) = ?v \<or> ag_view (cls a) = ?v(n \<mapsto> (False, b \<union> ?gl))"
    using out(3) ids by (auto simp: edited_def)
  then have "ledger base ?gl (ag_view (cls a)) (grants_of w)"
    using ok0(2) ledger_own [OF ok0(2) ids(1)] by metis
  with out(1,2) ok0(1) show ?thesis by (simp add: holds_ledger_def sys_ok_def)
qed

lemma step_keeps:
  assumes srv: "ag_server srv c good cls glob" and h: "held_on good cls glob base v w"
  shows "Create (sys_engine srv c) child ss cs d w = (rc, w') \<Longrightarrow> held_on good cls glob base v w'"
    "held_on good cls glob base v (expire (sys_engine srv c) i w)"
    "Extend (sys_engine srv c) i d w = (re, w') \<Longrightarrow> held_on good cls glob base v w'"
    "End (sys_engine srv c) i w = (ru, w') \<Longrightarrow> held_on good cls glob base v w'"
    "held_on good cls glob base v (Close w)"
    "Reconcile (sys_engine srv c) w = (rr, w') \<Longrightarrow> held_on good cls glob base v w'"
proof -
  note env = ag_server.on_sys [OF srv]
  have ok: "engine_env.okw (\<lambda>st. wf_tables (db st)) good w" using h by (simp add: env_ok [OF env] held_on_def holds_ledger_def)
  note keep = keeps_ledger [OF srv _ h]
  show "Create (sys_engine srv c) child ss cs d w = (rc, w') \<Longrightarrow> held_on good cls glob base v w'"
    unfolding sys_engine_def by (rule keep [OF engine_env.create_outcome [OF env ok, THEN conjunct1]])
  show "held_on good cls glob base v (expire (sys_engine srv c) i w)"
    unfolding sys_engine_def by (rule keep [OF engine_env.expire_outcome [OF env ok, THEN conjunct1]])
  show "Extend (sys_engine srv c) i d w = (re, w') \<Longrightarrow> held_on good cls glob base v w'"
    unfolding sys_engine_def by (rule keep [OF engine_env.extend_outcome [OF env ok, THEN conjunct1]])
  show "End (sys_engine srv c) i w = (ru, w') \<Longrightarrow> held_on good cls glob base v w'"
    unfolding sys_engine_def by (rule keep [OF engine_env.end_outcome [OF env ok, THEN conjunct1]])
  show "held_on good cls glob base v (Close w)"
    by (rule keep [OF engine_env.close_outcome [OF env ok]])
  show "Reconcile (sys_engine srv c) w = (rr, w') \<Longrightarrow> held_on good cls glob base v w'"
    unfolding sys_engine_def by (rule keep [OF engine_env.reconcile_outcome [OF env ok, THEN conjunct1]])
qed

lemma step_adopt:
  assumes srv: "ag_server srv c good cls glob" and h: "held_on good cls glob base v w"
    and run: "AdoptClients (sys_engine srv c) child siblings added w = (r, w')"
  shows "held_on good cls glob base v w'"
proof -
  note env = ag_server.on_sys [OF srv]
  have ok: "sys_ok good w" using h by (simp add: held_on_def holds_ledger_def)
  note out = engine_env.adopt_outcome [OF env, unfolded env_ok [OF env], OF ok run [unfolded sys_engine_def]]
  then have "sys_ok good w'" "grants_of w' = grants_of w" "set (glob (w_ag w')) = set (glob (w_ag w))"
    unfolding engine_env.same_rest_def [OF env] env_ok [OF env] by blast+
  moreover have "ledger base (set (glob (w_ag w))) (ag_view (cls (w_ag w'))) (grants_of w)"
    by (rule ledger_adoptions) (use h out in \<open>auto simp: held_on_def holds_ledger_def\<close>)
  moreover have "same_devices (ag_view (cls (w_ag w))) (ag_view (cls (w_ag w')))"
    unfolding same_devices_def by (intro allI adopted_None) (use out in blast)
  ultimately show ?thesis using h by (simp add: held_on_def holds_ledger_def same_devices_def)
qed

lemmas step_ledger = step_keeps [OF _ held_refl, THEN held_ledger] step_adopt [OF _ held_refl, THEN held_ledger]

lemma sys_step_ledger:
  assumes srv: "ag_server srv c good cls glob"
    and "sys_step srv c good cls glob x y" "holds_ledger good cls glob (fst x) (snd x)"
  shows "holds_ledger good cls glob (fst y) (snd y)"
  using assms(2,3)
proof (induction rule: sys_step.induct)
  case (ss_edit a base' base w)
  with ledger_wanted show ?case by (simp add: holds_ledger_def sys_ok_def)
next
  case (ss_store w s base)
  with store_step_wf [OF ss_store(1)] show ?case by (simp add: holds_ledger_def sys_ok_def)
next
  case (ss_clock base w t ts)
  then show ?case by (simp add: holds_ledger_def sys_ok_def)
next
  case (ss_create_client name ids cid w rn w' base' base)
  show ?case unfolding fst_conv snd_conv ss_create_client(2)
    by (rule step_create_client [OF srv _ ss_create_client(1)]) (use ss_create_client(3) in simp)
next
  case (ss_rename old new w rm w' base' base)
  show ?case unfolding fst_conv snd_conv ss_rename(2)
    by (rule step_rename [OF srv _ ss_rename(1)]) (use ss_rename(3) in simp)
next
  case (ss_migrate n ids w rg a b base)
  show ?case unfolding fst_conv snd_conv
    by (rule step_migrate [OF srv _ ss_migrate(1-3)]) (use ss_migrate(4) in simp)
qed (simp only: fst_conv snd_conv, (rule step_ledger [OF srv]; assumption))+

text \<open>What the ledger says, spelt out.\<close>

lemma holds_ledgerD:
  assumes "holds_ledger good cls glob base w"
  shows "wf_tables (db (w_store w)) \<and> good (w_ag w) \<and>
    (\<forall>n inherits b s. ag_view (cls (w_ag w)) n = Some (inherits, b) \<and> s \<in> base n \<longrightarrow>
       (if inherits then s \<in> set (glob (w_ag w))
        else s \<in> b \<or> (\<exists>i g. grants_of w i = Some g \<and> grant_status g = StatusActive \<and>
               n \<in> set (grant_clients g) \<and> s \<in> set (grant_services g))))"
proof -
  from assms have h: "sys_ok good w" "ledger base (set (glob (w_ag w))) (ag_view (cls (w_ag w))) (grants_of w)"
    by (simp_all add: holds_ledger_def)
  have "if inherits then s \<in> set (glob (w_ag w)) else s \<in> b \<or> s \<in> covered (grants_of w) n"
    if "ag_view (cls (w_ag w)) n = Some (inherits, b)" "s \<in> base n" for n inherits b s
  proof -
    have "base n \<subseteq> (if inherits then set (glob (w_ag w)) else b \<union> covered (grants_of w) n)"
      using h(2) that(1) unfolding ledger_def by blast
    with that(2) show ?thesis by (auto split: if_splits)
  qed
  with h(1) show ?thesis unfolding sys_ok_def covered_def mem_Collect_eq by blast
qed

text \<open>
  Property C2. No operation of the engine, the store or the migration, in any order and with any of its calls failing,
  forgets what the parents want blocked: in every reachable state each of those services is blocked
  on the device, by its own list or by the global one it inherits, or an active grant that stores
  this device holds it open and so will give it back. What is wanted changes in three ways only: somebody edits AdGuard
  Home, a device is created (its first list is what is wanted of it), or a device is renamed. A rename takes the wishes
  along, with one exception, which is the code's: when AdGuard renamed the device and the store did not learn of it,
  what the active grants hold open on it at that moment is no longer given back, and only that is forgotten.
\<close>

theorem ledger_invariant:
  assumes srv: "ag_server srv c good cls glob" and init: "holds_ledger good cls glob base0 w0"
    and reach: "(sys_step srv c good cls glob)\<^sup>*\<^sup>* (base0, w0) (base, w)"
  shows "wf_tables (db (w_store w)) \<and> good (w_ag w) \<and>
    (\<forall>n inherits b s. ag_view (cls (w_ag w)) n = Some (inherits, b) \<and> s \<in> base n \<longrightarrow>
       (if inherits then s \<in> set (glob (w_ag w))
        else s \<in> b \<or> (\<exists>i g. grants_of w i = Some g \<and> grant_status g = StatusActive \<and>
               n \<in> set (grant_clients g) \<and> s \<in> set (grant_services g))))"
proof -
  have "holds_ledger good cls glob (fst y) (snd y)"
    if "(sys_step srv c good cls glob)\<^sup>*\<^sup>* (base0, w0) y" for y
    using that by induction (simp_all add: init sys_step_ledger [OF srv])
  from this [OF reach] show ?thesis by (intro holds_ledgerD) simp
qed

section \<open>Grants\<close>

text \<open>
  Property C5. Create stores one active grant, touches AdGuard only for it, and is honest about it: the only
  services that leave a list are the grant's, on the grant's clients; every client it does not report as
  failed has a list of its own without them; an error means no grant and no write; the timer is armed.
\<close>

theorem Create_opens:
  assumes srv: "ag_server srv c good cls glob" and ok: "sys_ok good w"
    and run: "Create (sys_engine srv c) child ss cs d w = (r, w')"
  shows "sys_ok good w' \<and>
    (case r of
       Inl x \<Rightarrow> (\<exists>y. x = StoreErr y) \<and> grants_of w' = grants_of w \<and> w_ag w' = w_ag w
     | Inr res \<Rightarrow>
         let g = cg_grant res; v = ag_view (cls (w_ag w)); v' = ag_view (cls (w_ag w')) in
         grants_of w (grant_id g) = None \<and> grants_of w' = (grants_of w)(grant_id g \<mapsto> g) \<and> grant_child g = child \<and>
         grant_status g = StatusActive \<and> grant_services g = normaliseClients ss \<and> grant_clients g = normaliseClients cs \<and>
         ends_at g = of_unix (unix (fst (clock w) + d)) \<and>
         shrunk (\<lambda>n. if n \<in> set (grant_clients g) then set (grant_services g) else {}) v v' \<and>
         set (cg_failed res) \<subseteq> set (grant_clients g) \<and>
         (\<forall>n \<in> set (grant_clients g) - set (cg_failed res). \<exists>b. v' n = Some (False, b) \<and> b \<inter> set (grant_services g) = {}) \<and>
         (cg_applied res \<longleftrightarrow> cg_failed res = []) \<and> (w_timers w' (grant_id g) \<noteq> None \<longleftrightarrow> \<not> w_closed w))"
proof -
  note env = ag_server.on_sys [OF srv]
  note out = engine_env.create_outcome [OF env, unfolded env_ok [OF env] opened_def, OF ok run [unfolded sys_engine_def]]
  then have k: "sys_ok good w'" unfolding engine_env.keeps_def [OF env] env_ok [OF env] by blast
  show ?thesis
  proof (cases r)
    case (Inl x)
    with out k show ?thesis by simp
  next
    case (Inr res)
    show ?thesis
      using out k unfolding Inr sum.case Let_def by (elim conjE) (intro conjI, assumption+)
  qed
qed

text \<open>
  Property C24. Extend moves the end of an active grant by the given duration, in whole seconds, re-arms its timer and
  touches neither AdGuard nor any other grant; on an error nothing has changed.
\<close>

theorem Extend_moves:
  assumes srv: "ag_server srv c good cls glob" and ok: "sys_ok good w"
    and run: "Extend (sys_engine srv c) i d w = (r, w')"
  shows "sys_ok good w' \<and> w_ag w' = w_ag w \<and>
    (case r of
       Inl x \<Rightarrow> grants_of w' = grants_of w \<and> w_timers w' = w_timers w
     | Inr g' \<Rightarrow> \<exists>g. grants_of w i = Some g \<and> grant_status g = StatusActive \<and>
         g' = g\<lparr>ends_at := of_unix (unix (ends_at g + d))\<rparr> \<and> grants_of w' = (grants_of w)(i \<mapsto> g') \<and>
         (w_timers w' i \<noteq> None \<longleftrightarrow> \<not> w_closed w))"
proof -
  note env = ag_server.on_sys [OF srv]
  note out = engine_env.extend_outcome [OF env, unfolded env_ok [OF env], OF ok run [unfolded sys_engine_def]]
  moreover from this have "sys_ok good w'" unfolding engine_env.keeps_def [OF env] env_ok [OF env] by blast
  ultimately show ?thesis by (cases r) auto
qed

text \<open>
  Property C4. End re-blocks each service of the grant on each of its clients AdGuard still has, save those another
  active grant still covers there, adds nothing else to any list, marks the grant ended and drops its
  timer; when it fails the grant stays as it was, with its timer, and the clients it names are the grant's.
\<close>

theorem End_closes:
  assumes srv: "ag_server srv c good cls glob" and ok: "sys_ok good w"
    and run: "End (sys_engine srv c) i w = (r, w')"
  shows "sys_ok good w' \<and>
    (case r of
       Inr _ \<Rightarrow> \<exists>g. grants_of w i = Some g \<and> grant_status g = StatusActive \<and>
         grants_of w' = (grants_of w)(i \<mapsto> g\<lparr>grant_status := StatusEnded\<rparr>) \<and> w_timers w' i = None \<and>
         (\<forall>n \<in> set (grant_clients g). \<forall>inherits b. ag_view (cls (w_ag w')) n = Some (inherits, b) \<longrightarrow>
            set (grant_services g) - held_by_others (grants_of w) i n \<subseteq> b) \<and>
         grown (\<lambda>n. if n \<in> set (grant_clients g) then set (grant_services g) - held_by_others (grants_of w) i n else {})
           (ag_view (cls (w_ag w))) (ag_view (cls (w_ag w')))
     | Inl x \<Rightarrow> grants_of w' = grants_of w \<and> w_timers w' = w_timers w \<and>
         (\<forall>f. x = ErrRevertFailed f \<longrightarrow> f \<noteq> [] \<and> (\<exists>g. grants_of w i = Some g \<and> set f \<subseteq> set (grant_clients g))))"
proof -
  note env = ag_server.on_sys [OF srv]
  note out = engine_env.end_outcome [OF env, unfolded env_ok [OF env], OF ok run [unfolded sys_engine_def]]
  then have k: "sys_ok good w'" unfolding engine_env.keeps_def [OF env] env_ok [OF env] by blast
  show ?thesis
  proof (cases r)
    case (Inl x)
    with out k show ?thesis by simp
  next
    case (Inr u)
    with out obtain g where g: "grants_of w i = Some g" "grant_status g = StatusActive"
      "closes g StatusEnded (grants_of w) (grants_of w') (ag_view (cls (w_ag w')))"
      "grown (revert_bound g (grants_of w)) (ag_view (cls (w_ag w))) (ag_view (cls (w_ag w')))" "w_timers w' i = None"
      by auto
    have "grant_id g = i" by (rule abs_grants_id [OF g(1)])
    with g k Inr show ?thesis
      by (auto simp: closes_def revert_bound_def [abs_def])
  qed
qed

text \<open>
  Property C6. A timer that fires on an active grant, with the database and AdGuard answering: before the
  grant's end nothing changes but the timer, which is armed again; at or after it the grant is expired and each
  of its services is blocked again on each of its clients unless another active grant covers it there.
\<close>

theorem expire_closes:
  assumes srv: "ag_server_up srv c good cls glob up" and ok: "sys_up up w"
    and g: "grants_of w i = Some g" "grant_status g = StatusActive"
  shows "let w' = expire (sys_engine srv c) i w in sys_up up w' \<and>
    (if fst (clock w) < ends_at g
     then grants_of w' = grants_of w \<and> ag_view (cls (w_ag w')) = ag_view (cls (w_ag w)) \<and>
       (w_timers w' i \<noteq> None \<or> w_closed w)
     else grants_of w' = (grants_of w)(i \<mapsto> g\<lparr>grant_status := StatusExpired\<rparr>) \<and> w_timers w' i = None \<and>
       (\<forall>n \<in> set (grant_clients g). \<forall>inherits b. ag_view (cls (w_ag w')) n = Some (inherits, b) \<longrightarrow>
          set (grant_services g) - held_by_others (grants_of w) i n \<subseteq> b) \<and>
       grown (\<lambda>n. if n \<in> set (grant_clients g) then set (grant_services g) - held_by_others (grants_of w) i n else {})
         (ag_view (cls (w_ag w))) (ag_view (cls (w_ag w'))))"
proof -
  note env = ag_server_up.on_sys_up [OF srv]
  have good: "good (w_ag w)" using ok ag_server_up.up_good [OF srv] by (simp add: sys_up_def)
  have id: "grant_id g = i" by (rule abs_grants_id [OF g(1)])
  have "sys_ok good w \<and> faults (w_store w) = [] \<and> up (w_ag w)" using ok good by (simp add: sys_up_def sys_ok_def)
  note out = engine_env.expire_up [OF env, unfolded env_up [OF env], OF this g, folded sys_engine_def]
  then have "sys_up up (expire (sys_engine srv c) i w)" by (simp add: sys_up_def sys_ok_def)
  with out show ?thesis unfolding Let_def closes_def revert_bound_def [abs_def] id by (cases "fst (clock w) < ends_at g") simp_all
qed

section \<open>Reconciling\<close>

text \<open>
  Property C3. One reconcile pass with the database and AdGuard answering converges, whatever drifted or
  was missed before it: it succeeds, every overdue grant is expired, every live grant is untouched, armed, and
  open on each of its clients with a list of its own, and no grant that was over changes.
\<close>

theorem Reconcile_converges:
  assumes srv: "ag_server_up srv c good cls glob up" and ok: "sys_up up w"
    and run: "Reconcile (sys_engine srv c) w = (r, w')"
  shows "is_ok r \<and> sys_up up w' \<and>
    (\<forall>i g. grants_of w i = Some g \<longrightarrow>
       (if grant_status g = StatusActive \<and> ends_at g \<le> fst (clock w)
        then grants_of w' i = Some (g\<lparr>grant_status := StatusExpired\<rparr>) else grants_of w' i = Some g)) \<and>
    (\<forall>i g. grants_of w i = Some g \<and> grant_status g = StatusActive \<and> fst (clock w) < ends_at g \<longrightarrow>
       (w_timers w' i \<noteq> None \<or> w_closed w) \<and>
       (\<forall>n \<in> set (grant_clients g). \<forall>b. ag_view (cls (w_ag w')) n = Some (False, b) \<longrightarrow> b \<inter> set (grant_services g) = {}))"
proof -
  note env = ag_server_up.on_sys_up [OF srv]
  have good: "good (w_ag w)" using ok ag_server_up.up_good [OF srv] by (simp add: sys_up_def)
  have up: "sys_ok good w \<and> faults (w_store w) = [] \<and> up (w_ag w)" using ok good by (simp add: sys_up_def sys_ok_def)
  then have "sys_ok good w" by blast
  note out = engine_env.reconcile_outcome [OF env, unfolded env_ok [OF env] env_up [OF env] live_open_def, OF this run [unfolded sys_engine_def]]
  then have 1: "is_ok r" "sys_up up w'" using up by (simp_all add: sys_up_def sys_ok_def)
  have unmoved: "\<And>i g. grants_of w i = Some g \<Longrightarrow> grant_status g \<noteq> StatusActive \<or> fst (clock w) < ends_at g \<Longrightarrow>
      grants_of w' i = Some g" using out by blast
  have act: "\<And>i g. grants_of w i = Some g \<Longrightarrow> grant_status g = StatusActive \<Longrightarrow>
      (if fst (clock w) < ends_at g
       then (\<forall>n \<in> set (grant_clients g). \<forall>b. ag_view (cls (w_ag w')) n = Some (False, b) \<longrightarrow> b \<inter> set (grant_services g) = {}) \<and>
         (w_timers w' i \<noteq> None \<or> w_closed w)
       else grants_of w' i = Some (g\<lparr>grant_status := StatusExpired\<rparr>))" using out up by blast
  have "if grant_status g = StatusActive \<and> ends_at g \<le> fst (clock w)
      then grants_of w' i = Some (g\<lparr>grant_status := StatusExpired\<rparr>) else grants_of w' i = Some g"
    if "grants_of w i = Some g" for i g
    using unmoved [OF that] act [OF that] by (auto simp: not_less split: if_splits)
  moreover have "(w_timers w' i \<noteq> None \<or> w_closed w) \<and>
       (\<forall>n \<in> set (grant_clients g). \<forall>b. ag_view (cls (w_ag w')) n = Some (False, b) \<longrightarrow> b \<inter> set (grant_services g) = {})"
    if "grants_of w i = Some g \<and> grant_status g = StatusActive \<and> fst (clock w) < ends_at g" for i g
    using act [of i g] that by simp
  ultimately show ?thesis using 1 by blast
qed

text \<open>
  Property C40. A pass that finds every active grant live and open reports no write, revert or repair, and leaves every
  list and every grant as it was.
\<close>

theorem Reconcile_quiet:
  assumes srv: "ag_server srv c good cls glob" and ok: "sys_ok good w"
    and run: "Reconcile (sys_engine srv c) w = (Inr st, w')"
    and quiet: "\<And>i g. grants_of w i = Some g \<Longrightarrow> grant_status g = StatusActive \<Longrightarrow> fst (clock w) < ends_at g \<and>
      (\<forall>n \<in> set (grant_clients g). \<forall>b. ag_view (cls (w_ag w)) n = Some (False, b) \<longrightarrow> b \<inter> set (grant_services g) = {})"
  shows "rs_writes st = 0 \<and> rs_reverted st = 0 \<and> rs_repaired st = 0 \<and>
    ag_view (cls (w_ag w')) = ag_view (cls (w_ag w)) \<and> grants_of w' = grants_of w"
proof -
  note env = ag_server.on_sys [OF srv]
  show ?thesis
    by (rule engine_env.reconcile_quiet [OF env, unfolded env_ok [OF env] live_open_def, OF ok run [unfolded sys_engine_def]])
       (use quiet in blast)
qed

section \<open>Devices\<close>

text \<open>
  Property C23. The plan of a revert: for each of the grant's clients, the services of the grant no other
  active grant covers on that client, each once and in the grant's order; a client with none is left out, and so
  is every other client.
\<close>

theorem revertPlan_exact:
  "revertPlan g active n =
    (let keep = rev (remdups (rev (filter (\<lambda>s. \<not> (\<exists>a \<in> set active. grant_id a \<noteq> grant_id g \<and>
                  n \<in> set (grant_clients a) \<and> s \<in> set (grant_services a))) (grant_services g))))
     in if n \<in> set (grant_clients g) \<and> keep \<noteq> [] then Some keep else None)"
  by (simp add: revertPlan_eq pick_services_reference heldOpen_set)

text \<open>
  Property C22. CreateClient with a child adds the device with a list of its own holding everything the
  child's known devices block, the services running grants have opened on them, and the child's own grants'; a
  device of a child with no known device starts from the global list. Without a child it inherits. A failure
  before the add changes nothing, one after it leaves the device with that list and unassigned.
\<close>

theorem CreateClient_baseline:
  assumes srv: "ag_server srv c good cls glob" and ok: "sys_ok good w"
    and run: "CreateClient (sys_engine srv c) name ids cid w = (r, w')"
  shows "let v = ag_view (cls (w_ag w)); v' = ag_view (cls (w_ag w')) in
    sys_ok good w' \<and> grants_of w' = grants_of w \<and>
    (v' = v \<and> children_of w' = children_of w \<and> \<not> is_ok r \<or>
     v name = None \<and>
       (case cid of
          None \<Rightarrow> v' = v(name \<mapsto> (True, {})) \<and> children_of w' = children_of w
        | Some i \<Rightarrow> \<exists>m sib. children_of w i = Some (m, sib) \<and>
            v' = v(name \<mapsto> (False, device_base (set (glob (w_ag w))) v (grants_of w) i sib)) \<and>
            children_of w' = (if is_ok r then (children_of w)(i \<mapsto> (m, insert (trim_space name) sib)) else children_of w)))"
proof -
  note env = ag_server.on_sys [OF srv]
  note out = engine_env.create_client_outcome [OF env, unfolded env_ok [OF env] engine_env.same_rest_def [OF env],
      OF ok run [unfolded sys_engine_def]]
  then show ?thesis unfolding Let_def by blast
qed

text \<open>
  Property C20. AdoptClients never takes a service off a list and never re-blocks on a shared device what an
  active grant holds open there: each added device AdGuard knows ends with a list of its own, what it blocked
  effectively plus the child's baseline less the services covered on that very device; no other device changes.
\<close>

theorem AdoptClients_shared:
  assumes srv: "ag_server srv c good cls glob" and ok: "sys_ok good w"
    and run: "AdoptClients (sys_engine srv c) child siblings added w = (r, w')"
  shows "let v = ag_view (cls (w_ag w)); v' = ag_view (cls (w_ag w')); gl = set (glob (w_ag w));
      own = (\<lambda>n. device_base gl v (grants_of w) child (set siblings) - covered (grants_of w) n) in
    sys_ok good w' \<and> grants_of w' = grants_of w \<and> children_of w' = children_of w \<and>
    (\<forall>n. v' n = v n \<or> n \<in> set added \<and> v n \<noteq> None \<and> v' n = Some (False, blocked_on gl v n \<union> own n)) \<and>
    (is_ok r \<longrightarrow> (\<forall>n \<in> set added. v n \<noteq> None \<longrightarrow> (\<exists>b. v' n = Some (False, b) \<and> own n \<subseteq> b)))"
proof -
  note env = ag_server.on_sys [OF srv]
  let ?own = "\<lambda>n. device_base (set (glob (w_ag w))) (ag_view (cls (w_ag w))) (grants_of w) child (set siblings) - covered (grants_of w) n"
  note out = engine_env.adopt_outcome [OF env, unfolded env_ok [OF env] engine_env.same_rest_def [OF env],
      OF ok run [unfolded sys_engine_def]]
  then have ad: "adopted (set (glob (w_ag w))) ?own (set added) (ag_view (cls (w_ag w))) (ag_view (cls (w_ag w')))" by blast
  have "ag_view (cls (w_ag w')) n = ag_view (cls (w_ag w)) n \<or> n \<in> set added \<and> ag_view (cls (w_ag w)) n \<noteq> None \<and>
      ag_view (cls (w_ag w')) n = Some (False, blocked_on (set (glob (w_ag w))) (ag_view (cls (w_ag w))) n \<union> ?own n)" for n
    using ad [unfolded adopted_def, THEN spec, of n] by (auto simp: blocked_on_def)
  with out show ?thesis unfolding Let_def by blast
qed

text \<open>
  Property C21. RenameClient keeps AdGuard and the store together: success renames the device in AdGuard, in every
  child and in every active grant, so a running grant reverts on the renamed device; a refusal or a rename that
  could be taken back changes neither. What an error leaves behind is otherwise that AdGuard alone moved. When the store
  refused and the rename could not be taken back, the error says so and names both clients; when it was the reply of
  AdGuard that was lost, it is that call's error, which does not say whether the device moved.
\<close>

theorem RenameClient_follows:
  assumes srv: "ag_server srv c good cls glob" and ok: "sys_ok good w" and ne: "old \<noteq> new"
    and run: "engine_RenameClient (sys_engine srv c) old new w = (r, w')"
  shows "let v = ag_view (cls (w_ag w)); v' = ag_view (cls (w_ag w')) in
    sys_ok good w' \<and> w_timers w' = w_timers w \<and>
    (v' = v \<and> grants_of w' = grants_of w \<and> children_of w' = children_of w \<and> \<not> is_ok r \<or>
     lists_moved old new v v' \<and> grants_moved old new (grants_of w) (grants_of w') \<and>
       (\<forall>i. children_of w' i = map_option (apsnd ((`) (swap_name old new))) (children_of w i)) \<and> r = Inr () \<or>
     lists_moved old new v v' \<and> grants_of w' = grants_of w \<and> children_of w' = children_of w \<and>
       ((\<exists>x. r = Inl (AgErr x)) \<or> (\<exists>x y. r = Inl (RenameLost old new x y))))"
proof -
  note env = ag_server.on_sys [OF srv]
  note out = engine_env.rename_outcome [OF env, unfolded env_ok [OF env], OF ok run [unfolded sys_engine_def] ne]
  then show ?thesis unfolding Let_def by blast
qed

section \<open>The properties at concrete inputs\<close>

text \<open>
  Two children share a device of the fake's fixtures; the first has an active grant until 100 on one
  client, over a list that AdGuard's user interface has blocked again meanwhile.
\<close>

definition house_tables :: "string \<Rightarrow> tables" where
  "house_tables cl = \<lparr>
     t_children = [\<lparr>ch_id = 1, ch_name = ''Ann'', ch_created = 10\<rparr>, \<lparr>ch_id = 2, ch_name = ''Ben'', ch_created = 20\<rparr>],
     t_child_clients = [\<lparr>cc_client = ''Kid phone'', cc_child = 1\<rparr>, \<lparr>cc_client = ''Kid phone'', cc_child = 2\<rparr>,
                        \<lparr>cc_client = ''Old laptop'', cc_child = 1\<rparr>],
     t_grants = [\<lparr>gr_id = 1, gr_child = 1, gr_status = StatusActive, gr_started = 50, gr_ends = 100, gr_ended = None\<rparr>],
     t_grant_services = [\<lparr>gs_grant = 1, gs_child = 1, gs_service = ''youtube'', gs_active = True\<rparr>],
     t_grant_clients = [\<lparr>gc_grant = 1, gc_client = cl\<rparr>],
     t_buttons = [], t_button_services = [], t_button_seq = 0, t_sessions = []\<rparr>"

definition house :: "string \<Rightarrow> int \<Rightarrow> (store, fake) world" where
  "house cl t = engine_New \<lparr>db = house_tables cl, faults = []\<rparr> demo_fake (t * second) []"

abbreviation demo_engine :: "(store, fake) engine" where "demo_engine \<equiv> sys_engine demo_srv demo_client"

lemma house_ok: "sys_ok fake_good (house cl t)"
proof -
  have "wf_tables (house_tables cl)"
    by (simp add: wf_defs house_tables_def live_pairs_def service_matches_def to_lower_def) code_simp
  then show ?thesis using demo_good by (simp add: sys_ok_def house_def engine_New_def)
qed

lemma house_up: "sys_up (fake_up demo_client) (house cl t)"
  using house_ok [of cl t] fake_New_up [of demo_client "''svc''" "''pw''"]
  by (simp add: sys_ok_def sys_up_def house_def engine_New_def demo_client_def demo_fake_def)

definition house_grant :: grant where
  "house_grant = \<lparr>grant_id = 1, grant_child = 1, grant_status = StatusActive, grant_services = [''youtube''],
     grant_clients = [''Kid phone''], started_at = 50 * second, ends_at = 100 * second\<rparr>"

lemma house_grant: "grants_of (house ''Kid phone'' t) 1 = Some house_grant"
proof -
  have "abs_grants (house_tables ''Kid phone'') 1 = Some house_grant" by code_simp
  then show ?thesis by (simp add: house_def engine_New_def)
qed

theorem Create_opens_witness:
  "\<exists>w' res. Create demo_engine 2 [''tiktok''] [''Kid phone''] (600 * second) (house ''Kid phone'' 90) = (Inr res, w') \<and>
    cg_failed res = [] \<and> demo_lists (w_ag w') ''Kid phone'' = Some (False, [''youtube'']) \<and>
    grants_of w' (grant_id (cg_grant res)) = Some (cg_grant res)"
proof -
  let ?run = "Create demo_engine 2 [''tiktok''] [''Kid phone''] (600 * second) (house ''Kid phone'' 90)"
  have "(case ?run of (Inl _, _) \<Rightarrow> False
    | (Inr res, w) \<Rightarrow> cg_failed res = [] \<and> demo_lists (w_ag w) ''Kid phone'' = Some (False, [''youtube'']))" by code_simp
  moreover obtain r w' where run: "?run = (r, w')" by fastforce
  ultimately show ?thesis
    using Create_opens [OF fake.ag_server_axioms house_ok run] by (cases r) (simp_all add: Let_def)
qed

theorem Extend_moves_witness:
  "\<exists>w' g'. Extend demo_engine 1 (60 * second) (house ''Kid phone'' 90) = (Inr g', w') \<and> ends_at g' = 160 * second \<and>
    w_ag w' = demo_fake"
proof -
  let ?run = "Extend demo_engine 1 (60 * second) (house ''Kid phone'' 90)"
  have "(case fst ?run of Inl _ \<Rightarrow> False | Inr g' \<Rightarrow> ends_at g' = 160 * second)" by code_simp
  moreover obtain r w' where run: "?run = (r, w')" by fastforce
  moreover have "w_ag (house ''Kid phone'' 90) = demo_fake" by (simp add: house_def engine_New_def)
  ultimately show ?thesis
    using Extend_moves [OF fake.ag_server_axioms house_ok run] by (cases r) auto
qed

theorem End_closes_witness:
  "\<exists>w'. End demo_engine 1 (house ''Kid phone'' 90) = (Inr (), w') \<and>
    (\<exists>g. grants_of w' 1 = Some g \<and> grant_status g = StatusEnded)"
proof -
  let ?run = "End demo_engine 1 (house ''Kid phone'' 90)"
  have "is_ok (fst ?run)" by code_simp
  moreover obtain r w' where run: "?run = (r, w')" by fastforce
  ultimately show ?thesis
    using End_closes [OF fake.ag_server_axioms house_ok run] by (cases r) auto
qed

theorem expire_closes_witness:
  "\<exists>g. grants_of (expire demo_engine 1 (house ''Kid phone'' 200)) 1 = Some g \<and> grant_status g = StatusExpired"
proof -
  have "\<not> fst (clock (house ''Kid phone'' 200)) < ends_at house_grant" by code_simp
  moreover have "ag_server_up demo_srv demo_client fake_good fk_clients fake_glob (fake_up demo_client)"
    by (rule fake_up.ag_server_up_axioms)
  ultimately show ?thesis
    using expire_closes [OF _ house_up house_grant] by (simp add: Let_def house_grant_def)
qed

theorem Reconcile_converges_witness:
  "\<exists>st w'. Reconcile demo_engine (house ''Kid phone'' 90) = (Inr st, w') \<and>
    grants_of w' 1 = Some house_grant \<and>
    (\<forall>b. ag_view (fk_clients (w_ag w')) ''Kid phone'' = Some (False, b) \<longrightarrow> ''youtube'' \<notin> b)"
proof -
  obtain r w' where run: "Reconcile demo_engine (house ''Kid phone'' 90) = (r, w')" by fastforce
  note conv = Reconcile_converges [OF fake_up.ag_server_up_axioms house_up run]
  have "fst (clock (house ''Kid phone'' 90)) < ends_at house_grant" by code_simp
  moreover have "grant_status house_grant = StatusActive" by (simp add: house_grant_def)
  ultimately have
    "grants_of w' 1 = Some house_grant" "is_ok r"
    "\<forall>n \<in> set (grant_clients house_grant). \<forall>b. ag_view (fk_clients (w_ag w')) n = Some (False, b) \<longrightarrow> b \<inter> set (grant_services house_grant) = {}"
    using conv house_grant [of 90] by auto
  moreover from this have "''youtube'' \<notin> b" if "ag_view (fk_clients (w_ag w')) ''Kid phone'' = Some (False, b)" for b
    using that by (simp add: house_grant_def)
  ultimately show ?thesis using run by (cases r) auto
qed

theorem Reconcile_quiet_witness:
  "\<exists>st w'. Reconcile demo_engine (house ''Old laptop'' 90) = (Inr st, w') \<and> rs_writes st = 0 \<and>
    grants_of w' = grants_of (house ''Old laptop'' 90)"
proof -
  let ?w = "house ''Old laptop'' 90"
  obtain r w' where run: "Reconcile demo_engine ?w = (r, w')" by fastforce
  have "is_ok (fst (Reconcile demo_engine ?w))" by code_simp
  with run obtain st where r: "r = Inr st" by (cases r) auto
  have "fst (clock ?w) < ends_at g \<and>
      (\<forall>n \<in> set (grant_clients g). \<forall>b. ag_view (fk_clients (w_ag ?w)) n = Some (False, b) \<longrightarrow> b \<inter> set (grant_services g) = {})"
    if "grants_of ?w i = Some g" for i g
  proof -
    have "i = 1" using that by (simp add: house_def engine_New_def abs_grants_def house_tables_def split: if_splits)
    moreover have "abs_grants (house_tables ''Old laptop'') 1 = Some (house_grant\<lparr>grant_clients := [''Old laptop'']\<rparr>)" by code_simp
    ultimately have "g = house_grant\<lparr>grant_clients := [''Old laptop'']\<rparr>" using that by (simp add: house_def engine_New_def)
    moreover have "ag_view (fk_clients demo_fake) ''Old laptop'' = Some (False, {})" by code_simp
    moreover have "fst (clock ?w) < ends_at house_grant" by code_simp
    ultimately show ?thesis by (simp add: house_def engine_New_def house_grant_def)
  qed
  with Reconcile_quiet [OF fake.ag_server_axioms house_ok run [unfolded r]] run r show ?thesis by blast
qed

theorem CreateClient_baseline_witness:
  "\<exists>x w'. CreateClient demo_engine ''Kid phone'' [''x''] (Some 2) (house ''Kid phone'' 90) = (Inl x, w') \<and>
    ag_view (fk_clients (w_ag w')) = ag_view (fk_clients demo_fake)"
proof -
  let ?run = "CreateClient demo_engine ''Kid phone'' [''x''] (Some 2) (house ''Kid phone'' 90)"
  have "\<not> is_ok (fst ?run)" "ag_view (fk_clients demo_fake) ''Kid phone'' \<noteq> None" by code_simp+
  moreover obtain r w' where run: "?run = (r, w')" by fastforce
  moreover have "w_ag (house ''Kid phone'' 90) = demo_fake" by (simp add: house_def engine_New_def)
  ultimately show ?thesis
    using CreateClient_baseline [OF fake.ag_server_axioms house_ok run] by (cases r) (auto simp: Let_def)
qed

theorem AdoptClients_shared_witness:
  "\<exists>w'. AdoptClients demo_engine 2 [''Old laptop''] [''Kid tablet'', ''ghost''] (house ''Kid phone'' 90) = (Inr (), w') \<and>
    (\<exists>b. ag_view (fk_clients (w_ag w')) ''Kid tablet'' = Some (False, b))"
proof -
  let ?run = "AdoptClients demo_engine 2 [''Old laptop''] [''Kid tablet'', ''ghost''] (house ''Kid phone'' 90)"
  have "is_ok (fst ?run)" "ag_view (fk_clients demo_fake) ''Kid tablet'' \<noteq> None" by code_simp+
  moreover obtain r w' where run: "?run = (r, w')" by fastforce
  moreover have "w_ag (house ''Kid phone'' 90) = demo_fake" by (simp add: house_def engine_New_def)
  ultimately show ?thesis
    using AdoptClients_shared [OF fake.ag_server_axioms house_ok run] by (cases r) (auto simp: Let_def)
qed

theorem RenameClient_follows_witness:
  "\<exists>w'. engine_RenameClient demo_engine ''Kid phone'' ''Phone'' (house ''Kid phone'' 90) = (Inr (), w') \<and>
    lists_moved ''Kid phone'' ''Phone'' (ag_view (fk_clients demo_fake)) (ag_view (fk_clients (w_ag w'))) \<and>
    (\<exists>g. grants_of w' 1 = Some g \<and> set (grant_clients g) = {''Phone''})"
proof -
  let ?run = "engine_RenameClient demo_engine ''Kid phone'' ''Phone'' (house ''Kid phone'' 90)"
  have "fst ?run = Inr ()" by code_simp
  moreover obtain r w' where run: "?run = (r, w')" by fastforce
  moreover have "w_ag (house ''Kid phone'' 90) = demo_fake" by (simp add: house_def engine_New_def)
  ultimately have mv: "lists_moved ''Kid phone'' ''Phone'' (ag_view (fk_clients demo_fake)) (ag_view (fk_clients (w_ag w')))"
    "grants_moved ''Kid phone'' ''Phone'' (grants_of (house ''Kid phone'' 90)) (grants_of w')"
    using RenameClient_follows [OF fake.ag_server_axioms house_ok _ run] by (auto simp: Let_def)
  from mv(2) [unfolded grants_moved_def, THEN conjunct2, rule_format, OF house_grant]
  obtain g where "grants_of w' 1 = Some g"
    "set (grant_clients g) = swap_name ''Kid phone'' ''Phone'' ` {''Kid phone''}"
    by (auto simp: house_grant_def)
  with mv(1) run \<open>fst ?run = Inr ()\<close> show ?thesis by (auto simp: swap_name_def)
qed

text \<open>From the parents' wishes of the fixtures, a grant of the second child keeps the first's wishes known.\<close>

theorem ledger_invariant_witness:
  "\<exists>w. (sys_step demo_srv demo_client fake_good fk_clients fake_glob)\<^sup>*\<^sup>*
      ((\<lambda>n. if n = ''Kid phone'' then {''youtube'', ''tiktok''} else {}), house ''Kid phone'' 90)
      ((\<lambda>n. if n = ''Kid phone'' then {''youtube'', ''tiktok''} else {}), w) \<and>
    demo_lists (w_ag w) ''Kid phone'' = Some (False, [''youtube'']) \<and>
    (\<exists>i g. grants_of w i = Some g \<and> grant_status g = StatusActive \<and> ''tiktok'' \<in> set (grant_services g))"
proof -
  let ?base = "\<lambda>n. if n = ''Kid phone'' then {''youtube'', ''tiktok''} else {}"
  let ?run = "Create demo_engine 2 [''tiktok''] [''Kid phone''] (600 * second) (house ''Kid phone'' 90)"
  obtain r w where run: "?run = (r, w)" by fastforce
  have lists: "demo_lists (w_ag (snd ?run)) ''Kid phone'' = Some (False, [''youtube''])"
    "ag_view (fk_clients demo_fake) ''Kid phone'' = Some (False, {''youtube'', ''tiktok''})" by code_simp+
  have steps: "(sys_step demo_srv demo_client fake_good fk_clients fake_glob)\<^sup>*\<^sup>* (?base, house ''Kid phone'' 90) (?base, w)"
    by (rule r_into_rtranclp) (rule ss_create [OF run])
  have "ledger ?base (set (fake_glob demo_fake)) (ag_view (fk_clients demo_fake)) (grants_of (house ''Kid phone'' 90))"
    using lists(2) by (auto simp: ledger_def)
  then have init: "holds_ledger fake_good fk_clients fake_glob ?base (house ''Kid phone'' 90)"
    using house_ok by (simp add: holds_ledger_def house_def engine_New_def)
  have v: "ag_view (fk_clients (w_ag w)) ''Kid phone'' = Some (False, {''youtube''})"
    using lists(1) run by (auto simp: demo_lists_def ag_view_def obj_lists_def)
  from ledger_invariant [OF fake.ag_server_axioms init steps] v show ?thesis
    using steps lists(1) run by fastforce
qed

end
