(* ===== verification/RateLimit.thy ===== *)
theory RateLimit
  imports Netip "HOL-Library.AList" "HOL-Library.Signed_Division"
begin

text \<open>
  internal/ratelimit: the login failure budget, per address with an escalating lockout and a
  flat global cap (limiter.go). The clock is an argument: \<open>now\<close> is what \<open>l.now()\<close> returned. The
  table of addresses is an association list, updated in place as the program updates the
  states its map points to; a time that is \<open>zero_time\<close> is unset, as in the code.
\<close>

section \<open>Model\<close>

text \<open>A \<open>netip.Addr\<close> that may be the invalid zero value, which is an address like any other here.\<close>

type_synonym lim_key = "addr option"

record limits =
  PerIPFailures :: int
  Window :: duration
  BaseLockout :: duration
  MaxLockout :: duration
  EscalationReset :: duration
  GlobalFailures :: int

definition Defaults :: limits where
  "Defaults = \<lparr>PerIPFailures = 5, Window = minute, BaseLockout = minute, MaxLockout = hour,
               EscalationReset = hour, GlobalFailures = 20\<rparr>"

definition maxShift :: int where "maxShift = 6"

record ip_state =
  failures :: int
  windowStart :: time
  trips :: int
  lockedUntil :: time

definition new_ip :: ip_state where
  "new_ip = \<lparr>failures = 0, windowStart = zero_time, trips = 0, lockedUntil = zero_time\<rparr>"

record limiter =
  l_cfg :: limits
  l_ips :: "(lim_key \<times> ip_state) list"
  globalStart :: time
  globalFails :: int

definition filled :: "int \<Rightarrow> int \<Rightarrow> int" where "filled x d = (if x = 0 then d else x)"

definition limiter_New :: "limits \<Rightarrow> limiter" where
  "limiter_New c =
     \<lparr>l_cfg = \<lparr>PerIPFailures = filled (PerIPFailures c) (PerIPFailures Defaults),
               Window = filled (Window c) (Window Defaults),
               BaseLockout = filled (BaseLockout c) (BaseLockout Defaults),
               MaxLockout = filled (MaxLockout c) (MaxLockout Defaults),
               EscalationReset = filled (EscalationReset c) (EscalationReset Defaults),
               GlobalFailures = filled (GlobalFailures c) (GlobalFailures Defaults)\<rparr>,
      l_ips = [], globalStart = zero_time, globalFails = 0\<rparr>"

text \<open>Go's \<open>/\<close> and \<open>%\<close> truncate; the product wraps at 64 bits.\<close>

definition ceilSeconds :: "duration \<Rightarrow> duration" where
  "ceilSeconds d =
     (let s = d sdiv second;
          s = (if d smod second \<noteq> 0 then s + 1 else s);
          s = (if s < 1 then 1 else s)
      in i64 (s * second))"

definition normalize :: "limits \<Rightarrow> time \<Rightarrow> ip_state \<Rightarrow> ip_state" where
  "normalize c now st =
     (if lockedUntil st = zero_time \<or> now < lockedUntil st then st
      else let st1 = (if windowStart st \<noteq> zero_time \<and> windowStart st < lockedUntil st
                      then st\<lparr>failures := 0, windowStart := zero_time\<rparr> else st)
           in if time_sub now (lockedUntil st) \<ge> EscalationReset c then st1\<lparr>trips := 0\<rparr> else st1)"

definition globalDenied :: "limiter \<Rightarrow> time \<Rightarrow> bool" where
  "globalDenied l now =
     (if globalStart l = zero_time \<or> \<not> now < globalStart l + Window (l_cfg l) then False
      else globalFails l \<ge> GlobalFailures (l_cfg l))"

text \<open>The answer, how long to wait, and the limiter with the state of the address normalised.\<close>

definition Check :: "limiter \<Rightarrow> time \<Rightarrow> lim_key \<Rightarrow> (bool \<times> duration) \<times> limiter" where
  "Check l now ip =
     (let global = (if globalDenied l now
                    then (False, ceilSeconds (time_sub (globalStart l + Window (l_cfg l)) now))
                    else (True, 0))
      in case map_of (l_ips l) ip of
           None \<Rightarrow> (global, l)
         | Some st0 \<Rightarrow>
             (let st = normalize (l_cfg l) now st0;
                  l1 = l\<lparr>l_ips := AList.update ip st (l_ips l)\<rparr>
              in if now < lockedUntil st
                 then ((False, ceilSeconds (time_sub (lockedUntil st) now)), l1)
                 else (global, l1)))"

definition keep_ip :: "limits \<Rightarrow> time \<Rightarrow> ip_state \<Rightarrow> bool" where
  "keep_ip c now st \<longleftrightarrow>
     now < lockedUntil st \<or>
     (windowStart st \<noteq> zero_time \<and> now < windowStart st + Window c) \<or>
     (lockedUntil st \<noteq> zero_time \<and> time_sub now (lockedUntil st) < EscalationReset c)"

definition prune :: "time \<Rightarrow> limiter \<Rightarrow> limiter" where
  "prune now l = l\<lparr>l_ips := filter (\<lambda>(ip, st). keep_ip (l_cfg l) now st) (l_ips l)\<rparr>"

definition Prune :: "limiter \<Rightarrow> time \<Rightarrow> limiter" where "Prune l now = prune now l"

definition limiter_Len :: "limiter \<Rightarrow> nat" where "limiter_Len l = length (l_ips l)"

definition lockout :: "limits \<Rightarrow> int \<Rightarrow> duration" where
  "lockout c t = min (i64 (BaseLockout c * 2 ^ nat (min (t - 1) maxShift))) (MaxLockout c)"

text \<open>A failure of an address that is not locked out: its window, its counter, the trip.\<close>

definition count_failure :: "limits \<Rightarrow> time \<Rightarrow> ip_state \<Rightarrow> ip_state" where
  "count_failure c now st =
     (let st1 = (if windowStart st = zero_time \<or> \<not> now < windowStart st + Window c
                 then st\<lparr>windowStart := now, failures := 0\<rparr> else st);
          st2 = st1\<lparr>failures := failures st1 + 1\<rparr>
      in if failures st2 \<ge> PerIPFailures c
         then st2\<lparr>trips := trips st2 + 1, lockedUntil := now + lockout c (trips st2 + 1),
                  failures := 0, windowStart := zero_time\<rparr>
         else st2)"

definition count_global :: "time \<Rightarrow> limiter \<Rightarrow> limiter" where
  "count_global now l =
     (let l1 = (if globalStart l = zero_time \<or> \<not> now < globalStart l + Window (l_cfg l)
                then l\<lparr>globalStart := now, globalFails := 0\<rparr> else l)
      in l1\<lparr>globalFails := globalFails l1 + 1\<rparr>)"

definition Fail :: "limiter \<Rightarrow> time \<Rightarrow> lim_key \<Rightarrow> limiter" where
  "Fail l now ip =
     (let st0 = (case map_of (l_ips l) ip of None \<Rightarrow> new_ip | Some st \<Rightarrow> st);
          st = normalize (l_cfg l) now st0
      in if now < lockedUntil st then l\<lparr>l_ips := AList.update ip st (l_ips l)\<rparr>
         else let l1 = count_global now l
              in prune now (l1\<lparr>l_ips := AList.update ip (count_failure (l_cfg l) now st) (l_ips l)\<rparr>))"

section \<open>The table as a function\<close>

text \<open>An address that is not tracked is one without a history.\<close>

definition state_of :: "limiter \<Rightarrow> lim_key \<Rightarrow> ip_state" where
  "state_of l ip = (case map_of (l_ips l) ip of None \<Rightarrow> new_ip | Some st \<Rightarrow> st)"

definition well_keyed :: "limiter \<Rightarrow> bool" where "well_keyed l \<longleftrightarrow> distinct (map fst (l_ips l))"

definition pruned :: "limits \<Rightarrow> time \<Rightarrow> ip_state \<Rightarrow> ip_state" where
  "pruned c now st = (if keep_ip c now st then st else new_ip)"

text \<open>What the code assumes of its configuration, and of its clock.\<close>

definition limits_ok :: "limits \<Rightarrow> bool" where
  "limits_ok c \<longleftrightarrow> 0 < PerIPFailures c \<and> 0 < Window c \<and> 0 < BaseLockout c \<and> 0 < MaxLockout c \<and>
     BaseLockout c * 64 \<le> max_int64 \<and> 0 < EscalationReset c \<and> EscalationReset c \<le> max_int64 \<and>
     0 < GlobalFailures c"

lemma Defaults_ok [simp]: "limits_ok Defaults"
  by (simp add: limits_ok_def Defaults_def minute_def hour_def second_def max_int64_def)

lemma time_sub_ge_iff: "d \<le> max_int64 \<Longrightarrow> min_int64 < d \<Longrightarrow> time_sub t u \<ge> d \<longleftrightarrow> t - u \<ge> d"
  by (auto simp: time_sub_def min_int64_def max_int64_def)

lemma reset_iff:
  "limits_ok c \<Longrightarrow> time_sub t u \<ge> EscalationReset c \<longleftrightarrow> t - u \<ge> EscalationReset c"
  by (rule time_sub_ge_iff) (auto simp: limits_ok_def min_int64_def)

lemma normalize_new [simp]: "normalize c now new_ip = new_ip"
  by (simp add: normalize_def new_ip_def)

lemma lockedUntil_normalize [simp]: "lockedUntil (normalize c now st) = lockedUntil st"
  by (simp add: normalize_def Let_def)

lemma new_ip_simps [simp]:
  "failures new_ip = 0" "windowStart new_ip = zero_time" "trips new_ip = 0" "lockedUntil new_ip = zero_time"
  by (simp_all add: new_ip_def)

lemma well_keyed_update [simp]: "well_keyed l \<Longrightarrow> well_keyed (l\<lparr>l_ips := AList.update ip st (l_ips l)\<rparr>)"
  by (simp add: well_keyed_def distinct_update)

lemma state_of_update [simp]:
  "state_of (l\<lparr>l_ips := AList.update ip st (l_ips l)\<rparr>) = (state_of l)(ip := st)"
  by (simp add: state_of_def update_conv' fun_eq_iff)

lemma map_of_filter_value:
  "distinct (map fst xs) \<Longrightarrow>
     map_of (filter (\<lambda>(k, v). P v) xs) k = (case map_of xs k of Some v \<Rightarrow> if P v then Some v else None | None \<Rightarrow> None)"
proof (induction xs)
  case (Cons x xs)
  then have "fst x \<notin> dom (map_of xs)" by (simp add: dom_map_of_conv_image_fst)
  then have "map_of xs (fst x) = None" by blast
  with Cons show ?case by (cases x) (auto split: option.splits)
qed simp

lemma prune_simps [simp]:
  "l_cfg (prune now l) = l_cfg l" "globalStart (prune now l) = globalStart l"
  "globalFails (prune now l) = globalFails l"
  by (simp_all add: prune_def)

lemma well_keyed_prune [simp]: "well_keyed l \<Longrightarrow> well_keyed (prune now l)"
  by (simp add: well_keyed_def prune_def distinct_map_filter)

lemma state_of_prune [simp]:
  "well_keyed l \<Longrightarrow> state_of (prune now l) ip = pruned (l_cfg l) now (state_of l ip)"
  by (simp add: well_keyed_def state_of_def prune_def map_of_filter_value pruned_def split: option.splits)

lemma count_global_simps [simp]:
  "l_cfg (count_global now l) = l_cfg l" "l_ips (count_global now l) = l_ips l"
  by (simp_all add: count_global_def Let_def)

lemma count_global_table [simp]:
  "well_keyed (count_global now l) = well_keyed l" "state_of (count_global now l) = state_of l"
  by (simp_all add: well_keyed_def state_of_def fun_eq_iff)

text \<open>The two operations on the function.\<close>

definition global_answer :: "limiter \<Rightarrow> time \<Rightarrow> bool \<times> duration" where
  "global_answer l now =
     (if globalDenied l now then (False, ceilSeconds (time_sub (globalStart l + Window (l_cfg l)) now)) else (True, 0))"

lemma Check_answer:
  "zero_time \<le> now \<Longrightarrow> fst (Check l now ip) =
     (if now < lockedUntil (state_of l ip)
      then (False, ceilSeconds (time_sub (lockedUntil (state_of l ip)) now)) else global_answer l now)"
  by (simp add: Check_def state_of_def global_answer_def Let_def split: option.splits)

lemma Check_state:
  shows "state_of (snd (Check l now ip)) = (state_of l)(ip := normalize (l_cfg l) now (state_of l ip))"
    and "l_cfg (snd (Check l now ip)) = l_cfg l" "globalStart (snd (Check l now ip)) = globalStart l"
    "globalFails (snd (Check l now ip)) = globalFails l"
    "well_keyed l \<Longrightarrow> well_keyed (snd (Check l now ip))"
proof -
  have "state_of l ip = new_ip" if "map_of (l_ips l) ip = None" using that by (simp add: state_of_def)
  then show "state_of (snd (Check l now ip)) = (state_of l)(ip := normalize (l_cfg l) now (state_of l ip))"
    by (cases "map_of (l_ips l) ip") (auto simp: Check_def Let_def fun_eq_iff state_of_def update_conv')
  show "l_cfg (snd (Check l now ip)) = l_cfg l" "globalStart (snd (Check l now ip)) = globalStart l"
    "globalFails (snd (Check l now ip)) = globalFails l"
    by (simp_all add: Check_def Let_def split: option.split)
  show "well_keyed (snd (Check l now ip))" if "well_keyed l"
    using well_keyed_update [OF that] by (simp add: Check_def Let_def that split: option.split)
qed

lemma Fail_locked:
  assumes "now < lockedUntil (state_of l ip)"
  shows "state_of (Fail l now ip) = (state_of l)(ip := normalize (l_cfg l) now (state_of l ip))"
    "l_cfg (Fail l now ip) = l_cfg l" "globalStart (Fail l now ip) = globalStart l"
    "globalFails (Fail l now ip) = globalFails l" "well_keyed l \<Longrightarrow> well_keyed (Fail l now ip)"
  using assms by (simp_all add: Fail_def state_of_def [symmetric] Let_def)

definition failed_state :: "limits \<Rightarrow> time \<Rightarrow> ip_state \<Rightarrow> ip_state" where
  "failed_state c now st = count_failure c now (normalize c now st)"

lemma Fail_counted:
  assumes "\<not> now < lockedUntil (state_of l ip)" "well_keyed l"
  shows "state_of (Fail l now ip) = (\<lambda>x. pruned (l_cfg l) now
           (if x = ip then failed_state (l_cfg l) now (state_of l ip) else state_of l x))"
    "l_cfg (Fail l now ip) = l_cfg l" "globalStart (Fail l now ip) = globalStart (count_global now l)"
    "globalFails (Fail l now ip) = globalFails (count_global now l)" "well_keyed (Fail l now ip)"
proof -
  let ?l = "(count_global now l)\<lparr>l_ips := AList.update ip (failed_state (l_cfg l) now (state_of l ip)) (l_ips (count_global now l))\<rparr>"
  have eq: "Fail l now ip = prune now ?l"
    using assms(1) by (simp add: Fail_def state_of_def [symmetric] failed_state_def Let_def)
  have wk: "well_keyed ?l" by (rule well_keyed_update) (simp add: assms(2))
  have st: "state_of ?l = (state_of l)(ip := failed_state (l_cfg l) now (state_of l ip))"
    by (subst state_of_update) simp
  show "state_of (Fail l now ip) = (\<lambda>x. pruned (l_cfg l) now
           (if x = ip then failed_state (l_cfg l) now (state_of l ip) else state_of l x))"
    using wk st by (auto simp: eq fun_eq_iff)
  show "l_cfg (Fail l now ip) = l_cfg l" "globalStart (Fail l now ip) = globalStart (count_global now l)"
    "globalFails (Fail l now ip) = globalFails (count_global now l)" "well_keyed (Fail l now ip)"
    using wk by (simp_all add: eq)
qed

end
