(* ===== verification/RateLimitProps.thy ===== *)
theory RateLimitProps
  imports RateLimit
begin

text \<open>
  What the login budget guarantees over sequences of its operations: a burst of failures locks
  the address out, no lockout lasts for ever, and pruning is invisible. The bound on all addresses
  together needs the handler, and is proved with it in ApiLogin.
\<close>

section \<open>Sequences of operations\<close>

datatype lim_op = OpCheck lim_key | OpFail lim_key | OpPrune

fun lim_step :: "lim_op \<Rightarrow> time \<Rightarrow> limiter \<Rightarrow> limiter" where
  "lim_step (OpCheck ip) now l = snd (Check l now ip)"
| "lim_step (OpFail ip) now l = Fail l now ip"
| "lim_step OpPrune now l = Prune l now"

fun lim_run :: "(time \<times> lim_op) list \<Rightarrow> limiter \<Rightarrow> limiter" where
  "lim_run [] l = l"
| "lim_run ((now, op) # ops) l = lim_run ops (lim_step op now l)"

lemma lim_run_invariant:
  assumes "P l" "\<And>t op l. (t, op) \<in> set ops \<Longrightarrow> P l \<Longrightarrow> P (lim_step op t l)"
  shows "P (lim_run ops l)"
  using assms by (induction ops l rule: lim_run.induct) auto

text \<open>What one step does to the state of one address.\<close>

definition stepped :: "limits \<Rightarrow> time \<Rightarrow> lim_key \<Rightarrow> lim_op \<Rightarrow> ip_state \<Rightarrow> ip_state set" where
  "stepped c now ip op st =
     (if now < lockedUntil st then {st}
      else {st, normalize c now st, pruned c now st} \<union>
           (if op = OpFail ip then {pruned c now (failed_state c now st)} else {}))"

lemma normalize_locked [simp]: "now < lockedUntil st \<Longrightarrow> normalize c now st = st"
  by (simp add: normalize_def)

lemma pruned_locked [simp]: "now < lockedUntil st \<Longrightarrow> pruned c now st = st"
  by (simp add: pruned_def keep_ip_def)

lemma well_keyed_step: "well_keyed l \<Longrightarrow> well_keyed (lim_step op now l) \<and> l_cfg (lim_step op now l) = l_cfg l"
  by (cases op; cases "\<exists>ip. op = OpFail ip \<and> now < lockedUntil (state_of l ip)")
    (auto simp: Check_state Fail_locked Fail_counted Prune_def)

lemma step_state:
  assumes "well_keyed l"
  shows "state_of (lim_step op now l) ip \<in> stepped (l_cfg l) now ip op (state_of l ip)"
proof (cases op)
  case (OpCheck x)
  then show ?thesis by (cases "x = ip") (simp_all add: Check_state stepped_def)
next
  case (OpFail x)
  then show ?thesis
    by (cases "now < lockedUntil (state_of l x)"; cases "x = ip")
      (simp_all add: Fail_locked Fail_counted [OF _ assms] stepped_def)
next
  case OpPrune
  then show ?thesis using assms by (simp add: Prune_def stepped_def)
qed

text \<open>A counted failure is recorded: it is never pruned at once.\<close>

lemma step_fail_state:
  assumes "well_keyed l" "\<not> now < lockedUntil (state_of l ip)"
  shows "state_of (lim_step (OpFail ip) now l) ip = pruned (l_cfg l) now (failed_state (l_cfg l) now (state_of l ip))"
  using assms by (simp add: Fail_counted)

lemma lockout_first: "limits_ok c \<Longrightarrow> lockout c 1 = min (BaseLockout c) (MaxLockout c)"
  by (simp add: lockout_def maxShift_def limits_ok_def i64_id min_int64_def)

lemma lockout_pos:
  assumes "limits_ok c" "1 \<le> t"
  shows "0 < lockout c t" "lockout c t \<le> MaxLockout c" "lockout c 1 \<le> lockout c t"
proof -
  define k where "k = nat (min (t - 1) maxShift)"
  have k: "k \<le> 6" by (simp add: k_def maxShift_def)
  have c: "0 < BaseLockout c" "BaseLockout c * 64 \<le> max_int64" "0 < MaxLockout c"
    using assms(1) by (simp_all add: limits_ok_def)
  have p: "1 \<le> (2::int) ^ k" "(2::int) ^ k \<le> 2 ^ 6"
    using power_increasing [OF k, of "2::int"] by simp_all
  have up: "BaseLockout c * 2 ^ k \<le> max_int64"
    using order_trans [OF mult_left_mono [OF p(2), of "BaseLockout c"], of max_int64] c by simp
  have low: "BaseLockout c \<le> BaseLockout c * 2 ^ k" using mult_left_mono [OF p(1), of "BaseLockout c"] c by simp
  have "i64 (BaseLockout c * 2 ^ k) = BaseLockout c * 2 ^ k"
    by (rule i64_id) (use up low c(1) in \<open>unfold min_int64_def, linarith+\<close>)
  then have eq: "lockout c t = min (BaseLockout c * 2 ^ k) (MaxLockout c)" by (simp add: lockout_def k_def)
  show "0 < lockout c t" "lockout c t \<le> MaxLockout c" using low c eq by simp_all
  show "lockout c 1 \<le> lockout c t" using low eq lockout_first [OF assms(1)] by simp
qed

section \<open>A burst of failures\<close>

text \<open>
  \<open>k\<close> failures of the address so far, fewer than trip it, all of them in one window that began at
  \<open>t0\<close> or later.
\<close>

definition bursting :: "limits \<Rightarrow> time \<Rightarrow> int \<Rightarrow> ip_state \<Rightarrow> bool" where
  "bursting c t0 k st \<longleftrightarrow>
     lockedUntil st = zero_time \<and> trips st = 0 \<and> failures st = k \<and>
     (if k = 0 then windowStart st = zero_time else t0 \<le> windowStart st)"

definition in_window :: "limits \<Rightarrow> time \<Rightarrow> time \<Rightarrow> bool" where
  "in_window c t0 t \<longleftrightarrow> t0 \<le> t \<and> t < t0 + Window c"

lemma bursting_normalize: "bursting c t0 k st \<Longrightarrow> normalize c t st = st"
  by (simp add: bursting_def normalize_def)

lemma bursting_pruned:
  "in_window c t0 t \<Longrightarrow> zero_time < t0 \<Longrightarrow> bursting c t0 k st \<Longrightarrow> bursting c t0 k (pruned c t st)"
  by (auto simp: bursting_def in_window_def pruned_def keep_ip_def split: if_splits)

lemma bursting_fail:
  assumes "in_window c t0 t" "zero_time < t0" "bursting c t0 k st" "0 \<le> k"
  shows "k + 1 < PerIPFailures c \<Longrightarrow> bursting c t0 (k + 1) (failed_state c t st)"
    "k + 1 = PerIPFailures c \<Longrightarrow> lockedUntil (failed_state c t st) = t + lockout c 1"
  using assms bursting_normalize [OF assms(3), of t]
  by (cases "k = 0"; auto simp: failed_state_def count_failure_def bursting_def in_window_def Let_def)+

lemma not_locked: "bursting c t0 k st \<Longrightarrow> zero_time < t0 \<Longrightarrow> t0 \<le> t \<Longrightarrow> \<not> t < lockedUntil st"
  by (simp add: bursting_def)

lemma bursting_step:
  assumes "well_keyed l" "l_cfg l = c" "in_window c t0 t" "zero_time < t0" "0 \<le> k"
    and "bursting c t0 k (state_of l ip)" "k + (if op = OpFail ip then 1 else 0) < PerIPFailures c"
  shows "bursting c t0 (k + (if op = OpFail ip then 1 else 0)) (state_of (lim_step op t l) ip)"
proof (cases "op = OpFail ip")
  case True
  have free: "\<not> t < lockedUntil (state_of l ip)"
    by (rule not_locked [OF assms(6,4)]) (use assms(3) in \<open>simp add: in_window_def\<close>)
  from bursting_pruned [OF assms(3,4) bursting_fail(1) [OF assms(3,4,6,5)]] assms(7)
  show ?thesis using True assms(1,2) step_fail_state [OF assms(1) free] by simp
next
  case False
  have "state_of (lim_step op t l) ip \<in> {state_of l ip, normalize c t (state_of l ip), pruned c t (state_of l ip)}"
    using step_state [OF assms(1), of op t ip] False assms(2) by (auto simp: stepped_def split: if_splits)
  then show ?thesis using False bursting_normalize [OF assms(6), of t] bursting_pruned [OF assms(3,4,6)] assms(6) by auto
qed

definition fail_count :: "lim_key \<Rightarrow> (time \<times> lim_op) list \<Rightarrow> int" where
  "fail_count ip ops = int (length (filter (\<lambda>(t, op). op = OpFail ip) ops))"

lemma fail_count_Cons: "fail_count ip ((t, op) # ops) = (if op = OpFail ip then 1 else 0) + fail_count ip ops"
  "0 \<le> fail_count ip ops"
  by (simp_all add: fail_count_def)

lemma bursting_run:
  assumes "well_keyed l" "l_cfg l = c" "zero_time < t0" "0 \<le> k"
    and "\<forall>(t, op) \<in> set ops. in_window c t0 t" "bursting c t0 k (state_of l ip)" "k + fail_count ip ops < PerIPFailures c"
  shows "bursting c t0 (k + fail_count ip ops) (state_of (lim_run ops l) ip)"
  using assms
proof (induction ops l arbitrary: k rule: lim_run.induct)
  case (2 now op ops l)
  have b: "in_window c t0 now" using 2(6) by simp
  have k: "k + (if op = OpFail ip then 1 else 0) < PerIPFailures c"
    using 2(8) fail_count_Cons(2) [of ip ops] by (simp add: fail_count_Cons(1) split: if_splits)
  have "bursting c t0 (k + (if op = OpFail ip then 1 else 0) + fail_count ip ops) (state_of (lim_run ops (lim_step op now l)) ip)"
    by (rule 2(1)) (use 2 b well_keyed_step [OF 2(2)] bursting_step [OF 2(2,3) b 2(4,5,7) k] in \<open>auto simp: fail_count_Cons(1)\<close>)
  then show ?case by (simp add: fail_count_Cons(1) algebra_simps split: if_splits)
qed (simp add: fail_count_def)

lemma lim_run_append: "lim_run (xs @ ys) l = lim_run ys (lim_run xs l)"
  by (induction xs l rule: lim_run.induct) auto

lemma lim_run_keyed: "well_keyed l \<Longrightarrow> well_keyed (lim_run ops l) \<and> l_cfg (lim_run ops l) = l_cfg l"
  by (rule lim_run_invariant) (auto simp: well_keyed_step)

text \<open>While an address is locked out nothing moves its state.\<close>

lemma locked_run:
  assumes "well_keyed l" "\<forall>(t, op) \<in> set ops. t < lockedUntil (state_of l ip)"
  shows "state_of (lim_run ops l) ip = state_of l ip"
  using assms
proof (induction ops l rule: lim_run.induct)
  case (2 now op ops l)
  have "state_of (lim_step op now l) ip = state_of l ip"
    using step_state [OF 2(2), of op now ip] 2(3) by (simp add: stepped_def)
  with 2 well_keyed_step [OF 2(2)] show ?case by simp
qed simp

text \<open>
  Property C28. An address without a history (never seen, or forgotten since) that fails PerIPFailures
  times within one window is refused from the failure that trips it for exactly the first lockout, the smaller of BaseLockout
  and MaxLockout, and told how long to wait: whatever this and other addresses do before and after, in whatever
  order the operations interleave, and whatever is pruned in between.
\<close>

theorem burst_locks_out:
  assumes "well_keyed l" "limits_ok (l_cfg l)" "zero_time < t0" "state_of l ip = new_ip"
    and "\<forall>(t, op) \<in> set before. in_window (l_cfg l) t0 t" "fail_count ip before = PerIPFailures (l_cfg l) - 1"
    and "in_window (l_cfg l) t0 trip" "release = trip + min (BaseLockout (l_cfg l)) (MaxLockout (l_cfg l))"
    and "\<forall>(t, op) \<in> set after. t < release" "t0 \<le> t" "t < release"
  shows "fst (Check (lim_run (before @ (trip, OpFail ip) # after) l) t ip) = (False, ceilSeconds (time_sub release t))"
proof -
  let ?c = "l_cfg l" and ?l1 = "lim_run before l"
  let ?l2 = "lim_step (OpFail ip) trip ?l1"
  note keyed = lim_run_keyed [OF assms(1), of before]
  have b: "bursting ?c t0 (0 + fail_count ip before) (state_of ?l1 ip)"
    by (rule bursting_run [OF assms(1) refl assms(3) _ assms(5)]) (use assms(4,6) in \<open>simp_all add: bursting_def\<close>)
  have free: "\<not> trip < lockedUntil (state_of ?l1 ip)"
    by (rule not_locked [OF b assms(3)]) (use assms(7) in \<open>simp add: in_window_def\<close>)
  have trips: "lockedUntil (failed_state ?c trip (state_of ?l1 ip)) = release"
    unfolding assms(8) lockout_first [OF assms(2), symmetric]
    by (rule bursting_fail(2) [OF assms(7,3) b]) (use assms(6) fail_count_Cons(2) [of ip before] in simp_all)
  have "trip < release" using assms(2,8) by (auto simp: limits_ok_def)
  then have "state_of ?l2 ip = failed_state ?c trip (state_of ?l1 ip)"
    using step_fail_state [OF _ free] keyed trips by (simp add: pruned_locked)
  then have locked: "lockedUntil (state_of ?l2 ip) = release" using trips by simp
  have "state_of (lim_run after ?l2) ip = state_of ?l2 ip"
    by (rule locked_run) (use keyed well_keyed_step [of ?l1 "OpFail ip" trip] assms(9) locked in auto)
  then show ?thesis using assms(3,10,11) locked by (simp add: lim_run_append Check_answer)
qed

definition guess :: "nat \<Rightarrow> time \<times> lim_op" where
  "guess n = (int n * second, if n mod 2 = 0 then OpFail (Some (V4 1)) else OpPrune)"

lemma burst_locks_out_witness:
  "fst (Check (lim_run (map guess [1..<9] @ (9 * second, OpFail (Some (V4 1))) # map guess [10..<30]) (limiter_New Defaults))
     (67 * second) (Some (V4 1))) = (False, ceilSeconds (time_sub (69 * second) (67 * second)))"
  by (rule burst_locks_out [of _ second])
    (simp_all add: limiter_New_def filled_def well_keyed_def state_of_def limits_ok_def Defaults_def in_window_def
      guess_def fail_count_def zero_time_def second_def minute_def hour_def max_int64_def upt_rec)

section \<open>No lockout lasts for ever\<close>

definition waits_until :: "time \<Rightarrow> limits \<Rightarrow> limiter \<Rightarrow> bool" where
  "waits_until T c l \<longleftrightarrow> well_keyed l \<and> l_cfg l = c \<and> globalStart l \<le> T \<and>
     (\<forall>ip. lockedUntil (state_of l ip) \<le> T + MaxLockout c \<and> 0 \<le> trips (state_of l ip))"

lemma trips_kept: "0 \<le> trips st \<Longrightarrow> 0 \<le> trips (normalize c now st) \<and> 0 \<le> trips (pruned c now st)"
  by (auto simp: normalize_def pruned_def Let_def)

lemma waits_failed:
  assumes "limits_ok c" "now \<le> T" "lockedUntil st \<le> T + MaxLockout c" "0 \<le> trips st"
  shows "lockedUntil (failed_state c now st) \<le> T + MaxLockout c \<and> 0 \<le> trips (failed_state c now st)"
proof -
  have n: "0 \<le> trips (normalize c now st)" using trips_kept [OF assms(4)] by blast
  have "now + lockout c (trips (normalize c now st) + 1) \<le> T + MaxLockout c"
    using lockout_pos(2) [OF assms(1), of "trips (normalize c now st) + 1"] n assms(2) by simp
  then show ?thesis using assms(3) n by (auto simp: failed_state_def count_failure_def Let_def)
qed

lemma waits_stepped:
  assumes "limits_ok c" "now \<le> T" "zero_time \<le> T" "lockedUntil st \<le> T + MaxLockout c" "0 \<le> trips st"
    and "st' \<in> stepped c now ip op st"
  shows "lockedUntil st' \<le> T + MaxLockout c \<and> 0 \<le> trips st'"
proof -
  have p: "lockedUntil (pruned c now x) \<le> T + MaxLockout c" if "lockedUntil x \<le> T + MaxLockout c" for x
    using that assms(1,3) by (simp add: pruned_def limits_ok_def)
  show ?thesis
    using assms(4-) p trips_kept [OF assms(5)] waits_failed [OF assms(1,2,4,5)]
      trips_kept [of "failed_state c now st" c now]
    by (auto simp: stepped_def split: if_splits)
qed

lemma waits_step:
  assumes "limits_ok c" "now \<le> T" "zero_time \<le> T" "waits_until T c l"
  shows "waits_until T c (lim_step op now l)"
proof -
  have l: "well_keyed l" "l_cfg l = c" using assms(4) by (simp_all add: waits_until_def)
  have "globalStart (lim_step op now l) \<in> {globalStart l, now}"
    by (cases op; cases "\<exists>ip. op = OpFail ip \<and> now < lockedUntil (state_of l ip)")
      (auto simp: Check_state Fail_locked Fail_counted [OF _ l(1)] Prune_def count_global_def Let_def)
  then have g: "globalStart (lim_step op now l) \<le> T" using assms(2,4) by (auto simp: waits_until_def)
  have "lockedUntil (state_of (lim_step op now l) ip) \<le> T + MaxLockout c \<and> 0 \<le> trips (state_of (lim_step op now l) ip)" for ip
    using step_state [OF l(1), of op now ip] assms(4) l(2)
    by (intro waits_stepped [OF assms(1-3)]) (auto simp: waits_until_def)
  with g well_keyed_step [OF l(1)] l(2) show ?thesis unfolding waits_until_def by blast
qed

text \<open>
  Property C30. Whatever happened before some instant, every address may attempt a login again
  once MaxLockout and Window have passed without further operations: lockouts do not pile up.
\<close>

theorem lockout_ends:
  assumes "limits_ok (l_cfg (limiter_New c))" "zero_time \<le> T" "\<forall>t \<in> fst ` set ops. t \<le> T"
    and "T + MaxLockout (l_cfg (limiter_New c)) \<le> t" "T + Window (l_cfg (limiter_New c)) \<le> t"
  shows "fst (Check (lim_run ops (limiter_New c)) t ip) = (True, 0)"
proof -
  let ?c = "l_cfg (limiter_New c)"
  have "waits_until T ?c (limiter_New c)"
    using assms(1,2) by (simp add: waits_until_def limits_ok_def limiter_New_def well_keyed_def state_of_def)
  then have w: "waits_until T ?c (lim_run ops (limiter_New c))"
    by (rule lim_run_invariant) (use assms(3) waits_step [OF assms(1) _ assms(2)] in force)
  have "lockedUntil (state_of (lim_run ops (limiter_New c)) ip) \<le> T + MaxLockout ?c"
    using w by (simp add: waits_until_def)
  then have "lockedUntil (state_of (lim_run ops (limiter_New c)) ip) \<le> t" using assms(4) by linarith
  moreover have "zero_time \<le> t" using assms(1,2,4) by (simp add: limits_ok_def)
  moreover have "globalStart (lim_run ops (limiter_New c)) + Window (l_cfg (lim_run ops (limiter_New c))) \<le> t"
    using w assms(5) by (auto simp: waits_until_def)
  ultimately show ?thesis by (simp add: Check_answer global_answer_def globalDenied_def)
qed

lemma lockout_ends_witness:
  "fst (Check (lim_run (map guess [1..<12]) (limiter_New Defaults)) (12 * second + hour) (Some (V4 1))) = (True, 0)"
  by (rule lockout_ends [of _ "12 * second"])
    (auto simp: limiter_New_def filled_def limits_ok_def Defaults_def guess_def zero_time_def second_def
      minute_def hour_def max_int64_def)

section \<open>Pruning is invisible\<close>

text \<open>A limiter that never forgets: \<open>Fail\<close> without its last line, and no \<open>Prune\<close>.\<close>

definition Fail_keeping :: "limiter \<Rightarrow> time \<Rightarrow> lim_key \<Rightarrow> limiter" where
  "Fail_keeping l now ip =
     (if now < lockedUntil (state_of l ip) then Fail l now ip
      else (count_global now l)\<lparr>l_ips := AList.update ip (failed_state (l_cfg l) now (state_of l ip)) (l_ips l)\<rparr>)"

text \<open>The answers of a sequence of operations, with either way to fail and to prune.\<close>

fun answers ::
  "(limiter \<Rightarrow> time \<Rightarrow> lim_key \<Rightarrow> limiter) \<Rightarrow> (limiter \<Rightarrow> time \<Rightarrow> limiter) \<Rightarrow> (time \<times> lim_op) list \<Rightarrow> limiter \<Rightarrow>
     (bool \<times> duration) list" where
  "answers fl pr [] l = []"
| "answers fl pr ((now, OpCheck ip) # ops) l =
     fst (Check l now ip) # answers fl pr ops (snd (Check l now ip))"
| "answers fl pr ((now, OpFail ip) # ops) l = answers fl pr ops (fl l now ip)"
| "answers fl pr ((now, OpPrune) # ops) l = answers fl pr ops (pr l now)"

lemma Fail_keeping_counted:
  assumes "\<not> now < lockedUntil (state_of l ip)" "well_keyed l"
  shows "state_of (Fail_keeping l now ip) = (state_of l)(ip := failed_state (l_cfg l) now (state_of l ip))"
    "l_cfg (Fail_keeping l now ip) = l_cfg l" "globalStart (Fail_keeping l now ip) = globalStart (count_global now l)"
    "globalFails (Fail_keeping l now ip) = globalFails (count_global now l)" "well_keyed (Fail_keeping l now ip)"
  using assms well_keyed_update [of "count_global now l" ip] state_of_update [of ip _ "count_global now l"]
  by (simp_all add: Fail_keeping_def)

text \<open>Every reachable state of an address at \<open>now\<close>.\<close>

definition plausible :: "time \<Rightarrow> ip_state \<Rightarrow> bool" where
  "plausible now st \<longleftrightarrow>
     0 \<le> trips st \<and> (lockedUntil st = zero_time \<longrightarrow> trips st = 0) \<and>
     (windowStart st = zero_time \<or> windowStart st \<le> now \<and> lockedUntil st \<le> windowStart st)"

definition closed :: "limits \<Rightarrow> time \<Rightarrow> ip_state \<Rightarrow> bool" where
  "closed c now st \<longleftrightarrow> windowStart st = zero_time \<or> windowStart st + Window c \<le> now"

definition forgiven :: "limits \<Rightarrow> time \<Rightarrow> ip_state \<Rightarrow> bool" where
  "forgiven c now st \<longleftrightarrow> lockedUntil st = zero_time \<or> lockedUntil st + EscalationReset c \<le> now"

text \<open>Two states no operation at \<open>now\<close> or later tells apart.\<close>

definition alike :: "limits \<Rightarrow> time \<Rightarrow> ip_state \<Rightarrow> ip_state \<Rightarrow> bool" where
  "alike c now s s' \<longleftrightarrow>
     s = s' \<or>
     forgiven c now s \<and> forgiven c now s' \<and>
       (closed c now s \<and> closed c now s' \<or> failures s = failures s' \<and> windowStart s = windowStart s')"

lemma alike_later: "alike c now s s' \<Longrightarrow> now \<le> t \<Longrightarrow> alike c t s s'"
  by (auto simp: alike_def forgiven_def closed_def)

lemma plausible_later: "plausible now s \<Longrightarrow> now \<le> t \<Longrightarrow> plausible t s"
  by (auto simp: plausible_def)

lemma alike_locked:
  assumes "limits_ok c" "zero_time < now" "alike c now s s'" "now < lockedUntil s \<or> now < lockedUntil s'"
  shows "s = s'"
  using assms by (auto simp: alike_def forgiven_def limits_ok_def)

lemma normalize_plausible:
  assumes "limits_ok c" "plausible now st" "\<not> now < lockedUntil st"
  shows "normalize c now st = (if forgiven c now st then st\<lparr>trips := 0\<rparr> else st)"
  using assms reset_iff [OF assms(1), of now "lockedUntil st"]
  by (auto simp: normalize_def plausible_def forgiven_def Let_def)

lemma alike_normalize:
  assumes "limits_ok c" "zero_time < now" "plausible now s" "plausible now s'" "alike c now s s'"
  shows "alike c now (normalize c now s) (normalize c now s')" "plausible now (normalize c now s)"
proof -
  show "plausible now (normalize c now s)"
    using assms(3) by (auto simp: normalize_def plausible_def Let_def)
  show "alike c now (normalize c now s) (normalize c now s')"
  proof (cases "now < lockedUntil s \<or> now < lockedUntil s'")
    case True
    with alike_locked [OF assms(1,2,5)] show ?thesis by (simp add: alike_def)
  next
    case False
    then show ?thesis
      using assms(5) normalize_plausible [OF assms(1,3)] normalize_plausible [OF assms(1,4)]
      by (auto simp: alike_def forgiven_def closed_def)
  qed
qed

lemma count_failure_closed:
  "closed c now st \<Longrightarrow> count_failure c now st = count_failure c now (st\<lparr>windowStart := zero_time, failures := 0\<rparr>)"
  by (simp add: count_failure_def closed_def not_less Let_def)

lemma count_failure_same:
  assumes "failures s = failures s'" "windowStart s = windowStart s'" "trips s = trips s'"
  shows "count_failure c now s = count_failure c now s' \<or>
    count_failure c now s' = (count_failure c now s)\<lparr>lockedUntil := lockedUntil s'\<rparr> \<and>
    lockedUntil (count_failure c now s) = lockedUntil s"
  using assms by (cases s; cases s') (simp add: count_failure_def Let_def)

lemma count_failure_alike:
  assumes "forgiven c now s" "forgiven c now s'"
    "closed c now s \<and> closed c now s' \<or> failures s = failures s' \<and> windowStart s = windowStart s'"
  shows "alike c now (count_failure c now (s\<lparr>trips := 0\<rparr>)) (count_failure c now (s'\<lparr>trips := 0\<rparr>))"
proof -
  have same: "alike c now (count_failure c now x) (count_failure c now x')"
    if "failures x = failures x'" "windowStart x = windowStart x'" "trips x = trips x'"
      "forgiven c now x" "forgiven c now x'" for x x'
    using count_failure_same [OF that(1-3), of c now] that(4,5) by (auto simp: alike_def forgiven_def)
  show ?thesis
  proof (cases "closed c now s \<and> closed c now s'")
    case True
    then have "closed c now (s\<lparr>trips := 0\<rparr>)" "closed c now (s'\<lparr>trips := 0\<rparr>)" by (simp_all add: closed_def)
    note eq = this [THEN count_failure_closed]
    show ?thesis unfolding eq(1) eq(2)
      by (rule same) (use assms(1,2) in \<open>simp_all add: forgiven_def\<close>)
  next
    case False
    with assms show ?thesis by (intro same) (auto simp: forgiven_def)
  qed
qed

lemma alike_failed:
  assumes "limits_ok c" "zero_time < now" "plausible now s" "plausible now s'" "alike c now s s'" "\<not> now < lockedUntil s"
  shows "alike c now (failed_state c now s) (failed_state c now s')" "plausible now (failed_state c now s)"
proof -
  have L: "\<not> now < lockedUntil s'" using alike_locked [OF assms(1,2,5)] assms(6) by auto
  note n = normalize_plausible [OF assms(1,3,6)] normalize_plausible [OF assms(1,4) L]
  show "alike c now (failed_state c now s) (failed_state c now s')"
  proof (cases "s = s'")
    case True
    then show ?thesis by (simp add: alike_def)
  next
    case False
    then have f: "forgiven c now s" "forgiven c now s'"
      "closed c now s \<and> closed c now s' \<or> failures s = failures s' \<and> windowStart s = windowStart s'"
      using assms(5) by (auto simp: alike_def)
    then show ?thesis unfolding failed_state_def n using count_failure_alike [OF f] by simp
  qed
  show "plausible now (failed_state c now s)"
    using assms(2,3,6) lockout_pos(1) [OF assms(1), of 1] lockout_pos(1) [OF assms(1), of "trips s + 1"]
    by (auto simp: failed_state_def n count_failure_def plausible_def Let_def)
qed

lemma plausible_pruned: "plausible now s \<Longrightarrow> plausible now (pruned c now s)"
  by (simp add: pruned_def plausible_def)

lemma alike_pruned:
  assumes "limits_ok c" "alike c now s s'"
  shows "alike c now (pruned c now s) s'"
proof -
  have "closed c now s \<and> forgiven c now s" if "\<not> keep_ip c now s"
    using that reset_iff [OF assms(1), of now "lockedUntil s"]
    by (auto simp: keep_ip_def closed_def forgiven_def)
  then show "alike c now (pruned c now s) s'"
    using assms(2) by (auto simp: pruned_def alike_def closed_def forgiven_def)
qed

definition twins :: "limits \<Rightarrow> time \<Rightarrow> limiter \<Rightarrow> limiter \<Rightarrow> bool" where
  "twins c now l l' \<longleftrightarrow>
     well_keyed l \<and> well_keyed l' \<and> l_cfg l = c \<and> l_cfg l' = c \<and>
     globalStart l = globalStart l' \<and> globalFails l = globalFails l' \<and>
     (\<forall>ip. plausible now (state_of l ip) \<and> plausible now (state_of l' ip) \<and>
        alike c now (state_of l ip) (state_of l' ip))"

lemma twinsD:
  assumes "twins c now l l'"
  shows "well_keyed l" "well_keyed l'" "l_cfg l = c" "l_cfg l' = c"
    "globalStart l = globalStart l'" "globalFails l = globalFails l'"
    "plausible now (state_of l ip)" "plausible now (state_of l' ip)" "alike c now (state_of l ip) (state_of l' ip)"
  using assms by (simp_all add: twins_def)

lemma twins_later: "twins c now l l' \<Longrightarrow> now \<le> t \<Longrightarrow> twins c t l l'"
  using alike_later plausible_later unfolding twins_def by blast

lemma twins_answer:
  assumes "limits_ok c" "zero_time < now" "twins c now l l'"
  shows "fst (Check l now ip) = fst (Check l' now ip)"
proof -
  note t = twinsD [OF assms(3)]
  have "global_answer l now = global_answer l' now"
    using t(3-6) by (simp add: global_answer_def globalDenied_def)
  then show ?thesis
    using alike_locked [OF assms(1,2) t(9) [of ip]] assms(2)
    by (cases "now < lockedUntil (state_of l ip) \<or> now < lockedUntil (state_of l' ip)") (auto simp: Check_answer)
qed

lemma alike_sym: "alike c now s s' \<Longrightarrow> alike c now s' s"
  by (auto simp: alike_def)

lemma twins_check:
  assumes "limits_ok c" "zero_time < now" "twins c now l l'"
  shows "twins c now (snd (Check l now ip)) (snd (Check l' now ip))"
proof -
  note t = twinsD [OF assms(3)]
  note n = alike_normalize [OF assms(1,2) t(7,8,9)] alike_normalize(2) [OF assms(1,2) t(8,7) alike_sym [OF t(9)]]
  show ?thesis unfolding twins_def using t n by (simp add: Check_state)
qed

lemma twins_prune: "limits_ok c \<Longrightarrow> twins c now l l' \<Longrightarrow> twins c now (Prune l now) l'"
  using alike_pruned plausible_pruned by (simp add: twins_def Prune_def)

lemma twins_fail:
  assumes "limits_ok c" "zero_time < now" "twins c now l l'"
  shows "twins c now (Fail l now ip) (Fail_keeping l' now ip)"
proof -
  note t = twinsD [OF assms(3)]
  have L: "now < lockedUntil (state_of l ip) \<longleftrightarrow> now < lockedUntil (state_of l' ip)"
    using alike_locked [OF assms(1,2) t(9) [of ip]] by auto
  show ?thesis
  proof (cases "now < lockedUntil (state_of l ip)")
    case True
    with L have T': "now < lockedUntil (state_of l' ip)" by simp
    have "Fail_keeping l' now ip = Fail l' now ip" using T' by (simp add: Fail_keeping_def)
    then show ?thesis unfolding twins_def using t True T' by (simp add: Fail_locked)
  next
    case False
    with L have F: "\<not> now < lockedUntil (state_of l' ip)" by simp
    note a = alike_failed [OF assms(1,2) t(7,8,9) False]
      alike_failed(2) [OF assms(1,2) t(8,7) alike_sym [OF t(9)] F]
    have g: "globalStart (count_global now l) = globalStart (count_global now l')"
      "globalFails (count_global now l) = globalFails (count_global now l')"
      using t(3-6) by (simp_all add: count_global_def Let_def)
    note f = Fail_counted [OF False t(1)] and k = Fail_keeping_counted [OF F t(2)]
    show ?thesis
      using g t(3,4,7-9) a alike_pruned [OF assms(1)] plausible_pruned f(5) k(5)
      by (simp add: twins_def f(1-4) k(1-4))
  qed
qed

lemma twins_answers:
  assumes "limits_ok c" "zero_time < t0" "twins c t0 l l'" "sorted (map fst ops)" "\<forall>t \<in> fst ` set ops. t0 \<le> t"
  shows "answers Fail Prune ops l = answers Fail_keeping (\<lambda>l _. l) ops l'"
  using assms
proof (induction ops arbitrary: l l' t0)
  case (Cons a ops)
  obtain now op where a: "a = (now, op)" by (cases a)
  have now: "t0 \<le> now" "zero_time < now" using Cons(3,6) a by auto
  have rest: "sorted (map fst ops)" "\<forall>t \<in> fst ` set ops. now \<le> t" using Cons(5) a by auto
  note t = twins_later [OF Cons(4) now(1)]
  note IH = Cons(1) [OF assms(1) now(2) _ rest]
  show ?case
    using IH [OF twins_check [OF assms(1) now(2) t]] IH [OF twins_fail [OF assms(1) now(2) t]]
      IH [OF twins_prune [OF assms(1) t]] twins_answer [OF assms(1) now(2) t]
    by (cases op) (simp_all add: a)
qed simp

text \<open>
  Property C29. Forgetting addresses changes no answer: for every sequence of operations in the
  order of the clock, the limiter answers exactly as one that keeps every address for ever.
\<close>

theorem prune_invisible:
  assumes "limits_ok (l_cfg (limiter_New c))" "sorted (map fst ops)" "\<forall>t \<in> fst ` set ops. zero_time < t"
  shows "answers Fail Prune ops (limiter_New c) = answers Fail_keeping (\<lambda>l _. l) ops (limiter_New c)"
proof (cases ops)
  case (Cons a rest)
  have "state_of (limiter_New c) ip = new_ip" for ip by (simp add: limiter_New_def state_of_def)
  then have "twins (l_cfg (limiter_New c)) (fst a) (limiter_New c) (limiter_New c)"
    by (simp add: twins_def well_keyed_def limiter_New_def plausible_def alike_def)
  then show ?thesis by (intro twins_answers [OF assms(1) _ _ assms(2), of "fst a"]) (use assms(2,3) Cons in auto)
qed simp

definition visits :: "(time \<times> lim_op) list" where
  "visits = [(second, OpFail (Some (V4 1))), (2 * hour, OpPrune), (2 * hour + second, OpFail (Some (V4 2))), (3 * hour, OpCheck (Some (V4 1)))]"

lemma prune_invisible_witness:
  "answers Fail Prune visits (limiter_New Defaults) = answers Fail_keeping (\<lambda>l _. l) visits (limiter_New Defaults) \<and>
   limiter_Len (lim_run visits (limiter_New Defaults)) = 1"
proof
  show "answers Fail Prune visits (limiter_New Defaults) = answers Fail_keeping (\<lambda>l _. l) visits (limiter_New Defaults)"
    by (rule prune_invisible)
      (auto simp: limiter_New_def filled_def limits_ok_def Defaults_def visits_def zero_time_def second_def
        minute_def hour_def max_int64_def)
  show "limiter_Len (lim_run visits (limiter_New Defaults)) = 1" by code_simp
qed

end
