(* ===== verification/Blocked.thy ===== *)
theory Blocked
  imports AdguardClients
begin

text \<open>
  internal/blocked (blocked.go): the view of what a child's clients block, and the offer that
  moves clients off the global list. Both are pure functions. A Go set (\<open>map[string]bool\<close>) is
  the HOL set of its keys; \<open>sort.Slice\<close> and \<open>sort.Strings\<close> are stable sorts, since the entries
  they may not tell apart are equal.
\<close>

section \<open>Model\<close>

datatype service_status = StateBlocked | StatePartial | StateUnblocked

record child_ref =
  ref_id :: id
  ref_name :: string

record grant_cover =
  gv_id :: id
  gv_child :: child_ref
  gv_services :: "string list"
  gv_clients :: "string list"

record unblock_ref =
  ub_client :: string
  ub_grant :: id
  ub_child :: child_ref

record blocked_input =
  in_clients :: "persistent_client list"
  in_global :: "string list"
  in_services :: "service list"
  in_mapped :: "string list"
  in_self :: id
  in_owners :: "string \<Rightarrow> child_ref list"
  in_grants :: "grant_cover list"

record client_state =
  cs_name :: string
  cs_missing :: bool
  cs_global :: bool
  cs_shared :: "child_ref list"

record service_state =
  bk_service :: service
  bk_state :: service_status
  bk_differs :: "string list"
  bk_unblocked :: "unblock_ref list"

record blocked_view =
  bv_clients :: "client_state list"
  bv_services :: "service_state list"

text \<open>The map by name: a later client of the same name replaces an earlier one.\<close>

definition clients_by_name :: "persistent_client list \<Rightarrow> string \<Rightarrow> persistent_client option" where
  "clients_by_name pcs = map_of (rev (map (\<lambda>pc. (pc_name pc, pc)) pcs))"

definition sharedWith :: "blocked_input \<Rightarrow> string \<Rightarrow> child_ref list" where
  "sharedWith inp client = sort_key ref_id (filter (\<lambda>r. ref_id r \<noteq> in_self inp) (in_owners inp client))"

definition unblockedBy :: "blocked_input \<Rightarrow> string \<Rightarrow> string \<Rightarrow> unblock_ref list" where
  "unblockedBy inp client svc =
     map (\<lambda>g. \<lparr>ub_client = client, ub_grant = gv_id g, ub_child = gv_child g\<rparr>)
       (filter (\<lambda>g. \<not> (ref_id (gv_child g) = in_self inp \<or> svc \<notin> set (gv_services g) \<or>
          client \<notin> set (gv_clients g))) (in_grants inp))"

text \<open>The loop over the mapped names: the client states, and the present ones with what they block.\<close>

fun fold_clients ::
  "blocked_input \<Rightarrow> (string \<Rightarrow> persistent_client option) \<Rightarrow> string list \<Rightarrow>
     client_state list \<times> (string \<times> string set) list" where
  "fold_clients inp byName [] = ([], [])"
| "fold_clients inp byName (name # names) =
     (let (states, presents) = fold_clients inp byName names
      in case byName name of
           None \<Rightarrow>
             (\<lparr>cs_name = name, cs_missing = True, cs_global = False, cs_shared = sharedWith inp name\<rparr> # states, presents)
         | Some pc \<Rightarrow>
             (\<lparr>cs_name = name, cs_missing = False, cs_global = pc_global pc, cs_shared = sharedWith inp name\<rparr> # states,
              (name, if \<not> pc_global pc then set (pc_blocked pc) else set (in_global inp)) # presents))"

text \<open>The loop over the present clients for one service: how many block it, the others, their grants.\<close>

fun fold_presents ::
  "blocked_input \<Rightarrow> string \<Rightarrow> (string \<times> string set) list \<Rightarrow> nat \<times> string list \<times> unblock_ref list" where
  "fold_presents inp svc [] = (0, [], [])"
| "fold_presents inp svc ((name, blocked) # presents) =
     (let (n, differs, unblocked) = fold_presents inp svc presents
      in if svc \<in> blocked then (n + 1, differs, unblocked)
         else (n, name # differs, unblockedBy inp name svc @ unblocked))"

definition service_view :: "blocked_input \<Rightarrow> (string \<times> string set) list \<Rightarrow> service \<Rightarrow> service_state" where
  "service_view inp presents svc =
     (let (blockedOn, differs, unblocked) = fold_presents inp (sv_id svc) presents;
          unblocked = sort_key (\<lambda>u. ub_client u) (sort_key (\<lambda>u. ub_grant u) unblocked)
      in if length presents > 0 \<and> blockedOn = length presents
         then \<lparr>bk_service = svc, bk_state = StateBlocked, bk_differs = [], bk_unblocked = unblocked\<rparr>
         else if blockedOn = 0
         then \<lparr>bk_service = svc, bk_state = StateUnblocked, bk_differs = [], bk_unblocked = unblocked\<rparr>
         else \<lparr>bk_service = svc, bk_state = StatePartial, bk_differs = sort differs, bk_unblocked = unblocked\<rparr>)"

definition Compute :: "blocked_input \<Rightarrow> blocked_view" where
  "Compute inp =
     (let (states, presents) = fold_clients inp (clients_by_name (in_clients inp)) (in_mapped inp)
      in \<lparr>bv_clients = states, bv_services = map (service_view inp presents) (in_services inp)\<rparr>)"

record offer_step =
  os_client :: string
  os_gains :: "string list"
  os_target :: "string list"

definition sortedUnique :: "string list \<Rightarrow> string list" where
  "sortedUnique ids = sort_compact ids"

text \<open>The inner loop over the global ids: what is gained, and the target set.\<close>

fun gain_loop :: "string list \<Rightarrow> string list \<Rightarrow> string list \<Rightarrow> string list \<Rightarrow> string list \<times> string list" where
  "gain_loop own gains target [] = (gains, target)"
| "gain_loop own gains target (i # ids) =
     gain_loop own (if i \<notin> set own then gains @ [i] else gains) (target @ [i]) ids"

fun Offer :: "persistent_client list \<Rightarrow> string list \<Rightarrow> string list \<Rightarrow> offer_step list" where
  "Offer clients global [] = []"
| "Offer clients global (name # mapped) =
     (if global = [] then []
      else case clients_by_name clients name of
             None \<Rightarrow> Offer clients global mapped
           | Some pc \<Rightarrow>
               if \<not> pc_global pc then Offer clients global mapped
               else (let (gains, target) = gain_loop (pc_blocked pc) [] (pc_blocked pc) global
                     in \<lparr>os_client = name, os_gains = sortedUnique gains, os_target = sortedUnique target\<rparr> #
                        Offer clients global mapped))"

section \<open>The fold as a specification\<close>

text \<open>What a mapped client blocks: None when AdGuard does not know it.\<close>

definition effective_on :: "blocked_input \<Rightarrow> string \<Rightarrow> string set option" where
  "effective_on inp name =
     map_option (\<lambda>pc. if pc_global pc then set (in_global inp) else set (pc_blocked pc))
       (clients_by_name (in_clients inp) name)"

definition present_on :: "blocked_input \<Rightarrow> string list" where
  "present_on inp = filter (\<lambda>n. effective_on inp n \<noteq> None) (in_mapped inp)"

definition open_on :: "blocked_input \<Rightarrow> string \<Rightarrow> string list" where
  "open_on inp svc = filter (\<lambda>n. svc \<notin> the (effective_on inp n)) (present_on inp)"

lemma fold_clients_states:
  "fst (fold_clients inp (clients_by_name (in_clients inp)) names) =
     map (\<lambda>n. \<lparr>cs_name = n, cs_missing = (effective_on inp n = None),
               cs_global = (\<exists>pc. clients_by_name (in_clients inp) n = Some pc \<and> pc_global pc),
               cs_shared = sharedWith inp n\<rparr>) names"
  by (induction names) (auto simp: effective_on_def split: prod.splits option.splits)

lemma fold_clients_presents:
  "snd (fold_clients inp (clients_by_name (in_clients inp)) names) =
     map (\<lambda>n. (n, the (effective_on inp n))) (filter (\<lambda>n. effective_on inp n \<noteq> None) names)"
  by (induction names) (auto simp: effective_on_def split: prod.splits option.splits)

lemma fold_presents_eq:
  "fold_presents inp svc (map (\<lambda>n. (n, f n)) names) =
     (length (filter (\<lambda>n. svc \<in> f n) names), filter (\<lambda>n. svc \<notin> f n) names,
      concat (map (\<lambda>n. unblockedBy inp n svc) (filter (\<lambda>n. svc \<notin> f n) names)))"
  by (induction names) simp_all

definition service_reference :: "blocked_input \<Rightarrow> service \<Rightarrow> service_state" where
  "service_reference inp svc =
     (let missing = open_on inp (sv_id svc)
      in \<lparr>bk_service = svc,
          bk_state = (if present_on inp \<noteq> [] \<and> missing = [] then StateBlocked
                      else if missing = present_on inp then StateUnblocked else StatePartial),
          bk_differs = (if missing = present_on inp then [] else sort missing),
          bk_unblocked = sort_key ub_client (sort_key ub_grant
             (concat (map (\<lambda>n. unblockedBy inp n (sv_id svc)) missing)))\<rparr>)"

lemma filter_all_iff: "filter P xs = xs \<longleftrightarrow> filter (\<lambda>x. \<not> P x) xs = []"
  by (auto simp: filter_empty_conv filter_id_conv)

lemma length_filter_full: "length (filter P xs) = length xs \<longleftrightarrow> filter (\<lambda>x. \<not> P x) xs = []"
proof -
  have "length (filter P xs) = length xs \<longleftrightarrow> length (filter (\<lambda>x. \<not> P x) xs) = 0"
    using sum_length_filter_compl [of P xs] by linarith
  then show ?thesis by simp
qed

lemma service_view_reference:
  "service_view inp (map (\<lambda>n. (n, the (effective_on inp n))) (present_on inp)) svc = service_reference inp svc"
proof -
  let ?b = "filter (\<lambda>n. sv_id svc \<in> the (effective_on inp n)) (present_on inp)"
  have "length ?b = length (present_on inp) \<longleftrightarrow> open_on inp (sv_id svc) = []"
    by (simp add: length_filter_full open_on_def)
  moreover have "length ?b = 0 \<longleftrightarrow> open_on inp (sv_id svc) = present_on inp"
    using filter_all_iff [of "\<lambda>n. sv_id svc \<notin> the (effective_on inp n)" "present_on inp"] by (simp add: open_on_def)
  ultimately show ?thesis
    by (simp add: service_view_def service_reference_def fold_presents_eq Let_def open_on_def [symmetric])
qed

lemma Compute_reference:
  "Compute inp =
     \<lparr>bv_clients = map (\<lambda>n. \<lparr>cs_name = n, cs_missing = (effective_on inp n = None),
               cs_global = (\<exists>pc. clients_by_name (in_clients inp) n = Some pc \<and> pc_global pc),
               cs_shared = sharedWith inp n\<rparr>) (in_mapped inp),
      bv_services = map (service_reference inp) (in_services inp)\<rparr>"
proof -
  obtain states presents where f: "fold_clients inp (clients_by_name (in_clients inp)) (in_mapped inp) = (states, presents)"
    by (cases "fold_clients inp (clients_by_name (in_clients inp)) (in_mapped inp)")
  have "presents = map (\<lambda>n. (n, the (effective_on inp n))) (present_on inp)"
    using fold_clients_presents [of inp "in_mapped inp"] by (simp only: f snd_conv present_on_def)
  then have "service_view inp presents = service_reference inp"
    using service_view_reference [of inp] by (simp add: fun_eq_iff)
  moreover note fold_clients_states [of inp "in_mapped inp"]
  ultimately show ?thesis by (simp add: Compute_def f)
qed

section \<open>The offer\<close>

lemma gain_loop_eq:
  "gain_loop own gains target ids = (gains @ filter (\<lambda>i. i \<notin> set own) ids, target @ ids)"
  by (induction ids arbitrary: gains target) simp_all

lemma Offer_reference:
  "Offer clients global mapped =
     (if global = [] then []
      else map (\<lambda>n. let own = pc_blocked (the (clients_by_name clients n))
                    in \<lparr>os_client = n, os_gains = sort_compact (filter (\<lambda>i. i \<notin> set own) global),
                        os_target = sort_compact (own @ global)\<rparr>)
             (filter (\<lambda>n. \<exists>pc. clients_by_name clients n = Some pc \<and> pc_global pc) mapped))"
  by (induction mapped) (auto simp: gain_loop_eq sortedUnique_def Let_def split: option.splits)

lemma Offer_step:
  assumes "st \<in> set (Offer clients global mapped)"
  obtains pc where "clients_by_name clients (os_client st) = Some pc" "pc_global pc" "os_client st \<in> set mapped"
    "set (os_target st) = set (pc_blocked pc) \<union> set global" "set (os_gains st) = set global - set (pc_blocked pc)"
    "sorted (os_target st)" "distinct (os_target st)"
  using assms that by (fastforce simp: Offer_reference Let_def split: if_splits)

section \<open>What the view says\<close>

text \<open>
  Property C31. Each catalogue service gets the state its clients are in: blocked when every present
  client blocks it, unblocked when none does, otherwise partial with exactly the clients that
  leave it open; and every grant of another child that holds it open on a present client is named.
\<close>

theorem Compute_service:
  assumes "k < length (in_services inp)"
  defines "svc \<equiv> in_services inp ! k" and "st \<equiv> bv_services (Compute inp) ! k"
  defines "present \<equiv> {n \<in> set (in_mapped inp). effective_on inp n \<noteq> None}"
  defines "left_open \<equiv> {n \<in> present. sv_id svc \<notin> the (effective_on inp n)}"
  shows "bk_service st = svc \<and>
    (bk_state st = StateBlocked \<longleftrightarrow> present \<noteq> {} \<and> left_open = {}) \<and>
    (bk_state st = StateUnblocked \<longleftrightarrow> left_open = present) \<and>
    set (bk_differs st) = (if bk_state st = StatePartial then left_open else {}) \<and> sorted (bk_differs st) \<and>
    set (bk_unblocked st) = {\<lparr>ub_client = n, ub_grant = gv_id g, ub_child = gv_child g\<rparr> |n g.
      n \<in> left_open \<and> g \<in> set (in_grants inp) \<and> ref_id (gv_child g) \<noteq> in_self inp \<and>
      sv_id svc \<in> set (gv_services g) \<and> n \<in> set (gv_clients g)}"
proof -
  have st: "st = service_reference inp svc"
    using assms(1) by (simp add: st_def svc_def Compute_reference)
  have present: "set (present_on inp) = present" by (auto simp: present_on_def present_def)
  have left: "set (open_on inp (sv_id svc)) = left_open" by (auto simp: open_on_def left_open_def present)
  have same: "open_on inp (sv_id svc) = present_on inp \<longleftrightarrow> left_open = present"
    by (auto simp: open_on_def filter_id_conv left_open_def simp flip: present)
  have none: "open_on inp (sv_id svc) = [] \<longleftrightarrow> left_open = {}" "present_on inp = [] \<longleftrightarrow> present = {}"
    using left present by (metis set_empty)+
  have "set (concat (map (\<lambda>n. unblockedBy inp n (sv_id svc)) (open_on inp (sv_id svc)))) =
    {\<lparr>ub_client = n, ub_grant = gv_id g, ub_child = gv_child g\<rparr> |n g.
      n \<in> left_open \<and> g \<in> set (in_grants inp) \<and> ref_id (gv_child g) \<noteq> in_self inp \<and>
      sv_id svc \<in> set (gv_services g) \<and> n \<in> set (gv_clients g)}"
    by (auto simp: left unblockedBy_def)
  moreover have "left_open \<subseteq> present" by (auto simp: left_open_def)
  ultimately show ?thesis
    using none left
    by (cases "left_open = {}"; cases "left_open = present") (auto simp: st service_reference_def Let_def same)
qed

definition demo_input :: blocked_input where
  "demo_input = \<lparr>in_clients =
     [\<lparr>pc_name = ''tv'', pc_ids = [], pc_blocked = [''a''], pc_global = False, pc_raw = []\<rparr>,
      \<lparr>pc_name = ''tablet'', pc_ids = [], pc_blocked = [], pc_global = True, pc_raw = []\<rparr>],
     in_global = [''b''], in_services = [\<lparr>sv_id = ''a'', sv_name = ''A'', sv_icon = []\<rparr>, \<lparr>sv_id = ''b'', sv_name = ''B'', sv_icon = []\<rparr>],
     in_mapped = [''tablet'', ''gone'', ''tv''], in_self = 1, in_owners = (\<lambda>_. []),
     in_grants = [\<lparr>gv_id = 7, gv_child = \<lparr>ref_id = 2, ref_name = ''B''\<rparr>, gv_services = [''b''], gv_clients = [''tv'']\<rparr>]\<rparr>"

lemma Compute_service_witness:
  "bk_state (bv_services (Compute demo_input) ! 1) = StatePartial \<and>
   set (bk_differs (bv_services (Compute demo_input) ! 1)) = {''tv''} \<and>
   sorted (bk_differs (bv_services (Compute demo_input) ! 1))"
proof (intro conjI)
  have "1 < length (in_services demo_input)" by (simp add: demo_input_def)
  from Compute_service [OF this] show "sorted (bk_differs (bv_services (Compute demo_input) ! 1))" by blast
qed (code_simp+)

end
