(* ===== verification/Devices.thy ===== *)
theory Devices
  imports AdguardClients "HOL-Library.Product_Lexorder"
begin

text \<open>
  internal/adguard/devices.go: the devices AdGuard has seen that no persistent client covers.
  The sets the code fills in are collected in one pass over the ids of the persistent clients;
  \<open>slices.SortStableFunc\<close> is a stable insertion sort over the code's comparison. \<open>Masked\<close> is left
  out: \<open>Contains\<close> compares no host bits.
\<close>

section \<open>Model\<close>

record id_index =
  ix_addrs :: "addr set"
  ix_prefixes :: "prefix list"
  ix_others :: "string set"

definition index_id :: "string \<Rightarrow> id_index \<Rightarrow> id_index" where
  "index_id raw ix =
     (let i = trim_space raw
      in case ParseAddr i of
           Some a \<Rightarrow> ix\<lparr>ix_addrs := insert (Unmap a) (ix_addrs ix)\<rparr>
         | None \<Rightarrow>
             (case ParsePrefix i of
                Some p \<Rightarrow> ix\<lparr>ix_prefixes := ix_prefixes ix @ [p]\<rparr>
              | None \<Rightarrow> ix\<lparr>ix_others := insert (canonicalMAC i) (ix_others ix)\<rparr>))"

definition index_clients :: "persistent_client list \<Rightarrow> id_index" where
  "index_clients pcs =
     fold index_id (concat (map pc_ids pcs)) \<lparr>ix_addrs = {}, ix_prefixes = [], ix_others = {}\<rparr>"

definition leasedTo :: "lease list \<Rightarrow> string \<Rightarrow> string option" where
  "leasedTo leases =
     fold (\<lambda>l m. if ls_mac l \<noteq> [] then m(canonicalIP (ls_ip l) \<mapsto> canonicalMAC (ls_mac l)) else m) leases Map.empty"

definition ip_covered :: "string \<Rightarrow> addr set \<Rightarrow> prefix list \<Rightarrow> bool" where
  "ip_covered ip addrs prefixes =
     (case ParseAddr (trim_space ip) of
        None \<Rightarrow> False
      | Some a0 \<Rightarrow> let a = Unmap a0 in a \<in> addrs \<or> (\<exists>p \<in> set prefixes. Contains p a))"

record unlabelled_device =
  ud_ip :: string
  ud_hostname :: string
  ud_source :: string
  ud_ids :: "string list"

text \<open>The loop over the auto clients. A missing key of a Go map reads as the empty string.\<close>

definition mac_of :: "(string \<Rightarrow> string option) \<Rightarrow> string \<Rightarrow> string" where
  "mac_of leased ip = (case leased (canonicalIP ip) of None \<Rightarrow> [] | Some m \<Rightarrow> m)"

fun list_devices :: "id_index \<Rightarrow> (string \<Rightarrow> string option) \<Rightarrow> auto_client list \<Rightarrow> unlabelled_device list" where
  "list_devices ix leased [] = []"
| "list_devices ix leased (a # auto) =
     (let mac = mac_of leased (ac_ip a)
      in if ip_covered (ac_ip a) (ix_addrs ix) (ix_prefixes ix) \<or> (mac \<noteq> [] \<and> mac \<in> ix_others ix)
         then list_devices ix leased auto
         else \<lparr>ud_ip = ac_ip a, ud_hostname = ac_hostname a, ud_source = ac_source a,
               ud_ids = [ac_ip a] @ (if mac \<noteq> [] then [mac] else [])\<rparr> # list_devices ix leased auto)"

text \<open>The sign of a comparison is Go's \<open>int\<close>.\<close>

definition str_compare :: "string \<Rightarrow> string \<Rightarrow> int" where
  "str_compare x y = (if x < y then -1 else if y < x then 1 else 0)"

definition compareIP :: "string \<Rightarrow> string \<Rightarrow> int" where
  "compareIP x y =
     (case (ParseAddr x, ParseAddr y) of
        (Some a, Some b) \<Rightarrow> if addr_less a b then -1 else if addr_less b a then 1 else 0
      | (Some _, None) \<Rightarrow> -1
      | (None, Some _) \<Rightarrow> 1
      | (None, None) \<Rightarrow> str_compare x y)"

definition compare_devices :: "unlabelled_device \<Rightarrow> unlabelled_device \<Rightarrow> int" where
  "compare_devices x y =
     (let xb = (ud_hostname x = []); yb = (ud_hostname y = [])
      in if xb \<noteq> yb then (if xb then 1 else -1)
         else let c = str_compare (to_lower (ud_hostname x)) (to_lower (ud_hostname y))
              in if c \<noteq> 0 then c else compareIP (ud_ip x) (ud_ip y))"

fun insert_stable :: "('a \<Rightarrow> 'a \<Rightarrow> int) \<Rightarrow> 'a \<Rightarrow> 'a list \<Rightarrow> 'a list" where
  "insert_stable c x [] = [x]"
| "insert_stable c x (y # ys) = (if c y x < 0 then y # insert_stable c x ys else x # y # ys)"

definition SortStableFunc :: "('a \<Rightarrow> 'a \<Rightarrow> int) \<Rightarrow> 'a list \<Rightarrow> 'a list" where
  "SortStableFunc c xs = foldr (insert_stable c) xs []"

definition Unlabelled :: "persistent_client list \<Rightarrow> auto_client list \<Rightarrow> lease list \<Rightarrow> unlabelled_device list" where
  "Unlabelled persistent auto leases =
     SortStableFunc compare_devices (list_devices (index_clients persistent) (leasedTo leases) auto)"

section \<open>The order\<close>

text \<open>The comparison is the lexicographic order of a key, so the sort is the library's.\<close>

definition ip_key :: "string \<Rightarrow> nat \<times> nat \<times> string" where
  "ip_key s = (case ParseAddr s of Some a \<Rightarrow> (bitlen a, addr_num a, zone_of a) | None \<Rightarrow> (1000, 0, s))"

definition device_key :: "unlabelled_device \<Rightarrow> bool \<times> string \<times> nat \<times> nat \<times> string" where
  "device_key d = (ud_hostname d = [], to_lower (ud_hostname d), ip_key (ud_ip d))"

lemma bitlen_bound [simp]: "bitlen a < 1000" "bitlen a \<le> 1000" "\<not> 1000 < bitlen a" "\<not> 1000 \<le> bitlen a" "bitlen a \<noteq> 1000"
  by (cases a, simp_all)+

lemma addr_less_key: "addr_less a b \<longleftrightarrow> (bitlen a, addr_num a, zone_of a) < (bitlen b, addr_num b, zone_of b)"
  by (auto simp: addr_less_def)

lemma compareIP_key: "compareIP x y < 0 \<longleftrightarrow> ip_key x < ip_key y" "compareIP x y = 0 \<longleftrightarrow> ip_key x = ip_key y"
  by (cases "ParseAddr x"; cases "ParseAddr y"; auto simp: compareIP_def ip_key_def addr_less_def str_compare_def)+

lemma compare_devices_key: "compare_devices x y < 0 \<longleftrightarrow> device_key x < device_key y"
  using compareIP_key [of "ud_ip x" "ud_ip y"]
  by (auto simp: compare_devices_def device_key_def str_compare_def Let_def)

lemma insert_stable_key: "insert_stable compare_devices x ys = insort_key device_key x ys"
  by (induction ys) (auto simp: compare_devices_key)

lemma SortStableFunc_key: "SortStableFunc compare_devices xs = sort_key device_key xs"
proof -
  have "insert_stable compare_devices = insort_key device_key" by (intro ext insert_stable_key)
  then show ?thesis by (simp add: SortStableFunc_def sort_key_def)
qed

section \<open>Which devices are listed\<close>

text \<open>When an id of a persistent client covers an auto client, given the leases.\<close>

definition id_covers :: "lease list \<Rightarrow> string \<Rightarrow> auto_client \<Rightarrow> bool" where
  "id_covers leases raw a =
     (let i = trim_space raw; ip = map_option Unmap (ParseAddr (trim_space (ac_ip a)));
          mac = mac_of (leasedTo leases) (ac_ip a)
      in case ParseAddr i of
           Some x \<Rightarrow> ip = Some (Unmap x)
         | None \<Rightarrow>
             (case ParsePrefix i of
                Some p \<Rightarrow> (case ip of None \<Rightarrow> False | Some y \<Rightarrow> Contains p y)
              | None \<Rightarrow> mac \<noteq> [] \<and> mac = canonicalMAC i))"

definition device_of :: "lease list \<Rightarrow> auto_client \<Rightarrow> unlabelled_device" where
  "device_of leases a =
     (let mac = mac_of (leasedTo leases) (ac_ip a)
      in \<lparr>ud_ip = ac_ip a, ud_hostname = ac_hostname a, ud_source = ac_source a,
          ud_ids = [ac_ip a] @ (if mac \<noteq> [] then [mac] else [])\<rparr>)"

definition index_covers :: "lease list \<Rightarrow> id_index \<Rightarrow> auto_client \<Rightarrow> bool" where
  "index_covers leases ix a \<longleftrightarrow>
     (let mac = mac_of (leasedTo leases) (ac_ip a)
      in ip_covered (ac_ip a) (ix_addrs ix) (ix_prefixes ix) \<or> (mac \<noteq> [] \<and> mac \<in> ix_others ix))"

lemma index_id_covers: "index_covers leases (index_id i ix) a \<longleftrightarrow> index_covers leases ix a \<or> id_covers leases i a"
  by (auto simp: index_covers_def index_id_def id_covers_def ip_covered_def Let_def split: option.split)

lemma fold_index_covers:
  "index_covers leases (fold index_id ids ix) a \<longleftrightarrow> index_covers leases ix a \<or> (\<exists>i \<in> set ids. id_covers leases i a)"
  by (induction ids arbitrary: ix) (auto simp: index_id_covers)

lemma index_clients_covers:
  "index_covers leases (index_clients pcs) a \<longleftrightarrow> (\<exists>pc \<in> set pcs. \<exists>i \<in> set (pc_ids pc). id_covers leases i a)"
proof -
  have "\<not> index_covers leases \<lparr>ix_addrs = {}, ix_prefixes = [], ix_others = {}\<rparr> a"
    by (simp add: index_covers_def ip_covered_def split: option.split)
  then show ?thesis by (simp add: index_clients_def fold_index_covers)
qed

lemma list_devices_eq:
  "list_devices ix (leasedTo leases) auto = map (device_of leases) (filter (\<lambda>a. \<not> index_covers leases ix a) auto)"
  by (induction auto) (simp_all add: index_covers_def device_of_def Let_def)

text \<open>
  Property C32. Unlabelled lists exactly the auto clients that no id of any persistent client covers,
  each once per report and with its leased MAC, sorted stably by host name, blank names last, and
  then by address: the code's sets, maps and comparison equal that reference.
\<close>

theorem Unlabelled_exact:
  "Unlabelled pcs auto leases =
     sort_key device_key (map (device_of leases)
       (filter (\<lambda>a. \<not> (\<exists>pc \<in> set pcs. \<exists>i \<in> set (pc_ids pc). id_covers leases i a)) auto))"
  by (simp add: Unlabelled_def SortStableFunc_key list_devices_eq index_clients_covers)

end
