(* ===== verification/ClientIP.thy ===== *)
theory ClientIP
  imports NetStd
begin

text \<open>
  internal/api/clientip.go: which address a request counts for in the login limiter. A request
  is, here, the address of its TCP peer and the values of its X-Forwarded-For header; the invalid
  \<open>netip.Addr\<close> is None. A prefix keeps its host bits, which \<open>Contains\<close> ignores.
\<close>

section \<open>Model\<close>

definition hostOf :: "string \<Rightarrow> string" where
  "hostOf remote = (case SplitHost remote of Some h \<Rightarrow> h | None \<Rightarrow> remote)"

definition api_parseAddr :: "string \<Rightarrow> addr option" where
  "api_parseAddr s = map_option (\<lambda>a. Unmap (WithoutZone a)) (ParseAddr s)"

text \<open>One network; None when it is skipped.\<close>

definition toPrefix :: "ip_net \<Rightarrow> prefix option" where
  "toPrefix n =
     (case AddrFromSlice (in_ip n) of
        None \<Rightarrow> None
      | Some a \<Rightarrow>
          (let bits = fst (mask_Size (in_mask n));
               bits = (if Is4In6 a \<and> bits \<ge> 96 then bits - 96 else bits)
           in if bits > bitlen (Unmap a) then None else Some (Unmap a, bits)))"

fun toPrefixes :: "ip_net list \<Rightarrow> prefix list" where
  "toPrefixes [] = []"
| "toPrefixes (n # ns) = (case toPrefix n of None \<Rightarrow> toPrefixes ns | Some p \<Rightarrow> p # toPrefixes ns)"

fun inAny :: "prefix list \<Rightarrow> addr \<Rightarrow> bool" where
  "inAny [] a = False"
| "inAny (p # ps) a = (if Contains p a then True else inAny ps a)"

text \<open>The loop over the hops, from the right.\<close>

fun walk_hops :: "prefix list \<Rightarrow> addr option \<Rightarrow> string list \<Rightarrow> addr option" where
  "walk_hops ps peer [] = peer"
| "walk_hops ps peer (h # hs) =
     (case api_parseAddr (trim_space h) of
        None \<Rightarrow> peer
      | Some hop \<Rightarrow> if \<not> inAny ps hop then Some hop else walk_hops ps peer hs)"

definition forwarded_hops :: "string list \<Rightarrow> string list" where
  "forwarded_hops values = split_on (CHR '','') (join '','' values)"

definition ClientIP :: "ip_net list \<Rightarrow> string \<Rightarrow> string list \<Rightarrow> addr option" where
  "ClientIP trusted remote forwarded =
     (let prefixes = toPrefixes trusted; peer = api_parseAddr (hostOf remote)
      in case peer of
           None \<Rightarrow> peer
         | Some p \<Rightarrow>
             if prefixes = [] \<or> \<not> inAny prefixes p then peer
             else walk_hops prefixes peer (rev (forwarded_hops forwarded)))"

section \<open>What a client can choose\<close>

lemma inAny_iff: "inAny ps a \<longleftrightarrow> (\<exists>p \<in> set ps. Contains p a)"
  by (induction ps) auto

text \<open>A hop inside a trusted network, and the rightmost one that is not.\<close>

definition trusted_hop :: "ip_net list \<Rightarrow> string \<Rightarrow> bool" where
  "trusted_hop trusted h \<longleftrightarrow>
     (\<exists>a. api_parseAddr (trim_space h) = Some a \<and> inAny (toPrefixes trusted) a)"

definition trusted_peer :: "ip_net list \<Rightarrow> string \<Rightarrow> bool" where
  "trusted_peer trusted remote \<longleftrightarrow>
     (\<exists>a. api_parseAddr (hostOf remote) = Some a \<and> inAny (toPrefixes trusted) a)"

lemma walk_trusted:
  "\<forall>h \<in> set hs. trusted_hop trusted h \<Longrightarrow>
     walk_hops (toPrefixes trusted) peer (hs @ rest) = walk_hops (toPrefixes trusted) peer rest"
  by (induction hs) (auto simp: trusted_hop_def)

lemma walk_stops:
  "\<not> trusted_hop trusted h \<Longrightarrow> walk_hops (toPrefixes trusted) peer (h # rest) =
     (case api_parseAddr (trim_space h) of None \<Rightarrow> peer | Some a \<Rightarrow> Some a)"
  by (auto simp: trusted_hop_def split: option.split)

lemma ClientIP_peer:
  "\<not> trusted_peer trusted remote \<Longrightarrow> ClientIP trusted remote forwarded = api_parseAddr (hostOf remote)"
  by (auto simp: ClientIP_def trusted_peer_def Let_def split: option.split)

lemma ClientIP_walk:
  assumes "trusted_peer trusted remote"
  shows "ClientIP trusted remote forwarded =
    walk_hops (toPrefixes trusted) (api_parseAddr (hostOf remote)) (rev (forwarded_hops forwarded))"
proof -
  from assms have "toPrefixes trusted \<noteq> []" by (auto simp: trusted_peer_def)
  with assms show ?thesis by (auto simp: ClientIP_def trusted_peer_def)
qed

text \<open>
  Property C15. The address a request counts for is settled by who is trusted, not by what is claimed. A peer outside
  the trusted networks (or without a readable address) counts for itself, whatever the header holds. Behind a trusted
  peer the hops are read from the right: the first one outside the trusted networks is the address, or the peer's when
  it is no address, whatever stands to its left; when every hop is trusted it is the peer's. So a client outside the
  trusted networks whose proxy appends its address cannot choose another one; a client whose own address lies in a
  trusted network is taken for a proxy and can.
\<close>

theorem ClientIP_unspoofable:
  assumes "forwarded_hops forwarded = claimed @ h # proxies" "\<forall>p \<in> set proxies. trusted_hop trusted p"
  shows "(\<not> trusted_peer trusted remote \<longrightarrow> ClientIP trusted remote forwarded = api_parseAddr (hostOf remote)) \<and>
    (trusted_peer trusted remote \<and> \<not> trusted_hop trusted h \<longrightarrow>
       ClientIP trusted remote forwarded =
         (case api_parseAddr (trim_space h) of None \<Rightarrow> api_parseAddr (hostOf remote) | Some a \<Rightarrow> Some a)) \<and>
    (trusted_peer trusted remote \<and> trusted_hop trusted h \<and> claimed = [] \<longrightarrow>
       ClientIP trusted remote forwarded = api_parseAddr (hostOf remote))"
proof (intro conjI impI)
  let ?peer = "api_parseAddr (hostOf remote)"
  show "ClientIP trusted remote forwarded = ?peer" if "\<not> trusted_peer trusted remote"
    using that by (rule ClientIP_peer)
  show "ClientIP trusted remote forwarded = (case api_parseAddr (trim_space h) of None \<Rightarrow> ?peer | Some a \<Rightarrow> Some a)"
    if "trusted_peer trusted remote \<and> \<not> trusted_hop trusted h"
    using that ClientIP_walk [of trusted remote forwarded] walk_trusted [of "rev proxies" trusted ?peer "h # rev claimed"]
      walk_stops [of trusted h ?peer "rev claimed"] assms by simp
  show "ClientIP trusted remote forwarded = ?peer" if "trusted_peer trusted remote \<and> trusted_hop trusted h \<and> claimed = []"
    using that ClientIP_walk [of trusted remote forwarded] walk_trusted [of "rev proxies @ [h]" trusted ?peer "[]"] assms by simp
qed

definition lan :: "ip_net list" where
  "lan = [\<lparr>in_ip = [10, 0, 0, 0], in_mask = [255, 0, 0, 0]\<rparr>]"

lemma lan_hops:
  "trim_space '' 10.0.0.7'' = ''10.0.0.7''" "trim_space '' 203.0.113.9'' = ''203.0.113.9''"
  "forwarded_hops [''1.1.1.1, 203.0.113.9, 10.0.0.7''] = [''1.1.1.1'', '' 203.0.113.9'', '' 10.0.0.7'']"
  "forwarded_hops [''2.2.2.2'', '' 203.0.113.9, 10.0.0.7''] = [''2.2.2.2'', '' 203.0.113.9'', '' 10.0.0.7'']"
  by code_simp+

lemma lan_peer: "hostOf ''10.0.0.1:4711'' = ''10.0.0.1''"
  by code_simp

lemma lan_addrs:
  "toPrefixes lan = [(V4 167772160, 8)]"
  "Contains (V4 167772160, 8) (V4 167772161)" "Contains (V4 167772160, 8) (V4 167772167)" "\<not> Contains (V4 167772160, 8) (V4 3405803785)"
  "api_parseAddr ''10.0.0.1'' = Some (V4 167772161)" "api_parseAddr ''10.0.0.7'' = Some (V4 167772167)" "api_parseAddr ''203.0.113.9'' = Some (V4 3405803785)"
  by (simp_all add: lan_def toPrefix_def AddrFromSlice_def number_def mask_Size_def mask_bits_def Is4In6_def Contains_def
    api_parseAddr_def parse_v4_simps)

lemma ClientIP_unspoofable_witness:
  "ClientIP lan ''10.0.0.1:4711'' [''1.1.1.1, 203.0.113.9, 10.0.0.7''] = Some (V4 3405803785) \<and>
   ClientIP lan ''10.0.0.1:4711'' [''2.2.2.2'', '' 203.0.113.9, 10.0.0.7''] = Some (V4 3405803785)"
proof -
  have trusted: "\<not> trusted_hop lan '' 203.0.113.9''" "\<forall>p \<in> set ['' 10.0.0.7'']. trusted_hop lan p" "trusted_peer lan ''10.0.0.1:4711''"
    by (simp_all add: trusted_hop_def trusted_peer_def lan_hops lan_addrs lan_peer)
  have hops: "forwarded_hops [''1.1.1.1, 203.0.113.9, 10.0.0.7''] = [''1.1.1.1''] @ '' 203.0.113.9'' # ['' 10.0.0.7'']"
    "forwarded_hops [''2.2.2.2'', '' 203.0.113.9, 10.0.0.7''] = [''2.2.2.2''] @ '' 203.0.113.9'' # ['' 10.0.0.7'']"
    by (simp_all add: lan_hops)
  show ?thesis
    using ClientIP_unspoofable [OF hops(1) trusted(2), of "''10.0.0.1:4711''"]
      ClientIP_unspoofable [OF hops(2) trusted(2), of "''10.0.0.1:4711''"] trusted(1,3) lan_hops(2) lan_addrs(7) by simp
qed

end
