(* ===== verification/Config.thy ===== *)
theory Config
  imports ClientIP Paths
begin

text \<open>
  internal/config: the configuration from defaults, the YAML file, the environment and the secret
  files (config.go), and the type that never prints itself (secret.go). The file system, the
  environment and the two parsers outside the repository are arguments: \<open>yaml\<close> decodes the text of
  the file over a configuration, \<open>parse_url\<close> is what net/url makes of a URL (its scheme, its host
  and whether it embeds credentials).
\<close>

section \<open>Secrets (secret.go)\<close>

datatype secret = Secret (Reveal: string)

definition IsSet :: "secret \<Rightarrow> bool" where "IsSet s \<longleftrightarrow> Reveal s \<noteq> []"

definition redacted :: string where "redacted = ''[redacted]''"

text \<open>\<open>String\<close>, \<open>GoString\<close>, \<open>Format\<close>, \<open>MarshalText\<close>, \<open>MarshalJSON\<close> and \<open>LogValue\<close>.\<close>

datatype rendering = AsString | AsGoString | AsFormat | AsText | AsJSON | AsLogValue

fun render_secret :: "rendering \<Rightarrow> secret \<Rightarrow> string" where
  "render_secret AsJSON s = ''\"'' @ redacted @ ''\"''"
| "render_secret _ s = redacted"

section \<open>The configuration\<close>

record tls_config =
  tls_cert :: string
  tls_key :: string

record adguard_config =
  ag_url :: string
  ag_user :: string
  ag_pass :: secret
  ag_pass_file :: string

record ai_config =
  ai_provider :: string
  ai_key :: secret
  ai_key_file :: string
  ai_base_url :: string
  ai_model :: string

record config =
  c_listen :: string
  c_base_url :: string
  c_tls :: tls_config
  c_trusted :: "string list"
  c_adguard :: adguard_config
  c_data_dir :: string
  c_ai :: ai_config
  c_log_level :: string

definition config_Defaults :: config where
  "config_Defaults =
     \<lparr>c_listen = '':8080'', c_base_url = [], c_tls = \<lparr>tls_cert = [], tls_key = []\<rparr>, c_trusted = [],
      c_adguard = \<lparr>ag_url = [], ag_user = [], ag_pass = Secret [], ag_pass_file = []\<rparr>, c_data_dir = [],
      c_ai = \<lparr>ai_provider = [], ai_key = Secret [], ai_key_file = [], ai_base_url = [], ai_model = []\<rparr>,
      c_log_level = ''info''\<rparr>"

definition splitList :: "string \<Rightarrow> string list" where
  "splitList v = filter (\<lambda>s. s \<noteq> []) (map trim_space (split_on (CHR '','') v))"

definition EnvPrefix :: string where "EnvPrefix = ''ADGUARD_REWARD_''"

record env_entry =
  ev_key :: string
  ev_env :: string
  ev_set :: "string \<Rightarrow> config \<Rightarrow> config"

definition entry :: "string \<Rightarrow> string \<Rightarrow> (string \<Rightarrow> config \<Rightarrow> config) \<Rightarrow> env_entry" where
  "entry key env set_to = \<lparr>ev_key = key, ev_env = EnvPrefix @ env, ev_set = set_to\<rparr>"

definition on_tls :: "(tls_config \<Rightarrow> tls_config) \<Rightarrow> config \<Rightarrow> config" where
  "on_tls f c = c\<lparr>c_tls := f (c_tls c)\<rparr>"

definition on_adguard :: "(adguard_config \<Rightarrow> adguard_config) \<Rightarrow> config \<Rightarrow> config" where
  "on_adguard f c = c\<lparr>c_adguard := f (c_adguard c)\<rparr>"

definition on_ai :: "(ai_config \<Rightarrow> ai_config) \<Rightarrow> config \<Rightarrow> config" where
  "on_ai f c = c\<lparr>c_ai := f (c_ai c)\<rparr>"

definition envTable :: "env_entry list" where
  "envTable =
     [entry ''listen'' ''LISTEN'' (\<lambda>v. c_listen_update (\<lambda>_. v)),
      entry ''base_url'' ''BASE_URL'' (\<lambda>v. c_base_url_update (\<lambda>_. v)),
      entry ''tls.cert'' ''TLS_CERT'' (\<lambda>v. on_tls (tls_cert_update (\<lambda>_. v))),
      entry ''tls.key'' ''TLS_KEY'' (\<lambda>v. on_tls (tls_key_update (\<lambda>_. v))),
      entry ''trusted_proxies'' ''TRUSTED_PROXIES'' (\<lambda>v. c_trusted_update (\<lambda>_. splitList v)),
      entry ''adguard.url'' ''ADGUARD_URL'' (\<lambda>v. on_adguard (ag_url_update (\<lambda>_. v))),
      entry ''adguard.username'' ''ADGUARD_USERNAME'' (\<lambda>v. on_adguard (ag_user_update (\<lambda>_. v))),
      entry ''adguard.password'' ''ADGUARD_PASSWORD'' (\<lambda>v. on_adguard (ag_pass_update (\<lambda>_. Secret v))),
      entry ''adguard.password_file'' ''ADGUARD_PASSWORD_FILE'' (\<lambda>v. on_adguard (ag_pass_file_update (\<lambda>_. v))),
      entry ''data_dir'' ''DATA_DIR'' (\<lambda>v. c_data_dir_update (\<lambda>_. v)),
      entry ''ai.provider'' ''AI_PROVIDER'' (\<lambda>v. on_ai (ai_provider_update (\<lambda>_. v))),
      entry ''ai.api_key'' ''AI_API_KEY'' (\<lambda>v. on_ai (ai_key_update (\<lambda>_. Secret v))),
      entry ''ai.api_key_file'' ''AI_API_KEY_FILE'' (\<lambda>v. on_ai (ai_key_file_update (\<lambda>_. v))),
      entry ''ai.base_url'' ''AI_BASE_URL'' (\<lambda>v. on_ai (ai_base_url_update (\<lambda>_. v))),
      entry ''ai.model'' ''AI_MODEL'' (\<lambda>v. on_ai (ai_model_update (\<lambda>_. v))),
      entry ''log_level'' ''LOG_LEVEL'' (\<lambda>v. c_log_level_update (\<lambda>_. v))]"

definition apply_env :: "(string \<Rightarrow> string option) \<Rightarrow> config \<Rightarrow> config" where
  "apply_env lookup c =
     fold (\<lambda>e c. case lookup (ev_env e) of Some v \<Rightarrow> ev_set e v c | None \<Rightarrow> c) envTable c"

section \<open>Checking\<close>

datatype config_error =
    CannotOpen string
  | BadYAML string
  | BothSet string string
  | CannotRead string
  | EmptyFile string string
  | MissingRequired "string list"
  | BadAdGuardURL
  | HalfTLS
  | BadProxy string
  | BadLevel string

datatype level = LevelDebug | LevelInfo | LevelWarn | LevelError

definition parseLevel :: "string \<Rightarrow> level option" where
  "parseLevel s =
     (let l = to_lower s
      in if l = ''debug'' then Some LevelDebug else if l = ''info'' then Some LevelInfo
         else if l = ''warn'' \<or> l = ''warning'' then Some LevelWarn
         else if l = ''error'' then Some LevelError else None)"

definition SlogLevel :: "config \<Rightarrow> level" where
  "SlogLevel c = (case parseLevel (c_log_level c) of None \<Rightarrow> LevelInfo | Some l \<Rightarrow> l)"

definition config_parseCIDR :: "string \<Rightarrow> ip_net option" where
  "config_parseCIDR s =
     (case ParseCIDR s of
        Some n \<Rightarrow> Some n
      | None \<Rightarrow>
          (case ParseIP s of
             None \<Rightarrow> None
           | Some ip \<Rightarrow>
               (let (ip, bits) = (case To4 ip of Some v4 \<Rightarrow> (v4, 32) | None \<Rightarrow> (ip, 128))
                in Some \<lparr>in_ip = ip, in_mask = CIDRMask bits bits\<rparr>)))"

fun TrustedProxyNets :: "string list \<Rightarrow> ip_net list" where
  "TrustedProxyNets [] = []"
| "TrustedProxyNets (e # es) =
     (case config_parseCIDR e of Some n \<Rightarrow> n # TrustedProxyNets es | None \<Rightarrow> TrustedProxyNets es)"

type_synonym url_parser = "string \<Rightarrow> (string \<times> string \<times> bool) option"

definition validateURL :: "url_parser \<Rightarrow> string \<Rightarrow> bool" where
  "validateURL parse_url raw =
     (case parse_url raw of
        None \<Rightarrow> False
      | Some (scheme, host, has_user) \<Rightarrow>
          if scheme \<noteq> ''http'' \<and> scheme \<noteq> ''https'' then False
          else if host = [] then False
          else \<not> has_user)"

definition validate :: "url_parser \<Rightarrow> config \<Rightarrow> config_error option" where
  "validate parse_url c =
     (let missing = (if ag_url (c_adguard c) = [] then [''adguard.url''] else []) @
                    (if ag_user (c_adguard c) = [] then [''adguard.username''] else []) @
                    (if \<not> IsSet (ag_pass (c_adguard c)) then [''adguard.password''] else [])
      in if missing \<noteq> [] then Some (MissingRequired missing)
         else if \<not> validateURL parse_url (ag_url (c_adguard c)) then Some BadAdGuardURL
         else if (tls_cert (c_tls c) = []) \<noteq> (tls_key (c_tls c) = []) then Some HalfTLS
         else case find (\<lambda>e. config_parseCIDR e = None) (c_trusted c) of
                Some e \<Rightarrow> Some (BadProxy e)
              | None \<Rightarrow> if parseLevel (c_log_level c) = None then Some (BadLevel (c_log_level c)) else None)"

section \<open>Loading\<close>

definition defaultDataDir :: string where "defaultDataDir = ''./data''"

definition resolveDataDir :: "string \<Rightarrow> (string \<Rightarrow> string option) \<Rightarrow> string" where
  "resolveDataDir explicit lookup =
     (if explicit \<noteq> [] then explicit
      else case lookup ''STATE_DIRECTORY'' of
             Some v \<Rightarrow>
               (let first = takeWhile (\<lambda>c. c \<noteq> CHR '':'') v in if first \<noteq> [] then first else defaultDataDir)
           | None \<Rightarrow> defaultDataDir)"

text \<open>\<open>strings.TrimRight(s, "\r\n")\<close>.\<close>

definition trim_newlines :: "string \<Rightarrow> string" where
  "trim_newlines s = rev (dropWhile (\<lambda>c. c = char_of (13 :: nat) \<or> c = char_of (10 :: nat)) (rev s))"

definition resolveSecretFile ::
  "(string \<Rightarrow> string option) \<Rightarrow> string \<Rightarrow> string \<Rightarrow> string \<Rightarrow> string \<Rightarrow> secret \<Rightarrow> config_error + secret" where
  "resolveSecretFile read_file baseDir key fileKey fileVal dst =
     (if fileVal = [] then Inr dst
      else if IsSet dst then Inl (BothSet key fileKey)
      else let p = (if \<not> IsAbs fileVal then path_Join baseDir fileVal else fileVal)
           in case read_file p of
                None \<Rightarrow> Inl (CannotRead fileKey)
              | Some b \<Rightarrow>
                  (let v = trim_newlines b in if v = [] then Inl (EmptyFile fileKey fileVal) else Inr (Secret v)))"

datatype opened = Opened string | NotExist | OpenFailed

record environment =
  n_open :: "string \<Rightarrow> opened"
  n_read :: "string \<Rightarrow> string option"
  n_lookup :: "string \<Rightarrow> string option"
  n_yaml :: "string \<Rightarrow> config \<Rightarrow> config option"
  n_url :: url_parser

text \<open>The base configuration and the directory secret files are relative to.\<close>

definition read_base :: "environment \<Rightarrow> string \<Rightarrow> bool \<Rightarrow> config_error + (string \<times> config)" where
  "read_base env path explicit =
     (case n_open env path of
        Opened text \<Rightarrow>
          (case n_yaml env text config_Defaults of
             None \<Rightarrow> Inl (BadYAML path)
           | Some c \<Rightarrow> Inr (path_Dir path, c))
      | NotExist \<Rightarrow> if \<not> explicit then Inr ([], config_Defaults) else Inl (CannotOpen path)
      | OpenFailed \<Rightarrow> Inl (CannotOpen path))"

definition Load :: "environment \<Rightarrow> string \<Rightarrow> bool \<Rightarrow> config_error + config" where
  "Load env path explicit =
     res_bind (read_base env path explicit) (\<lambda>(baseDir, base).
       let c1 = apply_env (n_lookup env) base;
           c2 = c1\<lparr>c_data_dir := resolveDataDir (c_data_dir c1) (n_lookup env)\<rparr>
       in res_bind (resolveSecretFile (n_read env) baseDir ''adguard.password'' ''adguard.password_file''
                      (ag_pass_file (c_adguard c2)) (ag_pass (c_adguard c2))) (\<lambda>pass.
          let c3 = on_adguard (ag_pass_update (\<lambda>_. pass)) c2
          in res_bind (resolveSecretFile (n_read env) baseDir ''ai.api_key'' ''ai.api_key_file''
                         (ai_key_file (c_ai c3)) (ai_key (c_ai c3))) (\<lambda>key.
             let c4 = on_ai (ai_key_update (\<lambda>_. key)) c3
             in case validate (n_url env) c4 of Some e \<Rightarrow> Inl e | None \<Rightarrow> Inr c4)))"

section \<open>Where each value comes from\<close>

lemma case_same [simp]: "(case x of None \<Rightarrow> y | Some _ \<Rightarrow> y) = y"
  by (cases x) simp_all

lemma on_simps [simp]:
  "c_listen (on_tls f c) = c_listen c" "c_listen (on_adguard g c) = c_listen c" "c_listen (on_ai h c) = c_listen c"
  "c_base_url (on_tls f c) = c_base_url c" "c_base_url (on_adguard g c) = c_base_url c" "c_base_url (on_ai h c) = c_base_url c"
  "c_tls (on_tls f c) = f (c_tls c)" "c_tls (on_adguard g c) = c_tls c" "c_tls (on_ai h c) = c_tls c"
  "c_trusted (on_tls f c) = c_trusted c" "c_trusted (on_adguard g c) = c_trusted c" "c_trusted (on_ai h c) = c_trusted c"
  "c_adguard (on_tls f c) = c_adguard c" "c_adguard (on_adguard g c) = g (c_adguard c)" "c_adguard (on_ai h c) = c_adguard c"
  "c_data_dir (on_tls f c) = c_data_dir c" "c_data_dir (on_adguard g c) = c_data_dir c" "c_data_dir (on_ai h c) = c_data_dir c"
  "c_ai (on_tls f c) = c_ai c" "c_ai (on_adguard g c) = c_ai c" "c_ai (on_ai h c) = h (c_ai c)"
  "c_log_level (on_tls f c) = c_log_level c" "c_log_level (on_adguard g c) = c_log_level c" "c_log_level (on_ai h c) = c_log_level c"
  by (simp_all add: on_tls_def on_adguard_def on_ai_def)

definition env_or :: "(string \<Rightarrow> string option) \<Rightarrow> string \<Rightarrow> string \<Rightarrow> string" where
  "env_or lookup name d = (case lookup (EnvPrefix @ name) of Some v \<Rightarrow> v | None \<Rightarrow> d)"

definition env_step :: "(string \<Rightarrow> string option) \<Rightarrow> env_entry \<Rightarrow> config \<Rightarrow> config" where
  "env_step l e c = (case l (ev_env e) of Some v \<Rightarrow> ev_set e v c | None \<Rightarrow> c)"

text \<open>The setters and the names of the table, apart.\<close>

lemma env_sets:
  "map ev_set envTable =
     [\<lambda>v. c_listen_update (\<lambda>_. v), \<lambda>v. c_base_url_update (\<lambda>_. v), \<lambda>v. on_tls (tls_cert_update (\<lambda>_. v)),
      \<lambda>v. on_tls (tls_key_update (\<lambda>_. v)), \<lambda>v. c_trusted_update (\<lambda>_. splitList v),
      \<lambda>v. on_adguard (ag_url_update (\<lambda>_. v)), \<lambda>v. on_adguard (ag_user_update (\<lambda>_. v)),
      \<lambda>v. on_adguard (ag_pass_update (\<lambda>_. Secret v)), \<lambda>v. on_adguard (ag_pass_file_update (\<lambda>_. v)),
      \<lambda>v. c_data_dir_update (\<lambda>_. v), \<lambda>v. on_ai (ai_provider_update (\<lambda>_. v)), \<lambda>v. on_ai (ai_key_update (\<lambda>_. Secret v)),
      \<lambda>v. on_ai (ai_key_file_update (\<lambda>_. v)), \<lambda>v. on_ai (ai_base_url_update (\<lambda>_. v)),
      \<lambda>v. on_ai (ai_model_update (\<lambda>_. v)), \<lambda>v. c_log_level_update (\<lambda>_. v)]"
  by (simp only: envTable_def entry_def list.map env_entry.simps)

lemma env_names:
  "map ev_env envTable =
     map ((@) EnvPrefix) [''LISTEN'', ''BASE_URL'', ''TLS_CERT'', ''TLS_KEY'', ''TRUSTED_PROXIES'', ''ADGUARD_URL'',
       ''ADGUARD_USERNAME'', ''ADGUARD_PASSWORD'', ''ADGUARD_PASSWORD_FILE'', ''DATA_DIR'', ''AI_PROVIDER'', ''AI_API_KEY'',
       ''AI_API_KEY_FILE'', ''AI_BASE_URL'', ''AI_MODEL'', ''LOG_LEVEL'']"
  by (simp only: envTable_def entry_def list.map env_entry.simps)

lemma fold_env_keeps:
  "\<forall>f \<in> ev_set ` set es. \<forall>v c. sel (f v c) = sel c \<Longrightarrow> sel (fold (env_step l) es c) = sel c"
  by (induction es arbitrary: c) (auto simp: env_step_def split: option.splits)

text \<open>One entry sets a field and the others leave it alone.\<close>

lemma env_field:
  assumes "map ev_env envTable ! k = EnvPrefix @ name" "k < length (map ev_set envTable)"
    "\<forall>f \<in> set (take k (map ev_set envTable)). \<forall>v c. sel (f v c) = sel c"
    "\<forall>f \<in> set (drop (Suc k) (map ev_set envTable)). \<forall>v c. sel (f v c) = sel c"
    "\<forall>v c. sel ((map ev_set envTable ! k) v c) = g v"
  shows "sel (apply_env l y) = (case l (EnvPrefix @ name) of Some v \<Rightarrow> g v | None \<Rightarrow> sel y)"
proof -
  have k: "k < length envTable" using assms(2) by simp
  have step: "env_step l = (\<lambda>e c. case l (ev_env e) of Some v \<Rightarrow> ev_set e v c | None \<Rightarrow> c)"
    by (intro ext) (simp add: env_step_def)
  have "apply_env l y = fold (env_step l) (take k envTable @ envTable ! k # drop (Suc k) envTable) y"
    using id_take_nth_drop [OF k] by (simp only: apply_env_def step)
  then have "sel (apply_env l y) = sel (env_step l (envTable ! k) (fold (env_step l) (take k envTable) y))"
    using fold_env_keeps [of "drop (Suc k) envTable" sel l] assms(4) by (simp add: drop_map)
  also have "\<dots> = (case l (EnvPrefix @ name) of Some v \<Rightarrow> g v | None \<Rightarrow> sel (fold (env_step l) (take k envTable) y))"
    using assms(1,5) k by (simp add: env_step_def split: option.split)
  also have "sel (fold (env_step l) (take k envTable) y) = sel y"
    using fold_env_keeps [of "take k envTable" sel l y] assms(3) by (simp add: take_map)
  finally show ?thesis .
qed

lemmas env_field_of = env_field [unfolded env_sets env_names]

lemma apply_env_fields:
  "c_listen (apply_env l y) = env_or l ''LISTEN'' (c_listen y)"
  "c_trusted (apply_env l y) = (case l (EnvPrefix @ ''TRUSTED_PROXIES'') of Some v \<Rightarrow> splitList v | None \<Rightarrow> c_trusted y)"
  "c_data_dir (apply_env l y) = env_or l ''DATA_DIR'' (c_data_dir y)"
  "c_log_level (apply_env l y) = env_or l ''LOG_LEVEL'' (c_log_level y)"
  "c_base_url (apply_env l y) = env_or l ''BASE_URL'' (c_base_url y)"
  using env_field_of [of 0 "''LISTEN''" c_listen "\<lambda>v. v" l y] env_field_of [of 1 "''BASE_URL''" c_base_url "\<lambda>v. v" l y]
    env_field_of [of 4 "''TRUSTED_PROXIES''" c_trusted splitList l y]
    env_field_of [of 9 "''DATA_DIR''" c_data_dir "\<lambda>v. v" l y] env_field_of [of 15 "''LOG_LEVEL''" c_log_level "\<lambda>v. v" l y]
  by (simp_all add: env_or_def)

lemma apply_env_groups:
  "tls_cert (c_tls (apply_env l y)) = env_or l ''TLS_CERT'' (tls_cert (c_tls y))"
  "tls_key (c_tls (apply_env l y)) = env_or l ''TLS_KEY'' (tls_key (c_tls y))"
  "ag_url (c_adguard (apply_env l y)) = env_or l ''ADGUARD_URL'' (ag_url (c_adguard y))"
  "ag_user (c_adguard (apply_env l y)) = env_or l ''ADGUARD_USERNAME'' (ag_user (c_adguard y))"
  "Reveal (ag_pass (c_adguard (apply_env l y))) = env_or l ''ADGUARD_PASSWORD'' (Reveal (ag_pass (c_adguard y)))"
  "ag_pass_file (c_adguard (apply_env l y)) = env_or l ''ADGUARD_PASSWORD_FILE'' (ag_pass_file (c_adguard y))"
  using env_field_of [of 2 "''TLS_CERT''" "\<lambda>c. tls_cert (c_tls c)" "\<lambda>v. v" l y]
    env_field_of [of 3 "''TLS_KEY''" "\<lambda>c. tls_key (c_tls c)" "\<lambda>v. v" l y]
    env_field_of [of 5 "''ADGUARD_URL''" "\<lambda>c. ag_url (c_adguard c)" "\<lambda>v. v" l y]
    env_field_of [of 6 "''ADGUARD_USERNAME''" "\<lambda>c. ag_user (c_adguard c)" "\<lambda>v. v" l y]
    env_field_of [of 7 "''ADGUARD_PASSWORD''" "\<lambda>c. Reveal (ag_pass (c_adguard c))" "\<lambda>v. v" l y]
    env_field_of [of 8 "''ADGUARD_PASSWORD_FILE''" "\<lambda>c. ag_pass_file (c_adguard c)" "\<lambda>v. v" l y]
  by (simp_all add: env_or_def)

lemma apply_env_ai:
  "ai_provider (c_ai (apply_env l y)) = env_or l ''AI_PROVIDER'' (ai_provider (c_ai y))"
  "Reveal (ai_key (c_ai (apply_env l y))) = env_or l ''AI_API_KEY'' (Reveal (ai_key (c_ai y)))"
  "ai_key_file (c_ai (apply_env l y)) = env_or l ''AI_API_KEY_FILE'' (ai_key_file (c_ai y))"
  "ai_base_url (c_ai (apply_env l y)) = env_or l ''AI_BASE_URL'' (ai_base_url (c_ai y))"
  "ai_model (c_ai (apply_env l y)) = env_or l ''AI_MODEL'' (ai_model (c_ai y))"
  using env_field_of [of 10 "''AI_PROVIDER''" "\<lambda>c. ai_provider (c_ai c)" "\<lambda>v. v" l y]
    env_field_of [of 11 "''AI_API_KEY''" "\<lambda>c. Reveal (ai_key (c_ai c))" "\<lambda>v. v" l y]
    env_field_of [of 12 "''AI_API_KEY_FILE''" "\<lambda>c. ai_key_file (c_ai c)" "\<lambda>v. v" l y]
    env_field_of [of 13 "''AI_BASE_URL''" "\<lambda>c. ai_base_url (c_ai c)" "\<lambda>v. v" l y]
    env_field_of [of 14 "''AI_MODEL''" "\<lambda>c. ai_model (c_ai c)" "\<lambda>v. v" l y]
  by (simp_all add: env_or_def)

text \<open>A secret is the inline one or, never both, the content of its file without the final newlines.\<close>

definition secret_from :: "(string \<Rightarrow> string option) \<Rightarrow> string \<Rightarrow> string \<Rightarrow> string \<Rightarrow> string \<Rightarrow> bool" where
  "secret_from rd dir file inline v \<longleftrightarrow>
     (if file = [] then v = inline
      else inline = [] \<and> v \<noteq> [] \<and>
        (\<exists>b. rd (if IsAbs file then file else path_Join dir file) = Some b \<and> v = trim_newlines b))"

lemma resolveSecretFile_from:
  "resolveSecretFile rd dir key fileKey file dst = Inr s \<Longrightarrow> secret_from rd dir file (Reveal dst) (Reveal s)"
  by (auto simp: resolveSecretFile_def secret_from_def IsSet_def Let_def split: if_splits option.splits)

text \<open>What a file and the defaults give before the environment is applied.\<close>

definition base_config :: "environment \<Rightarrow> string \<Rightarrow> bool \<Rightarrow> string \<Rightarrow> config \<Rightarrow> bool" where
  "base_config env path explicit dir y \<longleftrightarrow>
     (\<exists>doc. n_open env path = Opened doc \<and> n_yaml env doc config_Defaults = Some y \<and> dir = path_Dir path) \<or>
     n_open env path = NotExist \<and> \<not> explicit \<and> y = config_Defaults \<and> dir = []"

lemma read_base_config: "read_base env path explicit = Inr (dir, y) \<Longrightarrow> base_config env path explicit dir y"
  by (auto simp: read_base_def base_config_def split: opened.splits option.splits if_splits)

lemma TrustedProxyNets_all:
  "\<forall>e \<in> set es. config_parseCIDR e \<noteq> None \<Longrightarrow> map Some (TrustedProxyNets es) = map config_parseCIDR es"
  by (induction es) auto

lemma validate_ok:
  assumes "validate parse_url c = None"
  shows "ag_url (c_adguard c) \<noteq> [] \<and> ag_user (c_adguard c) \<noteq> [] \<and> IsSet (ag_pass (c_adguard c)) \<and>
    (\<exists>scheme host. parse_url (ag_url (c_adguard c)) = Some (scheme, host, False) \<and> scheme \<in> {''http'', ''https''} \<and> host \<noteq> []) \<and>
    (tls_cert (c_tls c) = [] \<longleftrightarrow> tls_key (c_tls c) = []) \<and>
    map Some (TrustedProxyNets (c_trusted c)) = map config_parseCIDR (c_trusted c) \<and>
    to_lower (c_log_level c) \<in> {''debug'', ''info'', ''warn'', ''warning'', ''error''}"
proof -
  have "\<forall>e \<in> set (c_trusted c). config_parseCIDR e \<noteq> None"
    using assms by (auto simp: validate_def Let_def find_None_iff split: if_splits option.splits)
  note nets = TrustedProxyNets_all [OF this]
  have "validateURL parse_url (ag_url (c_adguard c))" "parseLevel (c_log_level c) \<noteq> None"
    using assms by (auto simp: validate_def Let_def split: if_splits option.splits)
  then have "\<exists>scheme host. parse_url (ag_url (c_adguard c)) = Some (scheme, host, False) \<and> scheme \<in> {''http'', ''https''} \<and> host \<noteq> []"
    "to_lower (c_log_level c) \<in> {''debug'', ''info'', ''warn'', ''warning'', ''error''}"
    by (auto simp: validateURL_def parseLevel_def Let_def split: option.splits if_splits)
  with nets assms show ?thesis
    by (auto simp: validate_def Let_def split: if_splits option.splits)
qed

lemma Load_Inr:
  assumes "Load env path explicit = Inr c"
  obtains dir y pass key where "read_base env path explicit = Inr (dir, y)"
    "resolveSecretFile (n_read env) dir ''adguard.password'' ''adguard.password_file''
       (ag_pass_file (c_adguard (apply_env (n_lookup env) y))) (ag_pass (c_adguard (apply_env (n_lookup env) y))) = Inr pass"
    "resolveSecretFile (n_read env) dir ''ai.api_key'' ''ai.api_key_file''
       (ai_key_file (c_ai (apply_env (n_lookup env) y))) (ai_key (c_ai (apply_env (n_lookup env) y))) = Inr key"
    "c = on_ai (ai_key_update (\<lambda>_. key)) (on_adguard (ag_pass_update (\<lambda>_. pass))
       ((apply_env (n_lookup env) y)\<lparr>c_data_dir := resolveDataDir (c_data_dir (apply_env (n_lookup env) y)) (n_lookup env)\<rparr>))"
    "validate (n_url env) c = None"
  using assms that by (cases "read_base env path explicit") (auto simp: Load_def Let_def split: option.splits)

text \<open>
  Property C16. A configuration that loads takes every one of its sixteen values from the environment when the
  variable is set, even to the empty string, else from the file, else from the defaults; data_dir falls back to
  the state directory; the two secrets are the inline value or, never both, the content of their file. And it is
  complete: user and password are there, the URL is one of http or https with a host and without credentials,
  the certificate pair is whole, every trusted proxy is a network, the log level has a name.
\<close>

theorem Load_sources:
  assumes "Load env path explicit = Inr c"
  defines "from_env \<equiv> env_or (n_lookup env)" and "ag \<equiv> c_adguard c" and "ai \<equiv> c_ai c"
  shows "\<exists>dir y. base_config env path explicit dir y \<and>
    c_listen c = from_env ''LISTEN'' (c_listen y) \<and> c_base_url c = from_env ''BASE_URL'' (c_base_url y) \<and>
    c_log_level c = from_env ''LOG_LEVEL'' (c_log_level y) \<and>
    c_trusted c = (case n_lookup env (EnvPrefix @ ''TRUSTED_PROXIES'') of Some v \<Rightarrow> splitList v | None \<Rightarrow> c_trusted y) \<and>
    tls_cert (c_tls c) = from_env ''TLS_CERT'' (tls_cert (c_tls y)) \<and> tls_key (c_tls c) = from_env ''TLS_KEY'' (tls_key (c_tls y)) \<and>
    c_data_dir c = resolveDataDir (from_env ''DATA_DIR'' (c_data_dir y)) (n_lookup env) \<and>
    ag_url ag = from_env ''ADGUARD_URL'' (ag_url (c_adguard y)) \<and>
    ag_user ag = from_env ''ADGUARD_USERNAME'' (ag_user (c_adguard y)) \<and>
    ag_pass_file ag = from_env ''ADGUARD_PASSWORD_FILE'' (ag_pass_file (c_adguard y)) \<and>
    secret_from (n_read env) dir (ag_pass_file ag) (from_env ''ADGUARD_PASSWORD'' (Reveal (ag_pass (c_adguard y)))) (Reveal (ag_pass ag)) \<and>
    ai_provider ai = from_env ''AI_PROVIDER'' (ai_provider (c_ai y)) \<and>
    ai_key_file ai = from_env ''AI_API_KEY_FILE'' (ai_key_file (c_ai y)) \<and>
    secret_from (n_read env) dir (ai_key_file ai) (from_env ''AI_API_KEY'' (Reveal (ai_key (c_ai y)))) (Reveal (ai_key ai)) \<and>
    ai_base_url ai = from_env ''AI_BASE_URL'' (ai_base_url (c_ai y)) \<and> ai_model ai = from_env ''AI_MODEL'' (ai_model (c_ai y)) \<and>
    ag_user ag \<noteq> [] \<and> Reveal (ag_pass ag) \<noteq> [] \<and>
    (\<exists>scheme host. n_url env (ag_url ag) = Some (scheme, host, False) \<and> scheme \<in> {''http'', ''https''} \<and> host \<noteq> []) \<and>
    (tls_cert (c_tls c) = [] \<longleftrightarrow> tls_key (c_tls c) = []) \<and>
    map Some (TrustedProxyNets (c_trusted c)) = map config_parseCIDR (c_trusted c) \<and>
    to_lower (c_log_level c) \<in> {''debug'', ''info'', ''warn'', ''warning'', ''error''}"
proof -
  obtain dir y pass key where y: "read_base env path explicit = Inr (dir, y)" and p:
    "resolveSecretFile (n_read env) dir ''adguard.password'' ''adguard.password_file''
       (ag_pass_file (c_adguard (apply_env (n_lookup env) y))) (ag_pass (c_adguard (apply_env (n_lookup env) y))) = Inr pass"
    and k: "resolveSecretFile (n_read env) dir ''ai.api_key'' ''ai.api_key_file''
       (ai_key_file (c_ai (apply_env (n_lookup env) y))) (ai_key (c_ai (apply_env (n_lookup env) y))) = Inr key"
    and c: "c = on_ai (ai_key_update (\<lambda>_. key)) (on_adguard (ag_pass_update (\<lambda>_. pass))
       ((apply_env (n_lookup env) y)\<lparr>c_data_dir := resolveDataDir (c_data_dir (apply_env (n_lookup env) y)) (n_lookup env)\<rparr>))"
    and v: "validate (n_url env) c = None"
    by (rule Load_Inr [OF assms(1)])
  let ?e = "apply_env (n_lookup env) y"
  have fields: "c_listen c = c_listen ?e" "c_base_url c = c_base_url ?e" "c_log_level c = c_log_level ?e"
    "c_trusted c = c_trusted ?e" "c_tls c = c_tls ?e" "c_data_dir c = resolveDataDir (c_data_dir ?e) (n_lookup env)"
    "ag_url ag = ag_url (c_adguard ?e)" "ag_user ag = ag_user (c_adguard ?e)" "ag_pass_file ag = ag_pass_file (c_adguard ?e)"
    "ai_provider ai = ai_provider (c_ai ?e)" "ai_key_file ai = ai_key_file (c_ai ?e)" "ai_base_url ai = ai_base_url (c_ai ?e)"
    "ai_model ai = ai_model (c_ai ?e)"
    by (simp_all add: c ag_def ai_def)
  have secrets: "secret_from (n_read env) dir (ag_pass_file ag) (from_env ''ADGUARD_PASSWORD'' (Reveal (ag_pass (c_adguard y)))) (Reveal (ag_pass ag))"
    "secret_from (n_read env) dir (ai_key_file ai) (from_env ''AI_API_KEY'' (Reveal (ai_key (c_ai y)))) (Reveal (ai_key ai))"
    using resolveSecretFile_from [OF p] resolveSecretFile_from [OF k]
    by (simp_all add: apply_env_groups(5) apply_env_ai(2) fields(9,11) from_env_def) (simp_all add: c ag_def ai_def)
  have valid: "ag_user ag \<noteq> []" "Reveal (ag_pass ag) \<noteq> []"
    "\<exists>scheme host. n_url env (ag_url ag) = Some (scheme, host, False) \<and> scheme \<in> {''http'', ''https''} \<and> host \<noteq> []"
    "tls_cert (c_tls c) = [] \<longleftrightarrow> tls_key (c_tls c) = []"
    "map Some (TrustedProxyNets (c_trusted c)) = map config_parseCIDR (c_trusted c)"
    "to_lower (c_log_level c) \<in> {''debug'', ''info'', ''warn'', ''warning'', ''error''}"
    using validate_ok [OF v, folded ag_def, unfolded IsSet_def] by blast+
  show ?thesis
    by (rule exI [of _ dir], rule exI [of _ y], intro conjI read_base_config [OF y] secrets valid)
      (simp_all only: fields apply_env_fields apply_env_groups apply_env_ai from_env_def)
qed

text \<open>The environment alone, with an empty variable and a password file.\<close>

definition demo_env :: environment where
  "demo_env = \<lparr>n_open = (\<lambda>_. NotExist), n_read = (\<lambda>p. if p = ''/run/pw'' then Some ''hunter2'' else None),
     n_lookup = map_of [(''ADGUARD_REWARD_ADGUARD_URL'', ''http://ag''), (''ADGUARD_REWARD_ADGUARD_USERNAME'', ''svc''),
                        (''ADGUARD_REWARD_ADGUARD_PASSWORD_FILE'', ''/run/pw''), (''ADGUARD_REWARD_LISTEN'', [])],
     n_yaml = (\<lambda>_. Some), n_url = (\<lambda>_. Some (''http'', ''ag'', False))\<rparr>"

definition demo_config :: config where
  "demo_config = config_Defaults\<lparr>c_listen := [], c_data_dir := ''./data'',
     c_adguard := \<lparr>ag_url = ''http://ag'', ag_user = ''svc'', ag_pass = Secret ''hunter2'', ag_pass_file = ''/run/pw''\<rparr>\<rparr>"

lemma Load_sources_witness:
  "c_listen demo_config = [] \<and> c_base_url demo_config = [] \<and> Reveal (ag_pass (c_adguard demo_config)) = ''hunter2'' \<and>
   map Some (TrustedProxyNets (c_trusted demo_config)) = map config_parseCIDR (c_trusted demo_config)"
proof -
  have "Load demo_env ''config.yaml'' False = Inr demo_config"
    by code_simp
  from Load_sources [OF this]
  have "map Some (TrustedProxyNets (c_trusted demo_config)) = map config_parseCIDR (c_trusted demo_config)" by blast
  then show ?thesis by (simp add: demo_config_def config_Defaults_def)
qed

end
