(* ===== verification/ApiHttp.thy ===== *)
theory ApiHttp
  imports Engine Auth RateLimit ClientIP Blocked Devices StoreButtons
begin

text \<open>
  internal/api: what all handlers share. A request is its method, path segments, headers and body;
  a response its status, its headers, its Set-Cookie lines and its body, a JSON document kept as
  a value of the view types (\<open>payload\<close>) with its times as the Unix seconds RFC 3339 shows. A
  message is kept as its format and arguments. The state is the engine's world, the limiter and
  the random source; a handler is one function on it (a login is also cut into its phases, which
  ApiLogin interleaves), and each dependency is a record of functions, as Deps has them (api.go).
\<close>

section \<open>Requests\<close>

text \<open>
  A body: the first JSON value with the number of bytes up to its end, the position of the next
  byte that is neither white space nor a closing bracket, and whether the rest can be read.
\<close>

record request_body =
  bd_first :: "(json \<times> nat) option"
  bd_more :: "nat option"
  bd_readable :: bool

record api_request =
  hr_method :: string
  hr_path :: "string list"
  hr_remote :: string
  hr_header :: "string \<Rightarrow> string list"
  hr_cookie :: "string option"
  hr_body :: request_body
  hr_gone :: bool

definition header_Get :: "api_request \<Rightarrow> string \<Rightarrow> string" where
  "header_Get r k = (case hr_header r k of [] \<Rightarrow> [] | v # _ \<Rightarrow> v)"

section \<open>Responses (errors.go)\<close>

datatype arg = AStr string | AInt int | AQuoted string

datatype message = Fmt string "arg list"

abbreviation Msg :: "string \<Rightarrow> message" where "Msg s \<equiv> Fmt s []"

text \<open>The em dash of the messages, in UTF-8.\<close>

definition dash :: string where "dash = [CHR '' '', CHR 0xE2, CHR 0x80, CHR 0x94, CHR '' '']"

record client_view =
  clv_name :: string
  clv_ids :: "string list"
  clv_global :: bool
  clv_children :: "child_ref list"

text \<open>The shared devices of a grant: a client and its other owners.\<close>

type_synonym shared_ref = "string \<times> child_ref list"

record grant_view =
  grv_id :: id
  grv_child :: id
  grv_services :: "string list"
  grv_clients :: "string list"
  grv_shared :: "shared_ref list"
  grv_started :: int
  grv_ends :: int

record session_view =
  sev_id :: id
  sev_created :: int
  sev_last_seen :: int
  sev_current :: bool

text \<open>The icon is a service id; the duration is in whole seconds.\<close>

record button_view =
  btv_id :: id
  btv_label :: string
  btv_child :: id
  btv_services :: "string list"
  btv_icon :: string
  btv_duration :: int

datatype payload =
    PError string message
  | PConflictGrant string message id
  | PMe string int
  | PSessions "session_view list"
  | PRevoked nat
  | PChildren "child list"
  | PChild child
  | PClients "client_view list" "unlabelled_device list"
  | PClient client_view
  | PServices "service list"
  | PBlocked child_ref blocked_view
  | POffer "string list" "(string \<times> child_ref \<times> string list) list"
  | PMigrated "string list"
  | PGrants "grant_view list"
  | PCreated id int bool "string list" "shared_ref list"
  | PExtended id int
  | PButtons "button_view list"
  | PNotFoundPage

text \<open>What a handler writes: a status, Retry-After, a cookie to set, and a body.\<close>

record out =
  o_status :: nat
  o_retry :: "int option"
  o_cookie :: "cookie option"
  o_body :: "payload option"

definition api_writeJSON :: "nat \<Rightarrow> payload \<Rightarrow> out" where
  "api_writeJSON status v = \<lparr>o_status = status, o_retry = None, o_cookie = None, o_body = Some v\<rparr>"

definition writeError :: "nat \<Rightarrow> string \<Rightarrow> message \<Rightarrow> out" where
  "writeError status code msg = api_writeJSON status (PError code msg)"

definition noContent :: out where
  "noContent = \<lparr>o_status = 204, o_retry = None, o_cookie = None, o_body = None\<rparr>"

text \<open>The codes of the envelope.\<close>

definition CodeBadRequest :: string where "CodeBadRequest = ''bad_request''"
definition CodeUnauthorized :: string where "CodeUnauthorized = ''unauthorized''"
definition CodeForbidden :: string where "CodeForbidden = ''forbidden''"
definition CodeBadCredentials :: string where "CodeBadCredentials = ''bad_credentials''"
definition CodeAdGuardUnavailable :: string where "CodeAdGuardUnavailable = ''adguard_unavailable''"
definition CodeRateLimited :: string where "CodeRateLimited = ''rate_limited''"
definition CodeNotFound :: string where "CodeNotFound = ''not_found''"
definition CodeConflict :: string where "CodeConflict = ''conflict''"
definition CodeUnprocessable :: string where "CodeUnprocessable = ''unprocessable''"

section \<open>Dependencies (api.go)\<close>

record 's child_store =
  cs_ListChildren :: "'s \<Rightarrow> (store_error + child list) \<times> 's"
  cs_GetChild :: "id \<Rightarrow> 's \<Rightarrow> (store_error + child) \<times> 's"
  cs_CreateChild :: "time \<Rightarrow> string \<Rightarrow> string list \<Rightarrow> 's \<Rightarrow> (store_error + child) \<times> 's"
  cs_UpdateChild :: "id \<Rightarrow> string \<Rightarrow> string list \<Rightarrow> 's \<Rightarrow> (store_error + child) \<times> 's"
  cs_DeleteChild :: "id \<Rightarrow> 's \<Rightarrow> (store_error + bool) \<times> 's"

record 's button_store =
  bs_ListButtons :: "'s \<Rightarrow> (store_error + button list) \<times> 's"
  bs_ReplaceButtons :: "button list \<Rightarrow> 's \<Rightarrow> (store_error + button list) \<times> 's"

record 'w api_adguard =
  aa_Login :: "string \<Rightarrow> string \<Rightarrow> 'w \<Rightarrow> (ag_error + unit) \<times> 'w"
  aa_Clients :: "'w \<Rightarrow> (ag_error + clients_result) \<times> 'w"
  aa_Services :: "'w \<Rightarrow> (ag_error + service list) \<times> 'w"
  aa_MigrateFromGlobal :: "string \<Rightarrow> string list \<Rightarrow> 'w \<Rightarrow> (ag_error + unit) \<times> 'w"
  aa_Leases :: "'w \<Rightarrow> (ag_error + lease list) \<times> 'w"

record ('s, 'w) deps =
  d_adguard :: "'w api_adguard"
  d_trusted :: "ip_net list"
  d_auth :: "'s manager option"
  d_sessions :: "'s session_store"
  d_children :: "'s child_store"
  d_grants :: "('s, 'w) engine"
  d_buttons :: "'s button_store"
  d_sha :: "bytes \<Rightarrow> bytes"
  d_render :: "cookie \<Rightarrow> string"

record ('s, 'w) api_state =
  a_world :: "('s, 'w) world"
  a_limiter :: limiter
  a_random :: "bytes option list"

definition on_world :: "(('s, 'w) world \<Rightarrow> 'r \<times> ('s, 'w) world) \<Rightarrow> ('s, 'w) api_state \<Rightarrow> 'r \<times> ('s, 'w) api_state" where
  "on_world f a = (case f (a_world a) of (r, w) \<Rightarrow> (r, a\<lparr>a_world := w\<rparr>))"

definition call_store :: "('s \<Rightarrow> 'r \<times> 's) \<Rightarrow> ('s, 'w) api_state \<Rightarrow> 'r \<times> ('s, 'w) api_state" where
  "call_store f = on_world (run_store f)"

definition call_ag :: "('w \<Rightarrow> 'r \<times> 'w) \<Rightarrow> ('s, 'w) api_state \<Rightarrow> 'r \<times> ('s, 'w) api_state" where
  "call_ag f = on_world (run_ag f)"

definition read_clock :: "('s, 'w) api_state \<Rightarrow> time \<times> ('s, 'w) api_state" where
  "read_clock = on_world clock"

section \<open>Bodies\<close>

text \<open>
  How encoding/json fills a struct: every key must be a field, matched without case; null and an
  absent key leave the zero value.
\<close>

definition known_fields :: "string list \<Rightarrow> obj \<Rightarrow> bool" where
  "known_fields fs o1 \<longleftrightarrow> (\<forall>(k, v) \<in> set o1. to_lower k \<in> set fs)"

definition get_field :: "(json \<Rightarrow> 'a option) \<Rightarrow> 'a \<Rightarrow> string \<Rightarrow> obj \<Rightarrow> 'a option" where
  "get_field dec zero f o1 = (case find (\<lambda>(k, v). to_lower k = f) o1 of None \<Rightarrow> Some zero | Some (k, v) \<Rightarrow> dec v)"

fun as_int :: "json \<Rightarrow> int option" where
  "as_int JNull = Some 0"
| "as_int (JNum s) = ParseInt s"
| "as_int _ = None"

fun as_int_ref :: "json \<Rightarrow> int option option" where
  "as_int_ref JNull = Some None"
| "as_int_ref (JNum s) = map_option Some (ParseInt s)"
| "as_int_ref _ = None"

text \<open>
  The decoder reads through a limit, so the value has to end within it and a following one to begin
  within it; the drain reads the body itself.
\<close>

definition decode_body :: "nat \<Rightarrow> message \<Rightarrow> (obj \<Rightarrow> 'a option) \<Rightarrow> api_request \<Rightarrow> out + 'a" where
  "decode_body limit shape dec r =
     (let body = hr_body r
      in case bd_first body of
           None \<Rightarrow> Inl (writeError 400 CodeBadRequest shape)
         | Some (j, n) \<Rightarrow>
             if n > limit then Inl (writeError 400 CodeBadRequest shape)
             else case Option.bind (as_obj j) dec of
                    None \<Rightarrow> Inl (writeError 400 CodeBadRequest shape)
                  | Some x \<Rightarrow>
                      if (case bd_more body of None \<Rightarrow> False | Some p \<Rightarrow> p \<le> limit)
                      then Inl (writeError 400 CodeBadRequest (Msg ''expected a single JSON object''))
                      else if \<not> bd_readable body
                      then Inl (writeError 400 CodeBadRequest (Msg ''request body too large''))
                      else Inr x)"

text \<open>Trim, drop the empty and the repeated, and refuse what is longer than the limit.\<close>

fun trim_bounded :: "nat \<Rightarrow> string list \<Rightarrow> string list \<Rightarrow> string list \<Rightarrow> string list option" where
  "trim_bounded n seen vs [] = Some vs"
| "trim_bounded n seen vs (x # xs) =
     (let y = trim_space x
      in if y = [] \<or> y \<in> set seen then trim_bounded n seen vs xs
         else if length y > n then None
         else trim_bounded n (y # seen) (vs @ [y]) xs)"

text \<open>\<open>utf8.RuneCountInString\<close> of valid UTF-8: the bytes that do not continue a rune.\<close>

definition RuneCount :: "string \<Rightarrow> nat" where
  "RuneCount s = length (filter (\<lambda>c. \<not> (128 \<le> (of_char c :: nat) \<and> (of_char c :: nat) < 192)) s)"

section \<open>Error chains\<close>

text \<open>What \<open>errors.Is\<close> and \<open>errors.As\<close> find of the two packages in an engine error.\<close>

fun ag_part :: "engine_error \<Rightarrow> ag_error option" where
  "ag_part (AgErr x) = Some x"
| "ag_part (ErrAdoptFailed n x) = Some x"
| "ag_part (RenameLost o1 n s x) = Some x"
| "ag_part (ReconcileRead x) = Some x"
| "ag_part _ = None"

fun store_part :: "engine_error \<Rightarrow> store_error option" where
  "store_part (StoreErr x) = Some x"
| "store_part (EndFailed x) = Some x"
| "store_part (NotAssigned n c x) = Some x"
| "store_part (RenameLost o1 n x a) = Some x"
| "store_part (RenamedBack o1 n x) = Some x"
| "store_part (ReconcileList x) = Some x"
| "store_part _ = None"

text \<open>
  \<open>adguardDown\<close> (clients.go): a status error, alone or under a sentinel, or a transport error. The
  deadline of an operation bounds its AdGuard calls alone, and a call it cuts off is a transport
  error.
\<close>

fun ag_down :: "ag_error \<Rightarrow> bool" where
  "ag_down (ErrBadCredentials _) = True"
| "ag_down (ErrRateLimited _) = True"
| "ag_down (StatusError _) = True"
| "ag_down (TransportError _ _) = True"
| "ag_down _ = False"

definition adguardDown :: "engine_error \<Rightarrow> bool" where
  "adguardDown e = (case ag_part e of None \<Rightarrow> False | Some x \<Rightarrow> ag_down x)"

definition adguardDownMsg :: message where
  "adguardDownMsg = Msg (''AdGuard Home is unreachable'' @ dash @ ''try again shortly'')"

definition writeAdGuardError :: out where
  "writeAdGuardError = writeError 502 CodeAdGuardUnavailable adguardDownMsg"

definition noSuchChild :: message where "noSuchChild = Msg ''no such child''"

text \<open>\<open>writeStoreError\<close> (children.go).\<close>

definition writeStoreError :: "string \<Rightarrow> string \<Rightarrow> store_error \<Rightarrow> out" where
  "writeStoreError op name e =
     (case e of
        ErrChildNotFound \<Rightarrow> writeError 404 CodeNotFound noSuchChild
      | ErrNameTaken \<Rightarrow> writeError 409 CodeConflict (Fmt ''a child named %s already exists'' [AStr name])
      | ErrClientTaken client i child \<Rightarrow>
          writeError 409 CodeConflict (Fmt ''client %s is already assigned to %s'' [AStr client, AStr child])
      | _ \<Rightarrow> writeError 500 ''internal'' (Msg (''could not '' @ op)))"

section \<open>The layers around the handlers (middleware.go, api.go)\<close>

record response =
  rp_status :: nat
  rp_headers :: "(string \<times> string) list"
  rp_retry :: "int option"
  rp_cookies :: "string list"
  rp_body :: "payload option"

definition CSRFHeader :: string where "CSRFHeader = ''X-Requested-With''"
definition CSRFValue :: string where "CSRFValue = ''adguard-reward''"

definition csrf_ok :: "api_request \<Rightarrow> bool" where
  "csrf_ok r \<longleftrightarrow>
     hr_method r = ''GET'' \<or> hr_method r = ''HEAD'' \<or> hr_method r = ''OPTIONS'' \<or> header_Get r CSRFHeader = CSRFValue"

definition payload_type :: "payload \<Rightarrow> string" where
  "payload_type p = (if p = PNotFoundPage then ''text/plain; charset=utf-8'' else ''application/json'')"

text \<open>The response: \<open>noStore\<close>'s header, those of the layers above, and what the handler wrote.\<close>

definition respond :: "(cookie \<Rightarrow> string) \<Rightarrow> string list \<Rightarrow> out \<Rightarrow> response" where
  "respond render cookies ot =
     \<lparr>rp_status = o_status ot,
      rp_headers = [(''Cache-Control'', ''no-store'')] @
        (case o_body ot of None \<Rightarrow> [] | Some p \<Rightarrow> [(''Content-Type'', payload_type p)]),
      rp_retry = o_retry ot,
      rp_cookies = (case o_cookie ot of None \<Rightarrow> cookies | Some c \<Rightarrow> SetCookie render c cookies),
      rp_body = o_body ot\<rparr>"

type_synonym ('s, 'w) step = "('s, 'w) api_state \<Rightarrow> out \<times> ('s, 'w) api_state"
type_synonym ('s, 'w) handler = "api_request \<Rightarrow> session \<Rightarrow> ('s, 'w) step"

text \<open>\<open>requireSession\<close>: without a manager everything is refused.\<close>

definition unauthorized :: out where
  "unauthorized = writeError 401 CodeUnauthorized (Msg ''authentication required'')"

definition session_gate ::
  "('s, 'w) deps \<Rightarrow> 's manager \<Rightarrow> time \<Rightarrow> string option \<Rightarrow> 's \<Rightarrow> (gate_outcome \<times> string list) \<times> 's" where
  "session_gate d m now presented st =
     (case RequireSession (d_sha d) (d_render d) m now presented [] st of (oc, cs, st') \<Rightarrow> ((oc, cs), st'))"

definition requireSession ::
  "('s, 'w) deps \<Rightarrow> ('s, 'w) handler \<Rightarrow> api_request \<Rightarrow> ('s, 'w) api_state \<Rightarrow> response \<times> ('s, 'w) api_state" where
  "requireSession d h r a =
     (case d_auth d of
        None \<Rightarrow> (respond (d_render d) [] unauthorized, a)
      | Some m \<Rightarrow>
          (let (now, a1) = (if hr_cookie r = None then (0, a) else read_clock a);
               ((outcome, cookies), a2) = call_store (session_gate d m now (hr_cookie r)) a1
           in case outcome of
                Refused code _ \<Rightarrow>
                  (respond (d_render d) cookies
                     (if code = 401 then unauthorized
                      else writeError code ''internal'' (Msg ''session lookup failed'')), a2)
              | Served s \<Rightarrow> (case h r s a2 of (ot, a3) \<Rightarrow> (respond (d_render d) cookies ot, a3))))"

section \<open>Steps of a handler\<close>

text \<open>A call, what its error is answered with, and the rest of the handler.\<close>

definition attempt ::
  "(('s, 'w) api_state \<Rightarrow> ('e + 'x) \<times> ('s, 'w) api_state) \<Rightarrow> ('e \<Rightarrow> out) \<Rightarrow> ('x \<Rightarrow> ('s, 'w) step) \<Rightarrow> ('s, 'w) step" where
  "attempt m err k a = (case m a of (Inl e, a1) \<Rightarrow> (err e, a1) | (Inr x, a1) \<Rightarrow> k x a1)"

text \<open>A call whose failure only costs what it would have added.\<close>

definition tolerate ::
  "(('s, 'w) api_state \<Rightarrow> ('e + 'x) \<times> ('s, 'w) api_state) \<Rightarrow>
     ('x option \<Rightarrow> ('s, 'w) api_state \<Rightarrow> 'r \<times> ('s, 'w) api_state) \<Rightarrow>
     ('s, 'w) api_state \<Rightarrow> 'r \<times> ('s, 'w) api_state" where
  "tolerate m k a = (case m a of (Inl e, a1) \<Rightarrow> k None a1 | (Inr x, a1) \<Rightarrow> k (Some x) a1)"

text \<open>A check of the request alone.\<close>

definition checked :: "out + 'x \<Rightarrow> ('x \<Rightarrow> ('s, 'w) step) \<Rightarrow> ('s, 'w) step" where
  "checked c k a = (case c of Inl ot \<Rightarrow> (ot, a) | Inr x \<Rightarrow> k x a)"

definition finish :: "out \<Rightarrow> ('s, 'w) step" where "finish ot a = (ot, a)"

definition path_id :: "message \<Rightarrow> string \<Rightarrow> out + id" where
  "path_id missing s = (case ParseInt s of None \<Rightarrow> Inl (writeError 404 CodeNotFound missing) | Some i \<Rightarrow> Inr i)"

text \<open>The shapes of a step, for the proofs.\<close>

lemma attempt_cases:
  assumes "attempt m err k a = (ot, a')"
  obtains (failed) e where "m a = (Inl e, a')" "ot = err e"
    | (went_on) x a1 where "m a = (Inr x, a1)" "k x a1 = (ot, a')"
  using assms by (cases "m a"; cases "fst (m a)") (auto simp: attempt_def)

lemma tolerate_cases:
  assumes "tolerate m k a = (ot, a')"
  obtains (failed) e a1 where "m a = (Inl e, a1)" "k None a1 = (ot, a')"
    | (went_on) x a1 where "m a = (Inr x, a1)" "k (Some x) a1 = (ot, a')"
  using assms by (cases "m a"; cases "fst (m a)") (auto simp: tolerate_def)

lemma checked_cases:
  assumes "checked c k a = (ot, a')"
  obtains (failed) "c = Inl ot" "a' = a"
    | (went_on) x where "c = Inr x" "k x a = (ot, a')"
  using assms by (cases c) (auto simp: checked_def)

text \<open>An invariant every call keeps, the handler keeps.\<close>

lemma attempt_keeps:
  assumes "P (snd (m a))" "\<And>x a1. P a1 \<Longrightarrow> P (snd (k x a1))"
  shows "P (snd (attempt m err k a))"
  using assms by (auto simp: attempt_def split: prod.split sum.split)

lemma tolerate_keeps:
  assumes "P (snd (m a))" "\<And>x a1. P a1 \<Longrightarrow> P (snd (k x a1))"
  shows "P (snd (tolerate m k a))"
  using assms by (auto simp: tolerate_def split: prod.split sum.split)

lemma checked_keeps:
  assumes "P a" "\<And>x. P (snd (k x a))"
  shows "P (snd (checked c k a))"
  using assms by (auto simp: checked_def split: sum.split)

lemma finish_simps [simp]: "finish ot a = (ot, a)"
  by (simp add: finish_def)

lemma on_world_simps [simp]:
  "a_limiter (snd (on_world f a)) = a_limiter a" "a_random (snd (on_world f a)) = a_random a"
  "a_world (snd (on_world f a)) = snd (f (a_world a))" "fst (on_world f a) = fst (f (a_world a))"
  by (simp_all add: on_world_def split: prod.split)

text \<open>What a call did to the two sides of the world.\<close>

lemma call_storeD:
  "call_store f a = (r, a1) \<Longrightarrow> f (w_store (a_world a)) = (r, w_store (a_world a1)) \<and> w_ag (a_world a1) = w_ag (a_world a) \<and>
     fst (clock (a_world a1)) = fst (clock (a_world a))"
  by (auto simp: call_store_def on_world_def run_store_def clock_def split: prod.splits list.splits)

lemma call_agD:
  "call_ag f a = (r, a1) \<Longrightarrow> f (w_ag (a_world a)) = (r, w_ag (a_world a1)) \<and> w_store (a_world a1) = w_store (a_world a) \<and>
     fst (clock (a_world a1)) = fst (clock (a_world a))"
  by (auto simp: call_ag_def on_world_def run_ag_def clock_def split: prod.splits list.splits)

lemma on_worldD: "on_world f a = (r, a1) \<Longrightarrow> f (a_world a) = (r, a_world a1)"
  by (auto simp: on_world_def split: prod.splits)

text \<open>The statuses of the shared answers.\<close>

lemma status_simps [simp]:
  "o_status (api_writeJSON n p) = n" "o_status (writeError n cd m) = n" "o_status noContent = 204"
  "o_status writeAdGuardError = 502"
  by (simp_all add: api_writeJSON_def writeError_def noContent_def writeAdGuardError_def)

lemma decode_body_status: "decode_body n shape dec r = Inl ot \<Longrightarrow> o_status ot = 400"
  by (auto simp: decode_body_def Let_def split: option.splits if_splits)

lemma writeStoreError_status: "o_status (writeStoreError op n e) \<in> {404, 409, 500}"
  by (cases e) (simp_all add: writeStoreError_def)

end
