(* ===== verification/ApiSessions.thy ===== *)
theory ApiSessions
  imports ApiHttp
begin

text \<open>
  internal/api/login.go and sessions.go: logging in against AdGuard under the login budget, and
  the sessions of the caller. Log lines are left out. A request whose client has gone while it
  queued for the login slot is answered by nobody (\<open>gone\<close>), and a nil session manager at the
  end of a login is a panic that net/http recovers (\<open>aborted\<close>); both write nothing.
\<close>

definition gone :: out where "gone = \<lparr>o_status = 200, o_retry = None, o_cookie = None, o_body = None\<rparr>"
definition aborted :: out where "aborted = \<lparr>o_status = 0, o_retry = None, o_cookie = None, o_body = None\<rparr>"

section \<open>Login\<close>

definition maxLoginBody :: nat where "maxLoginBody = 4096"

definition adguardUnavailable :: message where
  "adguardUnavailable = Msg (''AdGuard Home did not accept the login attempt'' @ dash @ ''try again shortly'')"

definition rateLimitedMsg :: message where
  "rateLimitedMsg = Msg (''too many failed login attempts'' @ dash @ ''try again later'')"

definition decode_login :: "obj \<Rightarrow> (string \<times> string) option" where
  "decode_login o1 =
     (if \<not> known_fields [''username'', ''password''] o1 then None
      else Option.bind (get_field as_str [] ''username'' o1) (\<lambda>u.
           Option.bind (get_field as_str [] ''password'' o1) (\<lambda>p.
             if u = [] \<or> p = [] then None else Some (u, p))))"

definition rejectLimited :: "duration \<Rightarrow> out" where
  "rejectLimited retry =
     (writeError 429 CodeRateLimited rateLimitedMsg)\<lparr>o_retry := Some (retry sdiv second)\<rparr>"

definition limiter_Check :: "lim_key \<Rightarrow> ('s, 'w) api_state \<Rightarrow> (bool \<times> duration) \<times> ('s, 'w) api_state" where
  "limiter_Check ip a =
     (let (now, a1) = read_clock a; (res, l) = Check (a_limiter a1) now ip
      in (res, a1\<lparr>a_limiter := l\<rparr>))"

definition limiter_Fail :: "lim_key \<Rightarrow> ('s, 'w) api_state \<Rightarrow> ('s, 'w) api_state" where
  "limiter_Fail ip a = (let (now, a1) = read_clock a in a1\<lparr>a_limiter := Fail (a_limiter a1) now ip\<rparr>)"

definition draw_random :: "('s, 'w) api_state \<Rightarrow> bytes option \<times> ('s, 'w) api_state" where
  "draw_random a = (case a_random a of [] \<Rightarrow> (None, a) | b # bs \<Rightarrow> (b, a\<lparr>a_random := bs\<rparr>))"

definition issue_session ::
  "('s, 'w) deps \<Rightarrow> 's manager \<Rightarrow> string \<Rightarrow> ('s, 'w) api_state \<Rightarrow> (auth_error + string \<times> session) \<times> ('s, 'w) api_state" where
  "issue_session d m user a =
     (let (rnd, a1) = draw_random a; (now, a2) = read_clock a1
      in call_store (Issue (d_sha d) m rnd now user) a2)"

text \<open>
  The handler in the steps it takes. On arrival the body is read and the limiter asked a first time; the request
  then waits for the slot, which one request at a time holds (\<open>loginSlot\<close>, a channel of capacity one). In the slot the
  limiter is asked again, then AdGuard, and the answer is settled: a session, a counted failure or neither.
  Between the steps of one request those of others run (ApiLogin); a request that has the slot to itself is the
  composition.
\<close>

definition request_ip :: "('s, 'w) deps \<Rightarrow> api_request \<Rightarrow> lim_key" where
  "request_ip d r = ClientIP (d_trusted d) (hr_remote r) (hr_header r ''X-Forwarded-For'')"

definition login_arrive ::
  "('s, 'w) deps \<Rightarrow> api_request \<Rightarrow> ('s, 'w) api_state \<Rightarrow> (out + lim_key \<times> string \<times> string) \<times> ('s, 'w) api_state" where
  "login_arrive d r a =
     (case decode_body maxLoginBody (Msg ''expected JSON {username, password}'') decode_login r of
        Inl ot \<Rightarrow> (Inl ot, a)
      | Inr (user, pass) \<Rightarrow>
          (let ip = request_ip d r; ((ok, retry), a1) = limiter_Check ip a
           in if \<not> ok then (Inl (rejectLimited retry), a1) else (Inr (ip, user, pass), a1)))"

text \<open>With the slot: None goes on to ask AdGuard.\<close>

definition login_enter :: "lim_key \<Rightarrow> ('s, 'w) api_state \<Rightarrow> out option \<times> ('s, 'w) api_state" where
  "login_enter ip a =
     (let ((ok, retry), a1) = limiter_Check ip a in (if ok then None else Some (rejectLimited retry), a1))"

definition login_ask :: "('s, 'w) deps \<Rightarrow> string \<Rightarrow> string \<Rightarrow> ('s, 'w) api_state \<Rightarrow> (ag_error + unit) \<times> ('s, 'w) api_state" where
  "login_ask d user pass = call_ag (aa_Login (d_adguard d) user pass)"

definition login_settle :: "('s, 'w) deps \<Rightarrow> lim_key \<Rightarrow> string \<Rightarrow> ag_error + unit \<Rightarrow> ('s, 'w) step" where
  "login_settle d ip user res a =
     (case res of
        Inr _ \<Rightarrow>
          (case d_auth d of
             None \<Rightarrow> (aborted, a)
           | Some m \<Rightarrow>
               attempt (issue_session d m user) (\<lambda>_. writeError 500 ''internal'' (Msg ''could not create session''))
                 (\<lambda>(raw, _). finish (noContent\<lparr>o_cookie := Some (Cookie m raw)\<rparr>)) a)
      | Inl (ErrBadCredentials _) \<Rightarrow>
          (writeError 401 CodeBadCredentials (Msg ''invalid username or password''), limiter_Fail ip a)
      | Inl _ \<Rightarrow> (writeError 502 CodeAdGuardUnavailable adguardUnavailable, a))"

text \<open>What a request does from taking the slot to giving it back.\<close>

definition login_slot :: "('s, 'w) deps \<Rightarrow> lim_key \<Rightarrow> string \<Rightarrow> string \<Rightarrow> ('s, 'w) step" where
  "login_slot d ip user pass a =
     (case login_enter ip a of
        (Some ot, a1) \<Rightarrow> (ot, a1)
      | (None, a1) \<Rightarrow> (case login_ask d user pass a1 of (res, a2) \<Rightarrow> login_settle d ip user res a2))"

definition api_handleLogin :: "('s, 'w) deps \<Rightarrow> api_request \<Rightarrow> ('s, 'w) step" where
  "api_handleLogin d r a =
     (case login_arrive d r a of
        (Inl ot, a1) \<Rightarrow> (ot, a1)
      | (Inr (ip, user, pass), a1) \<Rightarrow> if hr_gone r then (gone, a1) else login_slot d ip user pass a1)"

section \<open>The caller's sessions\<close>

definition clear_cookie :: "('s, 'w) deps \<Rightarrow> out \<Rightarrow> out" where
  "clear_cookie d ot = ot\<lparr>o_cookie := map_option ClearCookie (d_auth d)\<rparr>"

definition handleLogout :: "('s, 'w) deps \<Rightarrow> ('s, 'w) handler" where
  "handleLogout d r sess =
     attempt (call_store (ss_Delete (d_sessions d) (sess_id sess)))
       (\<lambda>_. writeError 500 ''internal'' (Msg ''could not end session''))
       (\<lambda>_. finish (clear_cookie d noContent))"

definition handleMe :: "('s, 'w) handler" where
  "handleMe r sess = finish (api_writeJSON 200 (PMe (sess_username sess) (unix (expires_at sess))))"

definition session_view_of :: "session \<Rightarrow> session \<Rightarrow> session_view" where
  "session_view_of cur s =
     \<lparr>sev_id = sess_id s, sev_created = unix (created_at s), sev_last_seen = unix (last_seen_at s),
      sev_current = (sess_id s = sess_id cur)\<rparr>"

definition handleSessionsList :: "('s, 'w) deps \<Rightarrow> ('s, 'w) handler" where
  "handleSessionsList d r sess =
     attempt (call_store (ss_ListByUser (d_sessions d) (sess_username sess)))
       (\<lambda>_. writeError 500 ''internal'' (Msg ''could not list sessions''))
       (\<lambda>rows. finish (api_writeJSON 200 (PSessions (map (session_view_of sess) rows))))"

definition handleSessionDelete :: "('s, 'w) deps \<Rightarrow> string \<Rightarrow> ('s, 'w) handler" where
  "handleSessionDelete d ref r sess =
     checked (path_id (Msg ''no such session'') ref) (\<lambda>i.
     attempt (call_store (ss_DeleteByUser (d_sessions d) (sess_username sess) i))
       (\<lambda>_. writeError 500 ''internal'' (Msg ''could not revoke session''))
       (\<lambda>ok. finish (if \<not> ok then writeError 404 CodeNotFound (Msg ''no such session'')
                     else if i = sess_id sess then clear_cookie d noContent else noContent)))"

definition handleSessionsRevokeAll :: "('s, 'w) deps \<Rightarrow> ('s, 'w) handler" where
  "handleSessionsRevokeAll d r sess =
     attempt (call_store (ss_DeleteOthers (d_sessions d) (sess_username sess) (sess_id sess)))
       (\<lambda>_. writeError 500 ''internal'' (Msg ''could not revoke sessions''))
       (\<lambda>n. finish (api_writeJSON 200 (PRevoked n)))"

end
