(* ===== verification/ApiChildren.thy ===== *)
theory ApiChildren
  imports ApiHttp
begin

text \<open>
  internal/api/children.go and buttons.go: the children with their clients, whose devices are
  brought to the child's baseline in AdGuard before the store is written, and the buttons.
\<close>

section \<open>Children (children.go)\<close>

definition maxChildBody :: nat where "maxChildBody = 16384"
definition maxChildName :: nat where "maxChildName = 64"
definition maxClientName :: nat where "maxClientName = 256"

definition decode_child :: "obj \<Rightarrow> (string \<times> string list) option" where
  "decode_child o1 =
     (if \<not> known_fields [''name'', ''clients''] o1 then None
      else Option.bind (get_field as_str [] ''name'' o1) (\<lambda>n.
           Option.bind (get_field (as_list as_str) [] ''clients'' o1) (\<lambda>cs. Some (n, cs))))"

definition decodeChild :: "api_request \<Rightarrow> out + string \<times> string list" where
  "decodeChild r =
     res_bind (decode_body maxChildBody (Msg ''expected JSON {name, clients}'') decode_child r) (\<lambda>(name0, clients0).
       let name = trim_space name0
       in if name = [] \<or> RuneCount name > maxChildName
          then Inl (writeError 400 CodeBadRequest (Fmt ''name must be 1 to %d characters'' [AInt (int maxChildName)]))
          else case trim_bounded maxClientName [] [] clients0 of
                 None \<Rightarrow> Inl (writeError 400 CodeBadRequest (Fmt ''client name longer than %d bytes'' [AInt (int maxClientName)]))
               | Some clients \<Rightarrow> Inr (name, clients))"

definition childID :: "string \<Rightarrow> out + id" where "childID s = path_id noSuchChild s"

definition asciiFold :: "string \<Rightarrow> string" where "asciiFold s = map ascii_lower s"

definition updateConflict :: "child list \<Rightarrow> id \<Rightarrow> string \<Rightarrow> store_error option" where
  "updateConflict children self name =
     (if \<exists>c \<in> set children. child_id c \<noteq> self \<and> asciiFold (child_name c) = asciiFold name
      then Some ErrNameTaken else None)"

definition writeAdoptError :: "string \<Rightarrow> engine_error \<Rightarrow> out" where
  "writeAdoptError op e =
     (case e of
        ErrAdoptFailed client _ \<Rightarrow>
          writeError 502 CodeAdGuardUnavailable
            (Fmt (''could not apply the child'' @ [CHR 0x27] @ ''s blocked services to %s in AdGuard Home'' @ dash @
                  ''nothing was saved; try again shortly'') [AStr client])
      | _ \<Rightarrow> if adguardDown e then writeAdGuardError
             else writeError 500 ''internal'' (Msg (''could not '' @ op)))"

definition handleChildrenList :: "('s, 'w) deps \<Rightarrow> ('s, 'w) handler" where
  "handleChildrenList d r sess =
     attempt (call_store (cs_ListChildren (d_children d))) (writeStoreError ''list children'' [])
       (\<lambda>rows. finish (api_writeJSON 200 (PChildren rows)))"

text \<open>The baseline of the added clients, when there are any.\<close>

definition adopt_added ::
  "('s, 'w) deps \<Rightarrow> string \<Rightarrow> id \<Rightarrow> string list \<Rightarrow> string list \<Rightarrow> ('s, 'w) step \<Rightarrow> ('s, 'w) step" where
  "adopt_added d op i siblings added k =
     (if added = [] then k
      else attempt (on_world (AdoptClients (d_grants d) i siblings added)) (writeAdoptError op) (\<lambda>_. k))"

definition create_child_row ::
  "('s, 'w) deps \<Rightarrow> string \<Rightarrow> string list \<Rightarrow> ('s, 'w) api_state \<Rightarrow> (store_error + child) \<times> ('s, 'w) api_state" where
  "create_child_row d name clients a =
     (let (now, a1) = read_clock a in call_store (cs_CreateChild (d_children d) now name clients) a1)"

definition handleChildCreate :: "('s, 'w) deps \<Rightarrow> ('s, 'w) handler" where
  "handleChildCreate d r sess =
     checked (decodeChild r) (\<lambda>(name, clients).
     attempt (call_store (cs_ListChildren (d_children d))) (writeStoreError ''create child'' name) (\<lambda>children.
     case updateConflict children 0 name of
       Some e \<Rightarrow> finish (writeStoreError ''create child'' name e)
     | None \<Rightarrow>
         adopt_added d ''create child'' 0 [] clients
           (attempt (create_child_row d name clients)
              (writeStoreError ''create child'' name) (\<lambda>c. finish (api_writeJSON 201 (PChild c))))))"

definition handleChildGet :: "('s, 'w) deps \<Rightarrow> string \<Rightarrow> ('s, 'w) handler" where
  "handleChildGet d ref r sess =
     checked (childID ref) (\<lambda>i.
     attempt (call_store (cs_GetChild (d_children d) i)) (writeStoreError ''get child'' [])
       (\<lambda>c. finish (api_writeJSON 200 (PChild c))))"

text \<open>The rest of the update, once the row and its siblings are read.\<close>

definition update_from ::
  "('s, 'w) deps \<Rightarrow> id \<Rightarrow> string \<Rightarrow> string list \<Rightarrow> child \<Rightarrow> child list \<Rightarrow> ('s, 'w) step" where
  "update_from d i name clients cur children =
     (case updateConflict children i name of
        Some e \<Rightarrow> finish (writeStoreError ''update child'' name e)
      | None \<Rightarrow>
          (let siblings = filter (\<lambda>c. c \<in> set (child_clients cur)) clients;
               added = filter (\<lambda>c. c \<notin> set (child_clients cur)) clients
           in adopt_added d ''update child'' i siblings added
                (attempt (call_store (cs_UpdateChild (d_children d) i name clients))
                   (writeStoreError ''update child'' name) (\<lambda>c. finish (api_writeJSON 200 (PChild c))))))"

definition handleChildUpdate :: "('s, 'w) deps \<Rightarrow> string \<Rightarrow> ('s, 'w) handler" where
  "handleChildUpdate d ref r sess =
     checked (childID ref) (\<lambda>i.
     checked (decodeChild r) (\<lambda>(name, clients).
     attempt (call_store (cs_GetChild (d_children d) i)) (writeStoreError ''update child'' name) (\<lambda>cur.
     attempt (call_store (cs_ListChildren (d_children d))) (writeStoreError ''update child'' name) (\<lambda>children.
     update_from d i name clients cur children))))"

definition handleChildDelete :: "('s, 'w) deps \<Rightarrow> string \<Rightarrow> ('s, 'w) handler" where
  "handleChildDelete d ref r sess =
     checked (childID ref) (\<lambda>i.
     attempt (call_store (cs_DeleteChild (d_children d) i)) (writeStoreError ''delete child'' [])
       (\<lambda>ok. finish (if \<not> ok then writeError 404 CodeNotFound noSuchChild else noContent)))"

section \<open>Buttons (buttons.go)\<close>

definition maxLabelRunes :: nat where "maxLabelRunes = 64"
definition maxGrantBody :: nat where "maxGrantBody = 16384"

text \<open>\<open>time.Duration(seconds) * time.Second\<close> wraps at 64 bits.\<close>

definition duration_of :: "int \<Rightarrow> duration" where "duration_of seconds = i64 (seconds * second)"

definition duration_ok :: "int \<Rightarrow> bool" where
  "duration_ok seconds \<longleftrightarrow>
     \<not> (seconds \<le> 0 \<or> duration_of seconds < MinDuration \<or> duration_of seconds > MaxDuration)"

definition buttonViewOf :: "button \<Rightarrow> button_view" where
  "buttonViewOf b =
     \<lparr>btv_id = button_id b, btv_label = button_label b, btv_child = button_child b,
      btv_services = button_services b, btv_icon = button_icon b, btv_duration = button_duration b sdiv second\<rparr>"

definition writeButtons :: "button list \<Rightarrow> out" where
  "writeButtons rows = api_writeJSON 200 (PButtons (map buttonViewOf rows))"

definition handleButtonsList :: "('s, 'w) deps \<Rightarrow> ('s, 'w) handler" where
  "handleButtonsList d r sess =
     attempt (call_store (bs_ListButtons (d_buttons d)))
       (\<lambda>_. writeError 500 ''internal'' (Msg ''could not list buttons'')) (\<lambda>rows. finish (writeButtons rows))"

record button_input =
  bi_label :: string
  bi_child :: id
  bi_services :: "string list"
  bi_icon :: string
  bi_duration :: int

definition decode_button :: "json \<Rightarrow> button_input option" where
  "decode_button j = Option.bind (as_obj j) (\<lambda>o1.
     if \<not> known_fields [''label'', ''child_id'', ''services'', ''icon'', ''duration''] o1 then None
     else Option.bind (get_field as_str [] ''label'' o1) (\<lambda>l.
          Option.bind (get_field as_int 0 ''child_id'' o1) (\<lambda>c.
          Option.bind (get_field (as_list as_str) [] ''services'' o1) (\<lambda>s.
          Option.bind (get_field as_str [] ''icon'' o1) (\<lambda>i.
          Option.bind (get_field as_int 0 ''duration'' o1) (\<lambda>n.
            Some \<lparr>bi_label = l, bi_child = c, bi_services = s, bi_icon = i, bi_duration = n\<rparr>))))))"

fun decode_button_list :: "json \<Rightarrow> button_input list option option" where
  "decode_button_list JNull = Some None"
| "decode_button_list j = map_option Some (as_list decode_button j)"

definition decode_buttons :: "obj \<Rightarrow> button_input list option option" where
  "decode_buttons o1 =
     (if \<not> known_fields [''buttons''] o1 then None else get_field decode_button_list None ''buttons'' o1)"

definition unprocessable :: "string \<Rightarrow> arg list \<Rightarrow> out" where
  "unprocessable f args = writeError 422 CodeUnprocessable (Fmt f args)"

definition check_button :: "nat \<Rightarrow> button_input \<Rightarrow> out + button" where
  "check_button i b =
     (let label = trim_space (bi_label b); services = trim_dedup [] (bi_services b)
      in if RuneCount label = 0 \<or> RuneCount label > maxLabelRunes
         then Inl (unprocessable ''buttons[%d].label: must be 1-%d characters'' [AInt (int i), AInt (int maxLabelRunes)])
         else if \<not> duration_ok (bi_duration b)
         then Inl (unprocessable ''buttons[%d].duration: must be between %d and %d seconds''
                     [AInt (int i), AInt (MinDuration sdiv second), AInt (MaxDuration sdiv second)])
         else if services = []
         then Inl (unprocessable ''buttons[%d].services: must name at least one service'' [AInt (int i)])
         else Inr \<lparr>button_id = 0, button_child = bi_child b, button_label = label,
                   button_services = services, button_icon = trim_space (bi_icon b),
                   button_duration = duration_of (bi_duration b)\<rparr>)"

text \<open>The loops: over the inputs, over the children, and over the services and icons.\<close>

fun check_buttons :: "nat \<Rightarrow> button_input list \<Rightarrow> out + button list" where
  "check_buttons i [] = Inr []"
| "check_buttons i (b # bs) =
     res_bind (check_button i b) (\<lambda>x. res_bind (check_buttons (Suc i) bs) (\<lambda>xs. Inr (x # xs)))"

definition no_child_error :: "nat \<Rightarrow> id \<Rightarrow> out" where
  "no_child_error i c = unprocessable ''buttons[%d].child_id: no child with id %d'' [AInt (int i), AInt c]"

fun check_children :: "('s, 'w) deps \<Rightarrow> nat \<Rightarrow> id list \<Rightarrow> button list \<Rightarrow> ('s, 'w) step \<Rightarrow> ('s, 'w) step" where
  "check_children d i seen [] k = k"
| "check_children d i seen (b # bs) k =
     (if button_child b \<in> set seen then check_children d (Suc i) seen bs k
      else attempt (call_store (cs_GetChild (d_children d) (button_child b)))
             (\<lambda>e. if e = ErrChildNotFound then no_child_error i (button_child b)
                  else writeStoreError ''get child'' [] e)
             (\<lambda>_. check_children d (Suc i) (button_child b # seen) bs k))"

fun check_catalogue :: "string list \<Rightarrow> nat \<Rightarrow> button list \<Rightarrow> out option" where
  "check_catalogue known i [] = None"
| "check_catalogue known i (b # bs) =
     (case find (\<lambda>s. s \<notin> set known) (button_services b) of
        Some s \<Rightarrow> Some (unprocessable ''buttons[%d].services: unknown service %q'' [AInt (int i), AQuoted s])
      | None \<Rightarrow>
          if button_icon b \<noteq> [] \<and> button_icon b \<notin> set known
          then Some (unprocessable ''buttons[%d].icon: unknown service %q'' [AInt (int i), AQuoted (button_icon b)])
          else check_catalogue known (Suc i) bs)"

fun indexOfChild :: "nat \<Rightarrow> id \<Rightarrow> button list \<Rightarrow> nat option" where
  "indexOfChild i c [] = None"
| "indexOfChild i c (b # bs) = (if button_child b = c then Some i else indexOfChild (Suc i) c bs)"

definition store_buttons :: "('s, 'w) deps \<Rightarrow> button list \<Rightarrow> ('s, 'w) step" where
  "store_buttons d items =
     attempt (call_store (bs_ReplaceButtons (d_buttons d) items))
       (\<lambda>e. case e of
              ErrUnknownChild c \<Rightarrow>
                no_child_error (case indexOfChild 0 c items of None \<Rightarrow> 0 | Some i \<Rightarrow> i) c
            | _ \<Rightarrow> writeError 500 ''internal'' (Msg ''could not replace buttons''))
       (\<lambda>stored. finish (writeButtons stored))"

definition buttons_shape :: message where
  "buttons_shape = Msg ''expected JSON {\"buttons\":[{label, child_id, services, icon, duration}]}''"

definition handleButtonsReplace :: "('s, 'w) deps \<Rightarrow> ('s, 'w) handler" where
  "handleButtonsReplace d r sess =
     checked (decode_body maxGrantBody buttons_shape decode_buttons r) (\<lambda>inp.
     case inp of
       None \<Rightarrow> finish (writeError 400 CodeBadRequest (Msg ''buttons is required''))
     | Some bs \<Rightarrow>
         checked (check_buttons 0 bs) (\<lambda>items.
         check_children d 0 [] items
           (if items = [] then store_buttons d items
            else attempt (call_ag (aa_Services (d_adguard d))) (\<lambda>_. writeAdGuardError) (\<lambda>catalogue.
                   case check_catalogue (map sv_id catalogue) 0 items of
                     Some ot \<Rightarrow> finish ot
                   | None \<Rightarrow> store_buttons d items))))"

end
