(* ===== verification/ApiGrants.thy ===== *)
theory ApiGrants
  imports ApiChildren
begin

text \<open>
  internal/api/clients.go, rename.go and grants.go: the clients AdGuard knows with the children that
  hold them, creating and renaming them, and the grants. A slice that may be nil is the empty list.
\<close>

section \<open>Clients (clients.go)\<close>

definition maxClientBody :: nat where "maxClientBody = 16384"

definition ref_of :: "child \<Rightarrow> child_ref" where "ref_of c = \<lparr>ref_id = child_id c, ref_name = child_name c\<rparr>"

text \<open>The children holding a name, id ascending; a name nobody holds has none.\<close>

definition ownerIndex :: "child list \<Rightarrow> string \<Rightarrow> child_ref list" where
  "ownerIndex children name =
     sort_key ref_id (concat (map (\<lambda>c. map (\<lambda>_. ref_of c) (filter (\<lambda>n. n = name) (child_clients c))) children))"

definition client_view_of :: "child list \<Rightarrow> persistent_client \<Rightarrow> client_view" where
  "client_view_of children pc =
     \<lparr>clv_name = pc_name pc, clv_ids = pc_ids pc, clv_global = pc_global pc,
      clv_children = ownerIndex children (pc_name pc)\<rparr>"

definition handleClients :: "('s, 'w) deps \<Rightarrow> ('s, 'w) handler" where
  "handleClients d r sess =
     attempt (call_ag (aa_Clients (d_adguard d))) (\<lambda>_. writeAdGuardError) (\<lambda>res.
     attempt (call_store (cs_ListChildren (d_children d))) (writeStoreError ''list children'' []) (\<lambda>children.
     tolerate (call_ag (aa_Leases (d_adguard d))) (\<lambda>leases.
       finish (api_writeJSON 200 (PClients (map (client_view_of children) (cr_persistent res))
         (Unlabelled (cr_persistent res) (cr_auto res) (case leases of None \<Rightarrow> [] | Some ls \<Rightarrow> ls)))))))"

definition decode_create :: "obj \<Rightarrow> (string \<times> string list \<times> id option) option" where
  "decode_create o1 =
     (if \<not> known_fields [''name'', ''ids'', ''child_id''] o1 then None
      else Option.bind (get_field as_str [] ''name'' o1) (\<lambda>n.
           Option.bind (get_field (as_list as_str) [] ''ids'' o1) (\<lambda>ids.
           Option.bind (get_field as_int_ref None ''child_id'' o1) (\<lambda>c. Some (n, ids, c)))))"

definition decodeCreateClient :: "api_request \<Rightarrow> out + string \<times> string list \<times> id option" where
  "decodeCreateClient r =
     res_bind (decode_body maxClientBody (Msg ''expected JSON {name, ids, child_id}'') decode_create r)
       (\<lambda>(name0, ids0, child).
          let name = trim_space name0
          in if name = [] \<or> length name > maxClientName
             then Inl (writeError 400 CodeBadRequest (Fmt ''name must be 1 to %d bytes'' [AInt (int maxClientName)]))
             else case trim_bounded maxClientName [] [] ids0 of
                    None \<Rightarrow> Inl (writeError 400 CodeBadRequest (Fmt ''id longer than %d bytes'' [AInt (int maxClientName)]))
                  | Some ids \<Rightarrow>
                      if ids = []
                      then Inl (writeError 400 CodeBadRequest (Msg ''at least one id (IP, CIDR or MAC) is required''))
                      else Inr (name, ids, child))"

text \<open>\<open>errors.Is\<close> and \<open>errors.As\<close> for the two packages' sentinels, in the order of the switch.\<close>

definition writeCreateClientError :: "string \<Rightarrow> engine_error \<Rightarrow> out" where
  "writeCreateClientError name e =
     (case ag_part e of
        Some (ErrClientExists _) \<Rightarrow>
          writeError 409 CodeConflict (Fmt ''a client named %s already exists in AdGuard Home'' [AStr name])
      | Some (ErrIDTaken i owner) \<Rightarrow>
          writeError 409 CodeConflict (Fmt ''%s is already used by client %s'' [AStr i, AStr owner])
      | Some (InputRejected _ msg) \<Rightarrow>
          writeError 400 CodeBadRequest (Fmt ''AdGuard Home refused the client: %s'' [AStr msg])
      | _ \<Rightarrow>
          (case store_part e of
             Some ErrChildNotFound \<Rightarrow> writeStoreError ''create client'' [] ErrChildNotFound
           | Some (ErrClientTaken c i n) \<Rightarrow> writeStoreError ''create client'' [] (ErrClientTaken c i n)
           | _ \<Rightarrow> if adguardDown e then writeAdGuardError
                  else writeError 500 ''internal'' (Msg ''could not create client'')))"

text \<open>The child a created client is for: none, or the one the store has.\<close>

definition find_child ::
  "('s, 'w) deps \<Rightarrow> id option \<Rightarrow> ('s, 'w) api_state \<Rightarrow> (store_error + child_ref option) \<times> ('s, 'w) api_state" where
  "find_child d child a =
     (case child of
        None \<Rightarrow> (Inr None, a)
      | Some i \<Rightarrow>
          (case call_store (cs_GetChild (d_children d) i) a of
             (Inl e, a1) \<Rightarrow> (Inl e, a1)
           | (Inr c, a1) \<Rightarrow> (Inr (Some (ref_of c)), a1)))"

definition handleClientCreate :: "('s, 'w) deps \<Rightarrow> ('s, 'w) handler" where
  "handleClientCreate d r sess =
     checked (decodeCreateClient r) (\<lambda>(name, ids, child_ref).
     attempt (find_child d child_ref) (writeStoreError ''get child'' []) (\<lambda>child.
     attempt (call_store (cs_ListChildren (d_children d))) (writeStoreError ''list children'' []) (\<lambda>children.
     case find (\<lambda>ref. case child of None \<Rightarrow> True | Some c \<Rightarrow> ref_id ref \<noteq> ref_id c) (ownerIndex children name) of
       Some ref \<Rightarrow>
         finish (writeError 409 CodeConflict (Fmt ''client %s is already assigned to %s'' [AStr name, AStr (ref_name ref)]))
     | None \<Rightarrow>
         attempt (on_world (CreateClient (d_grants d) name ids child_ref)) (writeCreateClientError name) (\<lambda>_.
           finish (api_writeJSON 201 (PClient \<lparr>clv_name = name, clv_ids = ids, clv_global = (child = None),
             clv_children = (case child of None \<Rightarrow> [] | Some c \<Rightarrow> [c])\<rparr>))))))"

definition handleServices :: "('s, 'w) deps \<Rightarrow> ('s, 'w) handler" where
  "handleServices d r sess =
     attempt (call_ag (aa_Services (d_adguard d))) (\<lambda>_. writeAdGuardError)
       (\<lambda>services. finish (api_writeJSON 200 (PServices services)))"

section \<open>Renaming (rename.go)\<close>

definition decode_rename :: "obj \<Rightarrow> (string \<times> string) option" where
  "decode_rename o1 =
     (if \<not> known_fields [''from'', ''to''] o1 then None
      else Option.bind (get_field as_str [] ''from'' o1) (\<lambda>f.
           Option.bind (get_field as_str [] ''to'' o1) (\<lambda>t. Some (f, t))))"

definition decodeRename :: "api_request \<Rightarrow> out + string \<times> string" where
  "decodeRename r =
     res_bind (decode_body maxClientBody (Msg ''expected JSON {from, to}'') decode_rename r) (\<lambda>(from0, to0).
       let old = trim_space from0; new = trim_space to0
       in if \<exists>n \<in> set [old, new]. n = [] \<or> length n > maxClientName
          then Inl (writeError 400 CodeBadRequest (Fmt ''names must be 1 to %d bytes'' [AInt (int maxClientName)]))
          else Inr (old, new))"

definition writeRenameError :: "string \<Rightarrow> string \<Rightarrow> engine_error \<Rightarrow> out" where
  "writeRenameError old new e =
     (case ag_part e of
        Some (InputRejected _ msg) \<Rightarrow>
          writeError 400 CodeBadRequest (Fmt ''AdGuard Home refused the name: %s'' [AStr msg])
      | Some (ErrClientNotFound _) \<Rightarrow>
          writeError 404 CodeNotFound (Fmt ''no client named %s in AdGuard Home'' [AStr old])
      | Some (ErrClientExists _) \<Rightarrow>
          writeError 409 CodeConflict (Fmt ''a client named %s already exists in AdGuard Home'' [AStr new])
      | _ \<Rightarrow>
          (case store_part e of
             Some (ErrClientTaken c i n) \<Rightarrow>
               writeError 409 CodeConflict (Fmt ''client %s is already assigned to %s'' [AStr c, AStr n])
           | _ \<Rightarrow> if adguardDown e then writeAdGuardError
                  else writeError 500 ''internal'' (Msg ''could not rename client'')))"

text \<open>The loop of \<open>renamedView\<close>: every listed client of that name, the last one counting.\<close>

definition read_back :: "string \<Rightarrow> persistent_client list \<Rightarrow> client_view \<Rightarrow> client_view" where
  "read_back name pcs v =
     fold (\<lambda>pc v. if pc_name pc = name
                  then v\<lparr>clv_ids := (if pc_ids pc = [] then clv_ids v else pc_ids pc), clv_global := pc_global pc\<rparr> else v)
       pcs v"

definition renamedView :: "('s, 'w) deps \<Rightarrow> string \<Rightarrow> ('s, 'w) step" where
  "renamedView d name =
     tolerate (call_store (cs_ListChildren (d_children d))) (\<lambda>children.
       let v = \<lparr>clv_name = name, clv_ids = [], clv_global = False,
                clv_children = (case children of None \<Rightarrow> [] | Some cs \<Rightarrow> ownerIndex cs name)\<rparr>
       in tolerate (call_ag (aa_Clients (d_adguard d))) (\<lambda>res.
            finish (api_writeJSON 200 (PClient (case res of None \<Rightarrow> v | Some x \<Rightarrow> read_back name (cr_persistent x) v)))))"

definition handleClientRename :: "('s, 'w) deps \<Rightarrow> ('s, 'w) handler" where
  "handleClientRename d r sess =
     checked (decodeRename r) (\<lambda>(old, new).
     attempt (on_world (engine_RenameClient (d_grants d) old new)) (writeRenameError old new)
       (\<lambda>_. renamedView d new))"

section \<open>Grants (grants.go)\<close>

definition noSuchGrant :: message where "noSuchGrant = Msg ''no such grant''"

definition sharedOf :: "string list \<Rightarrow> id \<Rightarrow> child list \<Rightarrow> shared_ref list" where
  "sharedOf clients child children =
     filter (\<lambda>(c, others). others \<noteq> [])
       (map (\<lambda>c. (c, filter (\<lambda>ref. ref_id ref \<noteq> child) (ownerIndex children c))) (sort_compact clients))"

definition grantViewOf :: "grant \<Rightarrow> shared_ref list \<Rightarrow> grant_view" where
  "grantViewOf g shared =
     \<lparr>grv_id = grant_id g, grv_child = grant_child g, grv_services = grant_services g, grv_clients = grant_clients g,
      grv_shared = shared, grv_started = unix (started_at g), grv_ends = unix (ends_at g)\<rparr>"

definition decode_grant :: "obj \<Rightarrow> (id \<times> string list \<times> int) option" where
  "decode_grant o1 =
     (if \<not> known_fields [''child_id'', ''services'', ''duration''] o1 then None
      else Option.bind (get_field as_int 0 ''child_id'' o1) (\<lambda>c.
           Option.bind (get_field (as_list as_str) [] ''services'' o1) (\<lambda>s.
           Option.bind (get_field as_int 0 ''duration'' o1) (\<lambda>n. Some (c, s, n)))))"

definition decode_duration :: "obj \<Rightarrow> int option" where
  "decode_duration o1 =
     (if \<not> known_fields [''duration''] o1 then None else get_field as_int 0 ''duration'' o1)"

definition checkDuration :: "int \<Rightarrow> out + duration" where
  "checkDuration seconds =
     (if \<not> duration_ok seconds
      then Inl (unprocessable ''duration must be between %d and %d seconds''
                  [AInt (MinDuration sdiv second), AInt (MaxDuration sdiv second)])
      else Inr (duration_of seconds))"

definition grantID :: "string \<Rightarrow> out + id" where "grantID s = path_id noSuchGrant s"

definition writeGrantError :: "string \<Rightarrow> engine_error \<Rightarrow> out" where
  "writeGrantError op e =
     (if store_part e = Some ErrGrantNotFound then writeError 404 CodeNotFound noSuchGrant
      else case e of
             ErrRevertFailed clients \<Rightarrow>
               writeError 502 CodeAdGuardUnavailable
                 (Fmt (''could not re-block %s'' @ dash @ ''the grant stays active and will be retried'')
                    [AStr (join '', '' clients)])
           | _ \<Rightarrow> writeError 500 ''internal'' (Msg (''could not '' @ op)))"

definition list_grants :: "('s, 'w) deps \<Rightarrow> ('s, 'w) api_state \<Rightarrow> (store_error + grant list) \<times> ('s, 'w) api_state" where
  "list_grants d = on_world (engine_List (d_grants d))"

definition handleGrantsList :: "('s, 'w) deps \<Rightarrow> ('s, 'w) handler" where
  "handleGrantsList d r sess =
     attempt (list_grants d) (\<lambda>e. writeGrantError ''list grants'' (StoreErr e)) (\<lambda>rows.
     tolerate (call_store (cs_ListChildren (d_children d))) (\<lambda>children.
       finish (api_writeJSON 200 (PGrants (map (\<lambda>g. grantViewOf g
         (sharedOf (grant_clients g) (grant_child g) (case children of None \<Rightarrow> [] | Some cs \<Rightarrow> cs))) rows)))))"

definition grant_created :: "child \<Rightarrow> child list \<Rightarrow> create_result \<Rightarrow> out" where
  "grant_created child children res =
     api_writeJSON 201 (PCreated (grant_id (cg_grant res)) (unix (ends_at (cg_grant res))) (cg_applied res) (cg_failed res)
       (sharedOf (child_clients child) (child_id child) children))"

definition writeCreateGrantError :: "engine_error \<Rightarrow> out" where
  "writeCreateGrantError e =
     (case store_part e of
        Some (ErrGrantOverlap g svc) \<Rightarrow>
          api_writeJSON 409 (PConflictGrant CodeConflict (Fmt ''%s is already granted by grant %d'' [AStr svc, AInt g]) g)
      | _ \<Rightarrow> writeGrantError ''create grant'' e)"

text \<open>The rest of the handler, once the child is found: its clients, the catalogue, the grant.\<close>

definition open_grant :: "('s, 'w) deps \<Rightarrow> child \<Rightarrow> child list \<Rightarrow> string list \<Rightarrow> duration \<Rightarrow> ('s, 'w) step" where
  "open_grant d child children services dur =
     attempt (on_world (Create (d_grants d) (child_id child) services (child_clients child) dur))
       writeCreateGrantError (\<lambda>res. finish (grant_created child children res))"

definition grant_for_child :: "('s, 'w) deps \<Rightarrow> child \<Rightarrow> child list \<Rightarrow> string list \<Rightarrow> duration \<Rightarrow> ('s, 'w) step" where
  "grant_for_child d child children services dur =
     (if child_clients child = [] then finish (unprocessable ''child has no clients to unblock'' [])
      else attempt (call_ag (aa_Services (d_adguard d))) (\<lambda>_. writeAdGuardError) (\<lambda>catalogue.
             case find (\<lambda>s. s \<notin> sv_id ` set catalogue) services of
               Some s \<Rightarrow> finish (unprocessable ''unknown service %q'' [AQuoted s])
             | None \<Rightarrow> open_grant d child children services dur))"

definition handleGrantCreate :: "('s, 'w) deps \<Rightarrow> ('s, 'w) handler" where
  "handleGrantCreate d r sess =
     checked (decode_body maxGrantBody (Msg ''expected JSON {child_id, services, duration}'') decode_grant r)
       (\<lambda>(childRef, services0, seconds).
     checked (checkDuration seconds) (\<lambda>dur.
       let services = trim_dedup [] services0
       in if services = [] then finish (unprocessable ''services must name at least one service'' [])
          else attempt (call_store (cs_ListChildren (d_children d))) (writeStoreError ''list children'' []) (\<lambda>children.
                 case find (\<lambda>c. child_id c = childRef) children of
                   None \<Rightarrow> finish (writeStoreError ''get child'' [] ErrChildNotFound)
                 | Some child \<Rightarrow> grant_for_child d child children services dur)))"

definition handleGrantExtend :: "('s, 'w) deps \<Rightarrow> string \<Rightarrow> ('s, 'w) handler" where
  "handleGrantExtend d ref r sess =
     checked (grantID ref) (\<lambda>i.
     checked (decode_body maxGrantBody (Msg ''expected JSON {duration}'') decode_duration r) (\<lambda>seconds.
     checked (checkDuration seconds) (\<lambda>dur.
     attempt (on_world (Extend (d_grants d) i dur)) (writeGrantError ''extend grant'')
       (\<lambda>g. finish (api_writeJSON 200 (PExtended (grant_id g) (unix (ends_at g))))))))"

definition handleGrantEnd :: "('s, 'w) deps \<Rightarrow> string \<Rightarrow> ('s, 'w) handler" where
  "handleGrantEnd d ref r sess =
     checked (grantID ref) (\<lambda>i.
     attempt (on_world (End (d_grants d) i)) (writeGrantError ''end grant'') (\<lambda>_. finish noContent))"

end
