(* ===== verification/ApiViews.thy ===== *)
theory ApiViews
  imports ApiGrants
begin

text \<open>
  internal/api/blocked.go and migration.go: what a child's clients block, read live, and the offer
  that moves the mapped clients off the global list.
\<close>

section \<open>The blocked view (blocked.go)\<close>

text \<open>The name of a grant's child: empty once the child is no longer listed.\<close>

definition child_name_of :: "child list \<Rightarrow> id \<Rightarrow> string" where
  "child_name_of children i = (case map_of (rev (map (\<lambda>c. (child_id c, child_name c)) children)) i of None \<Rightarrow> [] | Some n \<Rightarrow> n)"

definition grant_cover_of :: "child list \<Rightarrow> grant \<Rightarrow> grant_cover" where
  "grant_cover_of children g =
     \<lparr>gv_id = grant_id g, gv_child = \<lparr>ref_id = grant_child g, ref_name = child_name_of children (grant_child g)\<rparr>,
      gv_services = grant_services g, gv_clients = grant_clients g\<rparr>"

text \<open>Both inputs of the annotations; a failed read leaves out what depends on it.\<close>

definition sharedInputs ::
  "('s, 'w) deps \<Rightarrow> ('s, 'w) api_state \<Rightarrow> ((string \<Rightarrow> child_ref list) \<times> grant_cover list) \<times> ('s, 'w) api_state" where
  "sharedInputs d =
     tolerate (call_store (cs_ListChildren (d_children d))) (\<lambda>r1 a1.
       case r1 of
         None \<Rightarrow> ((\<lambda>_. [], []), a1)
       | Some children \<Rightarrow>
           tolerate (list_grants d) (\<lambda>r2 a2.
             ((ownerIndex children, case r2 of None \<Rightarrow> [] | Some active \<Rightarrow> map (grant_cover_of children) active), a2)) a1)"

definition handleBlocked :: "('s, 'w) deps \<Rightarrow> string \<Rightarrow> ('s, 'w) handler" where
  "handleBlocked d ref r sess =
     checked (childID ref) (\<lambda>i.
     attempt (call_store (cs_GetChild (d_children d) i)) (writeStoreError ''get child'' []) (\<lambda>child a1.
       let ((owners, covers), a2) = sharedInputs d a1
       in attempt (call_ag (aa_Clients (d_adguard d))) (\<lambda>_. writeAdGuardError) (\<lambda>res.
          attempt (call_ag (aa_Services (d_adguard d))) (\<lambda>_. writeAdGuardError) (\<lambda>services.
            finish (api_writeJSON 200 (PBlocked (ref_of child)
              (Compute \<lparr>in_clients = cr_persistent res, in_global = cr_global res, in_services = services,
                        in_mapped = child_clients child, in_self = child_id child, in_owners = owners,
                        in_grants = covers\<rparr>))))) a2))"

section \<open>The migration offer (migration.go)\<close>

text \<open>The loops over the children and their clients: each name once, with its first owner.\<close>

fun claim_names :: "child_ref \<Rightarrow> (string \<times> child_ref) list \<Rightarrow> string list \<Rightarrow> (string \<times> child_ref) list" where
  "claim_names ref owner [] = owner"
| "claim_names ref owner (name # names) =
     claim_names ref (if name \<in> fst ` set owner then owner else owner @ [(name, ref)]) names"

definition map_owners :: "child list \<Rightarrow> (string \<times> child_ref) list" where
  "map_owners children = fold (\<lambda>c owner. claim_names (ref_of c) owner (child_clients c)) children []"

definition offer_client :: "(string \<times> child_ref) list \<Rightarrow> offer_step \<Rightarrow> string \<times> child_ref \<times> string list" where
  "offer_client owner st =
     (os_client st, case map_of owner (os_client st) of None \<Rightarrow> \<lparr>ref_id = 0, ref_name = []\<rparr> | Some ref \<Rightarrow> ref, os_gains st)"

definition computeOffer :: "('s, 'w) deps \<Rightarrow> (payload \<Rightarrow> offer_step list \<Rightarrow> ('s, 'w) step) \<Rightarrow> ('s, 'w) step" where
  "computeOffer d k =
     attempt (call_store (cs_ListChildren (d_children d))) (writeStoreError ''list children'' []) (\<lambda>children.
     attempt (call_ag (aa_Clients (d_adguard d))) (\<lambda>_. writeAdGuardError) (\<lambda>res.
       let owner = map_owners children;
           steps = Offer (cr_persistent res) (cr_global res) (map fst owner)
       in k (POffer (cr_global res) (map (offer_client owner) steps)) steps))"

definition handleMigrationOffer :: "('s, 'w) deps \<Rightarrow> ('s, 'w) handler" where
  "handleMigrationOffer d r sess = computeOffer d (\<lambda>offer _. finish (api_writeJSON 200 offer))"

definition migrate_failed :: "string \<Rightarrow> nat \<Rightarrow> out" where
  "migrate_failed client n =
     writeError 502 CodeAdGuardUnavailable
       (Fmt (''could not migrate %s'' @ dash @ ''AdGuard Home is unreachable; %d client(s) were migrated'')
          [AStr client, AInt (int n)])"

fun migrate_loop :: "('s, 'w) deps \<Rightarrow> string list \<Rightarrow> offer_step list \<Rightarrow> ('s, 'w) step" where
  "migrate_loop d migrated [] = finish (api_writeJSON 200 (PMigrated migrated))"
| "migrate_loop d migrated (st # sts) =
     attempt (call_ag (aa_MigrateFromGlobal (d_adguard d) (os_client st) (os_target st)))
       (\<lambda>_. migrate_failed (os_client st) (length migrated))
       (\<lambda>_. migrate_loop d (migrated @ [os_client st]) sts)"

definition handleMigrationApply :: "('s, 'w) deps \<Rightarrow> ('s, 'w) handler" where
  "handleMigrationApply d r sess = computeOffer d (\<lambda>_ steps. migrate_loop d [] steps)"

end
