(* ===== verification/Api.thy ===== *)
theory Api
  imports ApiSessions ApiViews EngineWiring
begin

text \<open>
  internal/api/api.go and middleware.go: the route table, the layers around it, and the API on the
  program's own store, engine and AdGuard client (main.go). A path is the list of its segments,
  already cleaned: net/http answers a path with an empty, \<open>.\<close> or \<open>..\<close> segment by a redirect
  before a handler runs. A GET pattern also matches HEAD, whose body net/http then drops, and
  a wildcard matches one segment that is not empty.
\<close>

section \<open>Routes\<close>

datatype ('s, 'w) api_route = Open "api_request \<Rightarrow> ('s, 'w) step" | Gated "('s, 'w) handler"

definition not_found :: "('s, 'w) handler" where
  "not_found r sess = finish (api_writeJSON 404 PNotFoundPage)"

definition get_route :: "('s, 'w) deps \<Rightarrow> string list \<Rightarrow> ('s, 'w) handler option" where
  "get_route d p =
     (case p of
        [x] \<Rightarrow>
          (if x = ''me'' then Some handleMe
           else if x = ''sessions'' then Some (handleSessionsList d)
           else if x = ''children'' then Some (handleChildrenList d)
           else if x = ''clients'' then Some (handleClients d)
           else if x = ''services'' then Some (handleServices d)
           else if x = ''migration'' then Some (handleMigrationOffer d)
           else if x = ''grants'' then Some (handleGrantsList d)
           else if x = ''buttons'' then Some (handleButtonsList d) else None)
      | [x, i] \<Rightarrow> (if x = ''children'' \<and> i \<noteq> [] then Some (handleChildGet d i) else None)
      | [x, i, y] \<Rightarrow> (if x = ''children'' \<and> i \<noteq> [] \<and> y = ''blocked'' then Some (handleBlocked d i) else None)
      | _ \<Rightarrow> None)"

definition post_route :: "('s, 'w) deps \<Rightarrow> string list \<Rightarrow> ('s, 'w) handler option" where
  "post_route d p =
     (case p of
        [x] \<Rightarrow>
          (if x = ''logout'' then Some (handleLogout d)
           else if x = ''children'' then Some (handleChildCreate d)
           else if x = ''clients'' then Some (handleClientCreate d)
           else if x = ''migration'' then Some (handleMigrationApply d)
           else if x = ''grants'' then Some (handleGrantCreate d) else None)
      | [x, y] \<Rightarrow>
          (if x = ''sessions'' \<and> y = ''revoke-all'' then Some (handleSessionsRevokeAll d)
           else if x = ''clients'' \<and> y = ''rename'' then Some (handleClientRename d) else None)
      | [x, i, y] \<Rightarrow>
          (if x = ''grants'' \<and> i \<noteq> [] \<and> y = ''extend'' then Some (handleGrantExtend d i)
           else if x = ''grants'' \<and> i \<noteq> [] \<and> y = ''end'' then Some (handleGrantEnd d i) else None)
      | _ \<Rightarrow> None)"

definition put_route :: "('s, 'w) deps \<Rightarrow> string list \<Rightarrow> ('s, 'w) handler option" where
  "put_route d p =
     (case p of
        [x] \<Rightarrow> (if x = ''buttons'' then Some (handleButtonsReplace d) else None)
      | [x, i] \<Rightarrow> (if x = ''children'' \<and> i \<noteq> [] then Some (handleChildUpdate d i) else None)
      | _ \<Rightarrow> None)"

definition delete_route :: "('s, 'w) deps \<Rightarrow> string list \<Rightarrow> ('s, 'w) handler option" where
  "delete_route d p =
     (case p of
        [x, i] \<Rightarrow>
          (if x = ''sessions'' \<and> i \<noteq> [] then Some (handleSessionDelete d i)
           else if x = ''children'' \<and> i \<noteq> [] then Some (handleChildDelete d i) else None)
      | _ \<Rightarrow> None)"

text \<open>The pattern that matches a method and the path below \<open>/api/v1/\<close>; the catch-all takes the rest.\<close>

definition gated_route :: "('s, 'w) deps \<Rightarrow> string \<Rightarrow> string list \<Rightarrow> ('s, 'w) handler option" where
  "gated_route d method p =
     (if method = ''GET'' \<or> method = ''HEAD'' then get_route d p
      else if method = ''POST'' then post_route d p
      else if method = ''PUT'' then put_route d p
      else if method = ''DELETE'' then delete_route d p
      else None)"

definition routes :: "('s, 'w) deps \<Rightarrow> string \<Rightarrow> string list \<Rightarrow> ('s, 'w) api_route" where
  "routes d method p =
     (if method = ''POST'' \<and> p = [''login''] then Open (api_handleLogin d)
      else case gated_route d method p of Some h \<Rightarrow> Gated h | None \<Rightarrow> Gated not_found)"

definition api_mux :: "('s, 'w) deps \<Rightarrow> api_request \<Rightarrow> ('s, 'w) api_state \<Rightarrow> response \<times> ('s, 'w) api_state" where
  "api_mux d r a =
     (case routes d (hr_method r) (hr_path r) of
        Open h \<Rightarrow> (case h r a of (ot, a') \<Rightarrow> (respond (d_render d) [] ot, a'))
      | Gated h \<Rightarrow> requireSession d h r a)"

text \<open>\<open>Handler\<close>: \<open>noStore(csrf(mux))\<close>.\<close>

definition csrf_refused :: out where
  "csrf_refused = writeError 403 CodeForbidden (Msg (''missing '' @ CSRFHeader @ '' header''))"

definition api_Handler :: "('s, 'w) deps \<Rightarrow> api_request \<Rightarrow> ('s, 'w) api_state \<Rightarrow> response \<times> ('s, 'w) api_state" where
  "api_Handler d r a = (if \<not> csrf_ok r then (respond (d_render d) [] csrf_refused, a) else api_mux d r a)"

section \<open>The program's API (main.go)\<close>

definition sqlite_children :: "store child_store" where
  "sqlite_children =
     \<lparr>cs_ListChildren = ListChildren, cs_GetChild = GetChild, cs_CreateChild = CreateChild,
      cs_UpdateChild = UpdateChild, cs_DeleteChild = DeleteChild\<rparr>"

definition sqlite_buttons :: "store button_store" where
  "sqlite_buttons = \<lparr>bs_ListButtons = ListButtons, bs_ReplaceButtons = ReplaceButtons\<rparr>"

definition api_client :: "'w server \<Rightarrow> ag_client \<Rightarrow> 'w api_adguard" where
  "api_client srv c =
     \<lparr>aa_Login = Login srv c, aa_Clients = Clients srv c, aa_Services = Services srv c,
      aa_MigrateFromGlobal = MigrateFromGlobal srv c, aa_Leases = Leases srv c\<rparr>"

definition sys_deps ::
  "'w server \<Rightarrow> ag_client \<Rightarrow> ip_net list \<Rightarrow> bool \<Rightarrow> (bytes \<Rightarrow> bytes) \<Rightarrow> (cookie \<Rightarrow> string) \<Rightarrow> (store, 'w) deps" where
  "sys_deps srv c trusted secure sha render =
     \<lparr>d_adguard = api_client srv c, d_trusted = trusted, d_auth = Some (New sqlite_sessions secure 0),
      d_sessions = sqlite_sessions, d_children = sqlite_children, d_grants = sys_engine srv c,
      d_buttons = sqlite_buttons, d_sha = sha, d_render = render\<rparr>"

end
