(* ===== verification/ApiFrames.thy ===== *)
theory ApiFrames
  imports Api
begin

text \<open>
  What the handlers leave alone. A predicate on the state that every call a handler makes keeps,
  the handler keeps: \<open>read_invariant\<close> for the GET routes and the session gate, \<open>write_invariant\<close> for the
  gated routes that leave AdGuard's devices where they are, \<open>api_invariant\<close> for all the gated ones, and
  \<open>login_invariant\<close> for a login. They are used with the login budget, which only a login touches,
  with everything but the sessions, which neither a GET nor a login touches, and with the ledger.
\<close>

section \<open>The GET routes\<close>

locale read_invariant =
  fixes d :: "('s, 'w) deps" and P :: "('s, 'w) api_state \<Rightarrow> bool"
  assumes clock_read: "P a \<Longrightarrow> P (snd (read_clock a))"
    and gate: "P a \<Longrightarrow> d_auth d = Some m \<Longrightarrow> P (snd (call_store (session_gate d m now ck) a))"
    and list_children: "P a \<Longrightarrow> P (snd (call_store (cs_ListChildren (d_children d)) a))"
    and get_child: "P a \<Longrightarrow> P (snd (call_store (cs_GetChild (d_children d) i) a))"
    and list_buttons: "P a \<Longrightarrow> P (snd (call_store (bs_ListButtons (d_buttons d)) a))"
    and list_sessions: "P a \<Longrightarrow> P (snd (call_store (ss_ListByUser (d_sessions d) u) a))"
    and grants_listed: "P a \<Longrightarrow> P (snd (list_grants d a))"
    and read_clients: "P a \<Longrightarrow> P (snd (call_ag (aa_Clients (d_adguard d)) a))"
    and read_services: "P a \<Longrightarrow> P (snd (call_ag (aa_Services (d_adguard d)) a))"
    and read_leases: "P a \<Longrightarrow> P (snd (call_ag (aa_Leases (d_adguard d)) a))"
begin

lemmas reads = list_children get_child list_buttons list_sessions grants_listed read_clients read_services read_leases
lemmas keep = attempt_keeps [where P = P] tolerate_keeps [where P = P] checked_keeps [where P = P]

lemma sharedInputs_keeps: "P a \<Longrightarrow> P (snd (sharedInputs d a))"
  unfolding sharedInputs_def by (rule keep) (auto intro: reads intro!: keep split: option.split)

lemma computeOffer_keeps:
  "P a \<Longrightarrow> (\<And>p st a. P a \<Longrightarrow> P (snd (k p st a))) \<Longrightarrow> P (snd (computeOffer d k a))"
  unfolding computeOffer_def by (intro keep reads) (auto simp: Let_def)

lemma handleBlocked_keeps: "P a \<Longrightarrow> P (snd (handleBlocked d i r s a))"
proof -
  have "P (snd (let ((owners, covers), a2) = sharedInputs d a1
       in attempt (call_ag (aa_Clients (d_adguard d))) (\<lambda>_. writeAdGuardError) (\<lambda>res.
          attempt (call_ag (aa_Services (d_adguard d))) (\<lambda>_. writeAdGuardError) (k owners covers res)) a2))"
    if "P a1" "\<And>owners covers res services a. P a \<Longrightarrow> P (snd (k owners covers res services a))" for a1 k
    using sharedInputs_keeps [OF that(1)] that(2)
    by (cases "sharedInputs d a1") (auto intro!: keep reads split: prod.split)
  then show "P a \<Longrightarrow> ?thesis" unfolding handleBlocked_def by (intro keep reads) auto
qed

lemma get_handlers_keep:
  assumes "P a"
  shows "P (snd (handleMe r s a))" "P (snd (handleSessionsList d r s a))" "P (snd (handleChildrenList d r s a))"
    "P (snd (handleClients d r s a))" "P (snd (handleServices d r s a))" "P (snd (handleMigrationOffer d r s a))"
    "P (snd (handleGrantsList d r s a))" "P (snd (handleButtonsList d r s a))" "P (snd (handleChildGet d i r s a))"
    "P (snd (not_found r s a))"
  unfolding handleMe_def handleSessionsList_def handleChildrenList_def handleClients_def handleServices_def
    handleMigrationOffer_def handleGrantsList_def handleButtonsList_def handleChildGet_def not_found_def
  by ((intro keep reads computeOffer_keeps; (simp add: assms)?; fail) | (simp add: assms))+

lemma renamedView_keeps: "P a \<Longrightarrow> P (snd (renamedView d n a))"
  unfolding renamedView_def by (auto simp: Let_def intro!: keep reads)

lemma find_child_keeps: "P a \<Longrightarrow> P (snd (find_child d ch a))"
proof (cases ch)
  case (Some i)
  then show "P a \<Longrightarrow> ?thesis" using get_child [of a i]
    by (cases "call_store (cs_GetChild (d_children d) i) a") (auto simp: find_child_def split: sum.split)
qed (simp add: find_child_def)

lemma get_route_keeps: "get_route d p = Some h \<Longrightarrow> P a \<Longrightarrow> P (snd (h r s a))"
  by (auto simp: get_route_def get_handlers_keep handleBlocked_keeps split: list.splits if_splits)

text \<open>The session gate answers itself, or the handler runs behind it.\<close>

lemma requireSession_split:
  assumes "P a" "requireSession d h r a = (rp, a')"
  obtains (refused) "P a'" | (served) s a2 where "P a2" "h r s a2 = (fst (h r s a2), a')" "rp_status rp = o_status (fst (h r s a2))"
proof (cases "d_auth d")
  case (Some m)
  define a1 where "a1 = (if hr_cookie r = None then (0, a) else read_clock a)"
  have a1: "P (snd a1)" using assms(1) clock_read by (simp add: a1_def)
  obtain oc cs a2 where g: "call_store (session_gate d m (fst a1) (hr_cookie r)) (snd a1) = ((oc, cs), a2)"
    by (metis prod.exhaust)
  have a2: "P a2" using gate [OF a1 Some, of "fst a1" "hr_cookie r"] g by simp
  have eq: "requireSession d h r a = (case oc of
      Refused code x \<Rightarrow> (respond (d_render d) cs (if code = 401 then unauthorized
         else writeError code ''internal'' (Msg ''session lookup failed'')), a2)
    | Served s \<Rightarrow> (case h r s a2 of (ot, a3) \<Rightarrow> (respond (d_render d) cs ot, a3)))"
    using g Some by (cases oc) (simp_all add: requireSession_def a1_def [symmetric] case_prod_beta)
  show ?thesis
  proof (cases oc)
    case (Refused code x)
    with eq assms(2) a2 refused show ?thesis by simp
  next
    case (Served s)
    with eq assms(2) served [OF a2, of s] show ?thesis
      by (cases "h r s a2") (auto simp: respond_def)
  qed
qed (use assms refused in \<open>simp add: requireSession_def\<close>)

lemma requireSession_keeps:
  assumes "P a" "\<And>s a. P a \<Longrightarrow> P (snd (h r s a))"
  shows "P (snd (requireSession d h r a))"
proof -
  obtain rp a' where run: "requireSession d h r a = (rp, a')" by fastforce
  from assms(1) run have "P a'"
  proof (cases rule: requireSession_split)
    case (served s a2)
    with assms(2) [of a2 s] show ?thesis by (metis snd_conv)
  qed
  with run show ?thesis by simp
qed

lemma get_request_keeps:
  assumes "P a" "hr_method r = ''GET'' \<or> hr_method r = ''HEAD''"
  shows "P (snd (api_Handler d r a))"
proof -
  have "csrf_ok r" using assms(2) by (auto simp: csrf_ok_def)
  moreover obtain h where "routes d (hr_method r) (hr_path r) = Gated h" "get_route d (hr_path r) = Some h \<or> h = not_found"
    using assms(2) by (cases "get_route d (hr_path r)") (auto simp: routes_def gated_route_def)
  ultimately show ?thesis
    using requireSession_keeps [OF assms(1), of h r] get_route_keeps get_handlers_keep(10)
    by (auto simp: api_Handler_def api_mux_def)
qed

end

section \<open>The gated routes\<close>

text \<open>The three routes that move devices or their lists on the caller's word.\<close>

definition moves_devices :: "string \<Rightarrow> string list \<Rightarrow> bool" where
  "moves_devices meth p \<longleftrightarrow> meth = ''POST'' \<and> (p = [''clients''] \<or> p = [''clients'', ''rename''] \<or> p = [''migration''])"

locale write_invariant = read_invariant +
  assumes create_row: "P a \<Longrightarrow> P (snd (call_store (cs_CreateChild (d_children d) now name clients) a))"
    and update_row: "P a \<Longrightarrow> P (snd (call_store (cs_UpdateChild (d_children d) i name clients) a))"
    and delete_row: "P a \<Longrightarrow> P (snd (call_store (cs_DeleteChild (d_children d) i) a))"
    and replace: "P a \<Longrightarrow> P (snd (call_store (bs_ReplaceButtons (d_buttons d) bs) a))"
    and end_session: "P a \<Longrightarrow> P (snd (call_store (ss_Delete (d_sessions d) i) a))"
    and revoke: "P a \<Longrightarrow> P (snd (call_store (ss_DeleteByUser (d_sessions d) u i) a))"
    and revoke_others: "P a \<Longrightarrow> P (snd (call_store (ss_DeleteOthers (d_sessions d) u i) a))"
    and adopt: "P a \<Longrightarrow> P (snd (on_world (AdoptClients (d_grants d) i siblings added) a))"
    and create_grant: "P a \<Longrightarrow> P (snd (on_world (Create (d_grants d) i svcs cs dur) a))"
    and extend_grant: "P a \<Longrightarrow> P (snd (on_world (Extend (d_grants d) i dur) a))"
    and end_grant: "P a \<Longrightarrow> P (snd (on_world (End (d_grants d) i) a))"
begin

lemmas writes = create_row update_row delete_row replace end_session revoke revoke_others adopt
  create_grant extend_grant end_grant

lemma adopt_added_keeps: "P a \<Longrightarrow> (\<And>a. P a \<Longrightarrow> P (snd (k a))) \<Longrightarrow> P (snd (adopt_added d op i sib added k a))"
  unfolding adopt_added_def by (auto intro!: keep writes)

lemma create_child_row_keeps: "P a \<Longrightarrow> P (snd (create_child_row d n cs a))"
  using clock_read [of a] create_row by (auto simp: create_child_row_def split: prod.split)

lemma check_children_keeps: "P a \<Longrightarrow> (\<And>a. P a \<Longrightarrow> P (snd (k a))) \<Longrightarrow> P (snd (check_children d i seen bs k a))"
  by (induction bs arbitrary: a i seen) (auto intro!: keep reads)

lemma store_buttons_keeps: "P a \<Longrightarrow> P (snd (store_buttons d items a))"
  unfolding store_buttons_def by (auto intro!: keep writes)

lemma session_handlers_keep:
  assumes "P a"
  shows "P (snd (handleLogout d r s a))" "P (snd (handleSessionDelete d i r s a))" "P (snd (handleSessionsRevokeAll d r s a))"
  unfolding handleLogout_def handleSessionDelete_def handleSessionsRevokeAll_def
  by (auto intro!: keep writes simp: assms)

lemma child_handlers_keep:
  assumes "P a"
  shows "P (snd (handleChildCreate d r s a))" "P (snd (handleChildUpdate d i r s a))" "P (snd (handleChildDelete d i r s a))"
proof -
  show "P (snd (handleChildCreate d r s a))" unfolding handleChildCreate_def
    by (auto intro!: keep reads adopt_added_keeps create_child_row_keeps simp: assms split: option.split)
  show "P (snd (handleChildUpdate d i r s a))" unfolding handleChildUpdate_def update_from_def
    by (auto intro!: keep reads writes adopt_added_keeps simp: assms Let_def split: option.split)
  show "P (snd (handleChildDelete d i r s a))" unfolding handleChildDelete_def
    by (auto intro!: keep writes simp: assms)
qed

lemma buttons_handler_keeps: "P a \<Longrightarrow> P (snd (handleButtonsReplace d r s a))"
  unfolding handleButtonsReplace_def
  by (auto intro!: keep reads check_children_keeps store_buttons_keeps split: option.split)

lemma grant_handlers_keep:
  assumes "P a"
  shows "P (snd (handleGrantCreate d r s a))" "P (snd (handleGrantExtend d i r s a))" "P (snd (handleGrantEnd d i r s a))"
proof -
  show "P (snd (handleGrantCreate d r s a))" unfolding handleGrantCreate_def grant_for_child_def open_grant_def
    by (auto intro!: keep reads writes simp: assms Let_def split: option.split)
  show "P (snd (handleGrantExtend d i r s a))" "P (snd (handleGrantEnd d i r s a))"
    unfolding handleGrantExtend_def handleGrantEnd_def by (auto intro!: keep writes simp: assms)
qed

lemma write_routes_keep:
  assumes "P a"
  shows "post_route d p = Some h \<Longrightarrow> \<not> moves_devices ''POST'' p \<Longrightarrow> P (snd (h r s a))" "put_route d p = Some h \<Longrightarrow> P (snd (h r s a))"
    "delete_route d p = Some h \<Longrightarrow> P (snd (h r s a))"
  using session_handlers_keep [OF assms] child_handlers_keep [OF assms] buttons_handler_keeps [OF assms]
    grant_handlers_keep [OF assms]
  by (auto simp: post_route_def put_route_def delete_route_def moves_devices_def split: list.splits if_splits)

lemma gated_route_keeps: "gated_route d meth p = Some h \<Longrightarrow> \<not> moves_devices meth p \<Longrightarrow> P a \<Longrightarrow> P (snd (h r s a))"
  using get_route_keeps write_routes_keep by (auto simp: gated_route_def split: if_splits)

end

locale api_invariant = write_invariant +
  assumes migrate: "P a \<Longrightarrow> P (snd (call_ag (aa_MigrateFromGlobal (d_adguard d) n ids) a))"
    and create_client: "P a \<Longrightarrow> P (snd (on_world (CreateClient (d_grants d) n ids ch) a))"
    and rename: "P a \<Longrightarrow> P (snd (on_world (engine_RenameClient (d_grants d) old new) a))"
begin

lemma migrate_loop_keeps: "P a \<Longrightarrow> P (snd (migrate_loop d done1 sts a))"
  by (induction sts arbitrary: a done1) (auto intro!: keep migrate)

lemma moving_handlers_keep:
  assumes "P a"
  shows "P (snd (handleClientCreate d r s a))" "P (snd (handleClientRename d r s a))" "P (snd (handleMigrationApply d r s a))"
proof -
  show "P (snd (handleClientCreate d r s a))" unfolding handleClientCreate_def
    by (auto intro!: keep reads create_client find_child_keeps simp: assms split: option.split)
  show "P (snd (handleClientRename d r s a))" unfolding handleClientRename_def
    by (auto intro!: keep rename renamedView_keeps simp: assms)
  show "P (snd (handleMigrationApply d r s a))" unfolding handleMigrationApply_def
    by (auto intro!: computeOffer_keeps migrate_loop_keeps simp: assms)
qed

lemma every_route_keeps: "gated_route d meth p = Some h \<Longrightarrow> P a \<Longrightarrow> P (snd (h r s a))"
  using gated_route_keeps [of meth p h a r s] moving_handlers_keep [of a r s]
  by (cases "moves_devices meth p") (auto simp: moves_devices_def gated_route_def post_route_def)

lemma gated_keeps:
  assumes "P a" "\<not> (hr_method r = ''POST'' \<and> hr_path r = [''login''])"
  shows "P (snd (api_Handler d r a))"
proof -
  obtain h where "routes d (hr_method r) (hr_path r) = Gated h"
    "gated_route d (hr_method r) (hr_path r) = Some h \<or> h = not_found"
    using assms(2) by (cases "gated_route d (hr_method r) (hr_path r)") (auto simp: routes_def)
  then show ?thesis
    using requireSession_keeps [OF assms(1), of h r] every_route_keeps get_handlers_keep(10) assms(1)
    by (auto simp: api_Handler_def api_mux_def)
qed

end

section \<open>A login\<close>

locale login_invariant =
  fixes d :: "('s, 'w) deps" and P :: "('s, 'w) api_state \<Rightarrow> bool"
  assumes check: "P a \<Longrightarrow> P (snd (limiter_Check ip a))"
    and count: "P a \<Longrightarrow> P (limiter_Fail ip a)"
    and ask: "P a \<Longrightarrow> P (snd (call_ag (aa_Login (d_adguard d) user pass) a))"
    and issue: "P a \<Longrightarrow> d_auth d = Some m \<Longrightarrow> P (snd (issue_session d m user a))"
begin

lemma login_steps_keep:
  assumes "P a"
  shows "P (snd (login_arrive d r a))" "P (snd (login_enter ip a))" "P (snd (login_ask d user pass a))"
    "P (snd (login_settle d ip user res a))"
proof -
  show "P (snd (login_arrive d r a))"
    using assms check [OF assms, of "request_ip d r"] by (auto simp: login_arrive_def Let_def case_prod_beta split: sum.split)
  show "P (snd (login_enter ip a))" using check [OF assms, of ip] by (simp add: login_enter_def case_prod_beta)
  show "P (snd (login_ask d user pass a))" using ask [OF assms] by (simp add: login_ask_def)
  have "P (snd (attempt (issue_session d m user) e (\<lambda>(raw, _). finish (f raw)) a))" if "d_auth d = Some m" for m e f
    by (rule attempt_keeps) (use issue [OF assms that] in \<open>auto split: prod.split\<close>)
  then show "P (snd (login_settle d ip user res a))"
    using assms count [OF assms] by (auto simp: login_settle_def split: sum.split ag_error.split option.split)
qed

lemma login_keeps: "P a \<Longrightarrow> P (snd (api_handleLogin d r a))"
  using login_steps_keep
  by (auto simp: api_handleLogin_def login_slot_def split: prod.split sum.split option.split) (metis snd_conv)+

end

text \<open>What the steps of a login do to the clock and the random source.\<close>

lemma login_worlds [simp]:
  "a_world (snd (limiter_Check ip a)) = snd (clock (a_world a))" "a_world (limiter_Fail ip a) = snd (clock (a_world a))"
  "a_world (snd (draw_random a)) = a_world a" "a_world (snd (read_clock a)) = snd (clock (a_world a))"
  by (simp_all add: limiter_Check_def limiter_Fail_def draw_random_def read_clock_def case_prod_beta Let_def split: list.split)

lemma issue_world:
  "a_world (snd (issue_session d m u a)) =
     snd (run_store (Issue (d_sha d) m (fst (draw_random a)) (fst (clock (a_world a))) u) (snd (clock (a_world a))))"
  by (simp add: issue_session_def case_prod_beta Let_def call_store_def read_clock_def)

end
