(* ===== verification/ApiDemo.thy ===== *)
theory ApiDemo
  imports ApiFrames AuthProps
begin

text \<open>One small system for the witnesses: two children, a session, and the fake AdGuard Home.\<close>

definition demo_api_tables :: tables where
  "demo_api_tables = empty_tables\<lparr>
     t_children := [\<lparr>ch_id = 1, ch_name = ''Ann'', ch_created = 10\<rparr>, \<lparr>ch_id = 2, ch_name = ''Ben'', ch_created = 20\<rparr>],
     t_child_clients := [\<lparr>cc_client = ''Kid phone'', cc_child = 1\<rparr>, \<lparr>cc_client = ''Kid tablet'', cc_child = 2\<rparr>],
     t_sessions := [\<lparr>se_id = 1, se_username = ''ann'', se_hash = demo_token, se_created = 0, se_last_seen = 0,
                     se_expires = 1000000\<rparr>]\<rparr>"

definition demo_deps :: "(store, fake) deps" where
  "demo_deps = sys_deps demo_srv demo_client [] True rev demo_render"

definition demo_api :: "(store, fake) api_state" where
  "demo_api =
     \<lparr>a_world = engine_New \<lparr>db = demo_api_tables, faults = []\<rparr> demo_fake (100 * second) [101 * second, 102 * second],
      a_limiter = limiter_New Defaults, a_random = [Some demo_token]\<rparr>"

definition demo_request :: "string \<Rightarrow> string list \<Rightarrow> json \<Rightarrow> api_request" where
  "demo_request method path body =
     \<lparr>hr_method = method, hr_path = path, hr_remote = ''192.0.2.7:4711'',
      hr_header = (\<lambda>k. if k = CSRFHeader then [CSRFValue] else []),
      hr_cookie = Some (EncodeToString demo_token),
      hr_body = \<lparr>bd_first = Some (body, 100), bd_more = None, bd_readable = True\<rparr>, hr_gone = False\<rparr>"

definition demo_guess :: api_request where
  "demo_guess = demo_request ''POST'' [''login''] (JObj [(''username'', JStr ''svc''), (''password'', JStr ''guess'')])"

definition demo_caller :: session where
  "demo_caller = \<lparr>sess_id = 1, sess_username = ''ann'', token_hash = demo_token, created_at = 0, last_seen_at = 0,
     expires_at = of_unix 1000000\<rparr>"

end
