(* ===== verification/EngineFrames.thy ===== *)
theory EngineFrames
  imports Engine
begin

text \<open>
  What the engine leaves alone: a predicate on the world that its calls, its clock and its timers
  keep, every operation of it keeps, whatever its two interfaces answer.
\<close>

locale engine_frame =
  fixes e :: "('s, 'w) engine" and K :: "('s, 'w) world \<Rightarrow> bool"
  assumes store_call: "K w \<Longrightarrow> K (w\<lparr>w_store := s\<rparr>)"
    and timer_set: "K w \<Longrightarrow> K (w\<lparr>w_timers := m\<rparr>)"
    and clock_call: "K w \<Longrightarrow> K (snd (clock w))"
    and ag_call: "K w \<Longrightarrow> K (snd (run_ag (ea_Clients (e_ag e)) w))"
      "K w \<Longrightarrow> K (snd (run_ag (ea_RemoveBlockedServices (e_ag e) n ids) w))"
      "K w \<Longrightarrow> K (snd (run_ag (ea_AddBlockedServices (e_ag e) n ids) w))"
      "K w \<Longrightarrow> K (snd (run_ag (ea_AddClient (e_ag e) nc) w))"
      "K w \<Longrightarrow> K (snd (run_ag (ea_AdoptBlockedServices (e_ag e) n ids) w))"
      "K w \<Longrightarrow> K (snd (run_ag (ea_RenameClient (e_ag e) n n') w))"
begin

lemma store_keeps: "run_store f w = (r, w') \<Longrightarrow> K w \<Longrightarrow> K w'"
  using store_call by (auto simp: run_store_def split: prod.splits)

lemma clock_keeps: "clock w = (now, w') \<Longrightarrow> K w \<Longrightarrow> K w'"
  using clock_call by (metis snd_conv)

lemma ag_keeps:
  "run_ag (ea_Clients (e_ag e)) w = (r, w') \<Longrightarrow> K w \<Longrightarrow> K w'"
  "run_ag (ea_RemoveBlockedServices (e_ag e) n ids) w = (r2, w') \<Longrightarrow> K w \<Longrightarrow> K w'"
  "run_ag (ea_AddBlockedServices (e_ag e) n ids) w = (r2, w') \<Longrightarrow> K w \<Longrightarrow> K w'"
  "run_ag (ea_AddClient (e_ag e) nc) w = (r2, w') \<Longrightarrow> K w \<Longrightarrow> K w'"
  "run_ag (ea_AdoptBlockedServices (e_ag e) n ids) w = (r2, w') \<Longrightarrow> K w \<Longrightarrow> K w'"
  "run_ag (ea_RenameClient (e_ag e) n n') w = (r2, w') \<Longrightarrow> K w \<Longrightarrow> K w'"
  using ag_call by (metis snd_conv)+

lemmas calls_keep = store_keeps clock_keeps ag_keeps

lemma arm_keeps: "K w \<Longrightarrow> K (arm g w)"
  by (auto simp: arm_def stopTimer_def Let_def split: prod.splits intro: timer_set dest: clock_keeps)

lemma stopTimer_keeps: "K w \<Longrightarrow> K (stopTimer i w)"
  by (simp add: stopTimer_def timer_set)

lemma unblock_loop_keeps: "unblock_loop e svcs bn ns w = (fl, w') \<Longrightarrow> K w \<Longrightarrow> K w'"
  by (induction ns arbitrary: w fl w')
    (auto simp: Let_def split: prod.splits option.splits sum.splits if_splits dest: calls_keep)

lemma revert_loop_keeps: "revert_loop e plan ns w = (fl, n, w') \<Longrightarrow> K w \<Longrightarrow> K w'"
  by (induction ns arbitrary: w fl n w')
    (auto simp: Let_def split: prod.splits option.splits dest: calls_keep)

lemma adopt_loop_keeps: "K w \<Longrightarrow> K (snd (adopt_loop e base active known ns w))"
  by (induction ns arbitrary: w) (auto split: prod.splits sum.splits dest: calls_keep)

lemma repair_loop_keeps: "repair_loop e bn svcs ns st w = (st', w') \<Longrightarrow> K w \<Longrightarrow> K w'"
  by (induction ns arbitrary: w st st' w')
    (auto simp: Let_def split: prod.splits option.splits sum.splits if_splits dest: calls_keep)

lemma unblock_keeps: "unblock e g w = (fl, w') \<Longrightarrow> K w \<Longrightarrow> K w'"
  by (auto simp: unblock_def split: prod.splits sum.splits dest: calls_keep unblock_loop_keeps)

lemma revert_keeps: "revert e g w = (fl, k, w') \<Longrightarrow> K w \<Longrightarrow> K w'"
  by (auto simp: revert_def split: prod.splits sum.splits dest: calls_keep revert_loop_keeps)

lemma expireLocked_keeps: "expireLocked e g w = (b, k, w') \<Longrightarrow> K w \<Longrightarrow> K w'"
  by (auto simp: expireLocked_def split: prod.splits sum.splits if_splits dest: calls_keep revert_keeps intro: stopTimer_keeps)

lemma expireLocked_world: "K w \<Longrightarrow> K (snd (snd (expireLocked e g w)))"
  using expireLocked_keeps by (metis prod.collapse)

lemma baselineFrom_keeps: "baselineFrom e res i sib w = (x, w') \<Longrightarrow> K w \<Longrightarrow> K w'"
  by (auto simp: baselineFrom_def split: prod.splits sum.splits dest: calls_keep)

lemma baseline_keeps: "baseline e i sib w = (x, w') \<Longrightarrow> K w \<Longrightarrow> K w'"
  by (auto simp: baseline_def split: prod.splits sum.splits dest: calls_keep baselineFrom_keeps)

lemma checkRename_keeps: "checkRename e old new w = (x, w') \<Longrightarrow> K w \<Longrightarrow> K w'"
  by (auto simp: checkRename_def split: prod.splits sum.splits option.splits dest: calls_keep)

lemma reconcile_loop_keeps: "reconcile_loop e bn now gs st w = (st', w') \<Longrightarrow> K w \<Longrightarrow> K w'"
proof (induction gs arbitrary: w st)
  case (Cons g gs)
  obtain st1 w1 where one: "reconcile_grant e bn now g st w = (st1, w1)" by fastforce
  have "K w1"
    using one Cons.prems(2)
    by (auto simp: reconcile_grant_def split: prod.splits if_splits dest: repair_loop_keeps expireLocked_keeps intro: arm_keeps)
  with Cons.IH [of st1 w1] Cons.prems(1) one show ?case by simp
qed simp

lemma engine_keeps:
  assumes "K w"
  shows "K (snd (Create e i svcs cs dur w))" "K (snd (Extend e i dur w))" "K (snd (End e i w))"
    "K (snd (CreateClient e n ids ch w))" "K (snd (AdoptClients e i sib added w))" "K (snd (engine_RenameClient e old new w))"
    "K (snd (engine_List e w))" "K (snd (Reconcile e w))" "K (expire e i w)"
proof -
  show "K (snd (Create e i svcs cs dur w))"
    using assms by (auto simp: Create_def Let_def split: prod.splits sum.splits dest: calls_keep unblock_keeps intro: arm_keeps)
  show "K (snd (Extend e i dur w))"
    using assms by (auto simp: Extend_def split: prod.splits sum.splits dest: calls_keep intro: arm_keeps)
  show "K (snd (End e i w))"
    using assms by (auto 0 9 simp: End_def Let_def split: prod.splits sum.splits dest: calls_keep revert_keeps intro: stopTimer_keeps)
  show "K (snd (CreateClient e n ids ch w))"
    using assms by (auto simp: CreateClient_def split: prod.splits sum.splits option.splits dest: calls_keep baseline_keeps)
  show "K (snd (AdoptClients e i sib added w))"
    using assms by (auto simp: AdoptClients_def split: prod.splits sum.splits dest: calls_keep baselineFrom_keeps intro: adopt_loop_keeps)
  show "K (snd (engine_RenameClient e old new w))"
    using assms by (auto simp: engine_RenameClient_def split: prod.splits sum.splits dest: calls_keep checkRename_keeps)
  show "K (snd (engine_List e w))"
    using assms by (cases "run_store (es_ListActiveGrants (e_store e)) w") (auto simp: engine_List_def dest: store_keeps)
  show "K (snd (Reconcile e w))"
    using assms by (auto simp: Reconcile_def Let_def split: prod.splits sum.splits if_splits dest: calls_keep reconcile_loop_keeps)
  have "K (w\<lparr>w_timers := (w_timers w)(i := None)\<rparr>)" using assms by (rule timer_set)
  then show "K (expire e i w)"
    by (auto simp: expire_def Let_def split: prod.splits sum.splits dest: calls_keep intro: arm_keeps expireLocked_world)
qed

end

end
