(* ===== verification/AdguardLog.thy ===== *)
theory AdguardLog
  imports AdguardClients
begin

text \<open>
  A server that keeps a log of what it was asked and what it answered, to count the passwords it
  refused. Of all the calls of the client only \<open>Login\<close> asks for one: whatever a predicate on the
  server's state survives but a login, every other call leaves it.
\<close>

section \<open>The log\<close>

type_synonym 'w with_log = "'w \<times> (http_req \<times> reply) list"

definition logged :: "'w server \<Rightarrow> 'w with_log server" where
  "logged srv wl rq = (case srv (fst wl) rq of (w, rep) \<Rightarrow> ((w, snd wl @ [(rq, rep)]), rep))"

text \<open>An answered login whose password was wrong: what \<open>Login\<close> takes for bad credentials.\<close>

definition login_path :: string where "login_path = ''/control/login''"

definition refused_login :: "http_req \<times> reply \<Rightarrow> bool" where
  "refused_login x \<longleftrightarrow> rq_path (fst x) = login_path \<and>
     (case snd x of NoReply \<Rightarrow> False | Reply code _ _ \<Rightarrow> code = 400 \<or> code = 401 \<or> code = 403)"

definition refusals :: "'w with_log \<Rightarrow> int" where
  "refusals wl = int (length (filter refused_login (snd wl)))"

lemma refusals_logged:
  "refusals (fst (logged srv wl rq)) = refusals wl + (if refused_login (rq, snd (srv (fst wl) rq)) then 1 else 0)"
  by (simp add: refusals_def logged_def case_prod_beta)

lemma Login_refusals:
  assumes "Login (logged srv) c user pass wl = (r, wl')"
  shows "refusals wl' = refusals wl + (if \<exists>se. r = Inl (ErrBadCredentials se) then 1 else 0)"
proof -
  let ?rq = "\<lparr>rq_method = POST, rq_path = ''/control/login'', rq_body = Some (JObj [(''name'', JStr user), (''password'', JStr pass)]),
    rq_auth = None\<rparr>"
  obtain w rep where s: "srv (fst wl) ?rq = (w, rep)" by fastforce
  have l: "logged srv wl ?rq = ((w, snd wl @ [(?rq, rep)]), rep)" using s by (simp add: logged_def)
  have wl': "wl' = (w, snd wl @ [(?rq, rep)])"
    using assms l by (cases rep) (auto simp: Login_def send_def act_bind_def split: if_splits option.splits)
  have "(\<exists>se. r = Inl (ErrBadCredentials se)) \<longleftrightarrow> refused_login (?rq, rep)"
    using assms l by (cases rep)
      (auto simp: Login_def send_def act_bind_def refused_login_def login_path_def classify_def split: if_splits option.splits)
  then show ?thesis by (simp add: wl' refusals_def)
qed

section \<open>Calls that are no login\<close>

definition keeps_state :: "('w \<Rightarrow> bool) \<Rightarrow> ('e, 'a, 'w) act \<Rightarrow> bool" where
  "keeps_state K m \<longleftrightarrow> (\<forall>w. K w \<longrightarrow> K (snd (m w)))"

lemma keeps_act:
  "keeps_state K (act_ret x)" "keeps_state K (act_fail e)" "keeps_state K (act_lift r)"
  "keeps_state K m \<Longrightarrow> (\<And>x. keeps_state K (f x)) \<Longrightarrow> keeps_state K (act_bind m f)"
  "keeps_state K m \<Longrightarrow> keeps_state K (act_map_err g m)"
  by (auto simp: keeps_state_def act_bind_def act_map_err_def split: prod.split sum.split)

lemma keeps_cases:
  "(\<And>a b. keeps_state K (f1 a b)) \<Longrightarrow> keeps_state K (case p of (a, b) \<Rightarrow> f1 a b)"
  "keeps_state K m \<Longrightarrow> (\<And>x. keeps_state K (f2 x)) \<Longrightarrow> keeps_state K (case ox of None \<Rightarrow> m | Some x \<Rightarrow> f2 x)"
  "(\<And>e. keeps_state K (f3 e)) \<Longrightarrow> (\<And>x. keeps_state K (f4 x)) \<Longrightarrow> keeps_state K (case s of Inl e \<Rightarrow> f3 e | Inr x \<Rightarrow> f4 x)"
  "keeps_state K m1 \<Longrightarrow> keeps_state K m2 \<Longrightarrow> keeps_state K (if q then m1 else m2)"
  by (auto split: prod.split option.split sum.split)

locale quiet_server =
  fixes srv :: "'w server" and K :: "'w \<Rightarrow> bool"
  assumes quiet: "K w \<Longrightarrow> rq_path rq \<noteq> login_path \<Longrightarrow> K (fst (srv w rq))"
begin

lemma call_keeps:
  assumes "path \<noteq> login_path"
  shows "keeps_state K (do_call srv c m path body dec)" "keeps_state K (do_nil srv c m path body)"
proof -
  have "K (snd (send srv c m path body True w))" if "K w" for w
  proof -
    let ?rq = "\<lparr>rq_method = m, rq_path = path, rq_body = body, rq_auth = Some (ag_username c, ag_password c)\<rparr>"
    have "K (fst (srv w ?rq))" by (rule quiet [OF that]) (simp add: assms)
    then show ?thesis by (cases "srv w ?rq"; cases "snd (srv w ?rq)") (simp_all add: send_def)
  qed
  then have send: "keeps_state K (send srv c m path body True)" by (simp add: keeps_state_def)
  show "keeps_state K (do_call srv c m path body dec)" "keeps_state K (do_nil srv c m path body)"
    unfolding do_call_def do_nil_def by (intro keeps_act keeps_cases send)+
qed

lemma reads_keep:
  "keeps_state K (readDoc srv c)" "keeps_state K (readClients srv c)" "keeps_state K (read_global srv c)"
  "keeps_state K (Clients srv c)" "keeps_state K (Services srv c)" "keeps_state K (Leases srv c)" "keeps_state K (Status srv c)"
  unfolding Clients_def readClients_def readDoc_def read_global_def Services_def Leases_def Status_def
  by (intro keeps_act keeps_cases call_keeps; simp add: login_path_def)+

lemma update_keeps: "(\<And>data. keeps_state K (mutate data)) \<Longrightarrow> keeps_state K (updateClient srv c n mutate)"
  unfolding updateClient_def by (intro keeps_act keeps_cases reads_keep call_keeps; simp add: login_path_def)

lemma writes_keep:
  "keeps_state K (RemoveBlockedServices srv c n ids)" "keeps_state K (AddBlockedServices srv c n ids)"
  "keeps_state K (AdoptBlockedServices srv c n ids)" "keeps_state K (MigrateFromGlobal srv c n ids)"
  "keeps_state K (AddClient srv c nc)" "keeps_state K (RenameClient srv c old new)"
  unfolding RemoveBlockedServices_def AddBlockedServices_def editBlockedServices_def edit_data_def
    AdoptBlockedServices_def adopt_data_def MigrateFromGlobal_def AddClient_def RenameClient_def Let_def
  by (intro update_keeps keeps_act keeps_cases reads_keep call_keeps; simp add: login_path_def)+

end

interpretation log: quiet_server "logged srv" "\<lambda>wl. refusals wl = n" for srv n
  by unfold_locales (simp add: refusals_logged refused_login_def)

end
