(* ===== verification/ApiLogin.thy ===== *)
theory ApiLogin
  imports ApiDemo RateLimitProps EngineFrames AdguardLog
begin

text \<open>
  The login budget end to end: the handler, the limiter, the routes and AdGuard together. A login is run in its
  steps, so that the steps of any number of logins and everything else the program does interleave; the
  refused passwords are counted at AdGuard, in a log of what it was asked and answered. Whatever is
  requested, in whatever order and from wherever, only a login asks for a password and only a login touches the
  budget, and what reaches AdGuard is bounded. The handlers read the clock; it may not run backwards.
\<close>

section \<open>The clock\<close>

definition clock_within :: "time \<Rightarrow> time \<Rightarrow> ('s, 'w) world \<Rightarrow> bool" where
  "clock_within t0 T w \<longleftrightarrow> t0 \<le> w_now w \<and> sorted (w_now w # w_ticks w) \<and> (\<forall>t \<in> set (w_now w # w_ticks w). t \<le> T)"

lemma clock_within_simps [simp]:
  "clock_within t0 T (w\<lparr>w_store := s\<rparr>) = clock_within t0 T w"
  "clock_within t0 T (w\<lparr>w_ag := g\<rparr>) = clock_within t0 T w"
  "clock_within t0 T (w\<lparr>w_timers := m\<rparr>) = clock_within t0 T w"
  by (simp_all add: clock_within_def)

lemma clock_advances:
  "clock w = (now, w') \<Longrightarrow> clock_within t0 T w \<Longrightarrow> clock_within now T w' \<and> t0 \<le> now \<and> now \<le> T"
  by (auto simp: clock_def clock_within_def split: list.splits)

lemma clock_within_later: "clock_within t1 T w \<Longrightarrow> t0 \<le> t1 \<Longrightarrow> clock_within t0 T w"
  by (auto simp: clock_within_def)

lemma clock_goes_on: "clock w = (now, w') \<Longrightarrow> clock_within t0 T w \<Longrightarrow> clock_within t0 T w'"
  using clock_advances clock_within_later by blast

section \<open>Only a login asks for a password or touches the budget\<close>

text \<open>The world between logins: the clock went on, and \<open>n\<close> passwords have been refused.\<close>

definition refused_within :: "int \<Rightarrow> time \<Rightarrow> time \<Rightarrow> (store, 'w with_log) world \<Rightarrow> bool" where
  "refused_within n t0 T w \<longleftrightarrow> clock_within t0 T w \<and> refusals (w_ag w) = n"

lemma refused_within_ag:
  assumes "keeps_state (\<lambda>wl. refusals wl = n) f" "refused_within n t0 T w"
  shows "refused_within n t0 T (snd (run_ag f w))"
proof -
  obtain r wl where f: "f (w_ag w) = (r, wl)" by (metis prod.collapse)
  have "refusals (snd (f (w_ag w))) = n"
    by (rule assms(1) [unfolded keeps_state_def, rule_format]) (use assms(2) in \<open>simp add: refused_within_def\<close>)
  with f assms(2) show ?thesis by (simp add: run_ag_def refused_within_def)
qed

lemma refused_within_clock:
  assumes "refused_within n t0 T w"
  shows "refused_within n t0 T (snd (clock w))"
proof -
  obtain now w' where c: "clock w = (now, w')" by fastforce
  then have "w_ag w' = w_ag w" by (auto simp: clock_def split: list.splits)
  with assms clock_goes_on [OF c] show ?thesis by (simp add: c refused_within_def)
qed

lemma refused_within_simps [simp]:
  "refused_within n t0 T (w\<lparr>w_store := st\<rparr>) = refused_within n t0 T w"
  "refused_within n t0 T (w\<lparr>w_timers := m\<rparr>) = refused_within n t0 T w"
  by (simp_all add: refused_within_def)

interpretation quiet: engine_frame "sys_engine (logged srv) c" "refused_within n t0 T" for srv c n t0 T
  by unfold_locales
    (simp_all add: sys_engine_def refused_within_clock refused_within_ag log.reads_keep log.writes_keep)

definition budget_kept :: "limiter \<Rightarrow> int \<Rightarrow> time \<Rightarrow> time \<Rightarrow> (store, 'w with_log) api_state \<Rightarrow> bool" where
  "budget_kept l n t0 T a \<longleftrightarrow> a_limiter a = l \<and> refused_within n t0 T (a_world a)"

lemma budget_on_world:
  "(\<And>w. refused_within n t0 T w \<Longrightarrow> refused_within n t0 T (snd (f w))) \<Longrightarrow> budget_kept l n t0 T a \<Longrightarrow>
     budget_kept l n t0 T (snd (on_world f a))"
  by (simp add: budget_kept_def)

lemma budget_store: "budget_kept l n t0 T a \<Longrightarrow> budget_kept l n t0 T (snd (call_store f a))"
  unfolding call_store_def by (rule budget_on_world) (auto simp: refused_within_def run_store_def split: prod.split)

lemma budget_ag:
  "keeps_state (\<lambda>wl. refusals wl = n) f \<Longrightarrow> budget_kept l n t0 T a \<Longrightarrow> budget_kept l n t0 T (snd (call_ag f a))"
  unfolding call_ag_def by (rule budget_on_world) (auto intro: refused_within_ag)

lemma budget_clock: "budget_kept l n t0 T a \<Longrightarrow> budget_kept l n t0 T (snd (read_clock a))"
  unfolding read_clock_def by (rule budget_on_world) (auto intro: refused_within_clock)

interpretation budget: api_invariant "sys_deps (logged srv) c trusted secure sha render" "budget_kept l n t0 T"
  for srv c trusted secure sha render l n t0 T
  by unfold_locales (auto simp: sys_deps_def api_client_def list_grants_def
    intro!: budget_store budget_clock budget_ag budget_on_world quiet.engine_keeps log.reads_keep log.writes_keep)

section \<open>What the limiter is asked\<close>

definition is_login :: "api_request \<Rightarrow> bool" where
  "is_login r \<longleftrightarrow> hr_method r = ''POST'' \<and> hr_path r = [''login'']"

lemma reads_clock:
  assumes "budget_kept l n t0 T a" "clock (a_world a) = (now, w)"
  shows "t0 \<le> now" "now \<le> T" "w_now w = now" "refused_within n now T w"
proof -
  have "clock_within t0 T (a_world a)" using assms(1) by (simp add: budget_kept_def refused_within_def)
  from clock_advances [OF assms(2) this] show "t0 \<le> now" "now \<le> T" by simp_all
  have "refusals (w_ag w) = n" using assms by (auto simp: budget_kept_def refused_within_def clock_def split: list.splits)
  with clock_advances [OF assms(2) \<open>clock_within t0 T (a_world a)\<close>] show "refused_within n now T w" by (simp add: refused_within_def)
  show "w_now w = now" using assms(2) by (auto simp: clock_def split: list.splits)
qed

lemma checks:
  assumes "budget_kept l n t0 T a" "limiter_Check ip a = ((ok, retry), a')"
  obtains now where "t0 \<le> now" "now \<le> T" "ok = fst (fst (Check l now ip))" "budget_kept (snd (Check l now ip)) n now T a'"
proof -
  obtain now w where w: "clock (a_world a) = (now, w)" by fastforce
  note c = reads_clock [OF assms(1) w]
  have "a_limiter a = l" using assms(1) by (simp add: budget_kept_def)
  with assms(2) w have "((ok, retry), snd (Check l now ip)) = Check l now ip" "a' = a\<lparr>a_world := w, a_limiter := snd (Check l now ip)\<rparr>"
    by (auto simp: limiter_Check_def read_clock_def on_world_def split: prod.splits)
  with that [OF c(1,2)] c(4) show ?thesis
    by (metis api_state.select_convs(1,2) api_state.surjective api_state.update_convs(1,2) budget_kept_def fst_conv)
qed

lemma fails:
  assumes "budget_kept l n t0 T a"
  obtains now where "t0 \<le> now" "now \<le> T" "budget_kept (Fail l now ip) n now T (limiter_Fail ip a)"
proof -
  obtain now w where w: "clock (a_world a) = (now, w)" by fastforce
  show ?thesis
    using that [of now] reads_clock [OF assms w] assms w
    by (simp add: limiter_Fail_def read_clock_def on_world_def budget_kept_def)
qed

section \<open>The budget as an invariant\<close>

text \<open>
  After \<open>n\<close> counted failures since \<open>t0\<close>: at most a full budget for each window that has passed,
  and those counted in the current one.
\<close>

definition spent :: "limits \<Rightarrow> time \<Rightarrow> time \<Rightarrow> int \<Rightarrow> limiter \<Rightarrow> bool" where
  "spent c t0 T n l \<longleftrightarrow> well_keyed l \<and> l_cfg l = c \<and>
     (globalStart l = zero_time \<and> n = 0 \<or>
      t0 \<le> globalStart l \<and> globalStart l \<le> T \<and> globalFails l \<le> GlobalFailures c \<and>
      n \<le> GlobalFailures c * ((globalStart l - t0) div Window c) + globalFails l)"

lemma spent_Check: "spent c t0 T n l \<Longrightarrow> spent c t0 T n (snd (Check l now ip))"
  by (simp add: spent_def Check_state)

text \<open>What the second check has found: neither the address nor everybody is locked out.\<close>

definition admitted :: "limiter \<Rightarrow> lim_key \<Rightarrow> time \<Rightarrow> time \<Rightarrow> bool" where
  "admitted l ip t0 t \<longleftrightarrow> (\<exists>now. t0 \<le> now \<and> now \<le> t \<and> lockedUntil (state_of l ip) \<le> now \<and> \<not> globalDenied l now)"

lemma Check_same:
  "lockedUntil (state_of (snd (Check l now ip')) ip) = lockedUntil (state_of l ip)"
  "globalDenied (snd (Check l now ip')) t = globalDenied l t"
  by (simp add: Check_state(1)) (simp add: globalDenied_def Check_state(2-4))

lemma admitted_Check: "admitted l ip t0 t \<Longrightarrow> admitted (snd (Check l now ip')) ip t0 t"
  by (simp only: admitted_def Check_same)

lemma admitted_later: "admitted l ip t0 t \<Longrightarrow> t \<le> t' \<Longrightarrow> admitted l ip t0 t'"
  by (auto simp: admitted_def)

lemma Check_admits:
  assumes "zero_time \<le> now" "fst (fst (Check l now ip))" "t0 \<le> now"
  shows "admitted (snd (Check l now ip)) ip t0 now"
proof -
  have free: "lockedUntil (state_of l ip) \<le> now" "\<not> globalDenied l now"
    using assms(1,2) by (auto simp: Check_answer global_answer_def split: if_splits)
  with assms(3) show ?thesis unfolding admitted_def Check_same by (intro exI [of _ now]) simp
qed

lemma window_passed:
  assumes "0 < W" "s + W \<le> (t::int)"
  shows "(s - t0) div W + 1 \<le> (t - t0) div W"
proof -
  have "(s - t0) div W + 1 = (s - t0 + W) div W" using assms(1) by (simp add: div_add_self2)
  also have "\<dots> \<le> (t - t0) div W" using assms by (intro zdiv_mono1) simp_all
  finally show ?thesis .
qed

lemma spent_Fail:
  assumes c: "limits_ok c" and t: "zero_time < t0" "t0 \<le> t" "t \<le> T"
    and l: "spent c t0 T n l" and ok: "admitted l ip t0 t"
  shows "spent c t0 T (n + 1) (Fail l t ip)"
proof -
  let ?G = "GlobalFailures c" and ?W = "Window c"
  obtain now where now: "t0 \<le> now" "now \<le> t" "lockedUntil (state_of l ip) \<le> now" "\<not> globalDenied l now"
    using ok by (auto simp: admitted_def)
  have z: "0 < ?W" "0 < ?G" using c by (simp_all add: limits_ok_def)
  have free: "\<not> t < lockedUntil (state_of l ip)" using now by simp
  have wk: "well_keyed l" "l_cfg l = c" using l by (simp_all add: spent_def)
  note f = Fail_counted [OF free wk(1)]
  show ?thesis
  proof (cases "globalStart l = zero_time \<or> \<not> t < globalStart l + ?W")
    case True
    then have g: "globalStart (Fail l t ip) = t" "globalFails (Fail l t ip) = 1"
      using f(3,4) wk by (auto simp: count_global_def)
    have "n \<le> ?G * ((t - t0) div ?W)"
    proof (cases "globalStart l = zero_time \<and> n = 0")
      case True
      have "0 \<le> (t - t0) div ?W" using t z(1) by (intro pos_imp_zdiv_nonneg_iff [THEN iffD2]) simp_all
      with True z(2) show ?thesis by simp
    next
      case False
      then have p: "globalStart l + ?W \<le> t" "n \<le> ?G * ((globalStart l - t0) div ?W) + globalFails l" "globalFails l \<le> ?G"
        using l True t(1) by (auto simp: spent_def)
      have "n \<le> ?G * ((globalStart l - t0) div ?W + 1)" using p(2,3) by (simp add: distrib_left)
      also have "\<dots> \<le> ?G * ((t - t0) div ?W)" using window_passed [OF z(1) p(1)] z(2) by (intro mult_left_mono) simp_all
      finally show ?thesis .
    qed
    with f(2,5) g wk t z(2) show ?thesis by (simp add: spent_def)
  next
    case False
    then have g: "globalStart (Fail l t ip) = globalStart l" "globalFails (Fail l t ip) = globalFails l + 1"
      using f(3,4) wk by (auto simp: count_global_def)
    have "globalFails l < ?G" using now(2,4) False l by (auto simp: globalDenied_def spent_def)
    with f(2,5) g wk False l show ?thesis by (auto simp: spent_def)
  qed
qed

lemma spent_bound:
  assumes c: "limits_ok c" and "spent c t0 T n l" "t0 \<le> T"
  shows "n \<le> GlobalFailures c * (1 + (T - t0) div Window c)"
proof -
  have z: "0 < GlobalFailures c" "0 < Window c" using c by (simp_all add: limits_ok_def)
  have pos: "0 \<le> (T - t0) div Window c" using assms(3) z(2) by (intro pos_imp_zdiv_nonneg_iff [THEN iffD2]) simp_all
  from assms(2) consider "n = 0" | "n \<le> GlobalFailures c * ((globalStart l - t0) div Window c) + GlobalFailures c" "globalStart l \<le> T"
    unfolding spent_def by linarith
  then show ?thesis
  proof cases
    case 1
    then show ?thesis using z(1) pos by simp
  next
    case 2
    have "(globalStart l - t0) div Window c \<le> (T - t0) div Window c" using 2(2) z(2) by (intro zdiv_mono1) simp_all
    then have "GlobalFailures c * ((globalStart l - t0) div Window c) \<le> GlobalFailures c * ((T - t0) div Window c)"
      using z(1) by (intro mult_left_mono) simp_all
    with 2(1) show ?thesis by (simp add: distrib_left)
  qed
qed

section \<open>Logins that interleave\<close>

text \<open>
  The requests that wait for the slot, and what the one that holds it is about to do. Waiting requests get
  the slot in any order; one whose client has gone may leave the queue.
\<close>

type_synonym login_try = "lim_key \<times> string \<times> string"

datatype slot = Free | Asking lim_key string string | Settling lim_key string "ag_error + unit"

record ('s, 'w) login_system =
  ls_api :: "('s, 'w) api_state"
  ls_queue :: "login_try list"
  ls_slot :: slot

datatype login_event =
  Arrives api_request | Leaves nat | Enters nat | Asks | Settles | Passes | Fires id | Sweeps

definition take_out :: "nat \<Rightarrow> 'a list \<Rightarrow> 'a list" where "take_out k xs = take k xs @ drop (Suc k) xs"

text \<open>One step; an event that cannot happen now is none. A request that is no login runs to its end.\<close>

fun login_step :: "('s, 'w) deps \<Rightarrow> login_event \<Rightarrow> ('s, 'w) login_system \<Rightarrow> ('s, 'w) login_system" where
  "login_step d (Arrives r) s =
     (if is_login r \<and> csrf_ok r
      then case login_arrive d r (ls_api s) of
             (Inl ot, a) \<Rightarrow> s\<lparr>ls_api := a\<rparr>
           | (Inr x, a) \<Rightarrow> s\<lparr>ls_api := a, ls_queue := ls_queue s @ [x]\<rparr>
      else s\<lparr>ls_api := snd (api_Handler d r (ls_api s))\<rparr>)"
| "login_step d (Leaves k) s = s\<lparr>ls_queue := take_out k (ls_queue s)\<rparr>"
| "login_step d (Enters k) s =
     (if ls_slot s = Free \<and> k < length (ls_queue s)
      then case ls_queue s ! k of
             (ip, user, pass) \<Rightarrow>
               (case login_enter ip (ls_api s) of
                  (Some ot, a) \<Rightarrow> s\<lparr>ls_api := a, ls_queue := take_out k (ls_queue s)\<rparr>
                | (None, a) \<Rightarrow> s\<lparr>ls_api := a, ls_queue := take_out k (ls_queue s), ls_slot := Asking ip user pass\<rparr>)
      else s)"
| "login_step d Asks s =
     (case ls_slot s of
        Asking ip user pass \<Rightarrow>
          (case login_ask d user pass (ls_api s) of (res, a) \<Rightarrow> s\<lparr>ls_api := a, ls_slot := Settling ip user res\<rparr>)
      | _ \<Rightarrow> s)"
| "login_step d Settles s =
     (case ls_slot s of
        Settling ip user res \<Rightarrow> s\<lparr>ls_api := snd (login_settle d ip user res (ls_api s)), ls_slot := Free\<rparr>
      | _ \<Rightarrow> s)"
| "login_step d Passes s = s\<lparr>ls_api := snd (on_world (Reconcile (d_grants d)) (ls_api s))\<rparr>"
| "login_step d (Fires i) s = s\<lparr>ls_api := snd (on_world (\<lambda>w. ((), expire (d_grants d) i w)) (ls_api s))\<rparr>"
| "login_step d Sweeps s =
     s\<lparr>ls_api := (let (now, a) = read_clock (ls_api s) in snd (call_store (ss_DeleteExpired (d_sessions d) now) a))\<rparr>"

text \<open>Alone, the steps of a login are the handler.\<close>

lemma login_alone:
  assumes "is_login r" "csrf_ok r" "ls_queue s = []" "ls_slot s = Free"
  shows "\<not> hr_gone r \<Longrightarrow>
      ls_api (fold (login_step d) [Arrives r, Enters 0, Asks, Settles] s) = snd (api_Handler d r (ls_api s))"
    "hr_gone r \<Longrightarrow> ls_api (fold (login_step d) [Arrives r, Leaves 0] s) = snd (api_Handler d r (ls_api s))"
proof -
  have h: "snd (api_Handler d r (ls_api s)) = snd (api_handleLogin d r (ls_api s))"
    using assms(1,2) by (simp add: api_Handler_def api_mux_def routes_def is_login_def case_prod_beta)
  obtain x a where x: "login_arrive d r (ls_api s) = (x, a)" by fastforce
  show "ls_api (fold (login_step d) [Arrives r, Enters 0, Asks, Settles] s) = snd (api_Handler d r (ls_api s))" if "\<not> hr_gone r"
    using x that assms h
    by (cases x) (auto simp: api_handleLogin_def login_slot_def take_out_def split: prod.split option.split)
  show "ls_api (fold (login_step d) [Arrives r, Leaves 0] s) = snd (api_Handler d r (ls_api s))" if "hr_gone r"
    using x that assms h by (cases x) (auto simp: api_handleLogin_def split: prod.split)
qed

section \<open>Every step keeps the budget\<close>

definition wrong :: "ag_error + unit \<Rightarrow> bool" where "wrong res \<longleftrightarrow> (\<exists>se. res = Inl (ErrBadCredentials se))"

text \<open>
  \<open>n\<close> passwords have been refused by the time \<open>t\<close>: all of them are counted, but for the one whose
  refusal is about to be settled, and whoever holds the slot with a question has been admitted.
\<close>

definition slot_ok :: "limits \<Rightarrow> time \<Rightarrow> time \<Rightarrow> int \<Rightarrow> limiter \<Rightarrow> time \<Rightarrow> slot \<Rightarrow> bool" where
  "slot_ok c t0 T n l t sl \<longleftrightarrow>
     (case sl of
        Free \<Rightarrow> spent c t0 T n l
      | Asking ip user pass \<Rightarrow> spent c t0 T n l \<and> admitted l ip t0 t
      | Settling ip user res \<Rightarrow> if wrong res then spent c t0 T (n - 1) l \<and> admitted l ip t0 t else spent c t0 T n l)"

lemma slot_ok_later: "slot_ok c t0 T n l t sl \<Longrightarrow> t \<le> t' \<Longrightarrow> slot_ok c t0 T n l t' sl"
  by (auto simp: slot_ok_def split: slot.splits if_splits intro: admitted_later)

lemma slot_ok_Check: "slot_ok c t0 T n l t sl \<Longrightarrow> slot_ok c t0 T n (snd (Check l now ip)) t sl"
  by (auto simp: slot_ok_def split: slot.splits if_splits intro: spent_Check admitted_Check)

definition guarded :: "limits \<Rightarrow> time \<Rightarrow> time \<Rightarrow> (store, 'w with_log) login_system \<Rightarrow> bool" where
  "guarded c t0 T s \<longleftrightarrow> (\<exists>l n t. budget_kept l n t T (ls_api s) \<and> t0 \<le> t \<and> slot_ok c t0 T n l t (ls_slot s))"

lemma guardedI: "budget_kept l n t T (ls_api s) \<Longrightarrow> t0 \<le> t \<Longrightarrow> slot_ok c t0 T n l t (ls_slot s) \<Longrightarrow> guarded c t0 T s"
  unfolding guarded_def by blast

lemma guarded_world:
  assumes "guarded c t0 T s" "\<And>l n t. budget_kept l n t T (ls_api s) \<Longrightarrow> budget_kept l n t T a"
  shows "guarded c t0 T (s\<lparr>ls_api := a\<rparr>)"
proof -
  obtain l n t where l: "budget_kept l n t T (ls_api s)" "t0 \<le> t" "slot_ok c t0 T n l t (ls_slot s)"
    using assms(1) unfolding guarded_def by blast
  with assms(2) [OF l(1)] show ?thesis by (intro guardedI [of l n t]) simp_all
qed

lemma budget_Login:
  assumes "budget_kept l n t T a" "login_ask (sys_deps (logged srv) c trusted secure sha render) user pass a = (res, a')"
  shows "budget_kept l (n + (if wrong res then 1 else 0)) t T a'"
proof -
  obtain wl where r: "Login (logged srv) c user pass (w_ag (a_world a)) = (res, wl)" "a' = a\<lparr>a_world := (a_world a)\<lparr>w_ag := wl\<rparr>\<rparr>"
    using assms(2) by (auto simp: login_ask_def sys_deps_def api_client_def call_ag_def on_world_def run_ag_def split: prod.splits)
  have "refusals (w_ag (a_world a)) = n" "clock_within t T (a_world a)" "a_limiter a = l"
    using assms(1) by (simp_all add: budget_kept_def refused_within_def)
  with Login_refusals [OF r(1)] show ?thesis by (simp add: r(2) budget_kept_def refused_within_def wrong_def)
qed

lemma budget_issue: "budget_kept l n t0 T a \<Longrightarrow> budget_kept l n t0 T (snd (issue_session d m u a))"
  unfolding issue_session_def Let_def case_prod_beta
  by (intro budget_store budget_clock) (simp add: draw_random_def budget_kept_def split: list.split)

lemma budget_settle:
  assumes "budget_kept l n t T a" "\<not> wrong res"
  shows "budget_kept l n t T (snd (login_settle d ip user res a))"
proof -
  have "budget_kept l n t T (snd (attempt (issue_session d m user) e (\<lambda>(raw, _). finish (f raw)) a))" for m e f
    by (rule attempt_keeps) (use budget_issue [OF assms(1)] in \<open>auto split: prod.split\<close>)
  with assms show ?thesis by (auto simp: login_settle_def wrong_def split: sum.split ag_error.split option.split)
qed

lemma guarded_arrives:
  assumes g: "guarded c t0 T s"
  shows "guarded c t0 T (login_step (sys_deps (logged srv) cl trusted secure sha render) (Arrives r) s)"
proof -
  let ?d = "sys_deps (logged srv) cl trusted secure sha render"
  show ?thesis
  proof (cases "is_login r \<and> csrf_ok r")
    case False
    have "budget_kept l n t T (snd (api_Handler ?d r (ls_api s)))" if "budget_kept l n t T (ls_api s)" for l n t
    proof (cases "csrf_ok r")
      case True
      with False have "\<not> (hr_method r = ''POST'' \<and> hr_path r = [''login''])" by (simp add: is_login_def)
      then show ?thesis by (rule budget.gated_keeps [OF that])
    qed (use that in \<open>simp add: api_Handler_def\<close>)
    then have "guarded c t0 T (s\<lparr>ls_api := snd (api_Handler ?d r (ls_api s))\<rparr>)" by (rule guarded_world [OF g])
    with False show ?thesis by auto
  next
    case True
    show ?thesis
    proof (cases "decode_body maxLoginBody (Msg ''expected JSON {username, password}'') decode_login r")
      case (Inl ot)
      with True g show ?thesis by (simp add: login_arrive_def)
    next
      case (Inr x)
      obtain l n t where l: "budget_kept l n t T (ls_api s)" "t0 \<le> t" "slot_ok c t0 T n l t (ls_slot s)"
        using g by (auto simp: guarded_def)
      obtain ok retry a1 where chk: "limiter_Check (request_ip ?d r) (ls_api s) = ((ok, retry), a1)" by (metis prod.exhaust)
      from checks [OF l(1) chk] obtain now where now: "t \<le> now"
        "budget_kept (snd (Check l now (request_ip ?d r))) n now T a1" by metis
      have "slot_ok c t0 T n (snd (Check l now (request_ip ?d r))) now (ls_slot s)"
        by (rule slot_ok_Check [OF slot_ok_later [OF l(3) now(1)]])
      moreover have "ls_api (login_step ?d (Arrives r) s) = a1" "ls_slot (login_step ?d (Arrives r) s) = ls_slot s"
        using True Inr chk by (auto simp: login_arrive_def Let_def split: prod.split)
      ultimately show ?thesis using now l(2) by (intro guardedI [of _ n now]) auto
    qed
  qed
qed

lemma guarded_enters:
  assumes t0: "zero_time < t0" and g: "guarded c t0 T s"
  shows "guarded c t0 T (login_step d (Enters k) s)"
proof (cases "ls_slot s = Free \<and> k < length (ls_queue s)")
  case True
  obtain ip user pass where q: "ls_queue s ! k = (ip, user, pass)" by (metis prod_cases3)
  obtain l n t where l: "budget_kept l n t T (ls_api s)" "t0 \<le> t" "slot_ok c t0 T n l t (ls_slot s)"
    using g by (auto simp: guarded_def)
  have spent: "spent c t0 T n l" using l(3) True by (simp add: slot_ok_def)
  obtain ok retry a1 where chk: "limiter_Check ip (ls_api s) = ((ok, retry), a1)" by (metis prod.exhaust)
  from checks [OF l(1) chk] obtain now where now: "t \<le> now" "ok = fst (fst (Check l now ip))"
    "budget_kept (snd (Check l now ip)) n now T a1" by metis
  let ?sl = "if ok then Asking ip user pass else Free"
  have "slot_ok c t0 T n (snd (Check l now ip)) now ?sl"
    using spent_Check [OF spent] Check_admits [of now l ip t0] now(1,2) l(2) t0 by (auto simp: slot_ok_def)
  moreover have "login_step d (Enters k) s = s\<lparr>ls_api := a1, ls_queue := take_out k (ls_queue s), ls_slot := ?sl\<rparr>"
    using True q chk by (simp add: login_enter_def)
  ultimately show ?thesis using now(1,3) l(2) by (intro guardedI [of _ n now]) auto
qed (use g in auto)

lemma guarded_asks:
  assumes g: "guarded c t0 T s"
  shows "guarded c t0 T (login_step (sys_deps (logged srv) cl trusted secure sha render) Asks s)"
proof (cases "ls_slot s")
  case (Asking ip user pass)
  let ?d = "sys_deps (logged srv) cl trusted secure sha render"
  obtain l n t where l: "budget_kept l n t T (ls_api s)" "t0 \<le> t" "slot_ok c t0 T n l t (ls_slot s)"
    using g by (auto simp: guarded_def)
  obtain res a where ask: "login_ask ?d user pass (ls_api s) = (res, a)" by fastforce
  have "slot_ok c t0 T (n + (if wrong res then 1 else 0)) l t (Settling ip user res)"
    using l(3) Asking by (simp add: slot_ok_def)
  with budget_Login [OF l(1) ask] l(2) show ?thesis using Asking ask by (intro guardedI) auto
qed (use g in simp_all)

lemma guarded_settles:
  assumes c: "limits_ok c" "zero_time < t0" and g: "guarded c t0 T s"
  shows "guarded c t0 T (login_step d Settles s)"
proof (cases "ls_slot s")
  case (Settling ip user res)
  obtain l n t where l: "budget_kept l n t T (ls_api s)" "t0 \<le> t" "slot_ok c t0 T n l t (ls_slot s)"
    using g by (auto simp: guarded_def)
  show ?thesis
  proof (cases "wrong res")
    case True
    then obtain se where res: "res = Inl (ErrBadCredentials se)" by (auto simp: wrong_def)
    from fails [OF l(1)] obtain now where now: "t \<le> now" "now \<le> T" "budget_kept (Fail l now ip) n now T (limiter_Fail ip (ls_api s))"
      by metis
    have "spent c t0 T (n - 1) l" "admitted l ip t0 now"
      using l(3) True Settling admitted_later [OF _ now(1)] by (simp_all add: slot_ok_def)
    from spent_Fail [OF c _ now(2) this] l(2) now(1) have "slot_ok c t0 T n (Fail l now ip) now Free" by (simp add: slot_ok_def)
    moreover have "login_step d Settles s = s\<lparr>ls_api := limiter_Fail ip (ls_api s), ls_slot := Free\<rparr>"
      using Settling by (simp add: login_settle_def res)
    ultimately show ?thesis using now l(2) by (intro guardedI [of _ n now]) auto
  next
    case False
    have "slot_ok c t0 T n l t Free" using l(3) False Settling by (simp add: slot_ok_def)
    with budget_settle [OF l(1) False] l(2) show ?thesis using Settling by (intro guardedI) auto
  qed
qed (use g in simp_all)

lemma guarded_step:
  assumes c: "limits_ok c" "zero_time < t0" and g: "guarded c t0 T s"
  shows "guarded c t0 T (login_step (sys_deps (logged srv) cl trusted secure sha render) e s)"
proof (cases e)
  case (Arrives r)
  show ?thesis unfolding Arrives by (rule guarded_arrives [OF g])
next
  case (Leaves k)
  with g show ?thesis by (simp add: guarded_def)
next
  case (Enters k)
  show ?thesis unfolding Enters by (rule guarded_enters [OF c(2) g])
next
  case Asks
  show ?thesis unfolding Asks by (rule guarded_asks [OF g])
next
  case Settles
  show ?thesis unfolding Settles by (rule guarded_settles [OF c g])
next
  case Passes
  show ?thesis unfolding Passes login_step.simps
    by (rule guarded_world [OF g]) (auto simp: sys_deps_def intro!: budget_on_world quiet.engine_keeps)
next
  case (Fires i)
  show ?thesis unfolding Fires login_step.simps
    by (rule guarded_world [OF g]) (auto simp: sys_deps_def intro!: budget_on_world quiet.engine_keeps)
next
  case Sweeps
  show ?thesis unfolding Sweeps login_step.simps
    by (rule guarded_world [OF g]) (auto simp: case_prod_beta intro!: budget_store budget_clock)
qed

lemma guarded_run:
  assumes "limits_ok c" "zero_time < t0" "guarded c t0 T s"
  shows "guarded c t0 T (fold (login_step (sys_deps (logged srv) cl trusted secure sha render)) evs s)"
  using assms(3) by (induction evs arbitrary: s) (auto intro: guarded_step [OF assms(1,2)])

lemma guarded_bound:
  assumes c: "limits_ok c" "zero_time < t0" and g: "guarded c t0 T s"
  shows "refusals (w_ag (a_world (ls_api s))) \<le> GlobalFailures c * (1 + (T - t0) div Window c)"
proof -
  obtain l n t where l: "budget_kept l n t T (ls_api s)" "t0 \<le> t" "slot_ok c t0 T n l t (ls_slot s)"
    using g by (auto simp: guarded_def)
  then have n: "refusals (w_ag (a_world (ls_api s))) = n" "t \<le> T"
    by (auto simp: budget_kept_def refused_within_def clock_within_def)
  have "\<exists>l'. spent c t0 T n l'"
  proof (cases "ls_slot s")
    case (Settling ip user res)
    with l(3) spent_Fail [OF c l(2) n(2), of "n - 1" l ip] show ?thesis by (auto simp: slot_ok_def split: if_splits)
  qed (use l(3) in \<open>auto simp: slot_ok_def\<close>)
  with spent_bound [OF c(1)] l(2) n show ?thesis by force
qed

text \<open>Property C9. Brute force is bounded, end to end: however the steps of any number of logins interleave with each other
  and with every other request, reconcile pass, timer and sweep, from any addresses, and whatever AdGuard
  and the store answer, the passwords that AdGuard was asked about and refused number at most GlobalFailures for each Window
  begun since the start, as long as the clock does not run backwards. It is the second look at the limiter, in the slot
  that one request holds until its failure is counted, that makes it so. A refusal whose reply is lost on the way is
  not in this count, nor in the program's: it cannot tell it from an AdGuard that is down.\<close>

theorem login_guesses_bounded:
  assumes "limits_ok (l_cfg (limiter_New c))" "a_limiter (ls_api s) = limiter_New c" "ls_slot s = Free"
    and "refusals (w_ag (a_world (ls_api s))) = 0" "zero_time < w_now (a_world (ls_api s))"
    and "sorted (w_now (a_world (ls_api s)) # w_ticks (a_world (ls_api s)))"
    and "\<forall>t \<in> set (w_now (a_world (ls_api s)) # w_ticks (a_world (ls_api s))). t \<le> T"
    and "s' = fold (login_step (sys_deps (logged srv) cl trusted secure sha render)) evs s"
  shows "refusals (w_ag (a_world (ls_api s'))) \<le>
    GlobalFailures (l_cfg (limiter_New c)) * (1 + (T - w_now (a_world (ls_api s))) div Window (l_cfg (limiter_New c)))"
proof -
  let ?c = "l_cfg (limiter_New c)" and ?t0 = "w_now (a_world (ls_api s))"
  have "guarded ?c ?t0 T s"
    by (rule guardedI [of "limiter_New c" 0 ?t0])
      (use assms(2-7) in \<open>simp_all add: budget_kept_def refused_within_def clock_within_def slot_ok_def spent_def
        well_keyed_def limiter_New_def\<close>)
  from guarded_bound [OF assms(1,5) guarded_run [OF assms(1,5) this]] show ?thesis unfolding assms(8) .
qed

text \<open>Two guesses that arrive together, and queue for the slot one behind the other.\<close>

definition demo_burst :: "(store, fake with_log) login_system" where
  "demo_burst =
     \<lparr>ls_api = \<lparr>a_world = engine_New \<lparr>db = demo_api_tables, faults = []\<rparr> (demo_fake, []) (100 * second) [101 * second, 102 * second],
               a_limiter = limiter_New Defaults, a_random = []\<rparr>,
      ls_queue = [], ls_slot = Free\<rparr>"

definition demo_order :: "login_event list" where
  "demo_order = [Arrives demo_guess, Arrives demo_guess, Enters 0, Asks, Enters 0, Settles, Passes, Enters 0, Asks, Settles]"

lemma login_guesses_bounded_witness:
  "refusals (w_ag (a_world (ls_api
     (fold (login_step (sys_deps (logged demo_srv) demo_client [] True rev demo_render)) demo_order demo_burst))))
     \<le> GlobalFailures (l_cfg (limiter_New Defaults)) *
         (1 + (102 * second - w_now (a_world (ls_api demo_burst))) div Window (l_cfg (limiter_New Defaults)))"
  by (rule login_guesses_bounded [OF _ _ _ _ _ _ _ refl])
    (simp_all add: demo_burst_def engine_New_def limiter_New_def filled_def limits_ok_def Defaults_def zero_time_def
      second_def minute_def hour_def max_int64_def refusals_def)

end
