(* ===== verification/ApiReads.thy ===== *)
theory ApiReads
  imports ApiDemo
begin

text \<open>
  Who may change what: against any AdGuard Home that keeps its contract, a GET changes nothing
  but sessions, a login nothing but sessions and its budget, and any other request without the CSRF header
  or without a live session reaches no handler.
\<close>

section \<open>Everything but the sessions\<close>

definition rest_of :: "tables \<Rightarrow> tables" where "rest_of t = t\<lparr>t_sessions := []\<rparr>"

definition same_house ::
  "('w \<Rightarrow> bool) \<Rightarrow> ('w \<Rightarrow> obj list) \<Rightarrow> ('w \<Rightarrow> string list) \<Rightarrow> (store, 'w) api_state \<Rightarrow> (store, 'w) api_state \<Rightarrow> bool" where
  "same_house good cls glob a0 a \<longleftrightarrow>
     rest_of (db (w_store (a_world a))) = rest_of (db (w_store (a_world a0))) \<and>
     w_timers (a_world a) = w_timers (a_world a0) \<and>
     good (w_ag (a_world a)) \<and> cls (w_ag (a_world a)) = cls (w_ag (a_world a0)) \<and>
     glob (w_ag (a_world a)) = glob (w_ag (a_world a0))"

definition untouched ::
  "('w \<Rightarrow> bool) \<Rightarrow> ('w \<Rightarrow> obj list) \<Rightarrow> ('w \<Rightarrow> string list) \<Rightarrow> (store, 'w) api_state \<Rightarrow> (store, 'w) api_state \<Rightarrow> bool" where
  "untouched good cls glob a0 a \<longleftrightarrow> same_house good cls glob a0 a \<and> a_limiter a = a_limiter a0"

lemma session_stmt_rest:
  assumes "\<And>t x t'. fn t = Inr (x, t') \<Longrightarrow> rest_of t' = rest_of t"
  shows "rest_of (db (snd (session_stmt op fn st))) = rest_of (db st)"
proof -
  obtain r st' where run: "session_stmt op fn st = (r, st')" by fastforce
  then show ?thesis
    using session_stmt_Inl [of op fn st] session_stmt_Inr [of op fn st] assms by (cases r) auto
qed

lemma session_writes_rest:
  "rest_of (db (snd (Insert s st))) = rest_of (db st)" "rest_of (db (snd (Touch i l e st))) = rest_of (db st)"
  "rest_of (db (snd (Delete i st))) = rest_of (db st)" "rest_of (db (snd (DeleteByUser u i st))) = rest_of (db st)"
  "rest_of (db (snd (DeleteOthers u i st))) = rest_of (db st)"
  "rest_of (db (snd (ListByUser u st))) = rest_of (db st)" "rest_of (db (snd (ByTokenHash h st))) = rest_of (db st)"
proof -
  show "rest_of (db (snd (ByTokenHash h st))) = rest_of (db st)" using ByTokenHash_db by (metis prod.collapse)
qed (auto simp: Insert_def Touch_def Delete_def DeleteByUser_def DeleteOthers_def ListByUser_def
       insert_session_stmt_def delete_sessions_def rest_of_def Let_def intro!: session_stmt_rest [unfolded rest_of_def] split: if_splits)

lemma session_gate_rest:
  assumes "m_store m = sqlite_sessions"
  shows "rest_of (db (snd (session_gate d m now ck st))) = rest_of (db st)"
proof (cases ck)
  case (Some raw)
  have "rest_of (db (snd (Authenticate sha m now raw st))) = rest_of (db st)" for sha
  proof (cases "hashToken sha raw")
    case (Some h)
    obtain r st1 where look: "ByTokenHash h st = (r, st1)" by fastforce
    have st1: "db st1 = db st" using ByTokenHash_db [OF look] .
    show ?thesis
    proof (cases r)
      case (Inr s)
      let ?m = "m_lifetime m"
      show ?thesis
        using Some look Inr st1 assms session_writes_rest(2) [of "sess_id s" now "now + ?m" st1] session_writes_rest(3) [of "sess_id s" st1]
        by (auto simp: Authenticate_def sqlite_sessions_def Let_def split: prod.split sum.split)
    qed (use Some look st1 assms in \<open>simp add: Authenticate_def sqlite_sessions_def\<close>)
  qed (simp add: Authenticate_def)
  then show ?thesis using Some
    by (auto simp: session_gate_def RequireSession_def split: prod.split sum.split) (metis snd_conv)+
qed (simp add: session_gate_def RequireSession_def)

lemma store_reads_db:
  "db (snd (ListChildren st)) = db st" "db (snd (GetChild i st)) = db st" "db (snd (ListButtons st)) = db st"
  "db (snd (ListActiveGrants st)) = db st"
  using read_ops_db(1,2,3,5) by (metis prod.collapse)+

section \<open>The reads of the API\<close>

lemma sys_deps_simps [simp]:
  "d_adguard (sys_deps srv c trusted secure sha render) = api_client srv c"
  "d_auth (sys_deps srv c trusted secure sha render) = Some (New sqlite_sessions secure 0)"
  "d_sessions (sys_deps srv c trusted secure sha render) = sqlite_sessions"
  "d_children (sys_deps srv c trusted secure sha render) = sqlite_children"
  "d_grants (sys_deps srv c trusted secure sha render) = sys_engine srv c"
  "d_buttons (sys_deps srv c trusted secure sha render) = sqlite_buttons"
  "d_sha (sys_deps srv c trusted secure sha render) = sha" "d_render (sys_deps srv c trusted secure sha render) = render"
  by (simp_all add: sys_deps_def)

lemma untouched_refl: "good (w_ag (a_world a)) \<Longrightarrow> untouched good cls glob a a"
  by (simp add: untouched_def same_house_def)

lemma same_house_store:
  "(\<And>st. rest_of (db (snd (f st))) = rest_of (db st)) \<Longrightarrow> same_house good cls glob a0 a \<Longrightarrow>
     same_house good cls glob a0 (snd (call_store f a))"
  by (simp add: same_house_def call_store_def run_store_def split: prod.split) (metis snd_conv)

lemma same_house_ag:
  assumes "\<And>w r w'. good w \<Longrightarrow> f w = (r, w') \<Longrightarrow> good w' \<and> cls w' = cls w \<and> glob w' = glob w"
    and a: "same_house good cls glob a0 a"
  shows "same_house good cls glob a0 (snd (call_ag f a))"
proof -
  obtain r w' where "f (w_ag (a_world a)) = (r, w')" by fastforce
  with assms(1) [OF _ this] a show ?thesis by (simp add: same_house_def call_ag_def run_ag_def)
qed

lemma same_house_limiter [simp]: "same_house good cls glob a0 (a\<lparr>a_limiter := l\<rparr>) = same_house good cls glob a0 a"
  by (simp add: same_house_def)

lemma same_house_clock: "same_house good cls glob a0 a \<Longrightarrow> same_house good cls glob a0 (snd (read_clock a))"
  by (simp add: same_house_def read_clock_def clock_def split: list.split)

lemma untouched_store:
  "(\<And>st. rest_of (db (snd (f st))) = rest_of (db st)) \<Longrightarrow> untouched good cls glob a0 a \<Longrightarrow>
     untouched good cls glob a0 (snd (call_store f a))"
  by (simp add: untouched_def same_house_store) (simp add: call_store_def)

lemma untouched_ag:
  "(\<And>w r w'. good w \<Longrightarrow> f w = (r, w') \<Longrightarrow> good w' \<and> cls w' = cls w \<and> glob w' = glob w) \<Longrightarrow>
     untouched good cls glob a0 a \<Longrightarrow> untouched good cls glob a0 (snd (call_ag f a))"
  by (simp add: untouched_def same_house_ag) (simp add: call_ag_def)

lemma untouched_clock: "untouched good cls glob a0 a \<Longrightarrow> untouched good cls glob a0 (snd (read_clock a))"
  by (simp add: untouched_def same_house_clock) (simp add: read_clock_def)

lemma Issue_rest: "m_store m = sqlite_sessions \<Longrightarrow> rest_of (db (snd (Issue sh m rnd now u st))) = rest_of (db st)"
  using session_writes_rest(1)
  by (auto simp: Issue_def sqlite_sessions_def Let_def split: option.split prod.split sum.split) (metis snd_conv)+

context ag_server
begin

lemma ag_reads:
  assumes "good w"
  shows "Clients srv c w = (rc, w') \<Longrightarrow> good w' \<and> cls w' = cls w \<and> glob w' = glob w"
    "Services srv c w = (rs, w') \<Longrightarrow> good w' \<and> cls w' = cls w \<and> glob w' = glob w"
    "Leases srv c w = (rl, w') \<Longrightarrow> good w' \<and> cls w' = cls w \<and> glob w' = glob w"
proof -
  show "Clients srv c w = (rc, w') \<Longrightarrow> good w' \<and> cls w' = cls w \<and> glob w' = glob w"
  proof -
    assume run: "Clients srv c w = (rc, w')"
    obtain rd w1 where d: "readDoc srv c w = (rd, w1)" by fastforce
    obtain rg w2 where g: "read_global srv c w1 = (rg, w2)" by fastforce
    have "same_view w w1" using readDoc_view [OF assms d] .
    moreover from this have "same_view w1 w2" using read_global_view [OF _ g] by (simp add: same_view_def)
    ultimately show ?thesis using run d g
      by (cases rd; cases rg) (auto simp: Clients_def act_bind_def same_view_def act_ret_def split: prod.splits)
  qed
  show "Services srv c w = (rs, w') \<Longrightarrow> good w' \<and> cls w' = cls w \<and> glob w' = glob w"
    "Leases srv c w = (rl, w') \<Longrightarrow> good w' \<and> cls w' = cls w \<and> glob w' = glob w"
    using do_call_GET [OF assms] unfolding Services_def Leases_def same_view_def by blast+
qed

lemma same_reads:
  assumes "good w"
  shows "same_view w (snd (Clients srv c w))" "same_view w (snd (Services srv c w))" "same_view w (snd (Leases srv c w))"
    "same_view w (snd (Status srv c w))" "same_view w (snd (Login srv c u p w))"
proof -
  show "same_view w (snd (Clients srv c w))" "same_view w (snd (Services srv c w))" "same_view w (snd (Leases srv c w))"
    using ag_reads [OF assms, OF surjective_pairing] unfolding same_view_def by blast+
  show "same_view w (snd (Status srv c w))"
    using do_call_GET [OF assms surjective_pairing] unfolding Status_def by blast
  let ?rq = "\<lparr>rq_method = POST, rq_path = ''/control/login'', rq_body = Some (JObj [(''name'', JStr u), (''password'', JStr p)]),
    rq_auth = None\<rparr>"
  obtain w' rep where sent: "srv w ?rq = (w', rep)" by fastforce
  have "same_view w w'" using login [OF assms _ sent] by (simp add: same_view_def)
  moreover have "snd (Login srv c u p w) = w'"
  proof (cases rep)
    case (Reply code msg doc)
    with sent show ?thesis
      by (cases "classify POST ''/control/login'' code msg") (simp_all add: Login_def send_def act_bind_def)
  qed (use sent in \<open>simp add: Login_def send_def act_bind_def\<close>)
  ultimately show "same_view w (snd (Login srv c u p w))" by simp
qed

lemma login_same_house:
  assumes "good w" "Login srv c u p w = (r, w')"
  shows "good w' \<and> cls w' = cls w \<and> glob w' = glob w"
  using same_reads(5) [OF assms(1), of u p] assms(2) by (simp add: same_view_def)

end

sublocale ag_server \<subseteq> reads: read_invariant "sys_deps srv c trusted secure sha render" "untouched good cls glob a0"
  for trusted secure sha render a0
proof
  fix a assume a: "untouched good cls glob a0 a"
  note st = untouched_store [OF _ a]
  show "untouched good cls glob a0 (snd (read_clock a))" using a by (rule untouched_clock)
  show "d_auth (sys_deps srv c trusted secure sha render) = Some m \<Longrightarrow> untouched good cls glob a0
      (snd (call_store (session_gate (sys_deps srv c trusted secure sha render) m now ck) a))" for m now ck
    by (rule st) (auto simp: New_def intro: session_gate_rest)
  show "untouched good cls glob a0 (snd (list_grants (sys_deps srv c trusted secure sha render) a))"
    using st [of ListActiveGrants]
    by (simp add: list_grants_def engine_List_def [abs_def] sys_engine_def call_store_def store_reads_db)
qed (simp_all add: sqlite_children_def sqlite_buttons_def sqlite_sessions_def api_client_def store_reads_db
       session_writes_rest untouched_store untouched_ag [OF ag_reads(1)] untouched_ag [OF ag_reads(2)] untouched_ag [OF ag_reads(3)])

sublocale ag_server \<subseteq> login: login_invariant "sys_deps srv c trusted secure sha render" "same_house good cls glob a0"
  for trusted secure sha render a0
proof
  fix a assume a: "same_house good cls glob a0 a"
  note clock = same_house_clock [OF a]
  show "same_house good cls glob a0 (snd (limiter_Check ip a))" "same_house good cls glob a0 (limiter_Fail ip a)" for ip
    using clock by (auto simp: limiter_Check_def limiter_Fail_def Let_def case_prod_beta)
  show "same_house good cls glob a0 (snd (call_ag (aa_Login (d_adguard (sys_deps srv c trusted secure sha render)) user pass) a))"
    for user pass by (rule same_house_ag [OF _ a]) (simp add: api_client_def login_same_house)
  have rnd: "same_house good cls glob a0 (snd (draw_random a))"
    using a by (simp add: draw_random_def same_house_def split: list.split)
  show "same_house good cls glob a0 (snd (issue_session (sys_deps srv c trusted secure sha render) m u a))"
    if "d_auth (sys_deps srv c trusted secure sha render) = Some m" for m u
  proof -
    have "m_store m = sqlite_sessions" using that by (auto simp: New_def)
    then show ?thesis
      unfolding issue_session_def Let_def case_prod_beta
      by (intro same_house_store same_house_clock rnd) (rule Issue_rest)
  qed
qed

context ag_server
begin

lemma login_request_house:
  assumes "same_house good cls glob a0 a" "hr_method r = ''POST''" "hr_path r = [''login'']"
  shows "same_house good cls glob a0 (snd (api_Handler (sys_deps srv c trusted secure sha render) r a))"
  using assms(1) login.login_keeps [OF assms(1)] assms(2,3)
  by (simp add: api_Handler_def api_mux_def routes_def case_prod_beta)

lemma reads_untouched: "read_invariant (sys_deps srv c trusted secure sha render) (untouched good cls glob a0)"
  by unfold_locales

end

section \<open>Properties\<close>

text \<open>A presented cookie that opens a session now.\<close>

definition live_session :: "(bytes \<Rightarrow> bytes) \<Rightarrow> time \<Rightarrow> tables \<Rightarrow> string option \<Rightarrow> bool" where
  "live_session sha now t presented \<longleftrightarrow>
     (\<exists>b s. length b = tokenBytes \<and> presented = Some (EncodeToString b) \<and>
        abs_sessions t (sess_id s) = Some s \<and> token_hash s = sha b \<and> now < expires_at s)"

lemma gate_served:
  assumes "wf_sessions (db st)" "m_store m = sqlite_sessions"
    and "session_gate d m now ck st = ((Served s, cs), st')"
  shows "live_session (d_sha d) now (db st) ck"
proof -
  obtain raw where raw: "ck = Some raw" "Authenticate (d_sha d) m now raw st = (Inr s, st')"
    using assms(3) by (auto simp: session_gate_def RequireSession_def split: option.splits prod.splits sum.splits if_splits)
  obtain b s0 where "length b = tokenBytes" "raw = EncodeToString b" "abs_sessions (db st) (sess_id s0) = Some s0"
    "token_hash s0 = d_sha d b" "now < expires_at s0"
    using sqlite.authenticate_sound [OF assms(1,2) raw(2)] by metis
  with raw(1) show ?thesis by (auto simp: live_session_def)
qed

lemma gate_code:
  "session_gate d m now ck st = ((Refused code msg, cs), st') \<Longrightarrow> code = 401 \<or> code = 500"
  by (auto simp: session_gate_def RequireSession_def split: option.splits prod.splits sum.splits if_splits)

lemma requireSession_refused:
  assumes "d_auth d = Some m" "m_store m = sqlite_sessions" "wf_sessions (db (w_store (a_world a)))"
    and "\<not> live_session (d_sha d) (fst (clock (a_world a))) (db (w_store (a_world a))) (hr_cookie r)"
    and run: "requireSession d h r a = (rp, a')"
  shows "rp_status rp \<in> {401, 500} \<and> requireSession d not_found r a = (rp, a')"
proof -
  define a1 where "a1 = (if hr_cookie r = None then (0, a) else read_clock a)"
  obtain oc cs a2 where g: "call_store (session_gate d m (fst a1) (hr_cookie r)) (snd a1) = ((oc, cs), a2)"
    by (metis prod.exhaust)
  have db: "w_store (a_world (snd a1)) = w_store (a_world a)"
    "hr_cookie r \<noteq> None \<Longrightarrow> fst a1 = fst (clock (a_world a))"
    by (auto simp: a1_def read_clock_def clock_def on_world_def split: list.split)
  obtain st' where s: "session_gate d m (fst a1) (hr_cookie r) (w_store (a_world a)) = ((oc, cs), st')"
    using g db(1) by (cases "session_gate d m (fst a1) (hr_cookie r) (w_store (a_world a))")
      (simp add: call_store_def on_world_def run_store_def)
  have "oc \<noteq> Served x" for x
    using gate_served [OF assms(3,2), of d "fst a1" "hr_cookie r" x cs st'] s assms(4) db(2)
    by (cases "hr_cookie r = None") (auto simp: live_session_def)
  then obtain code msg where oc: "oc = Refused code msg" by (cases oc) auto
  have "requireSession d h' r a = (respond (d_render d) cs (if code = 401 then unauthorized
      else writeError code ''internal'' (Msg ''session lookup failed'')), a2)" for h'
    using g assms(1) oc by (simp add: requireSession_def a1_def [symmetric] case_prod_beta)
  with run gate_code [OF s [unfolded oc]] show ?thesis
    by (auto simp: respond_def unauthorized_def writeError_def api_writeJSON_def)
qed

text \<open>Property C10. Without the CSRF header a changing request is a 403 that changes nothing at all. Any other request, unless its
  cookie is a token whose session is stored and unexpired, changes no child, grant, button, timer, client or global
  list of AdGuard: a login only sessions and the login budget, and what is no login is a 401 or a failed lookup that
  leaves the budget alone too.\<close>

theorem gate_closed:
  assumes "ag_server srv c good cls glob" "good (w_ag (a_world a))" "wf_sessions (db (w_store (a_world a)))"
    and "api_Handler (sys_deps srv c trusted secure sha render) r a = (rp, a')"
  shows "(\<not> csrf_ok r \<longrightarrow> rp_status rp = 403 \<and> a' = a) \<and>
    (csrf_ok r \<and> hr_method r = ''POST'' \<and> hr_path r = [''login''] \<longrightarrow> same_house good cls glob a a') \<and>
    (csrf_ok r \<and> \<not> (hr_method r = ''POST'' \<and> hr_path r = [''login'']) \<and>
     \<not> live_session sha (fst (clock (a_world a))) (db (w_store (a_world a))) (hr_cookie r) \<longrightarrow>
       rp_status rp \<in> {401, 500} \<and> same_house good cls glob a a' \<and> a_limiter a' = a_limiter a)"
proof (intro conjI impI)
  show "rp_status rp = 403" "a' = a" if "\<not> csrf_ok r"
    using that assms(4) by (auto simp: api_Handler_def respond_def csrf_refused_def writeError_def api_writeJSON_def)
  let ?d = "sys_deps srv c trusted secure sha render"
  have refl: "same_house good cls glob a a" using assms(2) by (simp add: same_house_def)
  show "same_house good cls glob a a'" if "csrf_ok r \<and> hr_method r = ''POST'' \<and> hr_path r = [''login'']"
    using ag_server.login_request_house [OF assms(1) refl, of r trusted secure sha render] that assms(4) by simp
  assume *: "csrf_ok r \<and> \<not> (hr_method r = ''POST'' \<and> hr_path r = [''login'']) \<and>
     \<not> live_session sha (fst (clock (a_world a))) (db (w_store (a_world a))) (hr_cookie r)"
  then obtain h where "routes ?d (hr_method r) (hr_path r) = Gated h"
    by (cases "gated_route ?d (hr_method r) (hr_path r)") (auto simp: routes_def)
  with * assms(4) have run: "requireSession ?d h r a = (rp, a')" by (simp add: api_Handler_def api_mux_def)
  have ref: "rp_status rp \<in> {401, 500} \<and> requireSession ?d not_found r a = (rp, a')"
    by (rule requireSession_refused [OF _ _ assms(3) _ run, where m = "New sqlite_sessions secure 0"])
      (use * in \<open>simp_all add: New_def\<close>)
  then show "rp_status rp \<in> {401, 500}" by blast
  have "untouched good cls glob a (snd (requireSession ?d not_found r a))"
    by (rule read_invariant.requireSession_keeps [OF ag_server.reads_untouched [OF assms(1)]])
      (use assms(2) in \<open>simp_all add: untouched_refl not_found_def\<close>)
  with ref show "same_house good cls glob a a'" "a_limiter a' = a_limiter a" by (simp_all add: untouched_def)
qed

text \<open>Property C14. A GET or HEAD, on whatever path and with whatever result, changes neither children, grants,
  buttons and timers nor the login budget nor any client or the global list of AdGuard Home: only sessions move.\<close>

theorem reads_write_nothing:
  assumes "ag_server srv c good cls glob" "good (w_ag (a_world a))" "hr_method r = ''GET'' \<or> hr_method r = ''HEAD''"
    and "api_Handler (sys_deps srv c trusted secure sha render) r a = (rp, a')"
  shows "untouched good cls glob a a'"
  using read_invariant.get_request_keeps [OF ag_server.reads_untouched [OF assms(1)], of a a r trusted secure sha render]
    assms(2-) untouched_refl [of good a cls glob] by simp

section \<open>The properties at concrete inputs\<close>

text \<open>A cookie of 32 bytes that no stored session has.\<close>

definition demo_intruder :: api_request where
  "demo_intruder = (demo_request ''DELETE'' [''children'', ''1''] JNull)\<lparr>hr_cookie := Some (EncodeToString (replicate 32 8))\<rparr>"

lemma demo_api_wf: "wf_sessions (db (w_store (a_world demo_api)))"
  by code_simp

lemma demo_api_good: "fake_good (w_ag (a_world demo_api))"
  by (simp add: demo_api_def engine_New_def demo_good)

lemma demo_session:
  "abs_sessions (db (w_store (a_world demo_api))) i = Some s \<Longrightarrow> token_hash s = demo_token"
  by (auto simp: abs_sessions_def demo_api_def engine_New_def demo_api_tables_def scanSession_def split: if_splits)

lemma gate_closed_witness:
  "\<exists>rp a'. api_Handler demo_deps demo_intruder demo_api = (rp, a') \<and> rp_status rp \<in> {401, 500} \<and>
     same_house fake_good fk_clients fake_glob demo_api a' \<and> a_limiter a' = limiter_New Defaults"
proof -
  obtain rp a' where run: "api_Handler demo_deps demo_intruder demo_api = (rp, a')" by fastforce
  have r: "csrf_ok demo_intruder" "hr_method demo_intruder = ''DELETE''"
    "hr_cookie demo_intruder = Some (EncodeToString (replicate 32 8))"
    by (simp_all add: demo_intruder_def demo_request_def csrf_ok_def header_Get_def)
  have "\<not> live_session rev t (db (w_store (a_world demo_api))) (Some (EncodeToString (replicate 32 8)))" for t
  proof
    assume "live_session rev t (db (w_store (a_world demo_api))) (Some (EncodeToString (replicate 32 8)))"
    then obtain b s where b: "EncodeToString b = EncodeToString (replicate 32 8)"
      "abs_sessions (db (w_store (a_world demo_api))) (sess_id s) = Some s" "token_hash s = rev b"
      by (auto simp: live_session_def)
    have "rev b = replicate 32 8" using EncodeToString_inj [OF b(1)] by simp
    with demo_session [OF b(2)] b(3) show False by (simp add: demo_token_def numeral_eq_Suc)
  qed
  moreover have "a_limiter demo_api = limiter_New Defaults" by (simp add: demo_api_def)
  ultimately show ?thesis
    using gate_closed [OF fake.ag_server_axioms demo_api_good demo_api_wf run [unfolded demo_deps_def]] r run by simp
qed

lemma reads_write_nothing_witness:
  "untouched fake_good fk_clients fake_glob demo_api (snd (api_Handler demo_deps (demo_request ''GET'' [''migration''] JNull) demo_api))"
proof -
  obtain rp a' where run: "api_Handler demo_deps (demo_request ''GET'' [''migration''] JNull) demo_api = (rp, a')" by fastforce
  have "hr_method (demo_request ''GET'' [''migration''] JNull) = ''GET'' \<or> hr_method (demo_request ''GET'' [''migration''] JNull) = ''HEAD''"
    by (simp add: demo_request_def)
  from reads_write_nothing [OF fake.ag_server_axioms demo_api_good this run [unfolded demo_deps_def]] run
  show ?thesis by simp
qed

end
