(* ===== verification/ApiMigrate.thy ===== *)
theory ApiMigrate
  imports ApiReads
begin

text \<open>
  What POST /api/v1/migration does to AdGuard Home: the handler, the offer and the client's write
  together. Every mapped client that followed the global list gets it as its own, and nothing
  stops being blocked on the way, wherever a failure cuts the loop off.
\<close>

section \<open>The offer\<close>

lemma claim_names_set:
  "fst ` set (claim_names ref owner names) = fst ` set owner \<union> set names"
  "distinct (map fst owner) \<Longrightarrow> distinct (map fst (claim_names ref owner names))"
  by (induction names arbitrary: owner) auto

lemma map_owners_names:
  "fst ` set (map_owners children) = (\<Union>c \<in> set children. set (child_clients c))"
  "distinct (map fst (map_owners children))"
proof -
  have "fst ` set (fold (\<lambda>c owner. claim_names (ref_of c) owner (child_clients c)) children owner) =
      fst ` set owner \<union> (\<Union>c \<in> set children. set (child_clients c))" for owner
    by (induction children arbitrary: owner) (auto simp: claim_names_set)
  then show "fst ` set (map_owners children) = (\<Union>c \<in> set children. set (child_clients c))"
    by (simp add: map_owners_def)
  have "distinct (map fst owner) \<Longrightarrow>
      distinct (map fst (fold (\<lambda>c owner. claim_names (ref_of c) owner (child_clients c)) children owner))" for owner
    by (induction children arbitrary: owner) (auto simp: claim_names_set)
  then show "distinct (map fst (map_owners children))" by (simp add: map_owners_def)
qed

lemma Offer_clients:
  "map os_client (Offer clients global mapped) =
     (if global = [] then [] else filter (\<lambda>n. \<exists>pc. clients_by_name clients n = Some pc \<and> pc_global pc) mapped)"
  by (simp add: Offer_reference Let_def comp_def)

definition mapped_name :: "tables \<Rightarrow> string \<Rightarrow> bool" where
  "mapped_name t n \<longleftrightarrow> (\<exists>i m C. abs_children t i = Some (m, C) \<and> n \<in> C)"

section \<open>The loop\<close>

text \<open>A client that followed the global list \<open>G\<close> now has it, with its own list, as its own.\<close>

definition migrated :: "string set \<Rightarrow> (bool \<times> string set) option \<Rightarrow> (bool \<times> string set) option \<Rightarrow> bool" where
  "migrated G x y \<longleftrightarrow> (\<exists>b. x = Some (True, b) \<and> y = Some (False, b \<union> G))"

definition all_migrated :: "string set \<Rightarrow> string set \<Rightarrow> bool \<Rightarrow> lists \<Rightarrow> lists \<Rightarrow> bool" where
  "all_migrated G N ok v v' \<longleftrightarrow>
     (\<forall>n. v' n = v n \<or> n \<in> N \<and> migrated G (v n) (v' n)) \<and> (ok \<longrightarrow> (\<forall>n \<in> N. migrated G (v n) (v' n)))"

lemma all_migrated_none: "(\<forall>m. m \<noteq> n \<longrightarrow> v1 m = v m) \<Longrightarrow> v1 n = v n \<or> migrated G (v n) (v1 n) \<Longrightarrow>
    all_migrated G (insert n N) False v v1"
  by (auto simp: all_migrated_def)

lemma all_migrated_step:
  assumes "\<forall>m. m \<noteq> n \<longrightarrow> v1 m = v m" "migrated G (v n) (v1 n)" "all_migrated G N ok v1 v'" "n \<notin> N"
  shows "all_migrated G (insert n N) ok v v'"
proof -
  have n: "v' n = v1 n" using assms(3,4) by (auto simp: all_migrated_def)
  have "v' m = v m \<or> m \<in> N \<and> migrated G (v m) (v' m)" if "m \<noteq> n" for m
    using assms(3) [unfolded all_migrated_def, THEN conjunct1, rule_format, of m] assms(1) that by simp
  moreover have "migrated G (v m) (v' m)" if "ok" "m \<in> N" for m
  proof -
    have "m \<noteq> n" using that(2) assms(4) by blast
    then have "v1 m = v m" using assms(1) by blast
    moreover have "migrated G (v1 m) (v' m)" using assms(3) that by (simp add: all_migrated_def)
    ultimately show ?thesis by simp
  qed
  moreover have "migrated G (v n) (v' n)" using n assms(2) by simp
  ultimately show ?thesis unfolding all_migrated_def by (metis insert_iff)
qed

context ag_server
begin

lemma migrate_one:
  assumes "good w" "view w n = Some (True, b)" "MigrateFromGlobal srv c n ids w = (r, w')" "set ids = b \<union> G"
  shows "good w'" "glob w' = glob w" "\<forall>m. m \<noteq> n \<longrightarrow> view w' m = view w m"
    "view w' n = view w n \<or> migrated G (view w n) (view w' n)" "is_ok r \<Longrightarrow> migrated G (view w n) (view w' n)"
  using migrate_view [OF assms(1,3)] assms(2,4) by (auto simp: edited_def migrated_def)

lemma migrate_loop_view:
  assumes "good (w_ag (a_world a))" "distinct (map os_client sts)"
    and "\<forall>st \<in> set sts. \<exists>b. view (w_ag (a_world a)) (os_client st) = Some (True, b) \<and> set (os_target st) = b \<union> G"
    and "migrate_loop (sys_deps srv c trusted secure sha render) done1 sts a = (ot, a')"
  shows "good (w_ag (a_world a')) \<and> glob (w_ag (a_world a')) = glob (w_ag (a_world a)) \<and>
    w_store (a_world a') = w_store (a_world a) \<and>
    all_migrated G (os_client ` set sts) (o_status ot = 200) (view (w_ag (a_world a))) (view (w_ag (a_world a')))"
  using assms
proof (induction sts arbitrary: done1 a)
  case Nil
  then show ?case by (auto simp: all_migrated_def)
next
  case (Cons st sts)
  let ?n = "os_client st" and ?w = "w_ag (a_world a)"
  obtain b where b: "view ?w ?n = Some (True, b)" "set (os_target st) = b \<union> G" using Cons.prems(3) by auto
  obtain r w1 where m: "MigrateFromGlobal srv c ?n (os_target st) ?w = (r, w1)" by fastforce
  note one = migrate_one [OF Cons.prems(1) b(1) m b(2)]
  define a1 where "a1 = a\<lparr>a_world := a_world a\<lparr>w_ag := w1\<rparr>\<rparr>"
  have call: "call_ag (aa_MigrateFromGlobal (d_adguard (sys_deps srv c trusted secure sha render)) ?n (os_target st)) a = (r, a1)"
    using m by (simp add: call_ag_def on_world_def run_ag_def api_client_def a1_def)
  have a1: "w_ag (a_world a1) = w1" "w_store (a_world a1) = w_store (a_world a)" by (simp_all add: a1_def)
  show ?case
  proof (cases r)
    case (Inl e)
    then have "ot = migrate_failed ?n (length done1)" "a' = a1"
      using Cons.prems(4) call by (simp_all add: attempt_def)
    then have "o_status ot \<noteq> 200" "a' = a1" by (simp_all add: migrate_failed_def writeError_def api_writeJSON_def)
    then show ?thesis using one a1 all_migrated_none [OF one(3,4)] by simp
  next
    case (Inr u)
    then have rest: "migrate_loop (sys_deps srv c trusted secure sha render) (done1 @ [?n]) sts a1 = (ot, a')"
      using Cons.prems(4) call by (simp add: attempt_def)
    have here: "?n \<notin> os_client ` set sts" using Cons.prems(2) by simp
    have ready: "\<forall>st \<in> set sts. \<exists>b. view (w_ag (a_world a1)) (os_client st) = Some (True, b) \<and> set (os_target st) = b \<union> G"
    proof
      fix st1 assume "st1 \<in> set sts"
      moreover from this have "os_client st1 \<noteq> ?n" using here by (metis imageI)
      ultimately show "\<exists>b. view (w_ag (a_world a1)) (os_client st1) = Some (True, b) \<and> set (os_target st1) = b \<union> G"
        using Cons.prems(3) one(3) a1 by simp
    qed
    have "good (w_ag (a_world a1))" "distinct (map os_client sts)" using one(1) a1 Cons.prems(2) by simp_all
    from Cons.IH [OF this ready rest] show ?thesis
      using one(2) a1 all_migrated_step [OF one(3) one(5) _ here] Inr by simp
  qed
qed

lemma steps_ready:
  assumes "good w" "Clients srv c w = (Inr res, w')" "st \<in> set (Offer (cr_persistent res) (cr_global res) names)"
  shows "\<exists>b. view w' (os_client st) = Some (True, b) \<and> set (os_target st) = b \<union> set (glob w')"
proof -
  note v = api_clients [OF assms(1,2)]
  obtain pc where "clients_by_name (cr_persistent res) (os_client st) = Some pc" "pc_global pc"
    "set (os_target st) = set (pc_blocked pc) \<union> set (cr_global res)"
    using Offer_step [OF assms(3)] by metis
  with v show ?thesis by (auto simp: by_name_def clients_by_name_def)
qed

lemma offered_names:
  assumes "good w" "Clients srv c w = (Inr res, w')"
  shows "os_client ` set (Offer (cr_persistent res) (cr_global res) names) =
    {n \<in> set names. set (glob w) \<noteq> {} \<and> (\<exists>b. view w n = Some (True, b))}"
proof -
  note v = api_clients [OF assms]
  have "os_client ` set (Offer (cr_persistent res) (cr_global res) names) =
      set (map os_client (Offer (cr_persistent res) (cr_global res) names))" by simp
  also have "\<dots> = {n \<in> set names. set (glob w) \<noteq> {} \<and> (\<exists>b. view w n = Some (True, b))}"
    using v unfolding Offer_clients by (auto simp: by_name_def clients_by_name_def)
  finally show ?thesis .
qed

lemma handleMigrationApply_view:
  assumes "good (w_ag (a_world a))" "wf_tables (db (w_store (a_world a)))"
    and run: "handleMigrationApply (sys_deps srv c trusted secure sha render) r s a = (ot, a')"
  defines "G \<equiv> set (glob (w_ag (a_world a)))"
  shows "good (w_ag (a_world a')) \<and> set (glob (w_ag (a_world a'))) = G \<and>
    db (w_store (a_world a')) = db (w_store (a_world a)) \<and>
    all_migrated G {n. mapped_name (db (w_store (a_world a))) n \<and> G \<noteq> {} \<and> (\<exists>b. view (w_ag (a_world a)) n = Some (True, b))}
      (o_status ot = 200) (view (w_ag (a_world a))) (view (w_ag (a_world a')))"
proof -
  let ?d = "sys_deps srv c trusted secure sha render"
  obtain rl st1 where l: "ListChildren (w_store (a_world a)) = (rl, st1)" by fastforce
  define a1 where "a1 = a\<lparr>a_world := a_world a\<lparr>w_store := st1\<rparr>\<rparr>"
  have call1: "call_store (cs_ListChildren (d_children ?d)) a = (rl, a1)"
    using l by (simp add: call_store_def on_world_def run_store_def sqlite_children_def a1_def)
  have st1: "db st1 = db (w_store (a_world a))" using ListChildren_out [OF assms(2) l] by blast
  have quiet: "all_migrated G N False v v" for N v by (simp add: all_migrated_def)
  show ?thesis
  proof (cases rl)
    case (Inl e)
    then have "a' = a1" "o_status ot \<noteq> 200"
      using run call1 by (auto simp: handleMigrationApply_def computeOffer_def attempt_def writeStoreError_def
        writeError_def api_writeJSON_def split: store_error.splits)
    then show ?thesis using assms(1) st1 quiet by (simp add: a1_def G_def)
  next
    case (Inr children)
    obtain rc w2 where c: "Clients srv c (w_ag (a_world a)) = (rc, w2)" by fastforce
    define a2 where "a2 = a1\<lparr>a_world := a_world a1\<lparr>w_ag := w2\<rparr>\<rparr>"
    have call2: "call_ag (aa_Clients (d_adguard ?d)) a1 = (rc, a2)"
      using c by (simp add: call_ag_def on_world_def run_ag_def api_client_def a2_def a1_def)
    note v = api_clients [OF assms(1) c]
    have a2: "w_ag (a_world a2) = w2" "w_store (a_world a2) = st1" by (simp_all add: a2_def a1_def)
    show ?thesis
    proof (cases rc)
      case (Inl e)
      then have "a' = a2" "o_status ot \<noteq> 200"
        using run call1 call2 \<open>rl = Inr children\<close> by (auto simp: handleMigrationApply_def computeOffer_def attempt_def
          writeAdGuardError_def writeError_def api_writeJSON_def)
      then show ?thesis using v st1 quiet a2 by (simp add: G_def)
    next
      case res: (Inr res)
      let ?names = "map fst (map_owners children)"
      let ?sts = "Offer (cr_persistent res) (cr_global res) ?names"
      have loop: "migrate_loop ?d [] ?sts a2 = (ot, a')"
        using run call1 call2 Inr res by (simp add: handleMigrationApply_def computeOffer_def attempt_def Let_def)
      have d: "distinct (map os_client ?sts)" using map_owners_names(2) [of children] by (simp add: Offer_clients)
      have ready: "\<forall>st \<in> set ?sts. \<exists>b. view (w_ag (a_world a2)) (os_client st) = Some (True, b) \<and> set (os_target st) = b \<union> G"
        using steps_ready [OF assms(1) c [unfolded res]] v a2 by (simp add: G_def)
      have "set ?names = {n. mapped_name (db (w_store (a_world a))) n}"
        using ListChildren_out [OF assms(2) l] map_owners_names(1) [of children] Inr
        by (auto simp: mapped_name_def)
      then have "os_client ` set ?sts = {n. mapped_name (db (w_store (a_world a))) n \<and> G \<noteq> {} \<and>
          (\<exists>b. view (w_ag (a_world a)) n = Some (True, b))}"
        unfolding offered_names [OF assms(1) c [unfolded res]] G_def by auto
      with migrate_loop_view [OF _ d ready loop] v a2 st1 show ?thesis by (simp add: G_def)
    qed
  qed
qed

end

section \<open>Property\<close>

text \<open>Property C13. POST /api/v1/migration, from the routes down to the requests: whatever the store and AdGuard answer and
  wherever it stops, a client of AdGuard either is as it was, or was mapped and followed a non-empty global
  list and now has its own list with what it had and all of that list; the global list and the database are
  never written. Answered with 200, every mapped client that followed the list has it as its own.\<close>

theorem migration_only_adds:
  assumes "ag_server srv c good cls glob" "good (w_ag (a_world a))" "wf_tables (db (w_store (a_world a)))"
    and "handleMigrationApply (sys_deps srv c trusted secure sha render) r s a = (ot, a')"
  defines "G \<equiv> set (glob (w_ag (a_world a)))"
    and "before \<equiv> ag_view (cls (w_ag (a_world a)))" and "after \<equiv> ag_view (cls (w_ag (a_world a')))"
  shows "db (w_store (a_world a')) = db (w_store (a_world a)) \<and> set (glob (w_ag (a_world a'))) = G \<and>
    (\<forall>n. after n = before n \<or>
       (\<exists>b. before n = Some (True, b) \<and> after n = Some (False, b \<union> G) \<and> G \<noteq> {} \<and>
          mapped_name (db (w_store (a_world a))) n)) \<and>
    (o_status ot = 200 \<longrightarrow> (\<forall>n b. before n = Some (True, b) \<and> G \<noteq> {} \<and> mapped_name (db (w_store (a_world a))) n \<longrightarrow>
       after n = Some (False, b \<union> G)))"
proof -
  have v: "ag_server.view cls w = ag_view (cls w)" for w using ag_server.view_def [OF assms(1)] by (simp add: fun_eq_iff)
  show ?thesis
    using ag_server.handleMigrationApply_view [OF assms(1-4)] unfolding G_def before_def after_def v
    by (auto simp: all_migrated_def migrated_def)
qed

lemma demo_api_tables_wf: "wf_tables (db (w_store (a_world demo_api)))"
  by code_simp

lemma migration_only_adds_witness:
  "\<exists>ot a'. handleMigrationApply demo_deps (demo_request ''POST'' [''migration''] JNull) demo_caller demo_api = (ot, a') \<and>
     db (w_store (a_world a')) = demo_api_tables \<and>
     (\<forall>n. ag_view (fk_clients (w_ag (a_world a'))) n = ag_view (fk_clients demo_fake) n \<or>
        (\<exists>b. ag_view (fk_clients demo_fake) n = Some (True, b) \<and>
           ag_view (fk_clients (w_ag (a_world a'))) n = Some (False, b \<union> set (fake_glob demo_fake))))"
proof -
  obtain ot a' where run: "handleMigrationApply demo_deps (demo_request ''POST'' [''migration''] JNull) demo_caller demo_api = (ot, a')"
    by fastforce
  have w: "w_ag (a_world demo_api) = demo_fake" "db (w_store (a_world demo_api)) = demo_api_tables"
    by (simp_all add: demo_api_def engine_New_def)
  from migration_only_adds [OF fake.ag_server_axioms demo_api_good demo_api_tables_wf run [unfolded demo_deps_def]] run w
  show ?thesis by (intro exI [of _ ot] exI [of _ a'] conjI) (simp, simp, metis)
qed

end
