(* ===== verification/ApiGrantProps.thy ===== *)
theory ApiGrantProps
  imports ApiReads EngineProps
begin

text \<open>
  What POST /api/v1/grants accepts and what it makes of it: the handler over the store and the
  engine. Also the bounds on a duration, and the seconds that wrap around into them.
\<close>

section \<open>Durations\<close>

text \<open>
  A duration in seconds is multiplied out before it is checked, in 64 bits: below \<open>2 ^ 63\<close>
  nanoseconds the bounds are those the message states, above them seconds wrap around into range.
\<close>

lemma checkDuration_Inr:
  "checkDuration n = Inr dur \<Longrightarrow> dur = duration_of n \<and> MinDuration \<le> dur \<and> dur \<le> MaxDuration"
  by (auto simp: checkDuration_def duration_ok_def split: if_splits)

theorem checkDuration_bounds:
  "is_ok (checkDuration n) \<and> n \<le> 9223372036 \<longleftrightarrow> 60 \<le> n \<and> n \<le> 86400"
  "60 \<le> n \<Longrightarrow> n \<le> 86400 \<Longrightarrow> checkDuration n = Inr (n * second)"
  "checkDuration 18446744134 = Inr 60290448384"
proof -
  have small: "0 < n \<Longrightarrow> n \<le> 9223372036 \<Longrightarrow> duration_of n = n * second" for n
    by (simp add: duration_of_def second_def i64_id min_int64_def max_int64_def)
  show "is_ok (checkDuration n) \<and> n \<le> 9223372036 \<longleftrightarrow> 60 \<le> n \<and> n \<le> 86400"
  proof (cases "0 < n \<and> n \<le> 9223372036")
    case True
    with small [of n] show ?thesis
      by (auto simp: checkDuration_def duration_ok_def MinDuration_def MaxDuration_def minute_def hour_def second_def)
  next
    case False
    then show ?thesis by (auto simp: checkDuration_def duration_ok_def)
  qed
  show "checkDuration n = Inr (n * second)" if "60 \<le> n" "n \<le> 86400"
    using small [of n] that
    by (simp add: checkDuration_def duration_ok_def MinDuration_def MaxDuration_def minute_def hour_def second_def)
  show "checkDuration 18446744134 = Inr 60290448384" by code_simp
qed

section \<open>A grant through the API\<close>

lemma unblock_loop_store: "unblock_loop e svcs bn ns w = (fl, w') \<Longrightarrow> w_store w' = w_store w"
  by (induction ns arbitrary: w fl w')
    (auto simp: Let_def run_ag_def split: prod.splits option.splits sum.splits if_splits)

lemma unblock_store: "unblock e g w = (fl, w') \<Longrightarrow> w_store w' = w_store w"
  by (auto simp: unblock_def run_ag_def split: prod.splits sum.splits dest: unblock_loop_store)

lemma arm_store [simp]: "w_store (arm g w) = w_store w"
  by (simp add: arm_def stopTimer_def clock_def Let_def split: prod.split list.split)

text \<open>What \<open>Create\<close> leaves in the database, and that a refused one asked AdGuard nothing.\<close>

lemma Create_sys:
  assumes "wf_tables (db (w_store w))" "Create (sys_engine srv c) i svcs cs dur w = (r, w')"
  defines "now \<equiv> fst (clock w)"
  shows "case r of
      Inl e \<Rightarrow> db (w_store w') = db (w_store w) \<and> w_ag w' = w_ag w
    | Inr res \<Rightarrow> (let g = cg_grant res in abs_grants (db (w_store w)) (grant_id g) = None \<and>
        abs_grants (db (w_store w')) = (abs_grants (db (w_store w)))(grant_id g \<mapsto> g) \<and>
        g = \<lparr>grant_id = grant_id g, grant_child = i, grant_status = StatusActive, grant_services = normaliseClients svcs,
             grant_clients = normaliseClients cs, started_at = of_unix (unix now), ends_at = of_unix (unix (now + dur))\<rparr>)"
proof -
  obtain w0 where w0: "clock w = (now, w0)" unfolding now_def by (metis prod.collapse)
  have keep: "w_store w0 = w_store w" "w_ag w0 = w_ag w" using w0 by (auto simp: clock_def split: list.splits)
  obtain rc st where run: "CreateGrant i svcs cs now (now + dur) (w_store w) = (rc, st)" by fastforce
  note out = CreateGrant_out [OF assms(1) run]
  have call: "run_store (es_CreateGrant (e_store (sys_engine srv c)) i svcs cs now (now + dur)) w0 = (rc, w0\<lparr>w_store := st\<rparr>)"
    using run keep by (simp add: run_store_def sys_engine_def)
  show ?thesis
  proof (cases rc)
    case (Inl e)
    then have "r = Inl (StoreErr e)" "w' = w0\<lparr>w_store := st\<rparr>" using assms(2) call w0 by (simp_all add: Create_def)
    with out keep Inl show ?thesis by simp
  next
    case (Inr g)
    obtain fl w2 where u: "unblock (sys_engine srv c) g (w0\<lparr>w_store := st\<rparr>) = (fl, w2)" by fastforce
    have "r = Inr \<lparr>cg_grant = g, cg_applied = (fl = []), cg_failed = fl\<rparr>" "w' = arm g w2"
      using assms(2) call w0 Inr u by (simp_all add: Create_def)
    with out Inr unblock_store [OF u] show ?thesis by (simp add: Let_def)
  qed
qed

lemma trimmed_services:
  assumes "services = trim_dedup [] xs" "services \<noteq> []"
  shows "set (normaliseClients services) = set services" "normaliseClients services \<noteq> []"
proof -
  have "[] \<notin> set services" by (simp add: assms(1) trim_dedup_set)
  moreover have "trim_space x = x" if "x \<in> set services" for x
    using that trim_space_idem by (auto simp: assms(1) trim_dedup_set)
  ultimately have "trim_space ` set services = set services" "[] \<notin> set services" by simp_all
  then show eq: "set (normaliseClients services) = set services" by simp
  then show "normaliseClients services \<noteq> []" using assms(2) by (metis set_empty)
qed

lemma unprocessable_status [simp]: "o_status (unprocessable f args) = 422"
  by (simp add: unprocessable_def)

lemma refused_status: "o_status (writeGrantError op e) \<in> {404, 502, 500}" "o_status (writeCreateGrantError e) \<in> {404, 409, 502, 500}"
proof -
  show one: "o_status (writeGrantError op e) \<in> {404, 502, 500}" for op e
    by (cases e) (simp_all add: writeGrantError_def)
  show "o_status (writeCreateGrantError e) \<in> {404, 409, 502, 500}"
    using one [of "''create grant''" e] by (auto simp: writeCreateGrantError_def split: option.split store_error.split)
qed

lemma Create_applied: "Create e i svcs cs dur w = (Inr res, w') \<Longrightarrow> cg_applied res \<longleftrightarrow> cg_failed res = []"
  by (auto simp: Create_def split: prod.splits sum.splits)

text \<open>What \<open>Create\<close> does to AdGuard's lists, and which clients it could not open.\<close>

lemma Create_sys_opens:
  assumes "ag_server srv c good cls glob" "sys_ok good w" "Create (sys_engine srv c) i svcs cs dur w = (Inr res, w')"
  shows "opened (cg_grant res) (cg_failed res) (ag_view (cls (w_ag w))) (ag_view (cls (w_ag w')))"
proof -
  note env = ag_server.on_sys [OF assms(1)]
  from engine_env.create_outcome [OF env, unfolded env_ok [OF env], OF assms(2) assms(3) [unfolded sys_engine_def]]
  show ?thesis by (simp add: Let_def)
qed

text \<open>The new grant of an accepted request: of the child, the services and the duration that were asked for.\<close>

definition new_grant :: "time \<Rightarrow> tables \<Rightarrow> string list \<Rightarrow> id \<Rightarrow> string set \<Rightarrow> duration \<Rightarrow> grant \<Rightarrow> bool" where
  "new_grant now t catalogue i asked dur g \<longleftrightarrow>
     abs_grants t (grant_id g) = None \<and> grant_status g = StatusActive \<and> grant_child g = i \<and>
     set (grant_services g) = asked \<and> asked \<noteq> {} \<and> asked \<subseteq> set catalogue \<and>
     (\<exists>name C. abs_children t i = Some (name, C) \<and> C \<noteq> {} \<and> set (grant_clients g) = trim_space ` C - {[]}) \<and>
     MinDuration \<le> dur \<and> dur \<le> MaxDuration \<and> started_at g = of_unix (unix now) \<and> ends_at g = of_unix (unix (now + dur))"

text \<open>
  The outcomes of a part of the handler, from the state \<open>a\<close> it starts in: one new grant that is opened in AdGuard
  as far as the 201 says, or neither the database nor AdGuard's clients changed.
\<close>

definition grant_outcome ::
  "('w \<Rightarrow> obj list) \<Rightarrow> (store, 'w) api_state \<Rightarrow> (grant \<Rightarrow> bool) \<Rightarrow> out \<Rightarrow> (store, 'w) api_state \<Rightarrow> bool" where
  "grant_outcome cls a new ot a' \<longleftrightarrow>
     (if o_status ot = 201
      then \<exists>g failed shared. new g \<and> abs_grants (db (w_store (a_world a'))) = (abs_grants (db (w_store (a_world a))))(grant_id g \<mapsto> g) \<and>
        opened g failed (ag_view (cls (w_ag (a_world a)))) (ag_view (cls (w_ag (a_world a')))) \<and>
        o_body ot = Some (PCreated (grant_id g) (unix (ends_at g)) (failed = []) failed shared)
      else db (w_store (a_world a')) = db (w_store (a_world a)) \<and> cls (w_ag (a_world a')) = cls (w_ag (a_world a)))"

lemma grant_outcome_no:
  "o_status ot \<noteq> 201 \<Longrightarrow> db (w_store (a_world a')) = db (w_store (a_world a)) \<Longrightarrow>
     cls (w_ag (a_world a')) = cls (w_ag (a_world a)) \<Longrightarrow> grant_outcome cls a new ot a'"
  by (simp add: grant_outcome_def)

lemma grant_outcome_later:
  "grant_outcome cls a1 new ot a' \<Longrightarrow> db (w_store (a_world a1)) = db (w_store (a_world a)) \<Longrightarrow>
     cls (w_ag (a_world a1)) = cls (w_ag (a_world a)) \<Longrightarrow> grant_outcome cls a new ot a'"
  by (simp add: grant_outcome_def split: if_splits)

lemma open_grant_out:
  assumes srv: "ag_server srv c good cls glob" and "sys_ok good (a_world a)" "services = trim_dedup [] xs" "services \<noteq> []"
    and "set services \<subseteq> set catalogue" "MinDuration \<le> dur" "dur \<le> MaxDuration"
    and "abs_children (db (w_store (a_world a))) (child_id child) = Some (child_name child, set (child_clients child))"
    and "child_clients child \<noteq> []"
    and "open_grant (sys_deps srv c trusted secure sha render) child children services dur a = (ot, a')"
  shows "grant_outcome cls a
    (new_grant (fst (clock (a_world a))) (db (w_store (a_world a))) catalogue (child_id child) (set services) dur) ot a'"
  using assms(10) unfolding open_grant_def sys_deps_simps
proof (cases rule: attempt_cases)
  case (failed e)
  have "wf_tables (db (w_store (a_world a)))" using assms(2) by (simp add: sys_ok_def)
  from Create_sys [OF this on_worldD [OF failed(1)]] failed(2) refused_status(2) [of e] show ?thesis
    by (auto intro: grant_outcome_no)
next
  case (went_on res a1)
  let ?g = "cg_grant res" and ?t = "db (w_store (a_world a))" and ?now = "fst (clock (a_world a))"
  note run = on_worldD [OF went_on(1)]
  have wf: "wf_tables ?t" using assms(2) by (simp add: sys_ok_def)
  from Create_sys [OF wf run]
  have cr: "abs_grants ?t (grant_id ?g) = None" "abs_grants (db (w_store (a_world a1))) = (abs_grants ?t)(grant_id ?g \<mapsto> ?g)"
    "?g = \<lparr>grant_id = grant_id ?g, grant_child = child_id child, grant_status = StatusActive,
       grant_services = normaliseClients services, grant_clients = normaliseClients (child_clients child),
       started_at = of_unix (unix ?now), ends_at = of_unix (unix (?now + dur))\<rparr>"
    by (simp_all add: Let_def)
  have g: "grant_child ?g = child_id child" "grant_status ?g = StatusActive" "grant_services ?g = normaliseClients services"
    "grant_clients ?g = normaliseClients (child_clients child)" "started_at ?g = of_unix (unix ?now)"
    "ends_at ?g = of_unix (unix (?now + dur))"
    by (subst cr(3), simp)+
  have "new_grant ?now ?t catalogue (child_id child) (set services) dur ?g"
    unfolding new_grant_def using cr(1) g assms(4-9) trimmed_services [OF assms(3,4)] by auto
  moreover have "o_status ot = 201" "a' = a1"
    "o_body ot = Some (PCreated (grant_id ?g) (unix (ends_at ?g)) (cg_applied res) (cg_failed res)
       (sharedOf (child_clients child) (child_id child) children))"
    using went_on(2) by (auto simp: grant_created_def api_writeJSON_def)
  moreover have "cg_applied res \<longleftrightarrow> cg_failed res = []" using Create_applied [OF run] .
  ultimately show ?thesis using cr(2) Create_sys_opens [OF srv assms(2) run] by (auto simp: grant_outcome_def)
qed

lemma grant_for_child_out:
  assumes srv: "ag_server srv c good cls glob" and ok: "sys_ok good (a_world a)"
    and svcs: "services = trim_dedup [] xs" "services \<noteq> []" "MinDuration \<le> dur" "dur \<le> MaxDuration"
    and kid: "abs_children (db (w_store (a_world a))) (child_id child) = Some (child_name child, set (child_clients child))"
    and run: "grant_for_child (sys_deps srv c trusted secure sha render) child children services dur a = (ot, a')"
  defines "catalogue \<equiv> case fst (Services srv c (w_ag (a_world a))) of Inl _ \<Rightarrow> [] | Inr ss \<Rightarrow> map sv_id ss"
  shows "grant_outcome cls a
    (new_grant (fst (clock (a_world a))) (db (w_store (a_world a))) catalogue (child_id child) (set services) dur) ot a'"
proof (cases "child_clients child = []")
  case True
  with run show ?thesis by (intro grant_outcome_no) (auto simp: grant_for_child_def)
next
  case False
  have good: "good (w_ag (a_world a))" using ok by (simp add: sys_ok_def)
  from False run have "attempt (call_ag (Services srv c)) (\<lambda>_. writeAdGuardError) (\<lambda>catalogue.
       case find (\<lambda>s. s \<notin> sv_id ` set catalogue) services of
         Some s \<Rightarrow> finish (unprocessable ''unknown service %q'' [AQuoted s])
       | None \<Rightarrow> open_grant (sys_deps srv c trusted secure sha render) child children services dur) a = (ot, a')"
    by (simp add: grant_for_child_def api_client_def)
  then show ?thesis
  proof (cases rule: attempt_cases)
    case (failed e)
    with call_agD [OF failed(1)] ag_server.ag_reads(2) [OF srv good] show ?thesis by (intro grant_outcome_no) auto
  next
    case (went_on ss a1)
    have sv: "Services srv c (w_ag (a_world a)) = (Inr ss, w_ag (a_world a1))" "w_store (a_world a1) = w_store (a_world a)"
      "fst (clock (a_world a1)) = fst (clock (a_world a))" using call_agD [OF went_on(1)] by simp_all
    have ag: "cls (w_ag (a_world a1)) = cls (w_ag (a_world a))" "good (w_ag (a_world a1))"
      using ag_server.ag_reads(2) [OF srv good sv(1)] by simp_all
    show ?thesis
    proof (cases "find (\<lambda>s. s \<notin> sv_id ` set ss) services")
      case (Some x)
      with went_on(2) sv(2) ag show ?thesis by (intro grant_outcome_no) auto
    next
      case None
      then have "set services \<subseteq> set catalogue" using sv(1) by (auto simp: find_None_iff catalogue_def)
      moreover have "open_grant (sys_deps srv c trusted secure sha render) child children services dur a1 = (ot, a')"
        using went_on(2) None by simp
      moreover have "sys_ok good (a_world a1)" using ok sv(2) ag by (simp add: sys_ok_def)
      ultimately show ?thesis
        using open_grant_out [OF srv, of a1 services xs catalogue dur child trusted secure sha render children ot a']
          svcs kid sv(2,3) ag False by (auto intro: grant_outcome_later)
    qed
  qed
qed

section \<open>Property\<close>

lemma handleGrantCreate_out:
  assumes srv: "ag_server srv c good cls glob" and ok: "sys_ok good (a_world a)"
    and run: "handleGrantCreate (sys_deps srv c trusted secure sha render) r s a = (ot, a')"
  defines "catalogue \<equiv> case fst (Services srv c (w_ag (a_world a))) of Inl _ \<Rightarrow> [] | Inr ss \<Rightarrow> map sv_id ss"
  shows "grant_outcome cls a (\<lambda>g. \<exists>i asked n. decode_body maxGrantBody (Msg ''expected JSON {child_id, services, duration}'') decode_grant r
      = Inr (i, asked, n) \<and> 0 < n \<and>
    new_grant (fst (clock (a_world a))) (db (w_store (a_world a))) catalogue i (trim_space ` set asked - {[]}) (duration_of n) g) ot a'"
  using run unfolding handleGrantCreate_def
proof (cases rule: checked_cases)
  case failed
  with decode_body_status [OF failed(1)] show ?thesis by (intro grant_outcome_no) simp_all
next
  case (went_on x)
  note decoded = went_on(1)
  have wf: "wf_tables (db (w_store (a_world a)))" using ok by (simp add: sys_ok_def)
  obtain childRef services0 seconds where x: "x = (childRef, services0, seconds)" by (cases x)
  from went_on(2) [unfolded x prod.case] show ?thesis
  proof (cases rule: checked_cases)
    case failed
    then show ?thesis by (intro grant_outcome_no) (auto simp: checkDuration_def split: if_splits)
  next
    case (went_on dur)
    have dur: "dur = duration_of seconds" "MinDuration \<le> dur" "dur \<le> MaxDuration" "0 < seconds"
      using checkDuration_Inr [OF went_on(1)] went_on(1) by (auto simp: checkDuration_def duration_ok_def split: if_splits)
    let ?svcs = "trim_dedup [] services0"
    show ?thesis
    proof (cases "?svcs = []")
      case True
      with went_on(2) show ?thesis by (intro grant_outcome_no) (auto simp: Let_def)
    next
      case False
      with went_on(2) have "attempt (call_store ListChildren) (writeStoreError ''list children'' []) (\<lambda>children.
         case find (\<lambda>c. child_id c = childRef) children of
           None \<Rightarrow> finish (writeStoreError ''get child'' [] ErrChildNotFound)
         | Some child \<Rightarrow> grant_for_child (sys_deps srv c trusted secure sha render) child children ?svcs dur) a = (ot, a')"
        by (simp add: Let_def sqlite_children_def)
      then show ?thesis
      proof (cases rule: attempt_cases)
        case (failed e)
        with call_storeD [OF failed(1)] writeStoreError_status [of "''list children''" "[]" e] read_ops_db(1) show ?thesis
          by (intro grant_outcome_no) auto
      next
        case (went_on children a1)
        have l: "ListChildren (w_store (a_world a)) = (Inr children, w_store (a_world a1))" "w_ag (a_world a1) = w_ag (a_world a)"
          "fst (clock (a_world a1)) = fst (clock (a_world a))" using call_storeD [OF went_on(1)] by simp_all
        have t1: "db (w_store (a_world a1)) = db (w_store (a_world a))" using read_ops_db(1) [OF l(1)] .
        show ?thesis
        proof (cases "find (\<lambda>c. child_id c = childRef) children")
          case None
          with went_on(2) t1 l show ?thesis
            using writeStoreError_status [of "''get child''" "[]" ErrChildNotFound] by (intro grant_outcome_no) auto
        next
          case (Some child)
          then have "child \<in> set children" and i: "child_id child = childRef" by (auto simp: find_Some_iff)
          then have kid: "abs_children (db (w_store (a_world a))) (child_id child) = Some (child_name child, set (child_clients child))"
            using ListChildren_out [OF wf l(1)] by auto
          have "sys_ok good (a_world a1)" using ok t1 l(2) by (simp add: sys_ok_def)
          moreover have "grant_for_child (sys_deps srv c trusted secure sha render) child children ?svcs dur a1 = (ot, a')"
            using went_on(2) Some by simp
          ultimately have "grant_outcome cls a1 (new_grant (fst (clock (a_world a1))) (db (w_store (a_world a1)))
              (case fst (Services srv c (w_ag (a_world a1))) of Inl _ \<Rightarrow> [] | Inr ss \<Rightarrow> map sv_id ss)
              (child_id child) (set ?svcs) dur) ot a'"
            by (rule grant_for_child_out [OF srv _ refl False dur(2,3) kid [folded t1]])
          then have "grant_outcome cls a (new_grant (fst (clock (a_world a))) (db (w_store (a_world a))) catalogue
              childRef (trim_space ` set services0 - {[]}) (duration_of seconds)) ot a'"
            using i dur(1) t1 l by (auto simp: catalogue_def trim_dedup_set intro: grant_outcome_later)
          then show ?thesis using decoded [unfolded x] dur(4) by (auto simp: grant_outcome_def split: if_splits)
        qed
      qed
    qed
  qed
qed

text \<open>Property C11. POST /api/v1/grants, from the routes' handler down to the store and AdGuard: a 201 means exactly one
  new active grant, of the child the body names, which exists and has clients, of exactly the services it names (trimmed,
  the empty ones left out), all of them in AdGuard's catalogue, on the child's clients, from now for the duration it
  names; AdGuard's lists shrink by these services on these clients only, and the answer carries the grant's id and end
  and exactly the clients that may still be blocked. Any other answer leaves the database and every client of AdGuard as they
  were. The duration is between a minute and a day: the seconds themselves, unless they are more than 63 bits of
  nanoseconds, which wrap around as in Go.\<close>

theorem grant_request:
  assumes "ag_server srv c good cls glob" "good (w_ag (a_world a))" "wf_tables (db (w_store (a_world a)))"
    and "handleGrantCreate (sys_deps srv c trusted secure sha render) r s a = (ot, a')"
  defines "t \<equiv> db (w_store (a_world a))" and "t' \<equiv> db (w_store (a_world a'))" and "now \<equiv> fst (clock (a_world a))"
    and "v \<equiv> ag_view (cls (w_ag (a_world a)))" and "v' \<equiv> ag_view (cls (w_ag (a_world a')))"
  shows "if o_status ot = 201
    then \<exists>g i asked n name C ss failed shared.
      decode_body maxGrantBody (Msg ''expected JSON {child_id, services, duration}'') decode_grant r = Inr (i, asked, n) \<and>
      abs_grants t (grant_id g) = None \<and> abs_grants t' = (abs_grants t)(grant_id g \<mapsto> g) \<and> grant_status g = StatusActive \<and>
      grant_child g = i \<and> abs_children t i = Some (name, C) \<and> C \<noteq> {} \<and> set (grant_clients g) = trim_space ` C - {[]} \<and>
      set (grant_services g) = trim_space ` set asked - {[]} \<and> grant_services g \<noteq> [] \<and>
      fst (Services srv c (w_ag (a_world a))) = Inr ss \<and> set (grant_services g) \<subseteq> sv_id ` set ss \<and>
      started_at g = of_unix (unix now) \<and> ends_at g = of_unix (unix (now + duration_of n)) \<and>
      minute \<le> duration_of n \<and> duration_of n \<le> 24 * hour \<and> (n \<le> 9223372036 \<longrightarrow> duration_of n = n * second) \<and>
      shrunk (\<lambda>x. if x \<in> set (grant_clients g) then set (grant_services g) else {}) v v' \<and>
      set failed \<subseteq> set (grant_clients g) \<and>
      (\<forall>x \<in> set (grant_clients g) - set failed. \<exists>b. v' x = Some (False, b) \<and> b \<inter> set (grant_services g) = {}) \<and>
      o_body ot = Some (PCreated (grant_id g) (unix (ends_at g)) (failed = []) failed shared)
    else t' = t \<and> cls (w_ag (a_world a')) = cls (w_ag (a_world a))"
proof (cases "o_status ot = 201")
  case True
  have "sys_ok good (a_world a)" using assms(2,3) by (simp add: sys_ok_def)
  from handleGrantCreate_out [OF assms(1) this assms(4)] True obtain g failed shared i asked n where
    d: "decode_body maxGrantBody (Msg ''expected JSON {child_id, services, duration}'') decode_grant r = Inr (i, asked, n)" "0 < n"
    and g: "new_grant now t (case fst (Services srv c (w_ag (a_world a))) of Inl _ \<Rightarrow> [] | Inr ss \<Rightarrow> map sv_id ss) i
      (trim_space ` set asked - {[]}) (duration_of n) g"
    and out: "abs_grants t' = (abs_grants t)(grant_id g \<mapsto> g)" "opened g failed v v'"
      "o_body ot = Some (PCreated (grant_id g) (unix (ends_at g)) (failed = []) failed shared)"
    by (auto simp: grant_outcome_def t_def t'_def now_def v_def v'_def)
  from g obtain ss where ss: "fst (Services srv c (w_ag (a_world a))) = Inr ss"
    by (cases "fst (Services srv c (w_ag (a_world a)))") (auto simp: new_grant_def)
  from g obtain name C where kid: "abs_children t i = Some (name, C)" "C \<noteq> {}" "set (grant_clients g) = trim_space ` C - {[]}"
    unfolding new_grant_def by blast
  have small: "n \<le> 9223372036 \<longrightarrow> duration_of n = n * second"
    using d(2) by (simp add: duration_of_def second_def i64_id min_int64_def max_int64_def)
  have "grant_services g \<noteq> []" using g by (auto simp: new_grant_def)
  then show ?thesis unfolding if_P [OF True] using d(1) g out ss kid small
    by (intro exI [of _ g] exI [of _ i] exI [of _ asked] exI [of _ n] exI [of _ name] exI [of _ C] exI [of _ ss]
        exI [of _ failed] exI [of _ shared])
      (simp add: new_grant_def opened_def MinDuration_def MaxDuration_def)
next
  case False
  have "sys_ok good (a_world a)" using assms(2,3) by (simp add: sys_ok_def)
  from handleGrantCreate_out [OF assms(1) this assms(4)] False show ?thesis
    by (simp add: grant_outcome_def t_def t'_def)
qed

text \<open>A request for five minutes of a service for the first child.\<close>

definition demo_grant_request :: api_request where
  "demo_grant_request = demo_request ''POST'' [''grants'']
     (JObj [(''child_id'', JNum ''1''), (''services'', JArr [JStr ''tiktok'']), (''duration'', JNum ''300'')])"

lemma grant_request_witness:
  "\<exists>ot a'. handleGrantCreate demo_deps demo_grant_request demo_caller demo_api = (ot, a') \<and>
     (o_status ot \<noteq> 201 \<longrightarrow> db (w_store (a_world a')) = demo_api_tables \<and> fk_clients (w_ag (a_world a')) = fk_clients demo_fake)"
proof -
  obtain ot a' where run: "handleGrantCreate demo_deps demo_grant_request demo_caller demo_api = (ot, a')" by fastforce
  have w: "w_ag (a_world demo_api) = demo_fake" "db (w_store (a_world demo_api)) = demo_api_tables"
    by (simp_all add: demo_api_def engine_New_def)
  have "wf_tables (db (w_store (a_world demo_api)))" by code_simp
  from grant_request [OF fake.ag_server_axioms demo_api_good this run [unfolded demo_deps_def]] run w
  show ?thesis by (auto split: if_splits)
qed

end
