(* ===== verification/ApiChildProps.thy ===== *)
theory ApiChildProps
  imports ApiReads EngineProps
begin

text \<open>
  What PUT /api/v1/children/{id} does: the handler over the store, the engine's adoption of the
  added devices and AdGuard. Nothing is saved before every added device has its baseline, and a
  request that is refused has touched nothing.
\<close>

section \<open>The decoded child\<close>

lemma trim_bounded_trimmed:
  "trim_bounded n seen vs xs = Some ys \<Longrightarrow> y \<in> set ys \<Longrightarrow> y \<in> set vs \<or> trim_space y = y \<and> y \<noteq> []"
proof (induction n seen vs xs rule: trim_bounded.induct)
  case (2 n seen vs x xs)
  then show ?case using trim_space_idem [of x] by (auto simp: Let_def split: if_splits)
qed simp

lemma decodeChild_trimmed:
  assumes "decodeChild r = Inr (name, clients)"
  shows "trim_space ` set clients - {[]} = set clients"
proof -
  obtain cs where "trim_bounded maxClientName [] [] cs = Some clients"
    using assms by (auto simp: decodeChild_def res_bind_def Let_def split: sum.splits if_splits option.splits)
  from trim_bounded_trimmed [OF this] show ?thesis by (intro trimmed_image) auto
qed

lemma decodeChild_status: "decodeChild r = Inl ot \<Longrightarrow> o_status ot = 400"
  by (auto simp: decodeChild_def res_bind_def Let_def split: sum.splits if_splits option.splits dest: decode_body_status)

lemma path_id_status: "path_id m s = Inl ot \<Longrightarrow> o_status ot = 404" "path_id m s = Inr i \<Longrightarrow> ParseInt s = Some i"
  by (auto simp: path_id_def split: option.splits)

section \<open>Refusals\<close>

lemma updateConflict_name_taken:
  assumes "wf_tables (db st)" "ListChildren st = (Inr children, st')"
  shows "updateConflict children i name = (if name_taken i name (db st) then Some ErrNameTaken else None)"
proof -
  have ids: "distinct (map ch_id (t_children (db st)))" using assms(1) by (simp add: wf_tables_def wf_children_def)
  have "Inr (scanChildren [] (listQuery (\<lambda>_. True) (db st))) = (Inr children :: store_error + child list)"
    using assms(2) query_db [of "\<lambda>t. Inr (scanChildren [] (listQuery (\<lambda>_. True) t))" st] by (auto simp: ListChildren_def)
  then have "set children = view_child (db st) ` set (t_children (db st))" by (auto simp: scan_listQuery [OF ids])
  then show ?thesis by (auto simp: updateConflict_def name_taken_def asciiFold_def to_lower_def view_child_def)
qed

text \<open>After the checks only the driver can refuse the row.\<close>

lemma UpdateChild_driver:
  assumes "wf_tables (db st)" "abs_children (db st) i \<noteq> None" "\<not> name_taken i name (db st)"
    and "UpdateChild i name cs st = (Inl e, st')"
  shows "o_status (writeStoreError op name e) = 500"
proof -
  have c: "wf_children (db st)" using assms(1) by (simp add: wf_tables_def)
  have "i \<in> ch_id ` set (t_children (db st))" using assms(2) dom_abs_children [of "db st"] by auto
  then have "e = wrapChildErr ''update child'' sql_error"
    using tx_run [OF assms(4) [unfolded UpdateChild_def], unfolded update_child_tx_eq [OF c normaliseClients_facts(1)]] assms(3)
    by auto
  then show ?thesis by (simp add: writeStoreError_def)
qed

lemma writeAdoptError_status: "o_status (writeAdoptError op e) \<in> {502, 500}"
  by (cases e) (simp_all add: writeAdoptError_def)

section \<open>Adopting the added devices\<close>

lemma adopt_loop_store: "adopt_loop e base active known ns w = (r, w') \<Longrightarrow> w_store w' = w_store w"
  by (induction ns arbitrary: w r w') (auto simp: run_ag_def split: prod.splits sum.splits if_splits)

lemma AdoptClients_db:
  assumes "AdoptClients (sys_engine srv c) i sib added w = (r, w')"
  shows "db (w_store w') = db (w_store w)"
  using assms by (auto simp: AdoptClients_def baselineFrom_def run_ag_def run_store_def sys_engine_def
    split: prod.splits sum.splits if_splits dest!: adopt_loop_store read_ops_db(3))

text \<open>What an update may do to the lists: nothing is ever taken off one.\<close>

definition only_added :: "string set \<Rightarrow> lists \<Rightarrow> lists \<Rightarrow> bool" where
  "only_added gl v v' \<longleftrightarrow> (\<forall>n. v' n = v n \<or> v n \<noteq> None \<and> (\<exists>b. v' n = Some (False, b) \<and> blocked_on gl v n \<subseteq> b))"

definition baselined ::
  "string set \<Rightarrow> lists \<Rightarrow> (id \<Rightarrow> grant option) \<Rightarrow> id \<Rightarrow> string set \<Rightarrow> string set \<Rightarrow> lists \<Rightarrow> bool" where
  "baselined gl v gr i sib added v' \<longleftrightarrow>
     (\<forall>n \<in> added. v n \<noteq> None \<longrightarrow> (\<exists>b. v' n = Some (False, b) \<and> device_base gl v gr i sib - covered gr n \<subseteq> b))"

lemma AdoptClients_lists:
  assumes srv: "ag_server srv c good cls glob" and ok: "sys_ok good w"
    and run: "AdoptClients (sys_engine srv c) i sib added w = (r, w')"
  defines "v \<equiv> ag_view (cls (w_ag w))" and "v' \<equiv> ag_view (cls (w_ag w'))" and "gl \<equiv> set (glob (w_ag w))"
  shows "sys_ok good w'" "only_added gl v v'" "is_ok r \<Longrightarrow> baselined gl v (grants_of w) i (set sib) (set added) v'"
proof -
  note env = ag_server.on_sys [OF srv]
  note out = engine_env.adopt_outcome [OF env, unfolded env_ok [OF env] engine_env.same_rest_def [OF env],
      OF ok run [unfolded sys_engine_def]]
  then show "sys_ok good w'" by blast
  show "is_ok r \<Longrightarrow> baselined gl v (grants_of w) i (set sib) (set added) v'"
    using out unfolding baselined_def v_def v'_def gl_def by blast
  have "adopted gl (\<lambda>n. device_base gl v (grants_of w) i (set sib) - covered (grants_of w) n) (set added) v v'"
    using out unfolding v_def v'_def gl_def by blast
  then have "v' n = v n \<or> v n \<noteq> None \<and> (\<exists>b. v' n = Some (False, b) \<and> blocked_on gl v n \<subseteq> b)" for n
    unfolding adopted_def by (drule_tac x = n in spec) (auto simp: blocked_on_def)
  then show "only_added gl v v'" unfolding only_added_def by blast
qed

section \<open>The handler\<close>

lemma update_row_out:
  assumes "wf_tables (db (w_store (a_world a)))" "abs_children (db (w_store (a_world a))) i \<noteq> None"
    and "\<not> name_taken i name (db (w_store (a_world a)))"
    and "attempt (call_store (UpdateChild i name clients)) (writeStoreError ''update child'' name)
           (\<lambda>c. finish (api_writeJSON 200 (PChild c))) a = (ot, a')"
  shows "w_ag (a_world a') = w_ag (a_world a) \<and>
    (if o_status ot = 200 then children_of (a_world a') =
         (children_of (a_world a))(i \<mapsto> (name, trim_space ` set clients - {[]}))
     else o_status ot = 500 \<and> db (w_store (a_world a')) = db (w_store (a_world a)))"
  using assms(4)
proof (cases rule: attempt_cases)
  case (failed e)
  from UpdateChild_out [OF assms(1), of i name clients "Inl e" "w_store (a_world a')"] call_storeD [OF failed(1)]
  have "db (w_store (a_world a')) = db (w_store (a_world a))" "w_ag (a_world a') = w_ag (a_world a)" by simp_all
  moreover have "o_status ot = 500"
    using UpdateChild_driver [OF assms(1-3)] call_storeD [OF failed(1)] failed(2) by blast
  ultimately show ?thesis by simp
next
  case (went_on c a1)
  then have "o_status ot = 200" "a' = a1" by auto
  with UpdateChild_out [OF assms(1), of i name clients "Inr c" "w_store (a_world a1)"] call_storeD [OF went_on(1)]
  show ?thesis by simp
qed

text \<open>From the checks on; \<open>C\<close> are the clients the child had.\<close>

definition updated ::
  "('w \<Rightarrow> obj list) \<Rightarrow> ('w \<Rightarrow> string list) \<Rightarrow> id \<Rightarrow> string \<Rightarrow> string set \<Rightarrow> string set \<Rightarrow>
     (store, 'w) world \<Rightarrow> nat \<Rightarrow> (store, 'w) world \<Rightarrow> bool" where
  "updated cls glob i name clients C w status w' \<longleftrightarrow>
     (let v = ag_view (cls (w_ag w)); v' = ag_view (cls (w_ag w')); gl = set (glob (w_ag w))
      in only_added gl v v' \<and>
         (if status = 200
          then children_of w' = (children_of w)(i \<mapsto> (name, clients)) \<and>
               baselined gl v (grants_of w) i (clients \<inter> C) (clients - C) v'
          else db (w_store w') = db (w_store w) \<and> (status \<in> {404, 409} \<longrightarrow> v' = v)))"

lemma only_added_refl: "only_added gl v v"
  by (simp add: only_added_def)

lemma update_from_out:
  assumes srv: "ag_server srv c good cls glob" and ok: "sys_ok good (a_world a)"
    and kid: "children_of (a_world a) i = Some (m, set (child_clients cur))"
    and list: "updateConflict children i name = (if name_taken i name (db (w_store (a_world a))) then Some ErrNameTaken else None)"
    and trimmed: "trim_space ` set clients - {[]} = set clients"
    and run: "update_from (sys_deps srv c trusted secure sha render) i name clients cur children a = (ot, a')"
  shows "updated cls glob i name (set clients) (set (child_clients cur)) (a_world a) (o_status ot) (a_world a')"
proof (cases "name_taken i name (db (w_store (a_world a)))")
  case True
  with run list show ?thesis
    by (auto simp: update_from_def writeStoreError_def updated_def only_added_refl Let_def)
next
  case False
  let ?sib = "filter (\<lambda>c. c \<in> set (child_clients cur)) clients" and ?new = "filter (\<lambda>c. c \<notin> set (child_clients cur)) clients"
  let ?row = "attempt (call_store (UpdateChild i name clients)) (writeStoreError ''update child'' name)
    (\<lambda>c. finish (api_writeJSON 200 (PChild c)))"
  have sets: "set ?sib = set clients \<inter> set (child_clients cur)" "set ?new = set clients - set (child_clients cur)" by auto
  have wf: "wf_tables (db (w_store (a_world a)))" using ok by (simp add: sys_ok_def)
  have step: "adopt_added (sys_deps srv c trusted secure sha render) ''update child'' i ?sib ?new ?row a = (ot, a')"
    using run list False by (simp add: update_from_def Let_def sqlite_children_def)
  show ?thesis
  proof (cases "?new = []")
    case True
    from step have "?row a = (ot, a')" unfolding adopt_added_def if_P [OF True] .
    note out = update_row_out [OF wf _ False this]
    have none: "set clients - set (child_clients cur) = {}" using sets(2) True by (metis set_empty)
    show ?thesis using out kid trimmed none by (auto simp: updated_def only_added_refl baselined_def Let_def split: if_splits)
  next
    case added: False
    from step have "attempt (on_world (AdoptClients (sys_engine srv c) i ?sib ?new)) (writeAdoptError ''update child'') (\<lambda>_. ?row) a =
        (ot, a')" unfolding adopt_added_def if_not_P [OF added] sys_deps_simps .
    then show ?thesis
    proof (cases rule: attempt_cases)
      case (failed e)
      note run1 = on_worldD [OF failed(1)]
      show ?thesis using AdoptClients_lists(2) [OF srv ok run1] AdoptClients_db [OF run1] failed(2)
          writeAdoptError_status [of "''update child''" e] by (auto simp: updated_def Let_def)
    next
      case (went_on u a1)
      note run1 = on_worldD [OF went_on(1)]
      have d: "db (w_store (a_world a1)) = db (w_store (a_world a))" using AdoptClients_db [OF run1] .
      note out = update_row_out [OF _ _ _ went_on(2), unfolded d, OF wf _ False]
      show ?thesis using AdoptClients_lists(2,3) [OF srv ok run1, unfolded sets] out kid trimmed
        by (auto simp: updated_def Let_def d split: if_splits)
    qed
  qed
qed

lemma update_from_status:
  "update_from d i name clients cur children a = (ot, a') \<Longrightarrow> o_status ot \<noteq> 400"
proof -
  have "o_status (writeStoreError op name e) \<noteq> 400" "o_status (writeAdoptError op e') \<noteq> 400" for op name e e'
    using writeStoreError_status [of op name e] writeAdoptError_status [of op e'] by auto
  then show "update_from d i name clients cur children a = (ot, a') \<Longrightarrow> o_status ot \<noteq> 400"
    by (auto simp: update_from_def adopt_added_def attempt_def Let_def split: option.splits if_splits prod.splits sum.splits)
qed

lemma updated_cong:
  "db (w_store w1) = db (w_store w) \<Longrightarrow> w_ag w1 = w_ag w \<Longrightarrow>
     updated cls glob i name cs C w1 st w' \<Longrightarrow> updated cls glob i name cs C w st w'"
  by (cases "st = 200") (simp_all add: updated_def Let_def)

text \<open>Refused by the request or a read: nothing has changed.\<close>

definition idle :: "(store, 'w) api_state \<Rightarrow> out \<Rightarrow> (store, 'w) api_state \<Rightarrow> bool" where
  "idle a ot a' \<longleftrightarrow> o_status ot \<noteq> 200 \<and> db (w_store (a_world a')) = db (w_store (a_world a)) \<and> w_ag (a_world a') = w_ag (a_world a)"

lemma handleChildUpdate_out:
  assumes srv: "ag_server srv c good cls glob" and ok: "sys_ok good (a_world a)"
    and run: "handleChildUpdate (sys_deps srv c trusted secure sha render) ref r s a = (ot, a')"
  shows "idle a ot a' \<or> (\<exists>i name clients old C. ParseInt ref = Some i \<and> decodeChild r = Inr (name, clients) \<and>
    children_of (a_world a) i = Some (old, C) \<and>
    o_status ot \<noteq> 400 \<and> updated cls glob i name (set clients) C (a_world a) (o_status ot) (a_world a'))"
  using run unfolding handleChildUpdate_def
proof (cases rule: checked_cases)
  case failed
  then show ?thesis using path_id_status(1) by (auto simp: childID_def idle_def)
next
  case (went_on i)
  note i = path_id_status(2) [OF went_on(1) [unfolded childID_def]]
  from went_on(2) show ?thesis
  proof (cases rule: checked_cases)
    case failed
    then show ?thesis using decodeChild_status by (auto simp: idle_def)
  next
    case (went_on x)
    obtain name clients where x: "x = (name, clients)" by (cases x)
    note dec = went_on(1) [unfolded x]
    from went_on(2) [unfolded x prod.case sys_deps_simps] show ?thesis
    proof (cases rule: attempt_cases)
      case (failed e)
      with call_storeD [OF failed(1)] read_ops_db(2) writeStoreError_status [of "''update child''" name e] show ?thesis
        by (intro disjI1) (auto simp: idle_def sqlite_children_def)
    next
      case (went_on cur a1)
      have g: "GetChild i (w_store (a_world a)) = (Inr cur, w_store (a_world a1))" "w_ag (a_world a1) = w_ag (a_world a)"
        using call_storeD [OF went_on(1)] by (simp_all add: sqlite_children_def)
      have wf: "wf_tables (db (w_store (a_world a)))" using ok by (simp add: sys_ok_def)
      have kid: "children_of (a_world a) i = Some (child_name cur, set (child_clients cur))" and d1: "db (w_store (a_world a1)) = db (w_store (a_world a))"
        using GetChild_out [OF wf g(1)] by simp_all
      from went_on(2) show ?thesis
      proof (cases rule: attempt_cases)
        case (failed e)
        with call_storeD [OF failed(1)] read_ops_db(1) writeStoreError_status [of "''update child''" name e] d1 g show ?thesis
          by (intro disjI1) (auto simp: idle_def sqlite_children_def)
      next
        case (went_on children a2)
        have l: "ListChildren (w_store (a_world a1)) = (Inr children, w_store (a_world a2))" "w_ag (a_world a2) = w_ag (a_world a)"
          using call_storeD [OF went_on(1)] g by (simp_all add: sqlite_children_def)
        have d2: "db (w_store (a_world a2)) = db (w_store (a_world a))" using read_ops_db(1) [OF l(1)] d1 by simp
        have "sys_ok good (a_world a2)" using ok d2 l(2) by (simp add: sys_ok_def)
        from update_from_out [OF srv this _ _ decodeChild_trimmed [OF dec] went_on(2)]
        have "updated cls glob i name (set clients) (set (child_clients cur)) (a_world a) (o_status ot) (a_world a')"
          using kid updateConflict_name_taken [OF _ l(1)] wf d1 d2 l(2) by (auto intro: updated_cong)
        moreover have "o_status ot \<noteq> 400" using went_on(2) by (rule update_from_status)
        ultimately show ?thesis using i dec kid by blast
      qed
    qed
  qed
qed

text \<open>Property C12. PUT /api/v1/children/{id}: nothing AdGuard blocks is ever unblocked by it; a 400, 404 or 409 has changed
  neither the database nor AdGuard; no answer but 200 has saved anything; and 200 means the child now has exactly
  the requested name and clients, every added device that AdGuard knows having a list of its own with the child's
  baseline less what running grants hold open on it.\<close>

theorem child_update:
  assumes srv: "ag_server srv c good cls glob" and ok: "sys_ok good (a_world a)"
    and run: "handleChildUpdate (sys_deps srv c trusted secure sha render) ref r s a = (ot, a')"
  defines "v \<equiv> ag_view (cls (w_ag (a_world a)))" and "v' \<equiv> ag_view (cls (w_ag (a_world a')))"
    and "gl \<equiv> set (glob (w_ag (a_world a)))"
  shows "(\<forall>n. v' n = v n \<or> v n \<noteq> None \<and> (\<exists>b. v' n = Some (False, b) \<and> blocked_on gl v n \<subseteq> b)) \<and>
    (o_status ot \<in> {400, 404, 409} \<longrightarrow> v' = v) \<and>
    (o_status ot \<noteq> 200 \<longrightarrow> db (w_store (a_world a')) = db (w_store (a_world a))) \<and>
    (o_status ot = 200 \<longrightarrow> (\<exists>i name clients old C. ParseInt ref = Some i \<and> decodeChild r = Inr (name, clients) \<and>
       children_of (a_world a) i = Some (old, C) \<and>
       children_of (a_world a') = (children_of (a_world a))(i \<mapsto> (name, set clients)) \<and>
       (\<forall>n \<in> set clients - C. v n \<noteq> None \<longrightarrow>
          (\<exists>b. v' n = Some (False, b) \<and>
               device_base gl v (grants_of (a_world a)) i (set clients \<inter> C) - covered (grants_of (a_world a)) n \<subseteq> b))))"
  using handleChildUpdate_out [OF srv ok run]
proof
  assume "idle a ot a'"
  then show ?thesis by (simp add: idle_def v_def v'_def)
next
  assume "\<exists>i name clients old C. ParseInt ref = Some i \<and> decodeChild r = Inr (name, clients) \<and>
    children_of (a_world a) i = Some (old, C) \<and>
    o_status ot \<noteq> 400 \<and> updated cls glob i name (set clients) C (a_world a) (o_status ot) (a_world a')"
  then obtain i name clients old C where *: "ParseInt ref = Some i" "decodeChild r = Inr (name, clients)"
    "children_of (a_world a) i = Some (old, C)" "o_status ot \<noteq> 400"
    "updated cls glob i name (set clients) C (a_world a) (o_status ot) (a_world a')" by blast
  note out = *(5) [unfolded updated_def only_added_def baselined_def Let_def, folded v_def v'_def gl_def]
  have added: "\<forall>n. v' n = v n \<or> v n \<noteq> None \<and> (\<exists>b. v' n = Some (False, b) \<and> blocked_on gl v n \<subseteq> b)"
    using out by blast
  show ?thesis
  proof (cases "o_status ot = 200")
    case True
    from out [unfolded if_P [OF True], THEN conjunct2] *(1-3)
    have "\<exists>i name clients old C. ParseInt ref = Some i \<and> decodeChild r = Inr (name, clients) \<and>
       children_of (a_world a) i = Some (old, C) \<and>
       children_of (a_world a') = (children_of (a_world a))(i \<mapsto> (name, set clients)) \<and>
       (\<forall>n \<in> set clients - C. v n \<noteq> None \<longrightarrow>
          (\<exists>b. v' n = Some (False, b) \<and>
               device_base gl v (grants_of (a_world a)) i (set clients \<inter> C) - covered (grants_of (a_world a)) n \<subseteq> b))" by blast
    with added True show ?thesis by simp
  next
    case False
    with out *(4) have "db (w_store (a_world a')) = db (w_store (a_world a))" "o_status ot \<in> {400, 404, 409} \<longrightarrow> v' = v" by auto
    with added False show ?thesis by blast
  qed
qed

text \<open>Giving the first child a second device, which AdGuard knows.\<close>

definition demo_update :: api_request where
  "demo_update = demo_request ''PUT'' [''children'', ''1'']
     (JObj [(''name'', JStr ''Ann''), (''clients'', JArr [JStr ''Kid phone'', JStr ''Kid tablet''])])"

lemma child_update_witness:
  "\<exists>ot a'. handleChildUpdate demo_deps ''1'' demo_update demo_caller demo_api = (ot, a') \<and>
     (\<forall>n. ag_view (fk_clients (w_ag (a_world a'))) n = ag_view (fk_clients demo_fake) n \<or>
        (\<exists>b. ag_view (fk_clients (w_ag (a_world a'))) n = Some (False, b) \<and>
             blocked_on (set (fake_glob demo_fake)) (ag_view (fk_clients demo_fake)) n \<subseteq> b))"
proof -
  obtain ot a' where run: "handleChildUpdate demo_deps ''1'' demo_update demo_caller demo_api = (ot, a')" by fastforce
  have w: "w_ag (a_world demo_api) = demo_fake" by (simp add: demo_api_def engine_New_def)
  have "wf_tables (db (w_store (a_world demo_api)))" by code_simp
  then have "sys_ok fake_good (a_world demo_api)" using demo_api_good by (simp add: sys_ok_def)
  from child_update [OF fake.ag_server_axioms this run [unfolded demo_deps_def]] run show ?thesis
    unfolding w by (intro exI [of _ ot] exI [of _ a'] conjI) (assumption, metis)
qed

end
