(* ===== verification/Health.thy ===== *)
theory Health
  imports AdguardHttp
begin

text \<open>
  internal/health: the prober, which keeps the outcome of its last call to AdGuard Home, and the
  health check, which reports it and is always 200. The client is an argument (\<open>StatusClient\<close>);
  log lines are left out.
\<close>

datatype probe_state = StateOK | StateUnauthorized | StateUnreachable

fun state_name :: "probe_state \<Rightarrow> string" where
  "state_name StateOK = ''ok''"
| "state_name StateUnauthorized = ''unauthorized''"
| "state_name StateUnreachable = ''unreachable''"

record probe_result =
  pr_state :: probe_state
  pr_version :: string
  pr_err :: "ag_error option"

record prober =
  pb_version :: string
  pb_last :: probe_result

definition health_New :: "string \<Rightarrow> prober" where
  "health_New version =
     \<lparr>pb_version = version, pb_last = \<lparr>pr_state = StateUnreachable, pr_version = [], pr_err = None\<rparr>\<rparr>"

definition health_classify :: "ag_error + status \<Rightarrow> probe_result" where
  "health_classify r =
     (case r of
        Inr st \<Rightarrow> \<lparr>pr_state = StateOK, pr_version = st_version st, pr_err = None\<rparr>
      | Inl (ErrBadCredentials e) \<Rightarrow>
          \<lparr>pr_state = StateUnauthorized, pr_version = [], pr_err = Some (ErrBadCredentials e)\<rparr>
      | Inl e \<Rightarrow> \<lparr>pr_state = StateUnreachable, pr_version = [], pr_err = Some e\<rparr>)"

type_synonym 'w status_client = "(ag_error, status, 'w) act"

definition Probe :: "'w status_client \<Rightarrow> prober \<times> 'w \<Rightarrow> probe_result \<times> prober \<times> 'w" where
  "Probe status pw =
     (let (p, w) = pw; (r, w') = status w; res = health_classify r in (res, p\<lparr>pb_last := res\<rparr>, w'))"

record health_body =
  hb_status :: string
  hb_adguard :: string
  hb_adguard_version :: string
  hb_version :: string

definition health_Last :: "prober \<Rightarrow> probe_result" where "health_Last p = pb_last p"

definition health_Handler :: "prober \<Rightarrow> nat \<times> health_body" where
  "health_Handler p =
     (let r = health_Last p
      in (200, \<lparr>hb_status = ''ok'', hb_adguard = state_name (pr_state r), hb_adguard_version = pr_version r,
                hb_version = pb_version p\<rparr>))"

text \<open>\<open>Run\<close>: at once, and at each of \<open>n\<close> ticks of its timer.\<close>

fun probe_ticks :: "'w status_client \<Rightarrow> nat \<Rightarrow> prober \<times> 'w \<Rightarrow> prober \<times> 'w" where
  "probe_ticks status 0 pw = pw"
| "probe_ticks status (Suc n) pw = probe_ticks status n (snd (Probe status pw))"

definition health_Run :: "'w status_client \<Rightarrow> nat \<Rightarrow> prober \<times> 'w \<Rightarrow> prober \<times> 'w" where
  "health_Run status n pw = probe_ticks status n (snd (Probe status pw))"

lemma Probe_run: "Probe status (p, w) = (res, p', w') \<Longrightarrow>
    w' = snd (status w) \<and> res = health_classify (fst (status w)) \<and> pb_last p' = res \<and> pb_version p' = pb_version p"
  by (auto simp: Probe_def Let_def split: prod.splits)

lemma health_ok_iff: "pr_state (health_classify r) = StateOK \<longleftrightarrow> is_ok r"
  by (auto simp: health_classify_def split: sum.splits ag_error.splits)

lemma health_unauthorized_iff:
  "pr_state (health_classify r) = StateUnauthorized \<longleftrightarrow> (\<exists>e. pr_err (health_classify r) = Some (ErrBadCredentials e))"
  by (auto simp: health_classify_def split: sum.splits ag_error.splits)

end
