(* ===== verification/Spa.thy ===== *)
theory Spa
  imports Paths
begin

text \<open>
  internal/spa: the built frontend with its single-page fallback. The embedded file system is an
  argument: \<open>fs\<close> gives for a name a file's content, a directory, or nothing. What
  \<open>http.ServeContent\<close> makes of a file (ranges, conditional requests, a content type from the
  extension) is net/http's; the model stops at the file and the headers it is handed over with.
\<close>

section \<open>Model\<close>

datatype node = File string | Directory

type_synonym file_system = "string \<Rightarrow> node option"

datatype kind = kindNotFound | kindAPI | kindNotBuilt | kindNoCache | kindImmutable | kindStatic

definition indexFile :: string where "indexFile = ''index.html''"
definition cacheNo :: string where "cacheNo = ''no-cache''"
definition cacheForev :: string where "cacheForev = ''public, max-age=31536000, immutable''"
definition cacheHour :: string where "cacheHour = ''public, max-age=3600''"
definition notBuiltMsg :: string where "notBuiltMsg = ''frontend not built: run make build-web''"

definition noCacheFiles :: "string list" where
  "noCacheFiles = [indexFile, ''sw.js'', ''manifest.webmanifest'']"

definition isFile :: "file_system \<Rightarrow> string \<Rightarrow> bool" where
  "isFile fs name = (case fs name of Some (File _) \<Rightarrow> True | _ \<Rightarrow> False)"

definition fileKind :: "string \<Rightarrow> kind" where
  "fileKind name =
     (if name \<in> set noCacheFiles then kindNoCache
      else if HasPrefix name ''assets/'' then kindImmutable else kindStatic)"

definition api_path :: "string \<Rightarrow> bool" where
  "api_path p \<longleftrightarrow> p = ''/healthz'' \<or> p = ''/api'' \<or> HasPrefix p ''/api/''"

definition resolve :: "file_system \<Rightarrow> string \<Rightarrow> string \<times> kind" where
  "resolve fs urlPath =
     (let p = path_Clean (''/'' @ urlPath)
      in if api_path p then ([], kindAPI)
         else let name = TrimPrefix p ''/''; name = (if name = [] then indexFile else name); base = path_Base name
              in if \<not> HasPrefix base ''.'' \<and> isFile fs name then (name, fileKind name)
                 else if name \<noteq> indexFile \<and> path_Ext base \<noteq> [] then ([], kindNotFound)
                 else if isFile fs indexFile then (indexFile, kindNoCache)
                 else ([], kindNotBuilt))"

datatype spa_body = Written string | Served string string

record spa_response =
  sr_status :: nat
  sr_headers :: "(string \<times> string) list"
  sr_body :: spa_body

text \<open>\<open>http.Error\<close>.\<close>

definition http_Error :: "(string \<times> string) list \<Rightarrow> string \<Rightarrow> nat \<Rightarrow> spa_response" where
  "http_Error headers msg code =
     \<lparr>sr_status = code,
      sr_headers = headers @ [(''Content-Type'', ''text/plain; charset=utf-8''), (''X-Content-Type-Options'', ''nosniff'')],
      sr_body = Written (msg @ [char_of (10 :: nat)])\<rparr>"

definition cache_of :: "kind \<Rightarrow> string" where
  "cache_of k = (case k of kindNoCache \<Rightarrow> cacheNo | kindImmutable \<Rightarrow> cacheForev | _ \<Rightarrow> cacheHour)"

text \<open>A file of \<open>resolve\<close> exists; reading fails only for what is none, with the error of the file system.\<close>

definition serveFile :: "file_system \<Rightarrow> string \<Rightarrow> kind \<Rightarrow> spa_response" where
  "serveFile fs name k =
     (case fs name of
        Some (File data) \<Rightarrow>
          \<lparr>sr_status = 200,
           sr_headers = (''Cache-Control'', cache_of k) #
             (if HasSuffix name ''.webmanifest'' then [(''Content-Type'', ''application/manifest+json'')] else []),
           sr_body = Served name data\<rparr>
      | Some Directory \<Rightarrow> http_Error [] (''read '' @ name @ '': read '' @ name @ '': is a directory'') 500
      | None \<Rightarrow> http_Error [] (''read '' @ name @ '': open '' @ name @ '': file does not exist'') 500)"

definition spa_Handler :: "file_system \<Rightarrow> string \<Rightarrow> string \<Rightarrow> spa_response" where
  "spa_Handler fs meth urlPath =
     (if meth \<noteq> ''GET'' \<and> meth \<noteq> ''HEAD'' then http_Error [(''Allow'', ''GET, HEAD'')] ''method not allowed'' 405
      else if Contains_str urlPath ''..'' then http_Error [] ''bad path'' 400
      else case resolve fs urlPath of
             (file, kindAPI) \<Rightarrow>
               \<lparr>sr_status = 404, sr_headers = [(''Content-Type'', ''application/json'')],
                sr_body = Written (''{\"error\":\"not_found\"}'' @ [char_of (10 :: nat)])\<rparr>
           | (file, kindNotFound) \<Rightarrow> http_Error [] ''404 page not found'' 404
           | (file, kindNotBuilt) \<Rightarrow> http_Error [] notBuiltMsg 503
           | (file, k) \<Rightarrow> serveFile fs file k)"

section \<open>What it never serves\<close>

text \<open>The name a served file has: segments below the root, the last one no dot file.\<close>

definition below_root :: "string \<Rightarrow> bool" where
  "below_root name \<longleftrightarrow> (\<exists>segs. name = join ''/'' segs \<and> segs \<noteq> [] \<and> (\<forall>s \<in> set segs. plain_seg s))"

lemma join_nonempty: "segs \<noteq> [] \<Longrightarrow> \<forall>s \<in> set segs. s \<noteq> [] \<Longrightarrow> join ''/'' segs \<noteq> []"
  by (cases segs; cases "tl segs") auto

lemma index_below: "below_root indexFile"
  by (auto simp: below_root_def indexFile_def plain_seg_def intro!: exI [of _ "[''index.html'']"])

lemma index_base: "\<not> HasPrefix (path_Base indexFile) ''.''"
  by code_simp

lemma fileKind_index: "fileKind indexFile = kindNoCache" by (simp add: fileKind_def noCacheFiles_def)

lemma resolve_file:
  assumes "resolve fs urlPath = (name, k)" "k \<in> {kindNoCache, kindImmutable, kindStatic}"
  shows "\<not> api_path (path_Clean (''/'' @ urlPath)) \<and> below_root name \<and> \<not> HasPrefix (path_Base name) ''.'' \<and> isFile fs name \<and>
    k = fileKind name"
proof -
  obtain segs where p: "path_Clean (''/'' @ urlPath) = CHR ''/'' # join ''/'' segs" "\<forall>s \<in> set segs. plain_seg s"
    by (rule Clean_rooted [of urlPath]) simp
  let ?name = "if join ''/'' segs = [] then indexFile else join ''/'' segs"
  have trim: "TrimPrefix (CHR ''/'' # join ''/'' segs) ''/'' = join ''/'' segs" by (simp add: TrimPrefix_def HasPrefix_def)
  have below: "below_root ?name"
  proof (cases "segs = []")
    case True
    then show ?thesis by (simp add: index_below)
  next
    case False
    with p(2) have "join ''/'' segs \<noteq> []" by (intro join_nonempty) (auto simp: plain_seg_def)
    with False p(2) show ?thesis by (auto simp: below_root_def)
  qed
  show ?thesis
    using assms below fileKind_index index_below index_base
    unfolding resolve_def p(1) Let_def trim by (auto split: if_splits)
qed

lemma resolve_api: "api_path (path_Clean (''/'' @ urlPath)) \<Longrightarrow> resolve fs urlPath = ([], kindAPI)"
  by (simp add: resolve_def Let_def)

text \<open>The name a path asks for, a route of the client (the root, or a last segment without extension), and
  what the route resolves to.\<close>

definition asked_name :: "string \<Rightarrow> string" where
  "asked_name urlPath = TrimPrefix (path_Clean (''/'' @ urlPath)) ''/''"

definition client_route :: "string \<Rightarrow> bool" where
  "client_route urlPath \<longleftrightarrow> \<not> api_path (path_Clean (''/'' @ urlPath)) \<and>
     (asked_name urlPath = [] \<or> path_Ext (path_Base (asked_name urlPath)) = [])"

definition route_file :: "file_system \<Rightarrow> string \<Rightarrow> string" where
  "route_file fs urlPath = (let n = asked_name urlPath in if n \<noteq> [] \<and> isFile fs n then n else indexFile)"

lemma no_Ext_no_dot:
  assumes "path_Ext (path_Base p) = []"
  shows "\<not> HasPrefix (path_Base p) ''.''"
proof
  assume dot: "HasPrefix (path_Base p) ''.''"
  then obtain cs where b: "path_Base p = CHR ''.'' # cs" by (cases "path_Base p") (auto simp: HasPrefix_def)
  have "CHR ''/'' \<notin> set (path_Base p) \<or> path_Base p = ''/''"
    by (auto simp: path_Base_def Let_def dest: set_takeWhileD)
  with b have seg: "takeWhile (\<lambda>c. c \<noteq> CHR ''/'') (rev (path_Base p)) = rev (path_Base p)"
    by (auto simp: takeWhile_eq_all_conv)
  have "takeWhile (\<lambda>c. c \<noteq> CHR ''.'') (rev (path_Base p)) \<noteq> rev (path_Base p)"
    by (simp add: takeWhile_eq_all_conv b)
  then have "path_Ext (path_Base p) \<noteq> []" unfolding path_Ext_def Let_def seg by simp
  with assms show False by simp
qed

lemma resolve_route:
  assumes "client_route urlPath"
  shows "resolve fs urlPath =
    (if isFile fs (route_file fs urlPath) then (route_file fs urlPath, fileKind (route_file fs urlPath)) else ([], kindNotBuilt))"
proof -
  have plain: "\<not> HasPrefix (path_Base (asked_name urlPath)) ''.''" if "asked_name urlPath \<noteq> []"
    using assms that no_Ext_no_dot by (auto simp: client_route_def)
  have "path_Ext (path_Base indexFile) \<noteq> []" by code_simp
  with assms plain show ?thesis
    by (auto simp: client_route_def resolve_def route_file_def asked_name_def Let_def fileKind_index index_base)
qed

lemma http_Error_simps [simp]:
  "sr_status (http_Error hs msg code) = code" "sr_body (http_Error hs msg code) = Written (msg @ [char_of (10 :: nat)])"
  by (simp_all add: http_Error_def)

text \<open>What the browser may keep of a file, by its name alone.\<close>

definition cache_policy :: "string \<Rightarrow> string" where
  "cache_policy name =
     (if name \<in> {''index.html'', ''sw.js'', ''manifest.webmanifest''} then ''no-cache''
      else if HasPrefix name ''assets/'' then ''public, max-age=31536000, immutable'' else ''public, max-age=3600'')"

lemma serve_existing:
  assumes "isFile fs name" "k = fileKind name"
  obtains data where "fs name = Some (File data)" "sr_status (serveFile fs name k) = 200"
    "sr_body (serveFile fs name k) = Served name data"
    "map_of (sr_headers (serveFile fs name k)) ''Cache-Control'' = Some (cache_policy name)"
proof -
  from assms(1) obtain data where d: "fs name = Some (File data)" by (auto simp: isFile_def split: option.splits node.splits)
  show ?thesis
    by (intro that [of data])
      (simp_all add: d assms(2) serveFile_def cache_of_def fileKind_def noCacheFiles_def cache_policy_def indexFile_def
        cacheNo_def cacheForev_def cacheHour_def)
qed

lemma written:
  assumes "resolve fs urlPath = (name, k)"
    "\<not> (meth \<in> {''GET'', ''HEAD''} \<and> \<not> Contains_str urlPath ''..'' \<and> k \<in> {kindNoCache, kindImmutable, kindStatic})"
  shows "(\<exists>s. sr_body (spa_Handler fs meth urlPath) = Written s) \<and>
    sr_status (spa_Handler fs meth urlPath) \<in> {400, 404, 405, 503} \<and>
    (sr_status (spa_Handler fs meth urlPath) = 503 \<longleftrightarrow>
       meth \<in> {''GET'', ''HEAD''} \<and> \<not> Contains_str urlPath ''..'' \<and> k = kindNotBuilt)"
proof (cases "meth \<in> {''GET'', ''HEAD''}")
  case asked: True
  show ?thesis
  proof (cases "Contains_str urlPath ''..''")
    case True
    with asked show ?thesis by (auto simp: spa_Handler_def)
  next
    case False
    with asked assms have "k \<in> {kindAPI, kindNotFound, kindNotBuilt}" by (cases k) auto
    with False asked assms(1) show ?thesis by (auto simp: spa_Handler_def)
  qed
next
  case False
  then show ?thesis by (simp add: spa_Handler_def)
qed

text \<open>Property C35. The frontend never answers for the API: a path that cleans to the health check, to /api or to anything
  below it is never answered with a file, whatever the bundle holds. A file that is served is a regular file of the bundle
  below its root and no dot file, and its Cache-Control header is exactly that of its name: the shell, the service worker and
  the manifest are to be revalidated, everything else under assets/ is kept for a year as immutable, the rest for an hour. A
  route of the client, the root or a path without extension, gets the file of that name if the bundle has one, else
  index.html, and a 503 exactly when the bundle has no shell to fall back to.\<close>

theorem spa_serves:
  assumes "spa_Handler fs meth urlPath = rp"
  shows "(api_path (path_Clean (''/'' @ urlPath)) \<longrightarrow> sr_status rp \<in> {400, 404, 405} \<and> (\<exists>s. sr_body rp = Written s)) \<and>
    (sr_status rp = 200 \<longrightarrow> (\<exists>name data. sr_body rp = Served name data \<and> fs name = Some (File data) \<and> below_root name \<and>
       \<not> HasPrefix (path_Base name) ''.'' \<and> map_of (sr_headers rp) ''Cache-Control'' = Some (cache_policy name))) \<and>
    (meth \<in> {''GET'', ''HEAD''} \<and> \<not> Contains_str urlPath ''..'' \<and> client_route urlPath \<longrightarrow>
       (let n = asked_name urlPath; name = if n \<noteq> [] \<and> isFile fs n then n else ''index.html''
        in case fs name of
             Some (File data) \<Rightarrow> sr_status rp = 200 \<and> sr_body rp = Served name data
           | _ \<Rightarrow> sr_status rp = 503))"
proof -
  let ?safe = "meth \<in> {''GET'', ''HEAD''} \<and> \<not> Contains_str urlPath ''..''"
  obtain name k where r: "resolve fs urlPath = (name, k)" by fastforce
  show ?thesis
  proof (cases "?safe \<and> k \<in> {kindNoCache, kindImmutable, kindStatic}")
    case True
    then have rp: "rp = serveFile fs name k" using assms r by (auto simp: spa_Handler_def)
    from True resolve_file [OF r] have f: "\<not> api_path (path_Clean (''/'' @ urlPath))" "below_root name"
      "\<not> HasPrefix (path_Base name) ''.''" "isFile fs name" "k = fileKind name" by blast+
    from f(4,5) obtain data where served: "fs name = Some (File data)" "sr_status rp = 200" "sr_body rp = Served name data"
      "map_of (sr_headers rp) ''Cache-Control'' = Some (cache_policy name)"
      unfolding rp by (rule serve_existing)
    have "name = route_file fs urlPath" if "client_route urlPath"
      using resolve_route [OF that, of fs] r True by (auto split: if_splits)
    then show ?thesis
      using f served by (auto simp: route_file_def Let_def simp flip: indexFile_def)
  next
    case False
    then obtain body where w: "sr_body rp = Written body" "sr_status rp \<in> {400, 404, 405, 503}"
      "sr_status rp = 503 \<longleftrightarrow> ?safe \<and> k = kindNotBuilt"
      using written [OF r, of meth] False assms by blast
    have "\<not> isFile fs (route_file fs urlPath) \<and> sr_status rp = 503" if "client_route urlPath \<and> ?safe"
    proof -
      have "fileKind n \<in> {kindNoCache, kindImmutable, kindStatic}" for n by (simp add: fileKind_def)
      with that resolve_route [of urlPath fs] r False w(3) show ?thesis by (auto split: if_splits)
    qed
    then have route: "client_route urlPath \<and> ?safe \<longrightarrow>
        (case fs (route_file fs urlPath) of Some (File d) \<Rightarrow> False | _ \<Rightarrow> sr_status rp = 503)"
      by (auto simp: isFile_def split: option.splits node.splits)
    have "api_path (path_Clean (''/'' @ urlPath)) \<longrightarrow> k = kindAPI" using resolve_api [of urlPath fs] r by simp
    then have "api_path (path_Clean (''/'' @ urlPath)) \<longrightarrow> sr_status rp \<in> {400, 404, 405}" using w(2,3) by auto
    moreover have "sr_status rp \<noteq> 200" using w(2) by auto
    ultimately show ?thesis
      using w(1) route unfolding route_file_def Let_def indexFile_def by (auto split: option.splits node.splits)
  qed
qed

text \<open>A small bundle.\<close>

definition demo_bundle :: file_system where
  "demo_bundle = [''index.html'' \<mapsto> File ''shell'', ''assets'' \<mapsto> Directory, ''assets/app.js'' \<mapsto> File ''code'', ''.gitkeep'' \<mapsto> File []]"

lemma spa_serves_witness:
  "spa_Handler demo_bundle ''GET'' ''/children/7'' = \<lparr>sr_status = 200, sr_headers = [(''Cache-Control'', cacheNo)],
     sr_body = Served ''index.html'' ''shell''\<rparr> \<and> below_root ''index.html'' \<and> cacheNo = cache_policy ''index.html''"
proof -
  have run: "spa_Handler demo_bundle ''GET'' ''/children/7'' = \<lparr>sr_status = 200, sr_headers = [(''Cache-Control'', cacheNo)],
     sr_body = Served ''index.html'' ''shell''\<rparr>" by code_simp
  from spa_serves [OF this] show ?thesis using run by simp
qed

end
