(* ===== verification/Server.thy ===== *)
theory Server
  imports Api StoreMigrate Health Spa Config
begin

text \<open>
  cmd/adguard-reward/main.go: how the program starts, which part answers a request, and what runs
  in the background. What it finds around it is an argument (\<open>host\<close>): the environment of the
  configuration, SQLite and the texts of the migrations, the AdGuard Home that its URL names, whether
  an address can be listened on, the frontend, SHA-256 and the rendering of cookies. Flags, signals,
  TLS and log lines are left out; the deadline of the first reconcile pass is a call of it that fails.
\<close>

section \<open>Starting\<close>

record 'w host =
  ho_env :: environment
  ho_sqlite :: "tables sqlite"
  ho_scripts :: "string \<Rightarrow> string"
  ho_server :: "'w server"
  ho_listen :: "string \<Rightarrow> bool"
  ho_bundle :: file_system
  ho_sha :: "bytes \<Rightarrow> bytes"
  ho_render :: "cookie \<Rightarrow> string"
  ho_version :: string

text \<open>
  What the process changes: AdGuard Home, the database file, and, as scripts, the clock, the random
  source and the failures of the calls to come.
\<close>

record 'w machine =
  mc_ag :: 'w
  mc_disk :: "tables conn"
  mc_faults :: "bool list"
  mc_now :: time
  mc_ticks :: "time list"
  mc_random :: "bytes option list"

datatype boot_error =
    BadConfig config_error | BadClient url_error | CredentialRejected | NoStore open_error | NoListener string

record 'w running =
  rn_config :: config
  rn_client :: ag_client
  rn_prober :: prober
  rn_deps :: "(store, 'w) deps"
  rn_api :: "(store, 'w) api_state"

text \<open>\<open>defaultConfigPath\<close>, of the path of the executable when it is known.\<close>

definition defaultConfigPath :: "string option \<Rightarrow> string" where
  "defaultConfigPath exe =
     (case exe of None \<Rightarrow> ''config.yaml'' | Some p \<Rightarrow> path_Join (path_Dir p) ''config.yaml'')"

definition secure_cookie :: "config \<Rightarrow> bool" where
  "secure_cookie cfg \<longleftrightarrow> tls_cert (c_tls cfg) \<noteq> [] \<or> HasPrefix (c_base_url cfg) ''https://''"

definition rejected_credential :: "probe_result \<Rightarrow> bool" where
  "rejected_credential r = (case pr_err r of Some (ErrBadCredentials _) \<Rightarrow> True | _ \<Rightarrow> False)"

text \<open>The engine's first pass, whose error is only logged.\<close>

definition first_pass :: "'w host \<Rightarrow> ag_client \<Rightarrow> 'w machine \<Rightarrow> (store, 'w) world" where
  "first_pass h client m =
     snd (Start (sys_engine (ho_server h) client)
            (engine_New \<lparr>db = d_content (k_db (mc_disk m)), faults = mc_faults m\<rparr> (mc_ag m) (mc_now m) (mc_ticks m)))"

definition api_deps :: "'w host \<Rightarrow> ag_client \<Rightarrow> config \<Rightarrow> (store, 'w) deps" where
  "api_deps h client cfg =
     sys_deps (ho_server h) client (TrustedProxyNets (c_trusted cfg)) (secure_cookie cfg) (ho_sha h) (ho_render h)"

text \<open>What the machine is left with when the process gives up after the first pass.\<close>

definition write_back :: "(store, 'w) world \<Rightarrow> 'w machine \<Rightarrow> 'w machine" where
  "write_back w m =
     m\<lparr>mc_ag := w_ag w, mc_disk := (mc_disk m)\<lparr>k_db := (k_db (mc_disk m))\<lparr>d_content := db (w_store w)\<rparr>\<rparr>,
       mc_faults := faults (w_store w), mc_now := w_now w, mc_ticks := w_ticks w\<rparr>"

definition serve_from :: "'w host \<Rightarrow> config \<Rightarrow> ag_client \<Rightarrow> prober \<Rightarrow> 'w machine \<Rightarrow> (boot_error + 'w running) \<times> 'w machine" where
  "serve_from h cfg client prober m =
     (let w = first_pass h client m
      in if \<not> ho_listen h (c_listen cfg) then (Inl (NoListener (c_listen cfg)), write_back w m)
         else (Inr \<lparr>rn_config = cfg, rn_client = client, rn_prober = prober, rn_deps = api_deps h client cfg,
                    rn_api = \<lparr>a_world = w, a_limiter = limiter_New Defaults, a_random = mc_random m\<rparr>\<rparr>, write_back w m))"

definition open_store :: "'w host \<Rightarrow> config \<Rightarrow> ag_client \<Rightarrow> prober \<Rightarrow> 'w machine \<Rightarrow> (boot_error + 'w running) \<times> 'w machine" where
  "open_store h cfg client prober m =
     (case Open (ho_sqlite h) (ho_scripts h) (c_data_dir cfg) (mc_disk m) of
        (Inl e, disk) \<Rightarrow> (Inl (NoStore e), m\<lparr>mc_disk := disk\<rparr>)
      | (Inr _, disk) \<Rightarrow> serve_from h cfg client prober (m\<lparr>mc_disk := disk\<rparr>))"

text \<open>\<open>run\<close>, up to the listener; every error is exit code 1.\<close>

definition boot :: "'w host \<Rightarrow> string \<Rightarrow> bool \<Rightarrow> 'w machine \<Rightarrow> (boot_error + 'w running) \<times> 'w machine" where
  "boot h path explicit m =
     (case Load (ho_env h) path explicit of
        Inl e \<Rightarrow> (Inl (BadConfig e), m)
      | Inr cfg \<Rightarrow>
          (case ag_New (n_url (ho_env h) (ag_url (c_adguard cfg))) (ag_user (c_adguard cfg)) (Reveal (ag_pass (c_adguard cfg))) of
             Inl e \<Rightarrow> (Inl (BadClient e), m)
           | Inr client \<Rightarrow>
               (let (r, prober, ag) = Probe (Status (ho_server h) client) (health_New (ho_version h), mc_ag m);
                    m1 = m\<lparr>mc_ag := ag\<rparr>
                in if rejected_credential r then (Inl CredentialRejected, m1)
                   else open_store h cfg client prober m1)))"

section \<open>Requests\<close>

text \<open>How net/http cleans the path of a request before it looks for a pattern.\<close>

definition mux_path :: "string \<Rightarrow> string" where
  "mux_path p =
     (if p = [] then ''/''
      else let q = (if hd p \<noteq> CHR ''/'' then ''/'' @ p else p); np = path_Clean q
           in if last q = CHR ''/'' \<and> np \<noteq> ''/'' then np @ ''/'' else np)"

datatype reply =
    Redirected string | FromAPI response | FromHealth "nat \<times> health_body" | FromSPA spa_response

text \<open>The longer pattern wins; a path that is not clean, or lacks the slash of a subtree, is redirected.\<close>

definition dispatch :: "'w host \<Rightarrow> string \<Rightarrow> api_request \<Rightarrow> 'w running \<Rightarrow> reply \<times> 'w running" where
  "dispatch h path r s =
     (if mux_path path \<noteq> path then (Redirected (mux_path path), s)
      else if path = ''/api/v1'' then (Redirected ''/api/v1/'', s)
      else if HasPrefix path ''/api/v1/'' then
        (case api_Handler (rn_deps s) (r\<lparr>hr_path := split_on (CHR ''/'') (TrimPrefix path ''/api/v1/'')\<rparr>) (rn_api s) of
           (rp, a) \<Rightarrow> (FromAPI rp, s\<lparr>rn_api := a\<rparr>))
      else if path = ''/healthz'' \<and> (hr_method r = ''GET'' \<or> hr_method r = ''HEAD'')
      then (FromHealth (health_Handler (rn_prober s)), s)
      else (FromSPA (spa_Handler (ho_bundle h) (hr_method r) path), s))"

section \<open>The background\<close>

definition on_api :: "((store, 'w) api_state \<Rightarrow> (store, 'w) api_state) \<Rightarrow> 'w running \<Rightarrow> 'w running" where
  "on_api f s = s\<lparr>rn_api := f (rn_api s)\<rparr>"

text \<open>A tick of \<open>prober.Run\<close>, of \<open>sessions.RunSweeper\<close>, of \<open>eng.Run\<close>, and a grant's timer that fires.\<close>

definition probe_tick :: "'w host \<Rightarrow> 'w running \<Rightarrow> 'w running" where
  "probe_tick h s =
     (let a = rn_api s; w = a_world a; (_, p, ag) = Probe (Status (ho_server h) (rn_client s)) (rn_prober s, w_ag w)
      in s\<lparr>rn_prober := p, rn_api := a\<lparr>a_world := w\<lparr>w_ag := ag\<rparr>\<rparr>\<rparr>)"

definition sweep_tick :: "'w running \<Rightarrow> 'w running" where
  "sweep_tick = on_api (\<lambda>a. let (now, a1) = read_clock a in snd (call_store (ss_DeleteExpired sqlite_sessions now) a1))"

definition reconcile_tick :: "'w host \<Rightarrow> 'w running \<Rightarrow> 'w running" where
  "reconcile_tick h s = on_api (\<lambda>a. snd (on_world (Reconcile (sys_engine (ho_server h) (rn_client s))) a)) s"

definition timer_fires :: "'w host \<Rightarrow> id \<Rightarrow> 'w running \<Rightarrow> 'w running" where
  "timer_fires h i s =
     on_api (\<lambda>a. if w_timers (a_world a) i = None then a
                  else a\<lparr>a_world := expire (sys_engine (ho_server h) (rn_client s)) i (a_world a)\<rparr>) s"

text \<open>The deferred \<open>eng.Close()\<close>, after which a request under way may still finish.\<close>

definition engine_closes :: "'w running \<Rightarrow> 'w running" where
  "engine_closes = on_api (\<lambda>a. a\<lparr>a_world := Close (a_world a)\<rparr>)"

text \<open>What can happen to the running program, the edits somebody else makes in AdGuard Home included.\<close>

datatype 'w event =
  Asked string api_request | ProbeTick | SweepTick | ReconcileTick | Timer id | Closing | Outside 'w

fun happen :: "'w host \<Rightarrow> 'w event \<Rightarrow> 'w running \<Rightarrow> 'w running" where
  "happen h (Asked path r) s = snd (dispatch h path r s)"
| "happen h ProbeTick s = probe_tick h s"
| "happen h SweepTick s = sweep_tick s"
| "happen h ReconcileTick s = reconcile_tick h s"
| "happen h (Timer i) s = timer_fires h i s"
| "happen h Closing s = engine_closes s"
| "happen h (Outside ag) s = on_api (\<lambda>a. a\<lparr>a_world := (a_world a)\<lparr>w_ag := ag\<rparr>\<rparr>) s"

end
