(* ===== verification/ApiSteps.thy ===== *)
theory ApiSteps
  imports ApiReads EngineProps
begin

text \<open>
  Every statement a handler runs on the store outside the engine is a step of the system
  (\<open>sys_step\<close>) that leaves the grants as they are, whether it fails or not.
\<close>

section \<open>Statements that leave the grants alone\<close>

definition plain_step :: "store \<Rightarrow> store \<Rightarrow> bool" where
  "plain_step st st' \<longleftrightarrow> wf_tables (db st) \<longrightarrow> store_step st st' \<and> abs_grants (db st') = abs_grants (db st)"

lemma abs_grants_rows:
  assumes "t_grants t' = t_grants t" "t_grant_services t' = t_grant_services t" "t_grant_clients t' = t_grant_clients t"
  shows "abs_grants t' = abs_grants t"
proof -
  have "view_grant t' = view_grant t"
    using assms by (simp add: fun_eq_iff view_grant_def grant_services_of_def grant_clients_of_def)
  then show ?thesis unfolding abs_grants_def [abs_def] assms(1) by simp
qed

lemma abs_grants_rest: "rest_of t' = rest_of t \<Longrightarrow> abs_grants t' = abs_grants t"
  unfolding rest_of_def by (rule abs_grants_rows; metis tables.select_convs(3-5) tables.surjective tables.update_convs(9))

lemma grants_of_rows:
  assumes "wf_tables (db st)"
  shows "CreateChild now name cs st = (r, st') \<Longrightarrow> abs_grants (db st') = abs_grants (db st)"
    "UpdateChild i name cs st = (r, st') \<Longrightarrow> abs_grants (db st') = abs_grants (db st)"
    "ReplaceButtons bs st = (rb, st') \<Longrightarrow> abs_grants (db st') = abs_grants (db st)"
proof -
  have c: "wf_children (db st)" using assms by (simp add: wf_tables_def)
  note d = normaliseClients_facts(1)
  show "CreateChild now name cs st = (r, st') \<Longrightarrow> abs_grants (db st') = abs_grants (db st)"
    unfolding CreateChild_def
    by (drule tx_run, cases r)
      (auto simp: create_child_tx_eq [OF c d] after_create_def split: if_splits intro!: abs_grants_rows dest!: sym [of _ "db st'"])
  show "UpdateChild i name cs st = (r, st') \<Longrightarrow> abs_grants (db st') = abs_grants (db st)"
    unfolding UpdateChild_def
    by (drule tx_run, cases r)
      (auto simp: update_child_tx_eq [OF c d] after_update_def split: if_splits intro!: abs_grants_rows dest!: sym [of _ "db st'"])
  show "abs_grants (db st') = abs_grants (db st)" if "ReplaceButtons bs st = (rb, st')"
  proof (cases rb)
    case (Inl e)
    with tx_run [OF that [unfolded ReplaceButtons_def]] show ?thesis by simp
  next
    case (Inr out)
    then have tx: "replace_buttons_tx bs (db st) = Inr (out, db st')"
      using tx_run [OF that [unfolded ReplaceButtons_def]] by simp
    from replace_buttons_tx_ok [OF replace_buttons_tx_storable [OF tx]] tx show ?thesis
      by (auto simp: after_replace_def intro: abs_grants_rows)
  qed
qed

lemma plain_ops:
  "plain_step st (snd (ListChildren st))" "plain_step st (snd (GetChild i st))" "plain_step st (snd (ListActiveGrants st))"
  "plain_step st (snd (ListButtons st))" "plain_step st (snd (ListByUser u st))" "plain_step st (snd (ByTokenHash h st))"
  "plain_step st (snd (Insert s st))" "plain_step st (snd (Touch i l e st))" "plain_step st (snd (Delete i st))"
  "plain_step st (snd (DeleteByUser u i st))" "plain_step st (snd (DeleteOthers u i st))"
  "plain_step st (snd (CreateChild now name cs st))" "plain_step st (snd (UpdateChild i name cs st))"
  "plain_step st (snd (DeleteChild i st))" "plain_step st (snd (ReplaceButtons bs st))"
  "plain_step st (snd (DeleteExpired now st))"
proof -
  note rest = session_writes_rest [THEN abs_grants_rest]
  note steps = store_step.intros [OF surjective_pairing]
  have expired: "rest_of (db (snd (DeleteExpired now st))) = rest_of (db st)"
    by (auto simp: DeleteExpired_def delete_sessions_def rest_of_def Let_def intro!: session_stmt_rest [unfolded rest_of_def] split: if_splits)
  show "plain_step st (snd (ListChildren st))" "plain_step st (snd (GetChild i st))" "plain_step st (snd (ListActiveGrants st))"
    "plain_step st (snd (ListButtons st))"
    using steps(1,2,8,13) by (auto simp: plain_step_def store_reads_db)
  show "plain_step st (snd (ListByUser u st))" "plain_step st (snd (ByTokenHash h st))"
    "plain_step st (snd (Insert s st))" "plain_step st (snd (Touch i l e st))" "plain_step st (snd (Delete i st))"
    "plain_step st (snd (DeleteByUser u i st))" "plain_step st (snd (DeleteOthers u i st))"
    using steps(15-21) by (auto simp: plain_step_def rest)
  show "plain_step st (snd (DeleteExpired now st))"
    using steps(22) abs_grants_rest [OF expired] by (auto simp: plain_step_def)
  show "plain_step st (snd (CreateChild now name cs st))" "plain_step st (snd (UpdateChild i name cs st))"
    "plain_step st (snd (DeleteChild i st))" "plain_step st (snd (ReplaceButtons bs st))"
    using steps(3,4,5,14) grants_of_rows [OF _ surjective_pairing] DeleteChild_out [OF _ surjective_pairing]
    by (auto simp: plain_step_def)
qed

end
