(* ===== verification/ApiSystem.thy ===== *)
theory ApiSystem
  imports ApiSteps ApiMigrate
begin

text \<open>
  Every request and the ledger: what the parents want blocked on each device is a function of the requests, and
  whatever the handlers do, and whichever of their calls fail, the ledger of those wishes is held. Requests leave
  every device where it is, but for a rename.
\<close>

section \<open>The wishes after a request\<close>

text \<open>The rename a request asks for.\<close>

definition asks_rename :: "api_request \<Rightarrow> (string \<times> string) option" where
  "asks_rename r =
     (if hr_method r = ''POST'' \<and> hr_path r = [''clients'', ''rename'']
      then case decodeRename r of Inl _ \<Rightarrow> None | Inr names \<Rightarrow> Some names else None)"

text \<open>
  The wishes after a request that took the world from \<open>w\<close> to \<open>w'\<close> and was answered with 200 or not. A
  device that was there keeps its own; a new one has those of the device the request renamed, less, if the answer is an
  error, what an active grant held open there; else the device was created, and its first list is its wishes.
\<close>

definition request_wishes ::
  "('w \<Rightarrow> obj list) \<Rightarrow> ('w \<Rightarrow> string list) \<Rightarrow> api_request \<Rightarrow> bool \<Rightarrow> (store, 'w) world \<Rightarrow> (store, 'w) world \<Rightarrow>
     (string \<Rightarrow> string set) \<Rightarrow> string \<Rightarrow> string set" where
  "request_wishes cls glob r ok w w' base n =
     (if ag_view (cls (w_ag w)) n \<noteq> None \<or> ag_view (cls (w_ag w')) n = None then base n
      else case asks_rename r of
             Some (old, new) \<Rightarrow> base old - (if ok then {} else covered (grants_of w) old)
           | None \<Rightarrow> blocked_on (set (glob (w_ag w'))) (ag_view (cls (w_ag w'))) n)"

text \<open>A device only leaves its name for another one, on request, with its list.\<close>

definition devices_follow :: "(string \<times> string) option \<Rightarrow> lists \<Rightarrow> lists \<Rightarrow> bool" where
  "devices_follow rename v v' \<longleftrightarrow>
     (\<forall>n x. v n = Some x \<longrightarrow> v' n \<noteq> None \<or> (\<exists>new. rename = Some (n, new) \<and> v new = None \<and> v' new = Some x))"

lemma ledger_cong: "(\<And>n. v n \<noteq> None \<Longrightarrow> base n = base' n) \<Longrightarrow> ledger base gl v gr = ledger base' gl v gr"
  by (auto simp: ledger_def)

lemma holds_ledger_cong:
  "(\<And>n. ag_view (cls (w_ag w)) n \<noteq> None \<Longrightarrow> base n = base' n) \<Longrightarrow>
     holds_ledger good cls glob base w = holds_ledger good cls glob base' w"
  using ledger_cong [of "ag_view (cls (w_ag w))" base base'] by (simp add: holds_ledger_def)

text \<open>Nothing appeared, nothing vanished.\<close>

lemma wishes_kept:
  assumes "held_on good cls glob base (ag_view (cls (w_ag w))) w'"
  shows "holds_ledger good cls glob (request_wishes cls glob r ok w w' base) w' \<and>
    devices_follow (asks_rename r) (ag_view (cls (w_ag w))) (ag_view (cls (w_ag w')))"
proof -
  have same: "ag_view (cls (w_ag w')) n = None \<longleftrightarrow> ag_view (cls (w_ag w)) n = None" for n
    using assms by (simp add: held_on_def same_devices_def)
  then have "request_wishes cls glob r ok w w' base = base" by (auto simp: request_wishes_def fun_eq_iff)
  moreover have "devices_follow (asks_rename r) (ag_view (cls (w_ag w))) (ag_view (cls (w_ag w')))"
    using same by (auto simp: devices_follow_def)
  ultimately show ?thesis using assms by (simp add: held_on_def)
qed

section \<open>Steps on the world\<close>

lemma held_ok: "held_on good cls glob base v w \<Longrightarrow> wf_tables (db (w_store w)) \<and> good (w_ag w)"
  by (simp add: held_on_def holds_ledger_def sys_ok_def)

lemma held_store: "held_on good cls glob base v w \<Longrightarrow> plain_step (w_store w) s \<Longrightarrow> held_on good cls glob base v (w\<lparr>w_store := s\<rparr>)"
  by (auto simp: held_on_def holds_ledger_def sys_ok_def plain_step_def dest: store_step_wf)

lemma held_stores: "plain_step\<^sup>*\<^sup>* s s' \<Longrightarrow> held_on good cls glob base v (w\<lparr>w_store := s\<rparr>) \<Longrightarrow> held_on good cls glob base v (w\<lparr>w_store := s'\<rparr>)"
proof (induction rule: rtranclp_induct)
  case (step s1 s2)
  with held_store [of good cls glob base v "w\<lparr>w_store := s1\<rparr>" s2] show ?case by simp
qed

lemma held_clock: "held_on good cls glob base v w \<Longrightarrow> held_on good cls glob base v (snd (clock w))"
  by (simp add: held_on_def holds_ledger_def sys_ok_def clock_def split: list.split)

lemma held_call_store: "held_on good cls glob base v (a_world a) \<Longrightarrow> plain_step (w_store (a_world a)) (snd (f (w_store (a_world a)))) \<Longrightarrow>
    held_on good cls glob base v (a_world (snd (call_store f a)))"
  using held_store by (simp add: call_store_def run_store_def case_prod_beta)

context ag_server
begin

abbreviation held where "held \<equiv> held_on good cls glob"

lemma held_ag: "held base v w \<Longrightarrow> same_view (w_ag w) a \<Longrightarrow> held base v (w\<lparr>w_ag := a\<rparr>)"
  by (simp add: held_on_def holds_ledger_def sys_ok_def same_view_def)

lemma held_call_ag: "held base v (a_world a) \<Longrightarrow> same_view (w_ag (a_world a)) (snd (f (w_ag (a_world a)))) \<Longrightarrow>
    held base v (a_world (snd (call_ag f a)))"
  using held_ag by (simp add: call_ag_def run_ag_def case_prod_beta)

lemma held_engine:
  assumes "held base v w"
  shows "held base v (snd (Create (sys_engine srv c) i ss cs dur w))" "held base v (snd (Extend (sys_engine srv c) i dur w))"
    "held base v (snd (End (sys_engine srv c) i w))" "held base v (snd (AdoptClients (sys_engine srv c) i sib added w))"
    "held base v (snd (Reconcile (sys_engine srv c) w))" "held base v (expire (sys_engine srv c) i w)" "held base v (Close w)"
  by (rule step_keeps [OF ag_server_axioms assms] step_adopt [OF ag_server_axioms assms]; (rule surjective_pairing)?)+

end

section \<open>The session gate and a session issued\<close>

lemma session_gate_plain:
  assumes "m_store m = sqlite_sessions"
  shows "plain_step\<^sup>*\<^sup>* st (snd (session_gate d m now ck st))"
proof (cases ck)
  case None
  then show ?thesis by (simp add: session_gate_def RequireSession_def)
next
  case (Some raw)
  have "plain_step\<^sup>*\<^sup>* st (snd (Authenticate (d_sha d) m now raw st))"
  proof (cases "hashToken (d_sha d) raw")
    case None
    then show ?thesis by (simp add: Authenticate_def)
  next
    case (Some h)
    obtain r st1 where look: "ByTokenHash h st = (r, st1)" by fastforce
    have 1: "plain_step st st1" using plain_ops(6) [of st h] look by simp
    show ?thesis
    proof (cases r)
      case (Inl e)
      with Some look assms 1 show ?thesis by (simp add: Authenticate_def sqlite_sessions_def)
    next
      case (Inr s)
      have "snd (Authenticate (d_sha d) m now raw st) =
          (if \<not> expires_at s > now then snd (Delete (sess_id s) st1) else snd (Touch (sess_id s) now (now + m_lifetime m) st1))"
        using Some look Inr assms
        by (cases "Delete (sess_id s) st1"; cases "Touch (sess_id s) now (now + m_lifetime m) st1";
            cases "fst (Delete (sess_id s) st1)"; cases "fst (Touch (sess_id s) now (now + m_lifetime m) st1)")
          (simp_all add: Authenticate_def sqlite_sessions_def)
      then have "plain_step st1 (snd (Authenticate (d_sha d) m now raw st))"
        using plain_ops(9) [of st1 "sess_id s"] plain_ops(8) [of st1 "sess_id s" now "now + m_lifetime m"] by simp
      with r_into_rtranclp [of plain_step, OF 1] show ?thesis by (rule rtranclp.rtrancl_into_rtrancl)
    qed
  qed
  moreover have "snd (session_gate d m now ck st) = snd (Authenticate (d_sha d) m now raw st)"
    using Some by (auto simp: session_gate_def RequireSession_def split: prod.split sum.split)
  ultimately show ?thesis by simp
qed

lemma Issue_plain: "plain_step\<^sup>*\<^sup>* st (snd (Issue sh (New sqlite_sessions secure lifetime) rnd now u st))"
proof (cases "newToken sh rnd")
  case None
  then show ?thesis by (simp add: Issue_def)
next
  case (Some x)
  let ?s = "\<lparr>sess_id = 0, sess_username = u, token_hash = snd x, created_at = now, last_seen_at = now,
    expires_at = now + m_lifetime (New sqlite_sessions secure lifetime)\<rparr>"
  have "snd (Issue sh (New sqlite_sessions secure lifetime) rnd now u st) = snd (Insert ?s st)"
    using Some by (cases x; cases "Insert ?s st"; cases "fst (Insert ?s st)") (simp_all add: Issue_def New_def sqlite_sessions_def)
  with r_into_rtranclp [of plain_step, OF plain_ops(7)] show ?thesis by simp
qed

section \<open>Requests that move no device\<close>

lemma read_invariant_conj:
  assumes P: "read_invariant d P" and Q: "read_invariant d Q"
  shows "read_invariant d (\<lambda>a. P a \<and> Q a)"
proof -
  note p = read_invariant.clock_read [OF P] read_invariant.gate [OF P] read_invariant.list_children [OF P] read_invariant.get_child [OF P]
    read_invariant.list_buttons [OF P] read_invariant.list_sessions [OF P] read_invariant.grants_listed [OF P] read_invariant.read_clients [OF P]
    read_invariant.read_services [OF P] read_invariant.read_leases [OF P]
  note q = read_invariant.clock_read [OF Q] read_invariant.gate [OF Q] read_invariant.list_children [OF Q] read_invariant.get_child [OF Q]
    read_invariant.list_buttons [OF Q] read_invariant.list_sessions [OF Q] read_invariant.grants_listed [OF Q] read_invariant.read_clients [OF Q]
    read_invariant.read_services [OF Q] read_invariant.read_leases [OF Q]
  show ?thesis by (rule read_invariant.intro) (auto intro: p q)
qed

context ag_server
begin

lemma list_grants_held:
  "held base v (a_world a) \<Longrightarrow> held base v (a_world (snd (list_grants (sys_deps srv c trusted secure sha render) a)))"
  using held_call_store [of good cls glob base v a ListActiveGrants] plain_ops(3)
  by (simp add: list_grants_def engine_List_def [abs_def] sys_engine_def call_store_def)

end

sublocale ag_server \<subseteq> steps: write_invariant "sys_deps srv c trusted secure sha render" "\<lambda>a. held base v (a_world a)"
  for trusted secure sha render base v
proof
  fix a :: "(store, 'w) api_state" assume a: "held base v (a_world a)"
  then have good: "good (w_ag (a_world a))" using held_ok by blast
  show "held base v (a_world (snd (read_clock a)))" using held_clock [OF a] by simp
  show "d_auth (sys_deps srv c trusted secure sha render) = Some m \<Longrightarrow>
      held base v (a_world (snd (call_store (session_gate (sys_deps srv c trusted secure sha render) m now ck) a)))" for m now ck
  proof -
    assume "d_auth (sys_deps srv c trusted secure sha render) = Some m"
    then have m: "m_store m = sqlite_sessions" by (auto simp: New_def)
    have "held base v ((a_world a)\<lparr>w_store := snd (session_gate (sys_deps srv c trusted secure sha render) m now ck (w_store (a_world a)))\<rparr>)"
      by (rule held_stores [OF session_gate_plain [OF m]]) (use a in simp)
    then show ?thesis by (simp add: call_store_def run_store_def case_prod_beta)
  qed
  show "held base v (a_world (snd (list_grants (sys_deps srv c trusted secure sha render) a)))" using a by (rule list_grants_held)
qed (auto simp: sqlite_children_def sqlite_buttons_def sqlite_sessions_def api_client_def
  intro!: held_call_store held_call_ag plain_ops same_reads held_engine dest: held_ok)

sublocale ag_server \<subseteq> logins: login_invariant "sys_deps srv c trusted secure sha render" "\<lambda>a. held base v (a_world a)"
  for trusted secure sha render base v
proof
  fix a :: "(store, 'w) api_state" assume a: "held base v (a_world a)"
  show "held base v (a_world (snd (limiter_Check ip a)))" "held base v (a_world (limiter_Fail ip a))" for ip
    using held_clock [OF a] by simp_all
  show "held base v (a_world (snd (call_ag (aa_Login (d_adguard (sys_deps srv c trusted secure sha render)) user pass) a)))" for user pass
    using same_reads(5) [of "w_ag (a_world a)" user pass] held_ok [OF a] by (auto simp: api_client_def intro!: held_call_ag [OF a])
  show "held base v (a_world (snd (issue_session (sys_deps srv c trusted secure sha render) m u a)))"
    if "d_auth (sys_deps srv c trusted secure sha render) = Some m" for m u
  proof -
    let ?w = "snd (clock (a_world a))"
    let ?issue = "Issue sha m (fst (draw_random a)) (fst (clock (a_world a))) u"
    have "?w\<lparr>w_store := w_store ?w\<rparr> = ?w" by (rule world.equality) simp_all
    with held_clock [OF a] have "held base v (?w\<lparr>w_store := w_store ?w\<rparr>)" by (simp only:)
    moreover have "plain_step\<^sup>*\<^sup>* (w_store ?w) (snd (?issue (w_store ?w)))" using that Issue_plain by auto
    ultimately have "held base v (?w\<lparr>w_store := snd (?issue (w_store ?w))\<rparr>)" by (rule held_stores [rotated])
    then show ?thesis by (simp add: issue_world run_store_def case_prod_beta)
  qed
qed

section \<open>Requests that move devices\<close>

context read_invariant
begin

lemma create_split:
  assumes "P a" "handleClientCreate d r s a = (ot, a')"
  obtains (reads) "P a'"
    | (creates) a1 name ids ch res where "P a1" "CreateClient (d_grants d) name ids ch (a_world a1) = (res, a_world a')"
  using assms(2) unfolding handleClientCreate_def
proof (cases rule: checked_cases)
  case failed
  with assms(1) reads show ?thesis by simp
next
  case (went_on x)
  obtain name ids ch where x: "x = (name, ids, ch)" by (metis prod_cases3)
  from went_on(2) [unfolded x prod.case] show ?thesis
  proof (cases rule: attempt_cases)
    case (failed e)
    with find_child_keeps [OF assms(1), of ch] reads show ?thesis by simp
  next
    case (went_on child a1)
    have a1: "P a1" using find_child_keeps [OF assms(1), of ch] went_on(1) by simp
    from went_on(2) show ?thesis
    proof (cases rule: attempt_cases)
      case (failed e)
      with list_children [OF a1] reads show ?thesis by simp
    next
      case (went_on children a2)
      have a2: "P a2" using list_children [OF a1] went_on(1) by simp
      show ?thesis
      proof (cases "find (\<lambda>ref. case child of None \<Rightarrow> True | Some c \<Rightarrow> ref_id ref \<noteq> ref_id c) (ownerIndex children name)")
        case (Some ref)
        with went_on(2) a2 reads show ?thesis by simp
      next
        case None
        with went_on(2) have "attempt (on_world (CreateClient (d_grants d) name ids ch)) (writeCreateClientError name) (\<lambda>_.
          finish (api_writeJSON 201 (PClient \<lparr>clv_name = name, clv_ids = ids, clv_global = (child = None),
             clv_children = (case child of None \<Rightarrow> [] | Some c \<Rightarrow> [c])\<rparr>))) a2 = (ot, a')" by simp
        then show ?thesis
          by (cases rule: attempt_cases) (auto intro: creates [OF a2] dest: on_worldD)
      qed
    qed
  qed
qed

end

lemma renamedView_status: "o_status (fst (renamedView d n a)) = 200"
  by (simp add: renamedView_def tolerate_def Let_def split: prod.split sum.split)

lemma writeRenameError_status: "o_status (writeRenameError old new e) \<noteq> 200"
  by (simp add: writeRenameError_def split: option.split ag_error.split store_error.split)

lemma rename_split:
  assumes "handleClientRename d r s a = (ot, a')"
  obtains (refused) out where "decodeRename r = Inl out" "a' = a"
    | (failed) old new e where "decodeRename r = Inr (old, new)" "o_status ot \<noteq> 200"
        "engine_RenameClient (d_grants d) old new (a_world a) = (Inl e, a_world a')"
    | (renamed) old new u a1 where "decodeRename r = Inr (old, new)" "o_status ot = 200"
        "engine_RenameClient (d_grants d) old new (a_world a) = (Inr u, a_world a1)" "renamedView d new a1 = (ot, a')"
  using assms unfolding handleClientRename_def
proof (cases rule: checked_cases)
  case failed
  with refused show ?thesis by simp
next
  case (went_on x)
  obtain old new where x: "x = (old, new)" by fastforce
  from went_on(2) [unfolded x prod.case] show ?thesis
  proof (cases rule: attempt_cases)
    case (failed e)
    with went_on(1) x on_worldD [OF failed(1)] writeRenameError_status show ?thesis by (auto intro: that(2))
  next
    case (went_on u a1)
    moreover from this have "o_status ot = 200" using renamedView_status [of d new a1] by simp
    ultimately show ?thesis using \<open>decodeRename r = Inr x\<close> x on_worldD [OF went_on(1)] by (auto intro: that(3))
  qed
qed

context ag_server
begin

text \<open>What a handler finds behind the session gate, and what reading leaves as it was.\<close>

abbreviation found where
  "found a0 base v a \<equiv> untouched good cls glob a0 a \<and> held base v (a_world a)"

lemma found_reads: "read_invariant (sys_deps srv c trusted secure sha render) (found a0 base v)"
  by (rule read_invariant_conj [OF reads_untouched steps.read_invariant_axioms])

lemma untouched_views:
  "untouched good cls glob a0 a \<Longrightarrow> ag_view (cls (w_ag (a_world a))) = ag_view (cls (w_ag (a_world a0))) \<and>
     glob (w_ag (a_world a)) = glob (w_ag (a_world a0)) \<and> grants_of (a_world a) = grants_of (a_world a0)"
  using abs_grants_rest [of "db (w_store (a_world a))" "db (w_store (a_world a0))"] by (simp add: untouched_def same_house_def)

lemma create_wishes:
  assumes f: "found a base (ag_view (cls (w_ag (a_world a)))) a1" and no: "asks_rename r = None"
    and run: "CreateClient (sys_engine srv c) name ids ch (a_world a1) = (res, w')"
  shows "holds_ledger good cls glob (request_wishes cls glob r ok (a_world a) w' base) w' \<and>
    devices_follow (asks_rename r) (ag_view (cls (w_ag (a_world a)))) (ag_view (cls (w_ag w')))"
proof -
  let ?v = "ag_view (cls (w_ag (a_world a)))" and ?v' = "ag_view (cls (w_ag w'))"
  note v = untouched_views [OF conjunct1 [OF f]] and env = on_sys
  have h: "holds_ledger good cls glob base (a_world a1)" using f by (simp add: held_on_def)
  then have ok: "sys_ok good (a_world a1)" by (simp add: holds_ledger_def)
  note out = engine_env.create_client_outcome [OF env, unfolded env_ok [OF env], OF ok run [unfolded sys_engine_def]]
  note led = step_create_client [OF ag_server_axioms h run]
  from out v consider (same) "?v' = ?v" | (new) x where "?v name = None" "?v' = ?v(name \<mapsto> x)" by (cases ch) auto
  then show ?thesis
  proof cases
    case same
    with led v wishes_kept [of good cls glob base "a_world a" w' r] show ?thesis by (simp add: held_on_def same_devices_def)
  next
    case (new x)
    then have "?v' \<noteq> ?v" by (metis fun_upd_same option.distinct(1))
    with led v have "holds_ledger good cls glob (base(name := blocked_on (set (glob (w_ag w'))) ?v' name)) w'" by simp
    moreover have "(base(name := blocked_on (set (glob (w_ag w'))) ?v' name)) n = request_wishes cls glob r ok (a_world a) w' base n"
      if "?v' n \<noteq> None" for n
      using that new no by (cases "n = name") (simp_all add: request_wishes_def)
    ultimately have "holds_ledger good cls glob (request_wishes cls glob r ok (a_world a) w' base) w'"
      using holds_ledger_cong [of cls w' "base(name := blocked_on (set (glob (w_ag w'))) ?v' name)"] by blast
    moreover have "devices_follow (asks_rename r) ?v ?v'" using new by (auto simp: devices_follow_def)
    ultimately show ?thesis by blast
  qed
qed

lemma rename_wishes:
  assumes f: "found a base (ag_view (cls (w_ag (a_world a)))) a1" and asks: "asks_rename r = Some (old, new)"
    and run: "engine_RenameClient (sys_engine srv c) old new (a_world a1) = (res, w')" and ok: "ok \<longleftrightarrow> is_ok res"
  shows "holds_ledger good cls glob (request_wishes cls glob r ok (a_world a) w' base) w' \<and>
    devices_follow (asks_rename r) (ag_view (cls (w_ag (a_world a)))) (ag_view (cls (w_ag w')))"
proof -
  let ?v = "ag_view (cls (w_ag (a_world a)))" and ?v' = "ag_view (cls (w_ag w'))" and ?gr = "grants_of (a_world a)"
  note v = untouched_views [OF conjunct1 [OF f]] and env = on_sys
  have h: "holds_ledger good cls glob base (a_world a1)" using f by (simp add: held_on_def)
  then have ok1: "sys_ok good (a_world a1)" by (simp add: holds_ledger_def)
  note led = step_rename [OF ag_server_axioms h run]
  consider (same) "?v' = ?v" | (moved) "lists_moved old new ?v ?v'"
  proof (cases "old = new")
    case True
    with run have "w' = a_world a1" by (simp add: engine_RenameClient_def)
    with v same show ?thesis by simp
  next
    case False
    from engine_env.rename_outcome [OF env, unfolded env_ok [OF env], OF ok1 run [unfolded sys_engine_def] False] v that
    show ?thesis by auto
  qed
  then show ?thesis
  proof cases
    case same
    with led v wishes_kept [of good cls glob base "a_world a" w' r] show ?thesis by (simp add: held_on_def same_devices_def)
  next
    case moved
    then obtain x where x: "?v old = Some x" "?v new = None" "?v' = ?v(old := None, new \<mapsto> x)" by (auto simp: lists_moved_def)
    then have "?v' \<noteq> ?v" by (metis fun_upd_same option.distinct(1))
    with led v ok have "holds_ledger good cls glob (renamed_wishes old new ok ?gr base) w'" by simp
    moreover have "renamed_wishes old new ok ?gr base n = request_wishes cls glob r ok (a_world a) w' base n" if "?v' n \<noteq> None" for n
      using that x asks by (cases "n = new") (auto simp: request_wishes_def renamed_wishes_def split: if_splits)
    ultimately have "holds_ledger good cls glob (request_wishes cls glob r ok (a_world a) w' base) w'"
      using holds_ledger_cong [of cls w' "renamed_wishes old new ok ?gr base"] by blast
    moreover have "devices_follow (asks_rename r) ?v ?v'" using x asks by (auto simp: devices_follow_def)
    ultimately show ?thesis by blast
  qed
qed

lemma migration_wishes:
  assumes f: "found a base (ag_view (cls (w_ag (a_world a)))) a1"
    and run: "handleMigrationApply (sys_deps srv c trusted secure sha render) r s a1 = (ot, a')"
  shows "held base (ag_view (cls (w_ag (a_world a)))) (a_world a')"
proof -
  let ?v = "ag_view (cls (w_ag (a_world a)))" and ?v' = "ag_view (cls (w_ag (a_world a')))" and ?G = "set (glob (w_ag (a_world a1)))"
  note v = untouched_views [OF conjunct1 [OF f]]
  have h: "ledger base ?G ?v (grants_of (a_world a1))" "wf_tables (db (w_store (a_world a1)))" "good (w_ag (a_world a1))"
    using f v by (simp_all add: held_on_def holds_ledger_def sys_ok_def)
  note out = handleMigrationApply_view [OF h(3,2) run, unfolded view_def]
  have step: "?v' n = ?v n \<or> (\<exists>b. ?v n = Some (True, b) \<and> ?v' n = Some (False, b \<union> ?G))" for n
    using out v by (auto simp: all_migrated_def migrated_def)
  have "base n \<subseteq> (if i then ?G else b \<union> covered (grants_of (a_world a1)) n)" if V: "?v' n = Some (i, b)" for n i b
    using step [of n]
  proof
    assume "?v' n = ?v n"
    with V h(1) show ?thesis by (simp add: ledger_def)
  next
    assume "\<exists>b. ?v n = Some (True, b) \<and> ?v' n = Some (False, b \<union> ?G)"
    then obtain b0 where b0: "?v n = Some (True, b0)" "?v' n = Some (False, b0 \<union> ?G)" by blast
    have "base n \<subseteq> ?G" using h(1) [unfolded ledger_def, rule_format, OF b0(1)] by simp
    with b0(2) V show ?thesis by auto
  qed
  then have "ledger base ?G ?v' (grants_of (a_world a1))" by (simp add: ledger_def)
  moreover have "same_devices ?v ?v'" using step unfolding same_devices_def by (metis option.distinct(1))
  ultimately show ?thesis using out h by (simp add: held_on_def holds_ledger_def sys_ok_def)
qed

section \<open>Every request\<close>

lemma gated_wishes:
  assumes f: "found a base (ag_view (cls (w_ag (a_world a)))) a1"
    and h: "gated_route (sys_deps srv c trusted secure sha render) (hr_method r) (hr_path r) = Some h" and run: "h r s a1 = (ot, a')"
  shows "holds_ledger good cls glob (request_wishes cls glob r (o_status ot = 200) (a_world a) (a_world a') base) (a_world a') \<and>
    devices_follow (asks_rename r) (ag_view (cls (w_ag (a_world a)))) (ag_view (cls (w_ag (a_world a'))))"
proof -
  let ?d = "sys_deps srv c trusted secure sha render" and ?v = "ag_view (cls (w_ag (a_world a)))"
  have kept: ?thesis if "held base ?v (a_world a')" using wishes_kept [OF that] .
  show ?thesis
  proof (cases "moves_devices (hr_method r) (hr_path r)")
    case False
    have "held base ?v (a_world (snd (h r s a1)))" by (rule steps.gated_route_keeps [OF h False]) (use f in simp)
    with run kept show ?thesis by simp
  next
    case True
    then consider (new) "hr_path r = [''clients'']" "h = handleClientCreate ?d" | (rename) "hr_method r = ''POST''"
        "hr_path r = [''clients'', ''rename'']" "h = handleClientRename ?d"
      | (migration) "h = handleMigrationApply ?d"
      using h by (auto simp: moves_devices_def gated_route_def post_route_def)
    then show ?thesis
    proof cases
      case new
      have no: "asks_rename r = None" using new(1) by (simp add: asks_rename_def)
      from read_invariant.create_split [OF found_reads [of trusted secure sha render a base ?v] f run [unfolded new(2)]]
      consider (reads) "found a base ?v a'" | (creates) a2 name ids ch res where "found a base ?v a2"
        "CreateClient (d_grants ?d) name ids ch (a_world a2) = (res, a_world a')" by blast
      then show ?thesis
      proof cases
        case reads
        with kept show ?thesis by blast
      next
        case (creates a2 name ids ch res)
        from create_wishes [OF creates(1) no, of name ids ch res "a_world a'"] creates(2) show ?thesis by simp
      qed
    next
      case rename
      from run [unfolded rename(3)] show ?thesis
      proof (cases rule: rename_split)
        case refused
        with f kept show ?thesis by simp
      next
        case (failed old new e)
        then have "asks_rename r = Some (old, new)" using rename by (simp add: asks_rename_def)
        from rename_wishes [OF f this, of "Inl e" "a_world a'" "o_status ot = 200"] failed(2,3) show ?thesis by simp
      next
        case (renamed old new u a2)
        then have asks: "asks_rename r = Some (old, new)" using rename by (simp add: asks_rename_def)
        let ?base = "request_wishes cls glob r True (a_world a) (a_world a2) base"
        from rename_wishes [OF f asks, of "Inr u" "a_world a2" True] renamed(3)
        have w: "holds_ledger good cls glob ?base (a_world a2)" "devices_follow (asks_rename r) ?v (ag_view (cls (w_ag (a_world a2))))"
          by simp_all
        then have "good (w_ag (a_world a2))" by (simp add: holds_ledger_def sys_ok_def)
        then have "found a2 ?base (ag_view (cls (w_ag (a_world a2)))) a2"
          using w(1) held_refl untouched_refl by blast
        from read_invariant.renamedView_keeps [OF found_reads [of trusted secure sha render a2 ?base "ag_view (cls (w_ag (a_world a2)))"] this, of new] renamed(4)
        have "untouched good cls glob a2 a'" "holds_ledger good cls glob ?base (a_world a')" by (simp_all add: held_on_def)
        moreover have "?base = request_wishes cls glob r True (a_world a) (a_world a') base"
          using untouched_views [OF \<open>untouched good cls glob a2 a'\<close>] asks by (simp add: request_wishes_def fun_eq_iff)
        ultimately show ?thesis using untouched_views [of a2 a'] w(2) renamed(2) by simp
      qed
    next
      case migration
      show ?thesis by (rule kept [OF migration_wishes [OF f run [unfolded migration]]])
    qed
  qed
qed

lemma Handler_wishes:
  assumes h: "holds_ledger good cls glob base (a_world a)" and run: "api_Handler (sys_deps srv c trusted secure sha render) r a = (rp, a')"
  shows "holds_ledger good cls glob (request_wishes cls glob r (rp_status rp = 200) (a_world a) (a_world a') base) (a_world a') \<and>
    devices_follow (asks_rename r) (ag_view (cls (w_ag (a_world a)))) (ag_view (cls (w_ag (a_world a'))))"
proof -
  let ?d = "sys_deps srv c trusted secure sha render" and ?v = "ag_view (cls (w_ag (a_world a)))"
  have held: "held base ?v (a_world a)" using held_refl [OF h] .
  then have found: "found a base ?v a" using held_ok untouched_refl by blast
  have kept: ?thesis if "held base ?v (a_world a')" using wishes_kept [OF that] .
  show ?thesis
  proof (cases "csrf_ok r")
    case False
    with run held kept show ?thesis by (simp add: api_Handler_def)
  next
    case csrf: True
    show ?thesis
    proof (cases "hr_method r = ''POST'' \<and> hr_path r = [''login'']")
      case True
      have "held base ?v (a_world (snd (api_handleLogin ?d r a)))" by (rule logins.login_keeps [OF held])
      with True csrf run kept show ?thesis by (simp add: api_Handler_def api_mux_def routes_def case_prod_beta)
    next
      case False
      define h where "h = (case gated_route ?d (hr_method r) (hr_path r) of Some h \<Rightarrow> h | None \<Rightarrow> not_found)"
      have "requireSession ?d h r a = (rp, a')"
        using run csrf False by (simp add: api_Handler_def api_mux_def routes_def h_def split: option.splits)
      from read_invariant.requireSession_split [OF found_reads [of trusted secure sha render a base ?v] found this]
      consider (refused) "found a base ?v a'" | (served) s a2 where "found a base ?v a2" "h r s a2 = (fst (h r s a2), a')"
        "rp_status rp = o_status (fst (h r s a2))" by blast
      then show ?thesis
      proof cases
        case refused
        with kept show ?thesis by blast
      next
        case (served s a2)
        show ?thesis
        proof (cases "gated_route ?d (hr_method r) (hr_path r)")
          case None
          with served kept show ?thesis by (simp add: h_def not_found_def)
        next
          case (Some h')
          with gated_wishes [OF served(1), of trusted secure sha render r h' s "fst (h r s a2)" a'] served(2,3)
          show ?thesis by (simp add: h_def)
        qed
      qed
    qed
  qed
qed

end

end
