(* ===== verification/ServerProps.thy ===== *)
theory ServerProps
  imports Server ApiSystem StoreOpen ApiDemo
begin

text \<open>
  The properties of the whole program: what a start has done before the first request is served,
  and that nothing that happens afterwards forgets what the parents want blocked.
\<close>

section \<open>One event\<close>

abbreviation world_of :: "'w running \<Rightarrow> (store, 'w) world" where "world_of s \<equiv> a_world (rn_api s)"

definition wired :: "'w host \<Rightarrow> ag_client \<Rightarrow> 'w running \<Rightarrow> bool" where
  "wired h client s \<longleftrightarrow> rn_client s = client \<and> (\<exists>cfg. rn_deps s = api_deps h client cfg)"

lemma happen_wired: "wired h client s \<Longrightarrow> wired h client (happen h e s)"
  by (cases e) (auto simp: wired_def dispatch_def probe_tick_def sweep_tick_def reconcile_tick_def timer_fires_def
    engine_closes_def on_api_def Let_def split: prod.split)

text \<open>A request under \<open>/api/v1/\<close> as the API sees it, and the rename an event asks for.\<close>

definition at_api :: "string \<Rightarrow> api_request \<Rightarrow> api_request" where
  "at_api path r = r\<lparr>hr_path := split_on (CHR ''/'') (TrimPrefix path ''/api/v1/'')\<rparr>"

fun renames :: "'w event \<Rightarrow> (string \<times> string) option" where
  "renames (Asked path r) = asks_rename (at_api path r)"
| "renames _ = None"

text \<open>
  What is wanted of each device after an event. A request changes it as \<open>request_wishes\<close> says, an edit somebody
  makes in AdGuard Home is that person's wish, and whatever the program does by itself changes nothing.
\<close>

fun wishes ::
  "'w host \<Rightarrow> ('w \<Rightarrow> obj list) \<Rightarrow> ('w \<Rightarrow> string list) \<Rightarrow> 'w event \<Rightarrow> 'w running \<Rightarrow>
     (string \<Rightarrow> string set) \<Rightarrow> string \<Rightarrow> string set" where
  "wishes h cls glob (Asked path r) s base =
     (case dispatch h path r s of
        (FromAPI rp, s') \<Rightarrow> request_wishes cls glob (at_api path r) (rp_status rp = 200) (world_of s) (world_of s') base
      | _ \<Rightarrow> base)"
| "wishes h cls glob (Outside ag) s base =
     (let w = world_of s
      in wanted base (set (glob (w_ag w))) (ag_view (cls (w_ag w))) (set (glob ag)) (ag_view (cls ag)) (grants_of w))"
| "wishes h cls glob _ s base = base"

fun run_wishes ::
  "'w host \<Rightarrow> ('w \<Rightarrow> obj list) \<Rightarrow> ('w \<Rightarrow> string list) \<Rightarrow> 'w event list \<Rightarrow> 'w running \<Rightarrow>
     (string \<Rightarrow> string set) \<Rightarrow> string \<Rightarrow> string set" where
  "run_wishes h cls glob [] s base = base"
| "run_wishes h cls glob (e # evs) s base = run_wishes h cls glob evs (happen h e s) (wishes h cls glob e s base)"

text \<open>What an event does to the devices; an edit of somebody else may do anything.\<close>

definition event_follows :: "('w \<Rightarrow> obj list) \<Rightarrow> 'w event \<Rightarrow> 'w running \<Rightarrow> 'w running \<Rightarrow> bool" where
  "event_follows cls e s s' \<longleftrightarrow> (\<exists>ag. e = Outside ag) \<or>
     devices_follow (renames e) (ag_view (cls (w_ag (world_of s)))) (ag_view (cls (w_ag (world_of s'))))"

lemma held_follows:
  "held_on good cls glob base (ag_view (cls (w_ag (world_of s)))) (world_of s') \<Longrightarrow>
     holds_ledger good cls glob base (world_of s') \<and> event_follows cls e s s'"
  by (auto simp: held_on_def same_devices_def event_follows_def devices_follow_def)

context ag_server
begin

lemma asked_wishes:
  assumes s: "holds_ledger good cls glob base (world_of s)" and w: "wired h c s" "ho_server h = srv"
  shows "holds_ledger good cls glob (wishes h cls glob (Asked path r) s base) (world_of (snd (dispatch h path r s))) \<and>
    event_follows cls (Asked path r) s (snd (dispatch h path r s))"
proof -
  obtain cfg where d: "rn_deps s = sys_deps srv c (TrustedProxyNets (c_trusted cfg)) (secure_cookie cfg) (ho_sha h) (ho_render h)"
    using w by (auto simp: wired_def api_deps_def)
  consider (api) rp a where "api_Handler (rn_deps s) (at_api path r) (rn_api s) = (rp, a)" "dispatch h path r s = (FromAPI rp, s\<lparr>rn_api := a\<rparr>)"
    | (other) rp where "dispatch h path r s = (rp, s)" "\<forall>x. rp \<noteq> FromAPI x"
  proof (cases "mux_path path = path \<and> path \<noteq> ''/api/v1'' \<and> HasPrefix path ''/api/v1/''")
    case True
    then show ?thesis using api by (cases "api_Handler (rn_deps s) (at_api path r) (rn_api s)") (simp add: dispatch_def at_api_def)
  next
    case False
    then have "\<exists>rp. dispatch h path r s = (rp, s) \<and> (\<forall>x. rp \<noteq> FromAPI x)" by (simp add: dispatch_def) blast
    then show ?thesis using other by blast
  qed
  then show ?thesis
  proof cases
    case api
    with Handler_wishes [OF s api(1) [unfolded d]] show ?thesis by (simp add: event_follows_def)
  next
    case other
    with held_follows [OF held_refl [OF s], of "Asked path r"] show ?thesis by (cases rp) simp_all
  qed
qed

lemma tick_held:
  assumes s: "held base v (world_of s)" and w: "wired h c s" "ho_server h = srv" and own: "\<forall>path r. e \<noteq> Asked path r" "\<forall>ag. e \<noteq> Outside ag"
  shows "held base v (world_of (happen h e s))"
proof (cases e)
  case ProbeTick
  have "same_view (w_ag (world_of s)) (snd (Status srv c (w_ag (world_of s))))" using same_reads(4) held_ok [OF s] by blast
  with ProbeTick w held_ag [OF s] show ?thesis
    by (simp add: probe_tick_def Probe_def wired_def Let_def case_prod_beta)
next
  case SweepTick
  have "held base v (a_world (snd (read_clock (rn_api s))))" using held_clock [OF s] by simp
  from held_call_store [OF this, of "DeleteExpired (fst (read_clock (rn_api s)))", OF plain_ops(16)] SweepTick show ?thesis
    by (simp add: sweep_tick_def on_api_def sqlite_sessions_def case_prod_beta del: login_worlds)
next
  case ReconcileTick
  with w held_engine(5) [OF s] show ?thesis by (simp add: reconcile_tick_def on_api_def wired_def)
next
  case (Timer i)
  with w s held_engine(6) [OF s, of i] show ?thesis by (simp add: timer_fires_def on_api_def wired_def)
next
  case Closing
  with held_engine(7) [OF s] show ?thesis by (simp add: engine_closes_def on_api_def)
qed (use own in simp_all)

end

section \<open>Any events\<close>

lemma event_wishes:
  assumes srv: "ag_server (ho_server h) c good cls glob" and s: "wired h c s" "holds_ledger good cls glob base (world_of s)"
    and e: "\<forall>ag. e = Outside ag \<longrightarrow> good ag"
  shows "holds_ledger good cls glob (wishes h cls glob e s base) (world_of (happen h e s)) \<and> event_follows cls e s (happen h e s)"
proof -
  consider (asked) path r where "e = Asked path r" | (outside) ag where "e = Outside ag"
    | (own) "\<forall>path r. e \<noteq> Asked path r" "\<forall>ag. e \<noteq> Outside ag" by blast
  then show ?thesis
  proof cases
    case asked
    with ag_server.asked_wishes [OF srv s(2,1) refl] show ?thesis by simp
  next
    case outside
    with e s(2) ledger_wanted show ?thesis by (simp add: holds_ledger_def sys_ok_def on_api_def Let_def event_follows_def)
  next
    case own
    then have "wishes h cls glob e s base = base" by (cases e) simp_all
    with held_follows [OF ag_server.tick_held [OF srv held_refl [OF s(2)] s(1) refl own]] show ?thesis by simp
  qed
qed

lemma events_wishes:
  assumes srv: "ag_server (ho_server h) c good cls glob" and s: "wired h c s" "holds_ledger good cls glob base (world_of s)"
    and e: "\<forall>ag. Outside ag \<in> set evs \<longrightarrow> good ag"
  shows "wired h c (fold (happen h) evs s) \<and>
    holds_ledger good cls glob (run_wishes h cls glob evs s base) (world_of (fold (happen h) evs s))"
  using s e
proof (induction evs arbitrary: s base)
  case (Cons e evs)
  note step = event_wishes [OF srv Cons.prems(1,2), of e]
  from Cons.IH [OF happen_wired [OF Cons.prems(1), of e] conjunct1 [OF step]] Cons.prems(3) show ?case by simp
qed simp

section \<open>A start\<close>

text \<open>What a start that gets as far as the configuration and the client does, step by step.\<close>

lemma boot_steps:
  assumes "boot h path explicit m = (rs, m')" "Load (ho_env h) path explicit = Inr cfg"
    and "ag_New (n_url (ho_env h) (ag_url (c_adguard cfg))) (ag_user (c_adguard cfg)) (Reveal (ag_pass (c_adguard cfg))) = Inr client"
    and "Probe (Status (ho_server h) client) (health_New (ho_version h), mc_ag m) = (r, p, ag)"
    and "Open (ho_sqlite h) (ho_scripts h) (c_data_dir cfg) (mc_disk m) = (ro, disk)"
    and "first_pass h client (m\<lparr>mc_ag := ag, mc_disk := disk\<rparr>) = w"
  obtains (rejected) "rejected_credential r" "rs = Inl CredentialRejected" "m' = m\<lparr>mc_ag := ag\<rparr>"
    | (closed) e where "\<not> rejected_credential r" "ro = Inl e" "rs = Inl (NoStore e)" "m' = m\<lparr>mc_ag := ag, mc_disk := disk\<rparr>"
    | (deaf) "\<not> rejected_credential r" "is_ok ro" "\<not> ho_listen h (c_listen cfg)" "rs = Inl (NoListener (c_listen cfg))"
        "m' = write_back w (m\<lparr>mc_ag := ag, mc_disk := disk\<rparr>)"
    | (serves) s where "\<not> rejected_credential r" "is_ok ro" "ho_listen h (c_listen cfg)" "rs = Inr s" "world_of s = w"
        "rn_config s = cfg" "rn_client s = client" "rn_prober s = p" "wired h client s" "a_limiter (rn_api s) = limiter_New Defaults"
        "m' = write_back w (m\<lparr>mc_ag := ag, mc_disk := disk\<rparr>)"
proof (cases "rejected_credential r")
  case True
  with assms rejected show ?thesis by (simp add: boot_def Let_def)
next
  case nr: False
  show ?thesis
  proof (cases ro)
    case (Inl e)
    with assms nr closed show ?thesis by (simp add: boot_def open_store_def Let_def)
  next
    case (Inr x)
    show ?thesis
    proof (cases "ho_listen h (c_listen cfg)")
      case True
      let ?s = "\<lparr>rn_config = cfg, rn_client = client, rn_prober = p, rn_deps = api_deps h client cfg,
        rn_api = \<lparr>a_world = w, a_limiter = limiter_New Defaults, a_random = mc_random m\<rparr>\<rparr>"
      have "rs = Inr ?s" "m' = write_back w (m\<lparr>mc_ag := ag, mc_disk := disk\<rparr>)"
        using assms nr Inr True by (simp_all add: boot_def open_store_def serve_from_def Let_def)
      moreover have "wired h client ?s" by (auto simp: wired_def)
      ultimately show ?thesis using nr Inr True serves [of ?s] by simp
    next
      case False
      with assms nr Inr deaf show ?thesis by (simp add: boot_def open_store_def serve_from_def Let_def)
    qed
  qed
qed

lemma boot_Inr:
  assumes "boot h path explicit m = (Inr s, m')"
  obtains cfg client where "Load (ho_env h) path explicit = Inr cfg"
    "ag_New (n_url (ho_env h) (ag_url (c_adguard cfg))) (ag_user (c_adguard cfg)) (Reveal (ag_pass (c_adguard cfg))) = Inr client"
  using assms by (auto simp: boot_def split: sum.splits)

text \<open>The world the first pass starts from; the pass itself is a reconcile.\<close>

definition first_world :: "'w machine \<Rightarrow> 'w \<Rightarrow> tables conn \<Rightarrow> (store, 'w) world" where
  "first_world m ag disk = engine_New \<lparr>db = d_content (k_db disk), faults = mc_faults m\<rparr> ag (mc_now m) (mc_ticks m)"

lemma first_pass_reconciles:
  "first_pass h client (m\<lparr>mc_ag := ag, mc_disk := disk\<rparr>) = snd (Reconcile (sys_engine (ho_server h) client) (first_world m ag disk))"
  by (simp add: first_pass_def first_world_def Start_def split: prod.split sum.split)

lemma first_world_simps [simp]:
  "w_store (first_world m ag disk) = \<lparr>db = d_content (k_db disk), faults = mc_faults m\<rparr>" "w_ag (first_world m ag disk) = ag"
  "fst (clock (first_world m ag disk)) = (case mc_ticks m of [] \<Rightarrow> mc_now m | t # _ \<Rightarrow> t)" "\<not> w_closed (first_world m ag disk)"
  by (simp_all add: first_world_def engine_New_def clock_def split: list.split)

lemma probe_same:
  assumes "ag_server srv c good cls glob" "good w" "Probe (Status srv c) (p, w) = (r, p', w')"
  shows "good w' \<and> cls w' = cls w \<and> glob w' = glob w"
  using ag_server.same_reads(4) [OF assms(1,2)] assms(3)
  by (simp add: Probe_def Let_def ag_server.same_view_def [OF assms(1)] split: prod.splits)

text \<open>
  No active grant is overdue: those of the database the program found are expired when they are due,
  and otherwise open on their devices, with a timer armed.
\<close>

definition first_now :: "'w machine \<Rightarrow> time" where
  "first_now m = (case mc_ticks m of [] \<Rightarrow> mc_now m | t # _ \<Rightarrow> t)"

definition settled :: "time \<Rightarrow> tables \<Rightarrow> lists \<Rightarrow> (store, 'w) world \<Rightarrow> bool" where
  "settled now t v w \<longleftrightarrow> (\<forall>i g. abs_grants t i = Some g \<and> grant_status g = StatusActive \<longrightarrow>
     (if now < ends_at g
      then w_timers w i \<noteq> None \<and>
        (\<forall>n \<in> set (grant_clients g). \<forall>b. v n = Some (False, b) \<longrightarrow> b \<inter> set (grant_services g) = {})
      else grants_of w i = Some (g\<lparr>grant_status := StatusExpired\<rparr>)))"

lemma first_pass_settles:
  assumes srv: "ag_server_up (ho_server h) client good cls glob up"
    and ok: "wf_tables (d_content (k_db disk))" "mc_faults m = []" "up ag"
    and w: "first_pass h client (m\<lparr>mc_ag := ag, mc_disk := disk\<rparr>) = w"
  shows "settled (first_now m) (d_content (k_db disk)) (ag_view (cls (w_ag w))) w"
proof -
  let ?w0 = "first_world m ag disk"
  note env = ag_server_up.on_sys_up [OF srv]
  obtain r where run: "Reconcile (sys_engine (ho_server h) client) ?w0 = (r, w)"
    using w unfolding first_pass_reconciles by (metis prod.collapse)
  have "sys_ok good ?w0" using ok ag_server_up.up_good [OF srv ok(3)] by (simp add: sys_ok_def)
  moreover from this ok have "sys_ok good ?w0 \<and> faults (w_store ?w0) = [] \<and> up (w_ag ?w0)" by simp
  ultimately have "\<forall>i g. grants_of ?w0 i = Some g \<and> grant_status g = StatusActive \<longrightarrow>
      (if fst (clock ?w0) < ends_at g
       then live_open g (ag_view (cls (w_ag w))) \<and> (w_timers w i \<noteq> None \<or> w_closed ?w0)
       else grants_of w i = Some (g\<lparr>grant_status := StatusExpired\<rparr>))"
    using engine_env.reconcile_outcome [OF env, unfolded env_ok [OF env] env_up [OF env], OF _ run [unfolded sys_engine_def]] by blast
  then have all: "\<forall>i g. abs_grants (d_content (k_db disk)) i = Some g \<and> grant_status g = StatusActive \<longrightarrow>
      (if first_now m < ends_at g then live_open g (ag_view (cls (w_ag w))) \<and> (w_timers w i \<noteq> None \<or> w_closed ?w0)
       else grants_of w i = Some (g\<lparr>grant_status := StatusExpired\<rparr>))"
    unfolding first_world_simps first_now_def by simp
  show ?thesis unfolding settled_def
  proof (intro allI impI)
    fix i g assume "abs_grants (d_content (k_db disk)) i = Some g \<and> grant_status g = StatusActive"
    with all have "if first_now m < ends_at g then live_open g (ag_view (cls (w_ag w))) \<and> (w_timers w i \<noteq> None \<or> w_closed ?w0)
       else grants_of w i = Some (g\<lparr>grant_status := StatusExpired\<rparr>)" by blast
    then show "if first_now m < ends_at g then w_timers w i \<noteq> None \<and> (\<forall>n \<in> set (grant_clients g). \<forall>b.
        ag_view (cls (w_ag w)) n = Some (False, b) \<longrightarrow> b \<inter> set (grant_services g) = {})
      else grants_of w i = Some (g\<lparr>grant_status := StatusExpired\<rparr>)"
      unfolding live_open_def by (cases "first_now m < ends_at g") simp_all
  qed
qed

section \<open>The properties\<close>

text \<open>
  Property C7. Nothing is served before its time. A start that the configuration allows either stops at the rejected
  credential, with the database file and every list of AdGuard as they were; or at the store, again without touching a
  list; or at the listener; or it serves, and then every migration of the binary is recorded, the files are the owner's
  alone and the login budget is fresh. The engine's first pass has run by then, but its error is only logged: where the
  tables are well-formed, no call of the store failed and AdGuard answered, what serves has no overdue grant, each active
  grant of the database being expired in it, or open on its devices with its timer armed; where not, the program serves
  all the same, maybe with grants that are overdue until a later pass.
\<close>

theorem boot_order:
  assumes srv: "ag_server_up (ho_server h) client good cls glob up" and good: "good (mc_ag m)"
    and load: "Load (ho_env h) path explicit = Inr cfg"
      "ag_New (n_url (ho_env h) (ag_url (c_adguard cfg))) (ag_user (c_adguard cfg)) (Reveal (ag_pass (c_adguard cfg))) = Inr client"
    and probe: "Probe (Status (ho_server h) client) (health_New (ho_version h), mc_ag m) = (r, p, ag)"
    and store: "ho_sqlite h = (exec, create)" "migrationNames (embeddedMigrations (ho_scripts h)) = Some names" "distinct names"
      "after_files exec (embeddedMigrations (ho_scripts h)) c0 (take j names) (mc_disk m)"
      "Open (ho_sqlite h) (ho_scripts h) (c_data_dir cfg) (mc_disk m) = (ro, disk)"
    and run: "boot h path explicit m = (rs, m')"
  shows "case rs of
      Inl CredentialRejected \<Rightarrow> rejected_credential r \<and> mc_disk m' = mc_disk m \<and> cls (mc_ag m') = cls (mc_ag m) \<and> glob (mc_ag m') = glob (mc_ag m)
    | Inl (NoStore e) \<Rightarrow> \<not> rejected_credential r \<and> ro = Inl e \<and> cls (mc_ag m') = cls (mc_ag m) \<and> glob (mc_ag m') = glob (mc_ag m)
    | Inl (NoListener a) \<Rightarrow> \<not> rejected_credential r \<and> is_ok ro \<and> a = c_listen cfg \<and> \<not> ho_listen h a
    | Inl _ \<Rightarrow> False
    | Inr s \<Rightarrow> \<not> rejected_credential r \<and> ho_listen h (c_listen cfg) \<and> ro = Inr (db_path (c_data_dir cfg)) \<and>
        map fst (log_of (k_db disk)) = names \<and>
        (\<forall>f \<in> set (db_files (db_path (c_data_dir cfg))). k_modes disk f = None \<or> k_modes disk f = Some owner_only) \<and>
        a_limiter (rn_api s) = limiter_New Defaults \<and>
        (wf_tables (d_content (k_db disk)) \<and> mc_faults m = [] \<and> up ag \<longrightarrow>
           settled (first_now m) (d_content (k_db disk)) (ag_view (cls (w_ag (world_of s)))) (world_of s))"
proof -
  obtain w where w: "first_pass h client (m\<lparr>mc_ag := ag, mc_disk := disk\<rparr>) = w" by simp
  note same = probe_same [OF ag_server_up.axioms(1) [OF srv] good probe]
  obtain j' where out: "after_files exec (embeddedMigrations (ho_scripts h)) c0 (take j' names) disk"
    "is_ok ro \<longrightarrow> take j' names = names \<and> ro = Inr (db_path (c_data_dir cfg)) \<and> (\<forall>p \<in> set (db_files (db_path (c_data_dir cfg))). private_file disk p)"
    using openWith_out [OF store(5) [unfolded Open_def store(1)] store(2-4)] by blast
  from run load probe store(5) w show ?thesis
  proof (cases rule: boot_steps)
    case (serves s)
    with out show ?thesis
      using first_pass_settles [OF srv _ _ _ w] by (simp add: after_files_def private_file_def)
  qed (use same in simp_all)
qed

text \<open>
  Property C1. The whole program never forgets what the parents want blocked. From a start on any well-formed database
  in which the wishes are on record, through any requests to any path, ticks of the prober, the sweeper and the reconciler,
  timers, edits other people make in AdGuard Home and failing calls, in every state the program reaches a device that has
  a list of its own blocks everything wanted of it, but for what an active grant of the database holds open there. The
  wishes are a function of the events (run_wishes): no tick, no timer and no request changes those of a device that was
  there, the migration included, so only an edit somebody makes in AdGuard Home itself does. A device that a request
  creates starts with its first list as its wishes. A renamed device takes its wishes along; if the request was answered
  with an error although AdGuard has renamed it, then without what an active grant held open on it: that is forgotten, and
  is the one thing the program can lose. And no event but such an edit makes a device disappear, except a rename to the
  name the request asks for, which has then exactly its list.
\<close>

theorem program_keeps_ledger:
  assumes srv: "ag_server (ho_server h) (rn_client s) good cls glob" and run: "boot h path explicit m = (Inr s, m')"
    and opened: "d_content (k_db (snd (Open (ho_sqlite h) (ho_scripts h) (c_data_dir (rn_config s)) (mc_disk m)))) = t"
    and start: "wf_tables t" "good (mc_ag m)" "ledger base0 (set (glob (mc_ag m))) (ag_view (cls (mc_ag m))) (abs_grants t)"
    and outside: "\<forall>ag. Outside ag \<in> set evs \<longrightarrow> good ag"
    and reached: "s1 = fold (happen h) evs s" "w = world_of s1"
  shows "wf_tables (db (w_store w)) \<and> good (w_ag w) \<and>
    (\<forall>n inherits b x. ag_view (cls (w_ag w)) n = Some (inherits, b) \<and> x \<in> run_wishes h cls glob evs s base0 n \<longrightarrow>
       (if inherits then x \<in> set (glob (w_ag w))
        else x \<in> b \<or> (\<exists>i g. grants_of w i = Some g \<and> grant_status g = StatusActive \<and>
               n \<in> set (grant_clients g) \<and> x \<in> set (grant_services g)))) \<and>
    (\<forall>e n own. (\<forall>ag. e \<noteq> Outside ag) \<and> ag_view (cls (w_ag w)) n = Some own \<longrightarrow>
       (let v' = ag_view (cls (w_ag (world_of (happen h e s1))))
        in v' n \<noteq> None \<or> (\<exists>new. renames e = Some (n, new) \<and> v' new = Some own)))"
proof -
  from boot_Inr [OF run] obtain cfg client where load: "Load (ho_env h) path explicit = Inr cfg"
    "ag_New (n_url (ho_env h) (ag_url (c_adguard cfg))) (ag_user (c_adguard cfg)) (Reveal (ag_pass (c_adguard cfg))) = Inr client" .
  obtain r p ag where probe: "Probe (Status (ho_server h) client) (health_New (ho_version h), mc_ag m) = (r, p, ag)"
    by (metis prod_cases3)
  obtain ro disk where store: "Open (ho_sqlite h) (ho_scripts h) (c_data_dir cfg) (mc_disk m) = (ro, disk)" by fastforce
  obtain w0 where w0: "first_pass h client (m\<lparr>mc_ag := ag, mc_disk := disk\<rparr>) = w0" by simp
  from run load probe store w0 have s: "world_of s = w0" "rn_config s = cfg" "rn_client s = client" "wired h client s"
    by (cases rule: boot_steps; simp)+
  have t: "d_content (k_db disk) = t" using opened s(2) store by simp
  note same = probe_same [OF srv [unfolded s(3)] start(2) probe]
  have "holds_ledger good cls glob base0 (first_world m ag disk)"
    using start same by (simp add: holds_ledger_def sys_ok_def t)
  from step_ledger(6) [OF srv [unfolded s(3)] this surjective_pairing] have "holds_ledger good cls glob base0 (world_of s)"
    using w0 unfolding first_pass_reconciles s(1) by simp
  from events_wishes [OF srv [unfolded s(3)] s(4) this outside] reached have h: "wired h client s1"
    "holds_ledger good cls glob (run_wishes h cls glob evs s base0) w" by simp_all
  have follows: "event_follows cls e s1 (happen h e s1)" for e
  proof (cases "\<exists>ag. e = Outside ag")
    case True
    then show ?thesis by (simp add: event_follows_def)
  next
    case False
    then show ?thesis using event_wishes [OF srv [unfolded s(3)] h(1) h(2) [unfolded reached(2)], of e] by blast
  qed
  have kept: "let v' = ag_view (cls (w_ag (world_of (happen h e s1)))) in v' n \<noteq> None \<or> (\<exists>new. renames e = Some (n, new) \<and> v' new = Some own)"
    if "\<forall>ag. e \<noteq> Outside ag" "ag_view (cls (w_ag w)) n = Some own" for e n own
    using follows [of e] that unfolding event_follows_def devices_follow_def reached(2) Let_def by blast
  then have devices: "\<forall>e n own. (\<forall>ag. e \<noteq> Outside ag) \<and> ag_view (cls (w_ag w)) n = Some own \<longrightarrow>
      (let v' = ag_view (cls (w_ag (world_of (happen h e s1))))
       in v' n \<noteq> None \<or> (\<exists>new. renames e = Some (n, new) \<and> v' new = Some own))" by blast
  show ?thesis
    by (rule conjI [OF holds_ledgerD [OF h(2), THEN conjunct1] conjI [OF holds_ledgerD [OF h(2), THEN conjunct2, THEN conjunct1]
      conjI [OF holds_ledgerD [OF h(2), THEN conjunct2, THEN conjunct2] devices]]])
qed

section \<open>A concrete program\<close>

text \<open>The house of the engine's example behind the fake AdGuard Home, with a database that was opened before.\<close>

definition demo_host :: "fake host" where
  "demo_host = \<lparr>ho_env = demo_env\<lparr>n_read := (\<lambda>p. if p = ''/run/pw'' then Some ''pw'' else None)\<rparr>,
     ho_sqlite = (\<lambda>_. Some, id), ho_scripts = id, ho_server = demo_srv, ho_listen = (\<lambda>_. True), ho_bundle = demo_bundle,
     ho_sha = rev, ho_render = (\<lambda>_. ''session=x''), ho_version = ''1.0''\<rparr>"

definition demo_names :: "string list" where
  "demo_names = [''0001_sessions.sql'', ''0002_children.sql'', ''0003_grants.sql'', ''0004_buttons.sql'',
     ''0005_shared_clients.sql'', ''0006_button_icon.sql'']"

definition demo_disk :: "tables conn" where
  "demo_disk = \<lparr>k_db = \<lparr>d_log = Some (map (\<lambda>n. (n, 0)) demo_names), d_content = house_tables ''Kid phone''\<rparr>,
     k_modes = Map.empty, k_faults = [], k_times = int\<rparr>"

definition demo_machine :: "int \<Rightarrow> fake machine" where
  "demo_machine t = \<lparr>mc_ag = demo_fake, mc_disk = demo_disk, mc_faults = [], mc_now = t * second, mc_ticks = [], mc_random = []\<rparr>"

definition demo_loaded :: config where
  "demo_loaded = demo_config\<lparr>c_adguard := \<lparr>ag_url = ''http://ag'', ag_user = ''svc'', ag_pass = Secret ''pw'', ag_pass_file = ''/run/pw''\<rparr>\<rparr>"

lemma demo_load: "Load (ho_env demo_host) ''config.yaml'' False = Inr demo_loaded"
  "ag_New (n_url (ho_env demo_host) (ag_url (c_adguard demo_loaded))) (ag_user (c_adguard demo_loaded))
     (Reveal (ag_pass (c_adguard demo_loaded))) = Inr demo_client"
  by code_simp+

lemma demo_probe:
  assumes "Probe (Status (ho_server demo_host) demo_client) (health_New (ho_version demo_host), mc_ag (demo_machine t)) = (r, p, ag)"
  shows "fake_up demo_client ag" "\<not> rejected_credential r"
proof -
  obtain rs where st: "Status demo_srv demo_client demo_fake = (rs, ag)" "r = health_classify rs"
    using assms by (auto simp: Probe_def demo_host_def demo_machine_def Let_def split: prod.splits)
  have up: "fake_up demo_client demo_fake" by (simp add: demo_fake_def demo_client_def fake_New_up)
  from do_call_world [OF st(1) [unfolded Status_def]] obtain rep
    where "demo_srv demo_fake (call_req demo_client GET ''/control/status'' None) = (ag, rep)" by blast
  moreover have "s1 = arrive (call_req demo_client GET ''/control/status'' None) demo_fake"
    if "route (call_req demo_client GET ''/control/status'' None) (arrive (call_req demo_client GET ''/control/status'' None) demo_fake) = (s1, rep)" for s1 rep
    using that route_GET by (metis call_req_def fst_conv http_req.select_convs(1))
  ultimately show "fake_up demo_client ag" using up by (auto simp: arrive_up depart_up dest!: serve_cases)
  have "is_ok (fst (Status demo_srv demo_client demo_fake))" by code_simp
  with st have "pr_state r = StateOK" by (simp add: health_ok_iff)
  with st(2) show "\<not> rejected_credential r" using health_unauthorized_iff [of rs]
    by (auto simp: rejected_credential_def split: option.splits ag_error.splits)
qed

lemma demo_opens:
  "migrationNames (embeddedMigrations (ho_scripts demo_host)) = Some demo_names" "distinct demo_names"
  "after_files (\<lambda>_. Some) (embeddedMigrations (ho_scripts demo_host)) (house_tables ''Kid phone'') (take 6 demo_names) (mc_disk (demo_machine t))"
  "\<exists>disk. Open (ho_sqlite demo_host) (ho_scripts demo_host) (c_data_dir demo_loaded) (mc_disk (demo_machine t)) = (Inr (db_path ''./data''), disk) \<and>
     d_content (k_db disk) = house_tables ''Kid phone''"
proof -
  show 1: "migrationNames (embeddedMigrations (ho_scripts demo_host)) = Some demo_names" "distinct demo_names" by code_simp+
  show 2: "after_files (\<lambda>_. Some) (embeddedMigrations (ho_scripts demo_host)) (house_tables ''Kid phone'') (take 6 demo_names) (mc_disk (demo_machine t))"
    by (simp add: after_files_def demo_machine_def demo_disk_def demo_names_def demo_host_def log_of_def embeddedMigrations_def)
  obtain r disk where o: "Open (ho_sqlite demo_host) (ho_scripts demo_host) (c_data_dir demo_loaded) (mc_disk (demo_machine t)) = (r, disk)" by fastforce
  have sq: "ho_sqlite demo_host = (\<lambda>_. Some, id)" "k_faults (mc_disk (demo_machine t)) = []" "c_data_dir demo_loaded = ''./data''"
    by (simp_all add: demo_host_def demo_machine_def demo_disk_def demo_loaded_def demo_config_def)
  have rep: "replay (\<lambda>_. Some) (embeddedMigrations (ho_scripts demo_host)) demo_names (house_tables ''Kid phone'') = Some (house_tables ''Kid phone'')"
    using 2 by (simp add: after_files_def demo_machine_def demo_disk_def demo_names_def)
  have "fst (openWith (\<lambda>_. Some, id) ''./data'' (embeddedMigrations (ho_scripts demo_host)) (mc_disk (demo_machine t))) = Inr (db_path ''./data'')"
    by (rule openWith_runs [OF sq(2) 1 _ 2]) (simp add: rep)
  then have r: "r = Inr (db_path ''./data'')" using o by (simp add: Open_def sq)
  from openWith_out [OF o [unfolded Open_def sq(1)] 1 2] r have "after_files (\<lambda>_. Some) (embeddedMigrations (ho_scripts demo_host)) (house_tables ''Kid phone'') demo_names disk"
    by auto
  with rep o r show "\<exists>disk. Open (ho_sqlite demo_host) (ho_scripts demo_host) (c_data_dir demo_loaded) (mc_disk (demo_machine t)) = (Inr (db_path ''./data''), disk) \<and>
     d_content (k_db disk) = house_tables ''Kid phone''" by (simp add: after_files_def)
qed

lemma demo_boots:
  "\<exists>s m'. boot demo_host ''config.yaml'' False (demo_machine t) = (Inr s, m') \<and> rn_client s = demo_client \<and> rn_config s = demo_loaded"
proof -
  obtain rs m' where run: "boot demo_host ''config.yaml'' False (demo_machine t) = (rs, m')" by fastforce
  obtain r p ag where probe: "Probe (Status (ho_server demo_host) demo_client) (health_New (ho_version demo_host), mc_ag (demo_machine t)) = (r, p, ag)"
    by (metis prod_cases3)
  obtain disk where disk: "Open (ho_sqlite demo_host) (ho_scripts demo_host) (c_data_dir demo_loaded) (mc_disk (demo_machine t)) = (Inr (db_path ''./data''), disk)"
    using demo_opens(4) [of t] by blast
  from run demo_load probe disk refl show ?thesis
    by (cases rule: boot_steps) (use run demo_probe(2) [OF probe] in \<open>auto simp: demo_host_def\<close>)
qed

lemma demo_up: "ag_server_up (ho_server demo_host) demo_client fake_good fk_clients fake_glob (fake_up demo_client)"
proof -
  have "ag_server_up demo_srv demo_client fake_good fk_clients fake_glob (fake_up demo_client)" by (rule fake_up.ag_server_up_axioms)
  then show ?thesis by (simp add: demo_host_def)
qed

lemma boot_order_witness:
  "\<exists>s m'. boot demo_host ''config.yaml'' False (demo_machine 200) = (Inr s, m') \<and>
    grants_of (world_of s) 1 = Some (house_grant\<lparr>grant_status := StatusExpired\<rparr>)"
proof -
  obtain s m' where run: "boot demo_host ''config.yaml'' False (demo_machine 200) = (Inr s, m')" using demo_boots by blast
  obtain r p ag where probe: "Probe (Status (ho_server demo_host) demo_client) (health_New (ho_version demo_host), mc_ag (demo_machine 200)) = (r, p, ag)"
    by (metis prod_cases3)
  obtain disk where disk: "Open (ho_sqlite demo_host) (ho_scripts demo_host) (c_data_dir demo_loaded) (mc_disk (demo_machine 200)) = (Inr (db_path ''./data''), disk)"
    "d_content (k_db disk) = house_tables ''Kid phone''" using demo_opens(4) [of 200] by blast
  have good: "fake_good (mc_ag (demo_machine 200))" by (simp add: demo_machine_def demo_good)
  have sq: "ho_sqlite demo_host = (\<lambda>_. Some, id)" by (simp add: demo_host_def)
  have "wf_tables (house_tables ''Kid phone'')" "mc_faults (demo_machine 200) = []"
    using house_ok [of "''Kid phone''" 0] by (simp_all add: sys_ok_def house_def engine_New_def demo_machine_def)
  with boot_order [OF demo_up good demo_load probe sq demo_opens(1-3) disk(1) run] demo_probe(1) [OF probe] disk(2)
  have "settled (first_now (demo_machine 200)) (house_tables ''Kid phone'') (ag_view (fk_clients (w_ag (world_of s)))) (world_of s)" by simp
  moreover have "abs_grants (house_tables ''Kid phone'') 1 = Some house_grant" "\<not> first_now (demo_machine 200) < ends_at house_grant"
    using house_grant [of 0] by (simp_all add: house_def engine_New_def) code_simp
  ultimately have "grants_of (world_of s) 1 = Some (house_grant\<lparr>grant_status := StatusExpired\<rparr>)"
    unfolding settled_def by (auto simp: house_grant_def dest!: spec [of _ 1])
  with run show ?thesis by blast
qed

lemma program_keeps_ledger_witness:
  "\<exists>s m' w. boot demo_host ''config.yaml'' False (demo_machine 90) = (Inr s, m') \<and>
    w = world_of (fold (happen demo_host) [Timer 1, ProbeTick, SweepTick, ReconcileTick, Closing] s) \<and>
    wf_tables (db (w_store w)) \<and>
    (\<forall>b. ag_view (fk_clients (w_ag w)) ''Kid phone'' = Some (False, b) \<longrightarrow> ''youtube'' \<in> b \<or>
       (\<exists>i g. grants_of w i = Some g \<and> grant_status g = StatusActive \<and> ''Kid phone'' \<in> set (grant_clients g) \<and>
          ''youtube'' \<in> set (grant_services g)))"
proof -
  let ?base = "\<lambda>n. if n = ''Kid phone'' then {''youtube'', ''tiktok''} else {}"
  let ?evs = "[Timer 1, ProbeTick, SweepTick, ReconcileTick, Closing] :: fake event list"
  obtain s m' where run: "boot demo_host ''config.yaml'' False (demo_machine 90) = (Inr s, m')" "rn_client s = demo_client"
    "rn_config s = demo_loaded" using demo_boots by blast
  have srv: "ag_server (ho_server demo_host) (rn_client s) fake_good fk_clients fake_glob"
    using demo_up ag_server_up.axioms(1) run(2) by simp
  have t: "d_content (k_db (snd (Open (ho_sqlite demo_host) (ho_scripts demo_host) (c_data_dir (rn_config s)) (mc_disk (demo_machine 90))))) =
      house_tables ''Kid phone''" using demo_opens(4) [of 90] run(3) by auto
  have ag: "mc_ag (demo_machine 90) = demo_fake" by (simp add: demo_machine_def)
  have wf: "wf_tables (house_tables ''Kid phone'')" using house_ok [of "''Kid phone''" 0] by (simp add: sys_ok_def house_def engine_New_def)
  have "ag_view (fk_clients demo_fake) ''Kid phone'' = Some (False, {''youtube'', ''tiktok''})" by code_simp
  then have "ledger ?base (set (fake_glob demo_fake)) (ag_view (fk_clients demo_fake)) (abs_grants (house_tables ''Kid phone''))"
    by (auto simp: ledger_def)
  note ledger = program_keeps_ledger [OF srv run(1) t wf _ this [folded ag] _ refl refl, of ?evs]
  have w: "run_wishes demo_host fk_clients fake_glob ?evs s ?base ''Kid phone'' = {''youtube'', ''tiktok''}" by simp
  have good: "fake_good (mc_ag (demo_machine 90))" "\<forall>ag. Outside ag \<in> set ?evs \<longrightarrow> fake_good ag" using demo_good ag by simp_all
  note all = ledger [OF good, THEN conjunct2, THEN conjunct2, THEN conjunct1, rule_format, of "''Kid phone''" False _ "''youtube''", unfolded w]
  show ?thesis
    by (rule exI [of _ s], rule exI [of _ m'], rule exI [of _ "world_of (fold (happen demo_host) ?evs s)"])
      (use run(1) ledger [OF good, THEN conjunct1] all in auto)
qed

end
