(* ===== verification/Spec2Isabelle.thy ===== *)
theory Spec2Isabelle
  imports StoreOpen AuthProps AdguardProps EngineProps RateLimitProps Blocked Devices Config
    ApiLogin AdguardLog EngineFrames ApiMigrate ApiGrantProps ApiChildProps ServerProps
begin

text \<open>
  adguard-reward lets parents block services (YouTube, TikTok) on the devices of their children
  through AdGuard Home and hand out grants: for a while, some services are open on some devices.
  One process holds a SQLite database, an HTTP client for AdGuard Home, the grant engine with its
  timers, a login budget, and an API with a frontend. This library models the Go program
  (src/cmd and src/internal) by definitions that follow the source function by function, and proves
  what it is for: what the parents want blocked is never forgotten, a grant opens exactly what it
  says and is closed again, and only those who logged in may ask.

  The parts, bottom up (theory: files under src/internal, what the state is).

  Prelude, Netip, NetStd, Paths, Trim: the parts of Go's standard library the source uses (strings,
  slices, time, 64-bit integers, net, netip, path, path/filepath, strconv), written out as Go defines them.

  StoreDb, StoreSessions, StoreChildren, StoreGrants, StoreButtons: store/*.go. The record \<open>tables\<close> has
  one list of rows per table of store/migrations; an operation is the body of its transaction
  (\<open>..._tx\<close>) under \<open>inTx\<close>, over a \<open>store\<close> that also holds the script of the driver's failures.
  StoreOps: every operation against an abstract specification (maps from ids), with the
  well-formedness of the tables as the invariant of any sequence of them.
  StoreMigrate, StoreOpen: store/migrate.go and store.go. Starts cut short and repeated.

  AuthToken, Auth, AuthProps: auth/*.go. The manager works on any store that keeps the locale
  \<open>session_store_laws\<close>, interpreted on the SQLite store.

  AdguardHttp, AdguardClients, Devices: adguard/*.go. An AdGuard Home is a function from its state and a
  request to its next state and a reply. AdguardContract has the locale \<open>ag_server\<close>: what the client
  relies on; AdguardView extends it by \<open>ag_server_up\<close>, a server that answers, and reads it as a
  map from names to lists. AdguardFixtures, AdguardFake, AdguardFakeContract: the in-process AdGuard
  Home of adguard/adguardtest, on which both locales are interpreted. AdguardProps: the edits of the lists.
  AdguardLog: a server that logs what it was asked and answered, and what each call leaves of such a log.

  EngineShared, Engine: grants/*.go. A \<open>world\<close> is the store, AdGuard, the timers and the clock; every
  operation is one function on it. EngineContract: the locales \<open>grant_store\<close> and \<open>blocklist_server\<close>
  of the engine's two interfaces, and the ledger. EngineOps, EngineLedger, EngineReconcile, EngineClients:
  the operations in the locale \<open>engine_env\<close> of the two. EngineWiring interprets them on the SQLite
  store and the AdGuard client; EngineProps has the properties and the system's step relation \<open>sys_step\<close>.
  EngineFrames: the locale \<open>engine_frame\<close>, what the engine leaves alone whatever its interfaces answer.

  RateLimit, RateLimitProps: ratelimit/limiter.go. Blocked: blocked/*.go. ClientIP, Config: api/clientip.go
  and config/*.go. Health: health/health.go. Spa: spa/spa.go.

  ApiHttp, ApiSessions, ApiChildren, ApiGrants, ApiViews, Api: api/*.go. A handler is a function from the
  request, the session and the \<open>api_state\<close> to its answer and the next state. ApiFrames: the locales
  \<open>read_invariant\<close>, \<open>write_invariant\<close>, \<open>api_invariant\<close> and \<open>login_invariant\<close>, a predicate that every
  call of a kind of handler keeps; they are interpreted for the login budget (ApiLogin), for everything but the
  sessions (ApiReads) and for the ledger (ApiSystem). ApiGrantProps, ApiChildProps, ApiMigrate: single
  requests end to end. ApiSteps: each call a handler makes on the store is a step of the system.
  ApiSystem: what is wanted after a request (\<open>request_wishes\<close>), and that every request keeps the ledger of it.
  ApiLogin: logins cut at their calls (\<open>login_arrive\<close>, \<open>login_enter\<close>, \<open>login_ask\<close>, \<open>login_settle\<close>) with
  the one-element slot between them, the steps of any number of them interleaved with everything else.

  Server, ServerProps: cmd/adguard-reward/main.go. \<open>boot\<close> is \<open>run\<close> up to the listener, \<open>dispatch\<close>
  the mux, \<open>happen\<close> one event of the running process: a request, a tick of a background loop, a timer, or
  an edit somebody makes in AdGuard Home.

  What the lemmas show. The ledger: a map says what is wanted blocked on each device; it holds when the
  device blocks it, by its own list or the global one, or when an active grant that stores the device
  covers it. Every engine operation keeps it, whichever of its calls fail and wherever
  (\<open>ledger_invariant\<close>), and so does the whole program (\<open>program_keeps_ledger\<close>). What is wanted is a
  function of the events (\<open>run_wishes\<close>): only an edit somebody makes in AdGuard changes what is wanted of a device
  that stays; a device that is created starts with its first list; a renamed one takes its wishes along. There is
  one exception: if AdGuard has renamed a device and the store did not learn of it (the reply was lost, or the
  rename could not be taken back), what an active grant held open on it is forgotten, for the grant will
  not find the device again (rename.go).
  With both sides answering, a pass converges (\<open>Reconcile_converges\<close>), which is why nothing is overdue when the
  listener opens, unless a call of the first pass failed, which is only logged (\<open>boot_order\<close>). The store's
  operations are all or nothing, equal to their specification, for every script of failures. The remaining properties bound the guesses AdGuard gets to see, keep
  requests without a session out, and give each component its functional behaviour or a reference.

  Bounds and fuel. No definition uses fuel: loops run over lists, and a background loop is its ticks, of
  which any number may happen. Failures and clock readings are scripts (lists); past its end a script
  means success and the last reading. Integers that wrap in the source are taken at 64 bits where they are
  computed (\<open>i64\<close>, \<open>sdiv\<close>); the fields of an IP address are bounded as the parser bounds them.

  Not modelled, and why. SQLite, AdGuard Home, the YAML decoder, net/url, SHA-256, the random source,
  the rendering of cookies and the listener are arguments: their source is not here, and the hypotheses
  on them are the locales above. JSON documents are trees without duplicate keys; \<open>strings.ToLower\<close>
  is the one of ASCII letters, which is SQLite's as well. A mutex is the atomicity of an operation, and in
  the events of the program a request is one of them, while what others do in AdGuard Home may happen between
  any two; only the logins, where the order of calls within a handler is what counts, are interleaved call by call.
  Contexts and deadlines appear as calls that fail. Log lines, the command line's flags, signals,
  TLS, the settings of the connection pool and the body of \<open>http.ServeContent\<close> are input and output
  without a decision of the program. web/embed.go only embeds files.
\<close>

end
